(* ===== verification/Prelude.thy ===== *)
theory Prelude
  imports Main "HOL-Library.Word"
begin

text \<open>
  Shared vocabulary of the development: the machine integers of the IA32 target, the ways
  in which a C operation can go wrong, checked array access, and singly linked chains of
  array slots, which the kernel uses for its free lists, its list of memory holes and its
  ready queue.
\<close>

unbundle bit_operations_syntax

type_synonym u8 = "8 word"
type_synonym u16 = "16 word"
type_synonym u32 = "32 word"

named_theorems exec_defs "definitions unfolded to run the model on a concrete state"
named_theorems res_simps "equations of the fault-or-value results"
named_theorems chain_simps "equations of linked chains"

section \<open>Faults\<close>

text \<open>
  What C leaves undefined, or what stops the processor, is a value of the model: an access
  outside the array a pointer points into, an access through a null pointer, a division by
  zero, a \<open>va_arg\<close> of the wrong type or behind the last argument, and a call of \<open>panic\<close>, which
  loops forever.
\<close>

datatype fault = Out_of_bounds | Null_deref | Div_by_zero | Bad_vararg | Panic string

type_synonym 'a res = "fault + 'a"

definition res_bind :: "'a res \<Rightarrow> ('a \<Rightarrow> 'b res) \<Rightarrow> 'b res" where
  "res_bind m f = (case m of Inl e \<Rightarrow> Inl e | Inr x \<Rightarrow> f x)"

lemma res_bind_Inl [simp, res_simps]: "res_bind (Inl e) f = Inl e"
  by (simp add: res_bind_def)

lemma res_bind_Inr [simp, res_simps]: "res_bind (Inr x) f = f x"
  by (simp add: res_bind_def)

lemma res_bind_eq_Inr: "res_bind m f = Inr y \<longleftrightarrow> (\<exists>x. m = Inr x \<and> f x = Inr y)"
  by (cases m) auto

lemma res_bind_assoc: "res_bind (res_bind m f) g = res_bind m (\<lambda>x. res_bind (f x) g)"
  by (cases m) auto

text \<open>
  A computation with a loop that need not end: None when it does not, otherwise a fault or a
  value.
\<close>

type_synonym 'a exec = "'a res option"

definition exec_bind :: "'a exec \<Rightarrow> ('a \<Rightarrow> 'b exec) \<Rightarrow> 'b exec" where
  "exec_bind m f = (case m of None \<Rightarrow> None | Some (Inl e) \<Rightarrow> Some (Inl e) | Some (Inr x) \<Rightarrow> f x)"

lemma exec_bind_simps [simp, res_simps]:
  "exec_bind None f = None" "exec_bind (Some (Inl e)) f = Some (Inl e)" "exec_bind (Some (Inr x)) f = f x"
  by (simp_all add: exec_bind_def)

lemma exec_bind_eq: "exec_bind m f = Some (Inr y) \<longleftrightarrow> (\<exists>x. m = Some (Inr x) \<and> f x = Some (Inr y))"
  by (auto simp: exec_bind_def split: option.splits sum.splits)

section \<open>Checked array access\<close>

definition rd :: "'a list \<Rightarrow> nat \<Rightarrow> 'a res" where
  "rd xs i = (if i < length xs then Inr (xs ! i) else Inl Out_of_bounds)"

definition wr :: "'a list \<Rightarrow> nat \<Rightarrow> 'a \<Rightarrow> 'a list res" where
  "wr xs i v = (if i < length xs then Inr (xs[i := v]) else Inl Out_of_bounds)"

lemma rd_in [simp]: "i < length xs \<Longrightarrow> rd xs i = Inr (xs ! i)"
  by (simp add: rd_def)

lemma rd_out [simp]: "length xs \<le> i \<Longrightarrow> rd xs i = Inl Out_of_bounds"
  by (simp add: rd_def)

lemma wr_in [simp]: "i < length xs \<Longrightarrow> wr xs i v = Inr (xs[i := v])"
  by (simp add: wr_def)

lemma wr_out [simp]: "length xs \<le> i \<Longrightarrow> wr xs i v = Inl Out_of_bounds"
  by (simp add: wr_def)

lemma rd_append: "rd (xs @ ys) i = (if i < length xs then Inr (xs ! i) else rd ys (i - length xs))"
  by (auto simp: rd_def nth_append)

lemma rd_eq_Inr: "rd xs i = Inr v \<longleftrightarrow> i < length xs \<and> xs ! i = v"
  by (auto simp: rd_def)

lemma rd_middle: "length q = i \<Longrightarrow> rd (q @ v # r) i = Inr v"
  by (auto simp: rd_def)

lemma wr_middle: "length q = i \<Longrightarrow> wr (q @ v # r) i w = Inr (q @ w # r)"
  by (auto simp: wr_def)

section \<open>Chains of slots linked by a next pointer\<close>

text \<open>
  A pointer is an optional slot number. The chain of a next function from a pointer is the
  list of the slots met until the null pointer.
\<close>

primrec chain :: "('i \<Rightarrow> 'i option) \<Rightarrow> 'i option \<Rightarrow> 'i list \<Rightarrow> bool" where
  "chain nx p [] \<longleftrightarrow> p = None"
| "chain nx p (i # is) \<longleftrightarrow> p = Some i \<and> chain nx (nx i) is"

text \<open>The part of a chain up to some pointer, not necessarily null.\<close>

primrec lseg :: "('i \<Rightarrow> 'i option) \<Rightarrow> 'i option \<Rightarrow> 'i list \<Rightarrow> 'i option \<Rightarrow> bool" where
  "lseg nx p [] q \<longleftrightarrow> p = q"
| "lseg nx p (i # is) q \<longleftrightarrow> p = Some i \<and> lseg nx (nx i) is q"

lemma chain_None [simp, chain_simps]: "chain nx None is \<longleftrightarrow> is = []"
  by (cases "is") auto

lemma chain_Some [chain_simps]:
  "chain nx (Some i) is \<longleftrightarrow> (\<exists>js. is = i # js \<and> chain nx (nx i) js)"
  by (cases "is") auto

lemma chain_append [chain_simps]:
  "chain nx p (is @ js) \<longleftrightarrow> (\<exists>q. lseg nx p is q \<and> chain nx q js)"
  by (induction "is" arbitrary: p) auto

lemma lseg_append [chain_simps]:
  "lseg nx p (is @ js) q \<longleftrightarrow> (\<exists>r. lseg nx p is r \<and> lseg nx r js q)"
  by (induction "is" arbitrary: p) auto

lemma chain_cong: "(\<And>i. i \<in> set is \<Longrightarrow> nx i = nx' i) \<Longrightarrow> chain nx p is = chain nx' p is"
  by (induction "is" arbitrary: p) auto

lemma lseg_cong: "(\<And>i. i \<in> set is \<Longrightarrow> nx i = nx' i) \<Longrightarrow> lseg nx p is q = lseg nx' p is q"
  by (induction "is" arbitrary: p) auto

lemma chain_fun_upd [simp]: "u \<notin> set is \<Longrightarrow> chain (nx(u := v)) p is = chain nx p is"
  by (rule chain_cong) auto

lemma lseg_fun_upd [simp]: "u \<notin> set is \<Longrightarrow> lseg (nx(u := v)) p is q = lseg nx p is q"
  by (rule lseg_cong) auto

lemma chain_deterministic: "chain nx p is \<Longrightarrow> chain nx p js \<Longrightarrow> is = js"
proof (induction "is" arbitrary: p js)
  case Nil
  then show ?case by simp
next
  case (Cons i "is")
  then obtain js' where "js = i # js'" "chain nx (nx i) js'"
    by (cases js) auto
  with Cons.prems Cons.IH show ?case by auto
qed

lemma chain_distinct: "chain nx p is \<Longrightarrow> distinct is"
proof (induction "is" arbitrary: p)
  case Nil
  then show ?case by simp
next
  case (Cons i "is")
  have tl: "chain nx (nx i) is" using Cons.prems by simp
  have "i \<notin> set is"
  proof
    assume "i \<in> set is"
    then obtain as bs where split: "is = as @ i # bs"
      by (meson split_list)
    then have "chain nx (nx i) bs" using tl by (auto simp: chain_append)
    with tl have "is = bs" by (rule chain_deterministic)
    with split show False by simp
  qed
  with tl Cons.IH show ?case by simp
qed

lemma chain_hd: "chain nx p is \<Longrightarrow> p = (case is of [] \<Rightarrow> None | i # _ \<Rightarrow> Some i)"
  by (cases "is") auto

lemma chain_last_next: "chain nx p (is @ [i]) \<Longrightarrow> nx i = None"
  by (auto simp: chain_append)

text \<open>A chain extended at its end, as a queue with a tail pointer does it.\<close>

lemma chain_snoc:
  assumes "chain nx p is" "is \<noteq> []" "j \<notin> set is"
  shows "chain (nx(last is := Some j, j := None)) p (is @ [j])"
proof -
  obtain ks l where split: "is = ks @ [l]"
    using assms(2) by (metis append_butlast_last_id)
  have "distinct is" using assms(1) by (rule chain_distinct)
  with split assms show ?thesis
    by (auto simp: chain_append)
qed

text \<open>A slot taken out of the middle of a chain.\<close>

lemma chain_unlink:
  assumes "chain nx p (is @ h # b # js)"
  shows "chain (nx(h := nx b)) p (is @ h # js)"
proof -
  have "distinct (is @ h # b # js)" using assms by (rule chain_distinct)
  with assms show ?thesis by (auto simp: chain_append)
qed

text \<open>A slot put behind another one of a chain.\<close>

lemma chain_insert_after:
  assumes "chain nx p (is @ h # js)" "b \<notin> set (is @ h # js)"
  shows "chain (nx(b := nx h, h := Some b)) p (is @ h # b # js)"
proof -
  have "distinct (is @ h # js)" using assms(1) by (rule chain_distinct)
  with assms show ?thesis by (auto simp: chain_append)
qed

end
