(* ===== verification/Sysops.thy ===== *)
theory Sysops
  imports Prelude
begin

text \<open>
  The inline assembly of \<^verbatim>\<open>include/system.h\<close> and \<^verbatim>\<open>include/string.h\<close>: the interrupt
  enable flag and its save/restore pair, the bit scans on a 32-bit set, the rounding-up
  division, byte copies in physical memory and the two string routines. The IA32
  instructions are modelled by what the processor manual says of them.
\<close>

section \<open>The interrupt enable flag\<close>

text \<open>
  Every kernel state extends this record: \<open>ief\<close> is the IF bit of EFLAGS. The macros
  \<^verbatim>\<open>lock_irq_save(x)\<close> and \<^verbatim>\<open>unlock_irq_restore(x)\<close> save EFLAGS and clear IF, and restore it.
\<close>

record cpu =
  ief :: bool

definition lock :: "'a cpu_scheme \<Rightarrow> 'a cpu_scheme" where
  "lock s = s\<lparr>ief := False\<rparr>"

definition unlock :: "'a cpu_scheme \<Rightarrow> 'a cpu_scheme" where
  "unlock s = s\<lparr>ief := True\<rparr>"

definition lock_irq_save :: "'a cpu_scheme \<Rightarrow> bool \<times> 'a cpu_scheme" where
  "lock_irq_save s = (ief s, s\<lparr>ief := False\<rparr>)"

definition unlock_irq_restore :: "bool \<Rightarrow> 'a cpu_scheme \<Rightarrow> 'a cpu_scheme" where
  "unlock_irq_restore flags s = s\<lparr>ief := flags\<rparr>"

lemma ief_unlock_irq_restore [simp]: "ief (unlock_irq_restore fl s) = fl"
  by (simp add: unlock_irq_restore_def)

lemmas irq_defs = lock_def unlock_def lock_irq_save_def unlock_irq_restore_def

declare irq_defs [exec_defs]

section \<open>Bit scans on a 32-bit set\<close>

text \<open>
  \<^verbatim>\<open>bsfl\<close> finds the lowest set bit and sets ZF when there is none; the source then loads 32.
\<close>

definition bsf :: "u32 \<Rightarrow> nat option" where
  "bsf w = find (bit w) [0..<32]"

definition find_zero_bit :: "u32 \<Rightarrow> nat" where
  "find_zero_bit p = (case bsf (NOT p) of Some index \<Rightarrow> index | None \<Rightarrow> 32)"

text \<open>
  \<^verbatim>\<open>btsl\<close> and \<^verbatim>\<open>btrl\<close> with a memory operand address the bit string that starts there, so a
  bit number past 31 touches the next double word, outside the 32-bit set.
\<close>

definition set_bit_at :: "u32 \<Rightarrow> nat \<Rightarrow> u32 res" where
  "set_bit_at p nr = (if nr < 32 then Inr (p OR push_bit nr 1) else Inl Out_of_bounds)"

definition clear_bit_at :: "u32 \<Rightarrow> nat \<Rightarrow> u32 res" where
  "clear_bit_at p nr = (if nr < 32 then Inr (p AND NOT (push_bit nr 1)) else Inl Out_of_bounds)"

lemma bsf_None: "bsf w = None \<longleftrightarrow> (\<forall>i<32. \<not> bit w i)"
  by (auto simp: bsf_def find_None_iff)

lemma bsf_Some: "bsf w = Some i \<longleftrightarrow> i < 32 \<and> bit w i \<and> (\<forall>j<i. \<not> bit w j)"
  by (auto simp: bsf_def find_Some_iff)

lemma find_zero_bit_le: "find_zero_bit p \<le> 32"
  by (auto simp: find_zero_bit_def bsf_Some split: option.split)

lemma bit_u32_less: "bit (w :: u32) i \<Longrightarrow> i < 32"
  using bit_imp_le_length [of w i] by simp

lemma find_zero_bit_clear: "\<not> bit p (find_zero_bit p)"
proof (cases "bsf (NOT p)")
  case None
  then show ?thesis by (auto simp: find_zero_bit_def dest: bit_u32_less)
next
  case (Some i)
  then have "find_zero_bit p = i" by (simp add: find_zero_bit_def)
  with Some show ?thesis by (auto simp: bsf_Some bit_not_iff)
qed

lemma find_zero_bit_least: "i < find_zero_bit p \<Longrightarrow> bit p i"
proof (cases "bsf (NOT p)")
  case None
  then show "i < find_zero_bit p \<Longrightarrow> bit p i" by (auto simp: find_zero_bit_def bsf_None bit_not_iff)
next
  case (Some k)
  then have "find_zero_bit p = k" by (simp add: find_zero_bit_def)
  with Some show "i < find_zero_bit p \<Longrightarrow> bit p i" by (auto simp: bsf_Some bit_not_iff)
qed

lemma find_zero_bit_unique:
  "n < 32 \<Longrightarrow> \<not> bit p n \<Longrightarrow> (\<And>i. i < n \<Longrightarrow> bit p i) \<Longrightarrow> find_zero_bit p = n"
  by (metis find_zero_bit_clear find_zero_bit_least linorder_neqE_nat)

lemma bit_set_bit_at:
  "set_bit_at p nr = Inr q \<Longrightarrow> bit q i \<longleftrightarrow> bit p i \<or> i = nr"
  by (auto simp: set_bit_at_def bit_simps split: if_splits)

lemma bit_clear_bit_at:
  "clear_bit_at p nr = Inr q \<Longrightarrow> bit q i \<longleftrightarrow> bit p i \<and> i \<noteq> nr"
  by (auto simp: clear_bit_at_def bit_simps dest: bit_u32_less split: if_splits)

section \<open>Division rounding up\<close>

text \<open>
  \<^verbatim>\<open>do_cdiv\<close>: \<^verbatim>\<open>div\<close> with a zero high half, and one more when the remainder is not zero. A
  zero divisor raises the divide exception.
\<close>

definition do_cdiv :: "u32 \<Rightarrow> u32 \<Rightarrow> u32 res" where
  "do_cdiv s d = (if d = 0 then Inl Div_by_zero
     else let q = s div d; r = s mod d in Inr (if r = 0 then q else q + 1))"

lemma nat_ceil_div:
  assumes d: "0 < (d::nat)"
  shows "(n + d - 1) div d = n div d + (if n mod d = 0 then 0 else 1)"
proof (cases "n mod d = 0")
  case True
  then have "n + d - 1 = (d - 1) + d * (n div d)"
    using mult_div_mod_eq [of d n] d by linarith
  then show ?thesis using True d by (simp only: div_mult_self2) simp
next
  case False
  have lt: "n mod d - 1 < d" using d by (simp add: less_imp_diff_less)
  from False have "n + d - 1 = (n mod d - 1) + d * (n div d + 1)"
    using mult_div_mod_eq [of d n] d by (simp only: distrib_left mult_1_right)
  then show ?thesis using False lt d by (simp only: div_mult_self2) simp
qed

lemma do_cdiv_ceil:
  assumes "d \<noteq> 0"
  shows "\<exists>q. do_cdiv s d = Inr q \<and> unat q = (unat s + unat d - 1) div unat d"
proof -
  have d: "0 < unat d" using assms by (simp add: unat_gt_0)
  have m: "(s mod d = 0) = (unat s mod unat d = 0)"
    by (metis unat_0 unat_mod word_unat_eq_iff)
  have "unat (s div d + 1) = unat s div unat d + 1" if "s mod d \<noteq> 0"
  proof -
    have "d \<noteq> 1" using that by auto
    then have "1 < unat d" using d by (metis One_nat_def Suc_lessI unat_1 word_unat_eq_iff)
    then have "unat s div unat d < unat s \<or> unat s = 0" by (metis div_less_dividend neq0_conv)
    moreover have "unat s < 2 ^ 32" using unsigned_less [of s] by simp
    ultimately have "unat s div unat d + 1 < 2 ^ 32" by auto
    then show ?thesis by (simp add: unat_word_ariths unat_div)
  qed
  then show ?thesis
    using m nat_ceil_div [OF d, of "unat s"] by (auto simp: do_cdiv_def Let_def assms unat_div simp flip: One_nat_def)
qed

section \<open>Copying and filling physical memory\<close>

text \<open>
  Physical memory is flat (all kernel segments have base 0). \<^verbatim>\<open>rep;movsb\<close> with DF clear copies
  upwards byte by byte, so an overlapping copy sees the bytes it has already written. The
  source's \<^verbatim>\<open>memcpy(f,t,n)\<close> copies \<^emph>\<open>from\<close> its first argument \<^emph>\<open>to\<close> its second.
\<close>

type_synonym memory = "u32 \<Rightarrow> u8"

primrec rep_movsb :: "nat \<Rightarrow> u32 \<Rightarrow> u32 \<Rightarrow> memory \<Rightarrow> memory" where
  "rep_movsb 0 from to m = m"
| "rep_movsb (Suc n) from to m = rep_movsb n (from + 1) (to + 1) (m(to := m from))"

definition memcpy :: "u32 \<Rightarrow> u32 \<Rightarrow> u32 \<Rightarrow> memory \<Rightarrow> memory" where
  "memcpy f t n m = rep_movsb (unat n) f t m"

primrec rep_stosb :: "nat \<Rightarrow> u8 \<Rightarrow> u32 \<Rightarrow> memory \<Rightarrow> memory" where
  "rep_stosb 0 v dest m = m"
| "rep_stosb (Suc n) v dest m = rep_stosb n v (dest + 1) (m(dest := v))"

lemma unat_add_small: "unat (a::u32) + n < 2 ^ 32 \<Longrightarrow> unat (a + of_nat n) = unat a + n"
  by (simp add: unat_word_ariths unat_of_nat)

lemma rep_movsb_outside:
  assumes "unat to + n < 2 ^ 32" "unat a < unat to \<or> unat to + n \<le> unat a"
  shows "rep_movsb n from to m a = m a"
  using assms
proof (induction n arbitrary: "from" to m)
  case 0
  then show ?case by simp
next
  case (Suc n)
  have "unat (to + 1) = unat to + 1"
    using unat_add_small [of to 1] Suc.prems by simp
  with Suc show ?case by auto
qed

lemma rep_movsb_copies:
  assumes "unat from + n < 2 ^ 32" "unat to + n < 2 ^ 32"
    and "unat to + n \<le> unat from \<or> unat from + n \<le> unat to" "i < n"
  shows "rep_movsb n from to m (to + of_nat i) = m (from + of_nat i)"
  using assms
proof (induction n arbitrary: "from" to m i)
  case 0
  then show ?case by simp
next
  case (Suc n)
  have f: "unat (from + 1) = unat from + 1" and t: "unat (to + 1) = unat to + 1"
    using unat_add_small [of "from" 1] unat_add_small [of to 1] Suc.prems by simp_all
  show ?case
  proof (cases i)
    case 0
    with Suc.prems t show ?thesis by (simp add: rep_movsb_outside)
  next
    case (Suc j)
    have "unat (to + 1) + n \<le> unat (from + 1) \<or> unat (from + 1) + n \<le> unat (to + 1)"
      using Suc.prems(3) f t by linarith
    then have "rep_movsb n (from + 1) (to + 1) (m(to := m from)) (to + 1 + of_nat j)
        = (m(to := m from)) (from + 1 + of_nat j)"
      using Suc.IH [of "from + 1" "to + 1" j] Suc.prems f t Suc by simp
    moreover have "from + 1 + of_nat j \<noteq> to"
    proof
      assume "from + 1 + of_nat j = to"
      then have "unat to = unat from + 1 + j"
        using unat_add_small [of "from + 1" j] f Suc.prems Suc by simp
      then show False using Suc.prems Suc by auto
    qed
    ultimately show ?thesis using Suc by (simp add: add.assoc)
  qed
qed

section \<open>Strings\<close>

text \<open>
  A C string is read from a buffer up to its NUL; a buffer without one is read past its end.
\<close>

primrec cstring :: "u8 list \<Rightarrow> u8 list res" where
  "cstring [] = Inl Out_of_bounds"
| "cstring (c # cs) = (if c = 0 then Inr [] else res_bind (cstring cs) (\<lambda>r. Inr (c # r)))"

text \<open>\<^verbatim>\<open>lodsb; scasb\<close> until the bytes differ (1) or both are NUL (0).\<close>

fun strcmp :: "u8 list \<Rightarrow> u8 list \<Rightarrow> int res" where
  "strcmp (d # des) (s # src) =
     (if s \<noteq> d then Inr 1 else if s = 0 then Inr 0 else strcmp des src)"
| "strcmp _ _ = Inl Out_of_bounds"

text \<open>\<^verbatim>\<open>lodsb; stosb\<close> until the NUL has been stored; the result is the new destination buffer.\<close>

fun strcpy :: "u8 list \<Rightarrow> u8 list \<Rightarrow> u8 list res" where
  "strcpy (d # des) (s # src) =
     (if s = 0 then Inr (s # des) else res_bind (strcpy des src) (\<lambda>r. Inr (s # r)))"
| "strcpy _ _ = Inl Out_of_bounds"

lemma strcmp_cstring:
  "cstring a = Inr x \<Longrightarrow> cstring b = Inr y \<Longrightarrow> strcmp a b = Inr (if x = y then 0 else 1)"
proof (induction a b arbitrary: x y rule: strcmp.induct)
  case (1 d des s src)
  then show ?case by (auto simp: res_bind_eq_Inr split: if_splits)
qed auto

lemma strcpy_cstring:
  "cstring src = Inr x \<Longrightarrow> length x < length des \<Longrightarrow>
     strcpy des src = Inr (x @ 0 # drop (Suc (length x)) des)"
proof (induction des src arbitrary: x rule: strcpy.induct)
  case (1 d des s src)
  then show ?case by (auto simp: res_bind_eq_Inr split: if_splits)
qed auto

lemma strcpy_overflow:
  "cstring src = Inr x \<Longrightarrow> length des \<le> length x \<Longrightarrow> strcpy des src = Inl Out_of_bounds"
proof (induction des src arbitrary: x rule: strcpy.induct)
  case (1 d des s src)
  then show ?case by (auto simp: res_bind_eq_Inr split: if_splits)
qed auto

end
