(* ===== verification/Slot.thy ===== *)
theory Slot
  imports Prelude
begin

text \<open>
  The fixed-size object pools of \<^verbatim>\<open>include/slot.h\<close>: the macro \<^verbatim>\<open>DECLARE_SLOT_FUNC\<close> threads the
  unused elements of a static array on a free list and makes \<open>init_slot\<close>, \<open>alloc_slot\<close>
  and \<open>free_slot\<close>. The kernel instantiates it for open files (8), inodes (20) and PCI devices
  (18), and \<^verbatim>\<open>ker/mem.c\<close> has the same pool by hand for its holes. What any of these pools promises
  is the locale \<open>slot_pool\<close>; its lemmas are about who owns which element.
\<close>

section \<open>The contract of a pool\<close>

text \<open>
  A pool with elements \<open>N\<close> of which the clients hold \<open>U\<close>: the free list holds exactly the
  others.
\<close>

definition owns :: "('s \<Rightarrow> 'i list \<Rightarrow> bool) \<Rightarrow> 'i set \<Rightarrow> 's \<Rightarrow> 'i set \<Rightarrow> bool" where
  "owns pool N s U \<longleftrightarrow> U \<subseteq> N \<and> (\<exists>is. pool s is \<and> set is = N - U)"

locale slot_pool =
  fixes alloc :: "'s \<Rightarrow> 'i option \<times> 's"
    and free :: "'i \<Rightarrow> 's \<Rightarrow> 's"
    and pool :: "'s \<Rightarrow> 'i list \<Rightarrow> bool"
  assumes pool_distinct: "pool s is \<Longrightarrow> distinct is"
    and alloc_nil: "pool s [] \<Longrightarrow> alloc s = (None, s)"
    and alloc_cons: "pool s (i # is) \<Longrightarrow> \<exists>s'. alloc s = (Some i, s') \<and> pool s' is"
    and free_cons: "pool s is \<Longrightarrow> i \<notin> set is \<Longrightarrow> pool (free i s) (i # is)"
begin

lemma alloc_pool_cases:
  assumes "pool s is"
  obtains "is = []" "alloc s = (None, s)"
  | i js s' where "is = i # js" "alloc s = (Some i, s')" "pool s' js" "i \<notin> set js"
proof (cases "is")
  case Nil
  with assms that(1) show ?thesis by (simp add: alloc_nil)
next
  case (Cons i js)
  with assms that(2) show ?thesis
    using alloc_cons [of s i js] pool_distinct [of s "is"] by auto
qed

lemma alloc_owns:
  assumes "owns pool N s U" "alloc s = (Some i, s')"
  shows "i \<in> N \<and> i \<notin> U \<and> owns pool N s' (insert i U)"
proof -
  obtain "is" where "is": "pool s is" "set is = N - U" and U: "U \<subseteq> N"
    using assms(1) by (auto simp: owns_def)
  from "is"(1) show ?thesis
  proof (cases rule: alloc_pool_cases)
    case 1
    with assms(2) show ?thesis by simp
  next
    case (2 j js t)
    then have "set js = N - insert j U" using "is"(2) by auto
    moreover have "j \<in> N - U" using 2 "is"(2) by auto
    ultimately show ?thesis using 2 assms(2) U by (auto simp: owns_def)
  qed
qed

lemma alloc_fails_iff:
  assumes "owns pool N s U"
  shows "fst (alloc s) = None \<longleftrightarrow> U = N"
proof -
  obtain "is" where "is": "pool s is" "set is = N - U" and U: "U \<subseteq> N"
    using assms by (auto simp: owns_def)
  from "is"(1) show ?thesis
    by (cases rule: alloc_pool_cases) (use "is"(2) U in auto)
qed

lemma alloc_fail_unchanged: "owns pool N s U \<Longrightarrow> alloc s = (None, s') \<Longrightarrow> s' = s"
  by (auto simp: owns_def elim: alloc_pool_cases)

lemma free_owns:
  assumes "owns pool N s U" "i \<in> U"
  shows "owns pool N (free i s) (U - {i})"
proof -
  obtain "is" where "is": "pool s is" "set is = N - U" and U: "U \<subseteq> N"
    using assms(1) by (auto simp: owns_def)
  then have "pool (free i s) (i # is)" using assms(2) by (intro free_cons) auto
  moreover have "set (i # is) = N - (U - {i})" using "is"(2) assms(2) U by auto
  ultimately show ?thesis using U by (auto simp: owns_def)
qed

lemma free_then_alloc:
  assumes "owns pool N s U" "i \<in> U"
  shows "\<exists>s'. alloc (free i s) = (Some i, s') \<and> owns pool N s' U"
proof -
  obtain "is" where "is": "pool s is" "set is = N - U" and U: "U \<subseteq> N"
    using assms(1) by (auto simp: owns_def)
  then have "pool (free i s) (i # is)" using assms(2) by (intro free_cons) auto
  then obtain s' where "alloc (free i s) = (Some i, s')" "pool s' is"
    using alloc_cons by blast
  then show ?thesis using "is" U by (auto simp: owns_def)
qed

end

section \<open>The macro's pool\<close>

text \<open>
  An element is its index in the static array; \<open>free_next i\<close> is the \<^verbatim>\<open>next\<close> field of the
  \<^verbatim>\<open>struct free_list\<close> inside element \<open>i\<close>, and \<open>free_head\<close> is the list head. The C code goes
  from the embedded list node back to its element by subtracting the member's offset, which
  is the identity on indices.
\<close>

record slots =
  free_next :: "nat \<Rightarrow> nat option"
  free_head :: "nat option"

primrec init_links :: "nat \<Rightarrow> (nat \<Rightarrow> nat option) \<Rightarrow> (nat \<Rightarrow> nat option)" where
  "init_links 0 nx = nx"
| "init_links (Suc i) nx = (init_links i nx)(i := Some (Suc i))"

definition init_slot :: "nat \<Rightarrow> slots \<Rightarrow> slots" where
  "init_slot num s = s\<lparr>free_next := (init_links (num - 1) (free_next s))(num - 1 := None),
                       free_head := Some 0\<rparr>"

definition alloc_slot :: "slots \<Rightarrow> nat option \<times> slots" where
  "alloc_slot s = (case free_head s of
     None \<Rightarrow> (None, s)
   | Some ret \<Rightarrow> (Some ret, s\<lparr>free_head := free_next s ret\<rparr>))"

definition free_slot :: "nat \<Rightarrow> slots \<Rightarrow> slots" where
  "free_slot h s = s\<lparr>free_next := (free_next s)(h := free_head s), free_head := Some h\<rparr>"

lemmas slot_defs = init_slot_def alloc_slot_def free_slot_def

declare slot_defs [exec_defs]

definition free_slots :: "slots \<Rightarrow> nat list \<Rightarrow> bool" where
  "free_slots s is \<longleftrightarrow> chain (free_next s) (free_head s) is"

interpretation slot: slot_pool alloc_slot free_slot free_slots
proof unfold_locales
  show "distinct is" if "free_slots s is" for s "is"
    using that by (auto simp: free_slots_def intro: chain_distinct)
  show "alloc_slot s = (None, s)" if "free_slots s []" for s
    using that by (simp add: free_slots_def alloc_slot_def)
  show "\<exists>s'. alloc_slot s = (Some i, s') \<and> free_slots s' is" if "free_slots s (i # is)" for s i "is"
    using that by (simp add: free_slots_def alloc_slot_def)
  show "free_slots (free_slot i s) (i # is)" if "free_slots s is" "i \<notin> set is" for s i "is"
    using that by (simp add: free_slots_def free_slot_def)
qed

lemma init_links_nth: "init_links n nx i = (if i < n then Some (Suc i) else nx i)"
  by (induction n) auto

lemma chain_init_links:
  assumes "0 < n" "k < n"
  shows "chain ((init_links (n - 1) nx)(n - 1 := None)) (Some k) [k..<n]"
  using assms
proof (induction "n - 1 - k" arbitrary: k)
  case 0
  then have "k = n - 1" "[k..<n] = [k]" by (auto simp: upt_rec)
  then show ?case by simp
next
  case (Suc d)
  then have k: "k < n - 1" by linarith
  then have "chain ((init_links (n - 1) nx)(n - 1 := None)) (Some (Suc k)) [Suc k..<n]"
    using Suc by auto
  moreover have "[k..<n] = k # [Suc k..<n]" using k by (simp add: upt_conv_Cons)
  ultimately show ?case using k by (simp add: init_links_nth)
qed

lemma free_slots_init: "0 < n \<Longrightarrow> free_slots (init_slot n s) [0..<n]"
  using chain_init_links [of n 0 "free_next s"] by (simp add: free_slots_def init_slot_def)

lemma init_slot_owns: "0 < n \<Longrightarrow> owns free_slots {..<n} (init_slot n s) {}"
  unfolding owns_def by (intro conjI exI [of _ "[0..<n]"]) (auto simp: free_slots_init)

text \<open>A pool of \<open>n\<close> elements gives out all of them, in order, and then fails.\<close>

primrec alloc_many :: "nat \<Rightarrow> slots \<Rightarrow> nat option list \<times> slots" where
  "alloc_many 0 s = ([], s)"
| "alloc_many (Suc k) s =
     (let (r, s1) = alloc_slot s; (rs, s2) = alloc_many k s1 in (r # rs, s2))"

lemma alloc_many_pool:
  "free_slots s is \<Longrightarrow> fst (alloc_many k s) =
     map Some (take k is) @ replicate (k - length is) None"
proof (induction k arbitrary: s "is")
  case 0
  then show ?case by simp
next
  case (Suc k)
  from Suc.prems show ?case
  proof (cases rule: slot.alloc_pool_cases)
    case 1
    with Suc show ?thesis by (auto simp: split_beta)
  next
    case (2 i js s')
    with Suc.IH [of s' js] show ?thesis by (auto simp: split_beta)
  qed
qed

end
