(* ===== verification/Blocks.thy ===== *)
theory Blocks
  imports Holes
begin

text \<open>
  What the memory list of \<^verbatim>\<open>ker/mem.c\<close> means: a list of blocks (base, size, status) in address
  order. On it, first-fit allocation and merging deallocation are plain list functions; here
  are their laws. The refinement of the pointer code to them is in theory \<open>Holes_Refine\<close>.
\<close>

type_synonym block = "u32 \<times> u32 \<times> hole_status"

section \<open>First fit and merging on lists of blocks\<close>

text \<open>
  \<open>first_fit\<close> takes the first free block that is large enough. A larger one is split, which
  needs a spare record; without one the search gives up there.
\<close>

fun first_fit :: "bool \<Rightarrow> u32 \<Rightarrow> block list \<Rightarrow> (u32 \<times> block list) option" where
  "first_fit spare sz [] = None"
| "first_fit spare sz ((b, z, st) # bs) =
     (if st = STAT_FREE \<and> sz < z then
        (if spare then Some (b, (b, sz, STAT_BUSY) # (b + sz, z - sz, STAT_FREE) # bs) else None)
      else if st = STAT_FREE \<and> z = sz then Some (b, (b, sz, STAT_BUSY) # bs)
      else map_option (\<lambda>(a, bs'). (a, (b, z, st) # bs')) (first_fit spare sz bs))"

fun absorb :: "block \<Rightarrow> block list \<Rightarrow> block list" where
  "absorb (b, z, st) ((b', z', STAT_FREE) # bs) = (b, z + z', st) # bs"
| "absorb x bs = x # bs"

fun join :: "block \<Rightarrow> block list \<Rightarrow> block list" where
  "join (b, z, STAT_FREE) ((b', z', st') # bs) = (b, z + z', STAT_FREE) # bs"
| "join x bs = x # bs"

fun is_busy_at :: "u32 \<Rightarrow> block \<Rightarrow> bool" where
  "is_busy_at a (b, z, st) \<longleftrightarrow> b = a \<and> st = STAT_BUSY"

fun free_it :: "block \<Rightarrow> block" where
  "free_it (b, z, st) = (b, z, STAT_FREE)"

fun free_after :: "block \<Rightarrow> u32 \<Rightarrow> block list \<Rightarrow> block list" where
  "free_after pre a [] = [pre]"
| "free_after pre a (x # bs) =
     (if is_busy_at a x then join pre (absorb (free_it x) bs) else pre # free_after x a bs)"

fun free_block :: "u32 \<Rightarrow> block list \<Rightarrow> block list" where
  "free_block a [] = []"
| "free_block a (x # bs) =
     (if is_busy_at a x then absorb (free_it x) bs else free_after x a bs)"

section \<open>Well-formed block lists\<close>

text \<open>The blocks cover the addresses from \<open>a\<close> up to \<open>e\<close> without gaps, and none is empty.\<close>

fun tiles :: "nat \<Rightarrow> block list \<Rightarrow> nat \<Rightarrow> bool" where
  "tiles a [] e \<longleftrightarrow> a = e"
| "tiles a ((b, z, st) # bs) e \<longleftrightarrow> unat b = a \<and> 0 < unat z \<and> tiles (a + unat z) bs e"

text \<open>No two neighbours are both free.\<close>

fun coalesced :: "block list \<Rightarrow> bool" where
  "coalesced ((b, z, st) # (b', z', st') # bs) \<longleftrightarrow>
     \<not> (st = STAT_FREE \<and> st' = STAT_FREE) \<and> coalesced ((b', z', st') # bs)"
| "coalesced _ = True"

definition busy_blocks :: "block list \<Rightarrow> (u32 \<times> u32) list" where
  "busy_blocks bs = map (\<lambda>(b, z, st). (b, z)) (filter (\<lambda>(b, z, st). st = STAT_BUSY) bs)"

lemma busy_blocks_simps [simp]:
  "busy_blocks [] = []"
  "busy_blocks ((b, z, STAT_BUSY) # bs) = (b, z) # busy_blocks bs"
  "busy_blocks ((b, z, STAT_FREE) # bs) = busy_blocks bs"
  "busy_blocks (xs @ ys) = busy_blocks xs @ busy_blocks ys"
  by (simp_all add: busy_blocks_def)

lemma tiles_append: "tiles a (xs @ ys) e \<longleftrightarrow> (\<exists>m. tiles a xs m \<and> tiles m ys e)"
  by (induction a xs e rule: tiles.induct) auto

lemma tiles_le: "tiles a xs e \<Longrightarrow> a \<le> e"
  by (induction a xs e rule: tiles.induct) auto

lemma tiles_in: "tiles a xs e \<Longrightarrow> (b, z, st) \<in> set xs \<Longrightarrow> a \<le> unat b \<and> unat b + unat z \<le> e"
  by (induction a xs e rule: tiles.induct) (fastforce dest: tiles_le)+

lemma tiles_disjoint:
  "tiles a (xs @ (b, z, st) # ys) e \<Longrightarrow> (b', z', st') \<in> set xs \<union> set ys \<Longrightarrow>
     unat b + unat z \<le> unat b' \<or> unat b' + unat z' \<le> unat b"
  by (auto simp: tiles_append dest: tiles_in)

lemma tiles_unique_base:
  assumes t: "tiles a (xs @ (b, z, st) # ys) e"
  shows "(b, z', st') \<notin> set xs \<union> set ys"
proof
  assume m: "(b, z', st') \<in> set xs \<union> set ys"
  have pos: "0 < unat y" if "tiles a' zs e'" "(c, y, s) \<in> set zs" for a' zs e' c y s
    using that by (induction a' zs e' rule: tiles.induct) auto
  have "0 < unat z'" "0 < unat z"
    using pos [OF t, of b z' st'] pos [OF t, of b z st] m by auto
  moreover have "unat b + unat z \<le> unat b \<or> unat b + unat z' \<le> unat b"
    using tiles_disjoint [OF t m] .
  ultimately show False by linarith
qed

lemma not_free_iff [simp]: "st \<noteq> STAT_FREE \<longleftrightarrow> st = STAT_BUSY"
  by (cases st) auto

lemma coalesced_Cons:
  "coalesced ((b, z, st) # bs) \<longleftrightarrow>
     coalesced bs \<and> (st = STAT_FREE \<longrightarrow> bs = [] \<or> snd (snd (hd bs)) = STAT_BUSY)"
  by (cases bs; cases st) (auto simp: split_beta)

lemma coalesced_append:
  "coalesced (xs @ ys) \<longleftrightarrow> coalesced xs \<and> coalesced ys \<and>
     (xs = [] \<or> ys = [] \<or> snd (snd (last xs)) = STAT_BUSY \<or> snd (snd (hd ys)) = STAT_BUSY)"
proof (induction xs)
  case Nil
  then show ?case by simp
next
  case (Cons x xs)
  obtain b z st where x: "x = (b, z, st)" by (cases x) auto
  show ?case
    using Cons x by (cases xs; cases st) (auto simp: coalesced_Cons)
qed

section \<open>Laws of first fit\<close>

text \<open>Exactly which block is taken, and what the list becomes.\<close>

definition carve :: "u32 \<Rightarrow> block \<Rightarrow> block list" where
  "carve sz x = (case x of (b, z, st) \<Rightarrow>
     if z = sz then [(b, sz, STAT_BUSY)] else [(b, sz, STAT_BUSY), (b + sz, z - sz, STAT_FREE)])"

lemma first_fit_Some:
  assumes "first_fit spare sz bs = Some (a, bs')"
  shows "\<exists>pre z post. bs = pre @ (a, z, STAT_FREE) # post \<and> sz \<le> z \<and>
     (\<forall>(b, y, st) \<in> set pre. st = STAT_FREE \<longrightarrow> y < sz) \<and>
     bs' = pre @ carve sz (a, z, STAT_FREE) @ post"
  using assms
proof (induction spare sz bs arbitrary: a bs' rule: first_fit.induct)
  case (1 spare sz)
  then show ?case by simp
next
  case (2 spare sz b z st bs)
  consider "st = STAT_FREE" "sz < z" | "st = STAT_FREE" "z = sz"
    | "\<not> (st = STAT_FREE \<and> sz < z)" "\<not> (st = STAT_FREE \<and> z = sz)" by blast
  then show ?case
  proof cases
    case 1
    with 2 show ?thesis
      by (intro exI [of _ "[]"] exI [of _ z] exI [of _ bs]) (auto simp: carve_def split: if_splits)
  next
    case 2
    with "2.prems" show ?thesis
      by (intro exI [of _ "[]"] exI [of _ z] exI [of _ bs]) (auto simp: carve_def split: if_splits)
  next
    case 3
    with "2.prems" obtain bs1 where r: "first_fit spare sz bs = Some (a, bs1)" "bs' = (b, z, st) # bs1"
      by (auto split: if_splits)
    from "2.IH" [OF 3 r(1)] obtain pre y post where
      ih: "bs = pre @ (a, y, STAT_FREE) # post" "sz \<le> y"
        "\<forall>(b, y, st) \<in> set pre. st = STAT_FREE \<longrightarrow> y < sz"
        "bs1 = pre @ carve sz (a, y, STAT_FREE) @ post" by auto
    show ?thesis
      using ih r 3 by (intro exI [of _ "(b, z, st) # pre"] exI [of _ y] exI [of _ post]) auto
  qed
qed

lemma first_fit_None_iff:
  "first_fit True sz bs = None \<longleftrightarrow> (\<forall>(b, z, st) \<in> set bs. st = STAT_FREE \<longrightarrow> z < sz)"
  by (induction bs) (auto split: if_splits)

lemma first_fit_skip_busy:
  "\<forall>x \<in> set xs. snd (snd x) = STAT_BUSY \<Longrightarrow> first_fit spare sz (xs @ ys) =
     map_option (\<lambda>(a, bs). (a, xs @ bs)) (first_fit spare sz ys)"
  by (induction xs; cases "first_fit spare sz ys") (auto simp: option.map_id)

lemma carve_tiles:
  assumes "0 < sz" "sz \<le> z" "a + unat z < 2 ^ 32" "unat b = a"
  shows "tiles a (carve sz (b, z, st)) (a + unat z)"
proof -
  have "unat (b + sz) = unat b + unat sz" if "sz \<noteq> z"
    using assms by (simp add: unat_word_ariths word_le_nat_alt)
  moreover have "unat (z - sz) = unat z - unat sz" using assms by (simp add: unat_sub)
  moreover have "unat sz < unat z" if "sz \<noteq> z"
    using that assms by (metis order_le_less word_less_nat_alt)
  ultimately show ?thesis
    using assms by (auto simp: carve_def unat_gt_0 word_less_nat_alt)
qed

lemma first_fit_tiles:
  assumes "first_fit spare sz bs = Some (a, bs')" "tiles x bs e" "e < 2 ^ 32" "0 < sz"
  shows "tiles x bs' e"
proof -
  obtain pre z post where f: "bs = pre @ (a, z, STAT_FREE) # post" "sz \<le> z"
      "bs' = pre @ carve sz (a, z, STAT_FREE) @ post"
    using first_fit_Some [OF assms(1)] by auto
  obtain m where m: "tiles x pre m" "unat a = m" "tiles (m + unat z) post e"
    using assms(2) f(1) by (auto simp: tiles_append)
  have "m + unat z < 2 ^ 32" using tiles_le [OF m(3)] assms(3) by linarith
  then have "tiles m (carve sz (a, z, STAT_FREE)) (m + unat z)"
    using assms(4) f(2) m(2) by (intro carve_tiles) auto
  with m f(3) show ?thesis by (auto simp: tiles_append)
qed

lemma first_fit_busy:
  assumes "first_fit spare sz bs = Some (a, bs')"
  shows "\<exists>l r. busy_blocks bs = l @ r \<and> busy_blocks bs' = l @ (a, sz) # r"
  using first_fit_Some [OF assms] by (fastforce simp: carve_def)

lemma first_fit_coalesced:
  assumes "first_fit spare sz bs = Some (a, bs')" "coalesced bs"
  shows "coalesced bs'"
  using first_fit_Some [OF assms(1)] assms(2)
  by (auto simp: carve_def coalesced_append coalesced_Cons)

text \<open>The new block lies inside a block that was free, so it meets no block that was busy.\<close>

lemma first_fit_disjoint:
  assumes "first_fit spare sz bs = Some (a, bs')" "tiles x bs e" "(b, z) \<in> set (busy_blocks bs)"
  shows "unat a + unat sz \<le> unat b \<or> unat b + unat z \<le> unat a"
proof -
  obtain pre y post where f: "bs = pre @ (a, y, STAT_FREE) # post" "sz \<le> y"
    using first_fit_Some [OF assms(1)] by auto
  have "(b, z, STAT_BUSY) \<in> set pre \<union> set post"
    using assms(3) f(1) by (auto simp: busy_blocks_def)
  then have "unat a + unat y \<le> unat b \<or> unat b + unat z \<le> unat a"
    using tiles_disjoint assms(2) f(1) by blast
  with f(2) show ?thesis by (auto simp: word_le_nat_alt)
qed

section \<open>Laws of merging\<close>

lemma free_block_not_busy:
  "(\<forall>x \<in> set bs. \<not> is_busy_at a x) \<Longrightarrow> free_block a bs = bs"
proof -
  have "free_after pre a bs = pre # bs" if "\<forall>x \<in> set bs. \<not> is_busy_at a x" for pre
    using that by (induction pre a bs rule: free_after.induct) auto
  then show "(\<forall>x \<in> set bs. \<not> is_busy_at a x) \<Longrightarrow> free_block a bs = bs"
    by (cases bs) (auto elim!: allE)
qed

lemma free_after_split:
  "(\<forall>x \<in> set pre. \<not> is_busy_at a x) \<Longrightarrow>
     free_after p a (pre @ (a, z, STAT_BUSY) # post) =
       butlast (p # pre) @ join (last (p # pre)) (absorb (a, z, STAT_FREE) post)"
  by (induction pre arbitrary: p) auto

lemma free_block_split:
  "(\<forall>x \<in> set pre. \<not> is_busy_at a x) \<Longrightarrow>
     free_block a (pre @ (a, z, STAT_BUSY) # post) =
       (if pre = [] then absorb (a, z, STAT_FREE) post
        else butlast pre @ join (last pre) (absorb (a, z, STAT_FREE) post))"
  by (cases pre) (auto simp: free_after_split)

lemma absorb_cases:
  "absorb (b, z, st) bs = (case bs of
     (b', z', st') # bs' \<Rightarrow> if st' = STAT_FREE then (b, z + z', st) # bs' else (b, z, st) # bs
   | [] \<Rightarrow> [(b, z, st)])"
  by (cases "((b, z, st), bs)" rule: absorb.cases) (auto split: list.splits)

lemma join_cases:
  "join (b, z, st) (x # bs) =
     (if st = STAT_FREE then (b, z + fst (snd x), STAT_FREE) # bs else (b, z, st) # x # bs)"
  by (cases x; cases st) auto

lemma unat_add_block:
  "m + unat (z::u32) + unat z' < 2 ^ 32 \<Longrightarrow> unat (z + z') = unat z + unat z'"
  by (simp add: unat_word_ariths)

lemma absorb_tiles:
  assumes "tiles m ((b, z, st) # bs) e" "e < 2 ^ 32"
  shows "tiles m (absorb (b, z, st') bs) e"
proof (cases bs)
  case Nil
  with assms show ?thesis by simp
next
  case (Cons x bs')
  obtain b' z' t where x: "x = (b', z', t)" by (cases x) auto
  have "m + unat z + unat z' < 2 ^ 32"
    using assms Cons x by (auto dest: tiles_le)
  then have "unat (z + z') = unat z + unat z'" by (rule unat_add_block)
  with assms Cons x show ?thesis by (simp add: absorb_cases add.assoc)
qed

lemma join_tiles:
  assumes "tiles m ((b, z, st) # x # bs) e" "e < 2 ^ 32"
  shows "tiles m (join (b, z, st) (x # bs)) e"
proof -
  obtain b' z' t where x: "x = (b', z', t)" by (cases x) auto
  have "m + unat z + unat z' < 2 ^ 32"
    using assms x by (auto dest: tiles_le)
  then have "unat (z + z') = unat z + unat z'" by (rule unat_add_block)
  with assms x show ?thesis by (simp add: join_cases add.assoc)
qed

lemma absorb_Cons: "\<exists>y ys. absorb x bs = y # ys \<and> fst y = fst x \<and> snd (snd y) = snd (snd x)"
  by (cases x) (auto simp: absorb_cases split: list.splits)

lemma tiles_not_busy_before:
  "tiles x (pre @ (a, z, st) # post) e \<Longrightarrow> \<forall>y \<in> set pre. \<not> is_busy_at a y"
  using tiles_unique_base by fastforce

lemma free_block_tiles:
  assumes t: "tiles x (pre @ (a, z, STAT_BUSY) # post) e" and e: "e < 2 ^ 32"
  shows "tiles x (free_block a (pre @ (a, z, STAT_BUSY) # post)) e"
proof -
  note nb = tiles_not_busy_before [OF t]
  obtain m where m: "tiles x pre m" "tiles m ((a, z, STAT_BUSY) # post) e"
    using t by (auto simp: tiles_append)
  have ab: "tiles m (absorb (a, z, STAT_FREE) post) e"
    using absorb_tiles [OF m(2) e] .
  show ?thesis
  proof (cases pre rule: rev_cases)
    case Nil
    with nb m ab show ?thesis by (simp add: free_block_split)
  next
    case (snoc ks k)
    obtain kb kz ks' where k: "k = (kb, kz, ks')" by (cases k) auto
    obtain y ys where y: "absorb (a, z, STAT_FREE) post = y # ys" using absorb_Cons by blast
    obtain l where l: "tiles x ks l" "tiles l [k] m" using m snoc by (auto simp: tiles_append)
    then have "tiles l (k # y # ys) e" using ab y k by auto
    then have "tiles l (join k (y # ys)) e" using join_tiles e k by blast
    with l nb y snoc show ?thesis by (simp only: free_block_split) (auto simp: tiles_append)
  qed
qed

lemma busy_absorb [simp]: "busy_blocks (absorb (b, z, STAT_FREE) bs) = busy_blocks bs"
  by (auto simp: absorb_cases split: list.splits)

lemma busy_join_free:
  assumes "snd (snd y) = STAT_FREE"
  shows "busy_blocks (join k (y # ys)) = busy_blocks [k] @ busy_blocks ys"
proof -
  obtain b z where "y = (b, z, STAT_FREE)" using assms by (cases y) auto
  moreover obtain kb kz kst where "k = (kb, kz, kst)" by (cases k) auto
  ultimately show ?thesis by (cases kst) auto
qed

lemma free_block_busy:
  assumes t: "tiles x (pre @ (a, z, STAT_BUSY) # post) e"
  shows "busy_blocks (free_block a (pre @ (a, z, STAT_BUSY) # post)) =
           busy_blocks pre @ busy_blocks post"
proof -
  note nb = tiles_not_busy_before [OF t]
  show ?thesis
  proof (cases pre rule: rev_cases)
    case Nil
    with nb show ?thesis by (simp add: free_block_split)
  next
    case (snoc ks k)
    obtain y ys where y: "absorb (a, z, STAT_FREE) post = y # ys" "snd (snd y) = STAT_FREE"
      using absorb_Cons [of "(a, z, STAT_FREE)" post] by auto
    have "busy_blocks ys = busy_blocks post"
      using busy_absorb [of a z post] y by (cases y) auto
    with nb snoc y show ?thesis by (simp only: free_block_split) (simp add: busy_join_free)
  qed
qed

lemma coalesced_absorb:
  assumes "coalesced bs"
  shows "coalesced (absorb (b, z, STAT_FREE) bs)"
  using assms by (cases bs) (auto simp: absorb_cases coalesced_Cons)

lemma coalesced_free_Cons: "coalesced ((b, z, STAT_FREE) # bs) \<Longrightarrow> coalesced ((b', z', STAT_FREE) # bs)"
  by (simp add: coalesced_Cons)

lemma free_block_coalesced:
  assumes t: "tiles x (pre @ (a, z, STAT_BUSY) # post) e"
    and c: "coalesced (pre @ (a, z, STAT_BUSY) # post)"
  shows "coalesced (free_block a (pre @ (a, z, STAT_BUSY) # post))"
proof -
  note nb = tiles_not_busy_before [OF t]
  have post: "coalesced post" and pre: "coalesced pre"
    using c by (simp_all add: coalesced_append coalesced_Cons)
  note ab = coalesced_absorb [OF post, of a z]
  show ?thesis
  proof (cases pre rule: rev_cases)
    case Nil
    with nb ab show ?thesis by (simp add: free_block_split)
  next
    case (snoc ks k)
    obtain y ys where y: "absorb (a, z, STAT_FREE) post = y # ys" "snd (snd y) = STAT_FREE"
      using absorb_Cons [of "(a, z, STAT_FREE)" post] by auto
    obtain yb yz where y': "y = (yb, yz, STAT_FREE)" using y(2) by (cases y) auto
    obtain kb kz kst where k: "k = (kb, kz, kst)" by (cases k) auto
    have "coalesced (ks @ join k (y # ys))"
      using ab pre unfolding y y' k snoc
      by (cases kst) (auto simp: coalesced_append coalesced_Cons)
    with nb snoc y show ?thesis by (simp only: free_block_split) simp
  qed
qed

text \<open>Freeing what first fit gave out restores the list.\<close>

lemma first_fit_then_free:
  assumes f: "first_fit spare sz bs = Some (a, bs')" and t: "tiles x bs e" "e < 2 ^ 32"
    and c: "coalesced bs" and sz: "0 < sz"
  shows "free_block a bs' = bs"
proof -
  obtain pre z post where b: "bs = pre @ (a, z, STAT_FREE) # post" "sz \<le> z"
      "bs' = pre @ carve sz (a, z, STAT_FREE) @ post"
    using first_fit_Some [OF f] by auto
  define tl where "tl = (if z = sz then post else (a + sz, z - sz, STAT_FREE) # post)"
  have bs': "bs' = pre @ (a, sz, STAT_BUSY) # tl" using b by (simp add: carve_def tl_def)
  have "tiles x bs' e" using first_fit_tiles [OF f t sz] .
  then have nb: "\<forall>y \<in> set pre. \<not> is_busy_at a y"
    unfolding bs' by (rule tiles_not_busy_before)
  have nbrs: "pre = [] \<or> snd (snd (last pre)) = STAT_BUSY" "post = [] \<or> snd (snd (hd post)) = STAT_BUSY"
    using c b(1) by (auto simp: coalesced_append coalesced_Cons)
  have ab: "absorb (a, sz, STAT_FREE) tl = (a, z, STAT_FREE) # post"
    using nbrs(2) by (cases post) (auto simp: tl_def absorb_cases)
  show ?thesis
  proof (cases pre rule: rev_cases)
    case Nil
    with nb ab b(1) show ?thesis unfolding bs' by (simp add: free_block_split)
  next
    case (snoc ks k)
    then have "join k ((a, z, STAT_FREE) # post) = k # (a, z, STAT_FREE) # post"
      using nbrs(1) by (cases k) auto
    with nb ab b(1) snoc show ?thesis unfolding bs' by (simp only: free_block_split) simp
  qed
qed

end
