(* ===== verification/Holes_Refine.thy ===== *)
theory Holes_Refine
  imports Blocks
begin

text \<open>
  The pointer code of theory \<open>Holes\<close> implements the block lists of theory \<open>Blocks\<close>: a simulation
  for \<open>Kmem_alloc\<close> and \<open>Kmem_free\<close>, and the pool of hole records as an instance of the
  contract of theory \<open>Slot\<close>.
\<close>

section \<open>The hole records as a pool\<close>

definition nexts :: "'a kmem_scheme \<Rightarrow> nat \<Rightarrow> nat option" where
  "nexts s = h_next \<circ> mem_hole s"

definition free_holes :: "'a kmem_scheme \<Rightarrow> nat list \<Rightarrow> bool" where
  "free_holes s is \<longleftrightarrow> chain (nexts s) (slot_free s) is"

lemma nexts_set_hole [simp]: "nexts (set_hole i h s) = (nexts s)(i := h_next h)"
  by (auto simp: nexts_def)

lemma nexts_more [simp]:
  "nexts (s\<lparr>slot_free := p\<rparr>) = nexts s" "nexts (s\<lparr>h_head := p\<rparr>) = nexts s" "nexts (s\<lparr>ief := b\<rparr>) = nexts s"
  by (simp_all add: nexts_def)

lemma h_next_nexts: "h_next (mem_hole s i) = nexts s i"
  by (simp add: nexts_def)

interpretation hole_pool: slot_pool alloc_hole_slot free_hole_slot free_holes
proof unfold_locales
  show "distinct is" if "free_holes s is" for s :: "'a kmem_scheme" and "is"
    using that by (auto simp: free_holes_def intro: chain_distinct)
  show "alloc_hole_slot s = (None, s)" if "free_holes s []" for s :: "'a kmem_scheme"
    using that by (simp add: free_holes_def alloc_hole_slot_def)
  show "\<exists>s'. alloc_hole_slot s = (Some i, s') \<and> free_holes s' is" if "free_holes s (i # is)"
    for s :: "'a kmem_scheme" and i "is"
    using that by (simp add: free_holes_def alloc_hole_slot_def h_next_nexts)
  show "free_holes (free_hole_slot i s) (i # is)" if "free_holes s is" "i \<notin> set is"
    for s :: "'a kmem_scheme" and i "is"
    using that by (simp add: free_holes_def free_hole_slot_def)
qed

section \<open>The memory list\<close>

text \<open>
  \<open>hole_rep s is fs\<close>: the memory list runs through the records \<open>is\<close>, the free list through
  \<open>fs\<close>, and every record is on exactly one of them.
\<close>

definition block_of :: "'a kmem_scheme \<Rightarrow> nat \<Rightarrow> block" where
  "block_of s i = (h_base (mem_hole s i), h_size (mem_hole s i), h_status (mem_hole s i))"

definition blocks :: "'a kmem_scheme \<Rightarrow> nat list \<Rightarrow> block list" where
  "blocks s is = map (block_of s) is"

definition hole_rep :: "'a kmem_scheme \<Rightarrow> nat list \<Rightarrow> nat list \<Rightarrow> bool" where
  "hole_rep s is fs \<longleftrightarrow> chain (nexts s) (h_head s) is \<and> free_holes s fs \<and>
     set is \<inter> set fs = {} \<and> set is \<union> set fs = {..<NR_HOLE}"

lemma blocks_simps [simp]:
  "blocks s [] = []" "blocks s (i # is) = block_of s i # blocks s is"
  "blocks s (is @ js) = blocks s is @ blocks s js"
  by (simp_all add: blocks_def)

lemma blocks_cong: "(\<And>i. i \<in> set is \<Longrightarrow> block_of s' i = block_of s i) \<Longrightarrow> blocks s' is = blocks s is"
  by (simp add: blocks_def)

lemma block_of_ief [simp]: "block_of (s\<lparr>ief := b\<rparr>) = block_of s"
  by (simp add: block_of_def fun_eq_iff)

lemma blocks_ief [simp]: "blocks (s\<lparr>ief := b\<rparr>) = blocks s"
  by (simp add: blocks_def fun_eq_iff)

lemma hole_rep_ief [simp]: "hole_rep (s\<lparr>ief := b\<rparr>) = hole_rep s"
  by (simp add: hole_rep_def free_holes_def fun_eq_iff)

lemma hole_rep_distinct: "hole_rep s is fs \<Longrightarrow> distinct is \<and> distinct fs"
  by (auto simp: hole_rep_def free_holes_def intro: chain_distinct)

lemma hole_rep_count: "hole_rep s is fs \<Longrightarrow> length is + length fs = NR_HOLE"
proof -
  assume rep: "hole_rep s is fs"
  then have "card (set is \<union> set fs) = card (set is) + card (set fs)"
    by (intro card_Un_disjoint) (auto simp: hole_rep_def)
  moreover have "card (set is \<union> set fs) = NR_HOLE" using rep by (simp add: hole_rep_def)
  ultimately show ?thesis using hole_rep_distinct [OF rep] by (simp add: distinct_card)
qed

lemma block_of_set_hole:
  "block_of (set_hole i h s) j = (if j = i then (h_base h, h_size h, h_status h) else block_of s j)"
  by (simp add: block_of_def)

subsection \<open>The splitting step\<close>

lemma split_hole_nexts:
  "h \<noteq> t \<Longrightarrow> nexts (split_hole h t sz s) = (nexts s)(t := nexts s h, h := Some t)"
  by (auto simp: split_hole_def Let_def nexts_def fun_eq_iff)

lemma split_hole_block_of:
  "h \<noteq> t \<Longrightarrow> block_of (split_hole h t sz s) j =
     (if j = h then (h_base (mem_hole s h), sz, STAT_BUSY)
      else if j = t then (h_base (mem_hole s h) + sz, h_size (mem_hole s h) - sz, STAT_FREE)
      else block_of s j)"
  by (simp add: split_hole_def Let_def block_of_def)

lemma split_hole_frame [simp]:
  "h_head (split_hole h t sz s) = h_head s" "slot_free (split_hole h t sz s) = slot_free s"
  "ief (split_hole h t sz s) = ief s"
  by (simp_all add: split_hole_def Let_def)

lemma split_hole_rep:
  fixes s :: "'a kmem_scheme" and sz :: u32
  assumes rep: "hole_rep s (ks @ h # js) (t # fs)"
  defines "s' \<equiv> split_hole h t sz (s\<lparr>slot_free := nexts s t\<rparr>)"
  shows "hole_rep s' (ks @ h # t # js) fs"
    and "blocks s' (ks @ h # t # js) = blocks s ks @
           (h_base (mem_hole s h), sz, STAT_BUSY) #
           (h_base (mem_hole s h) + sz, h_size (mem_hole s h) - sz, STAT_FREE) # blocks s js"
proof -
  have d: "distinct (ks @ h # js)" "distinct (t # fs)" and t: "t \<notin> set (ks @ h # js)"
    using hole_rep_distinct [OF rep] rep by (auto simp: hole_rep_def)
  have h: "h \<noteq> t" "h \<notin> set fs" using rep by (auto simp: hole_rep_def)
  have nx: "nexts s' = (nexts s)(t := nexts s h, h := Some t)"
    using h by (simp add: s'_def split_hole_nexts)
  have "chain (nexts s') (h_head s) (ks @ h # t # js)"
    using rep t unfolding nx hole_rep_def by (intro chain_insert_after) auto
  moreover have "free_holes s' fs"
    using rep h d unfolding free_holes_def nx by (simp add: hole_rep_def free_holes_def s'_def)
  moreover have "h_head s' = h_head s" by (simp add: s'_def)
  moreover have "set (ks @ h # t # js) \<inter> set fs = {}" "set (ks @ h # t # js) \<union> set fs = {..<NR_HOLE}"
    using rep d unfolding hole_rep_def by auto
  ultimately show "hole_rep s' (ks @ h # t # js) fs" by (simp add: hole_rep_def)
  have "block_of s' j = block_of s j" if "j \<in> set ks \<union> set js" for j
  proof -
    have "j \<noteq> h" "j \<noteq> t" using that d t by auto
    then show ?thesis using h by (simp add: s'_def split_hole_block_of) (simp add: block_of_def)
  qed
  then have "blocks s' ks = blocks s ks" "blocks s' js = blocks s js"
    by (auto intro: blocks_cong)
  then show "blocks s' (ks @ h # t # js) = blocks s ks @
           (h_base (mem_hole s h), sz, STAT_BUSY) #
           (h_base (mem_hole s h) + sz, h_size (mem_hole s h) - sz, STAT_FREE) # blocks s js"
    using h by (simp add: s'_def split_hole_block_of)
qed

subsection \<open>Changing a record in place\<close>

lemma set_hole_rep:
  assumes rep: "hole_rep s (ks @ h # js) fs" and nx: "h_next x = nexts s h"
  shows "hole_rep (set_hole h x s) (ks @ h # js) fs"
    and "blocks (set_hole h x s) (ks @ h # js) =
           blocks s ks @ (h_base x, h_size x, h_status x) # blocks s js"
proof -
  have "nexts (set_hole h x s) = nexts s" using nx by simp
  then show "hole_rep (set_hole h x s) (ks @ h # js) fs"
    using rep by (simp add: hole_rep_def free_holes_def)
  have "h \<notin> set ks" "h \<notin> set js" using hole_rep_distinct [OF rep] by auto
  then have "blocks (set_hole h x s) ks = blocks s ks" "blocks (set_hole h x s) js = blocks s js"
    by (auto intro!: blocks_cong simp: block_of_set_hole)
  then show "blocks (set_hole h x s) (ks @ h # js) =
      blocks s ks @ (h_base x, h_size x, h_status x) # blocks s js"
    by (simp add: block_of_set_hole)
qed

subsection \<open>Merging a record with its successor\<close>

lemma unlink_rep:
  fixes s :: "'a kmem_scheme" and z :: u32
  assumes rep: "hole_rep s (ks @ i # t # js) fs"
  defines "s' \<equiv> free_hole_slot t (set_hole i ((mem_hole s i)
                   \<lparr>h_size := z, h_next := h_next (mem_hole s t)\<rparr>) s)"
  shows "hole_rep s' (ks @ i # js) (t # fs)"
    and "blocks s' (ks @ i # js) = blocks s ks @
           (h_base (mem_hole s i), z, h_status (mem_hole s i)) # blocks s js"
proof -
  have d: "distinct (ks @ i # t # js)" using hole_rep_distinct [OF rep] by blast
  then have it: "i \<noteq> t" by auto
  have tf: "t \<notin> set fs" "i \<notin> set fs" using rep by (auto simp: hole_rep_def)
  have nx: "nexts s' = (nexts s)(i := nexts s t, t := slot_free s)"
    using it by (auto simp: s'_def free_hole_slot_def nexts_def fun_eq_iff)
  have "chain ((nexts s)(i := nexts s t)) (h_head s) (ks @ i # js)"
    using rep unfolding hole_rep_def by (intro chain_unlink) auto
  then have "chain (nexts s') (h_head s) (ks @ i # js)"
    using d unfolding nx by (subst chain_fun_upd) auto
  moreover have "free_holes s' (t # fs)"
    using rep tf unfolding free_holes_def nx
    by (simp add: hole_rep_def free_holes_def s'_def free_hole_slot_def)
  moreover have "h_head s' = h_head s" by (simp add: s'_def free_hole_slot_def)
  moreover have "set (ks @ i # js) \<inter> set (t # fs) = {}" "set (ks @ i # js) \<union> set (t # fs) = {..<NR_HOLE}"
    using rep d unfolding hole_rep_def by auto
  ultimately show "hole_rep s' (ks @ i # js) (t # fs)" by (simp add: hole_rep_def)
  have "block_of s' j = block_of s j" if "j \<in> set ks \<union> set js" for j
  proof -
    have "j \<noteq> i" using that d by auto
    then show ?thesis by (simp add: s'_def free_hole_slot_def block_of_def)
  qed
  then have "blocks s' ks = blocks s ks" "blocks s' js = blocks s js"
    by (auto intro: blocks_cong)
  then show "blocks s' (ks @ i # js) = blocks s ks @
           (h_base (mem_hole s i), z, h_status (mem_hole s i)) # blocks s js"
    using it by (simp add: s'_def free_hole_slot_def block_of_def)
qed

section \<open>Kmem_alloc implements first fit\<close>

text \<open>
  The walk from a suffix of the list. When it fails, memory is as before; the interrupt flag
  is restored unless a large enough block was there and no record was left to split it.
\<close>

definition alloc_outcome ::
  "bool \<Rightarrow> u32 \<Rightarrow> 'a kmem_scheme \<Rightarrow> nat list \<Rightarrow> nat list \<Rightarrow> nat list \<Rightarrow> (u32 \<times> 'a kmem_scheme) option \<Rightarrow> bool"
where
  "alloc_outcome flags sz s ks js fs r =
     (case first_fit (fs \<noteq> []) sz (blocks s js) of
        None \<Rightarrow> r = Some (0, s\<lparr>ief := (if first_fit True sz (blocks s js) = None then flags else ief s)\<rparr>)
      | Some (a, bs') \<Rightarrow> \<exists>s' is' fs'. r = Some (a, s') \<and> hole_rep s' is' fs' \<and>
          blocks s' is' = blocks s ks @ bs' \<and> ief s' = flags)"

lemma alloc_outcome_found:
  assumes "first_fit (fs \<noteq> []) sz (blocks s js) = Some (a, bs')"
    and "hole_rep s' is' fs'" "blocks s' is' = blocks s ks @ bs'" "ief s' = flags"
  shows "alloc_outcome flags sz s ks js fs (Some (a, s'))"
  using assms by (auto simp: alloc_outcome_def)

lemma alloc_outcome_skip:
  assumes "\<not> (h_status (mem_hole s i) = STAT_FREE \<and> sz < h_size (mem_hole s i))"
    and "\<not> (h_status (mem_hole s i) = STAT_FREE \<and> h_size (mem_hole s i) = sz)"
    and "alloc_outcome flags sz s (ks @ [i]) js fs r"
  shows "alloc_outcome flags sz s ks (i # js) fs r"
proof -
  have "first_fit b sz (blocks s (i # js)) =
      map_option (\<lambda>(a, bs'). (a, block_of s i # bs')) (first_fit b sz (blocks s js))" for b
    using assms(1,2) by (auto simp: block_of_def)
  then show ?thesis
    using assms(3) by (cases "first_fit (fs \<noteq> []) sz (blocks s js)") (auto simp: alloc_outcome_def)
qed

lemma alloc_loop_outcome:
  assumes "hole_rep s (ks @ js) fs" "chain (nexts s) p js"
  shows "alloc_outcome flags sz s ks js fs (Kmem_alloc_loop sz flags p s)"
  using assms
proof (induction js arbitrary: ks p)
  case Nil
  then show ?case
    by (simp add: alloc_outcome_def Kmem_alloc_loop.simps unlock_irq_restore_def)
next
  case (Cons i js)
  then have p: "p = Some i" "chain (nexts s) (nexts s i) js" by simp_all
  have rep: "hole_rep s (ks @ i # js) fs" using Cons.prems by simp
  let ?h = "mem_hole s i"
  consider (split) "h_status ?h = STAT_FREE" "sz < h_size ?h"
    | (exact) "h_status ?h = STAT_FREE" "h_size ?h = sz"
    | (skip) "\<not> (h_status ?h = STAT_FREE \<and> sz < h_size ?h)" "\<not> (h_status ?h = STAT_FREE \<and> h_size ?h = sz)"
    by blast
  then show ?case
  proof cases
    case split
    show ?thesis
    proof (cases fs)
      case Nil
      then have "alloc_hole_slot s = (None, s)"
        using rep by (intro hole_pool.alloc_nil) (simp add: hole_rep_def)
      with split Nil p show ?thesis
        by (simp add: alloc_outcome_def Kmem_alloc_loop.simps block_of_def)
    next
      case (Cons t fs')
      let ?s = "split_hole i t sz (s\<lparr>slot_free := nexts s t\<rparr>)"
      have "alloc_hole_slot s = (Some t, s\<lparr>slot_free := nexts s t\<rparr>)"
        using rep Cons by (simp add: alloc_hole_slot_def hole_rep_def free_holes_def h_next_nexts)
      then have r: "Kmem_alloc_loop sz flags p s = Some (h_base ?h, ?s\<lparr>ief := flags\<rparr>)"
        using split p by (simp add: Kmem_alloc_loop.simps unlock_irq_restore_def)
      have "hole_rep (?s\<lparr>ief := flags\<rparr>) (ks @ i # t # js) fs'"
        "blocks (?s\<lparr>ief := flags\<rparr>) (ks @ i # t # js) = blocks s ks @
           (h_base ?h, sz, STAT_BUSY) # (h_base ?h + sz, h_size ?h - sz, STAT_FREE) # blocks s js"
        using split_hole_rep [of s ks i js t fs' sz] rep Cons by simp_all
      then show ?thesis
        unfolding r by (rule alloc_outcome_found [rotated]) (use split Cons in \<open>simp_all add: block_of_def\<close>)
    qed
  next
    case exact
    let ?s = "set_hole i (?h\<lparr>h_status := STAT_BUSY\<rparr>) s"
    have r: "Kmem_alloc_loop sz flags p s = Some (h_base ?h, ?s\<lparr>ief := flags\<rparr>)"
      using exact p by (simp add: Kmem_alloc_loop.simps unlock_irq_restore_def)
    have "hole_rep (?s\<lparr>ief := flags\<rparr>) (ks @ i # js) fs"
      "blocks (?s\<lparr>ief := flags\<rparr>) (ks @ i # js) = blocks s ks @ (h_base ?h, sz, STAT_BUSY) # blocks s js"
      using set_hole_rep [OF rep, of "?h\<lparr>h_status := STAT_BUSY\<rparr>"] exact
      by (simp_all add: h_next_nexts)
    then show ?thesis
      unfolding r by (rule alloc_outcome_found [rotated]) (use exact in \<open>simp_all add: block_of_def\<close>)
  next
    case skip
    have "Kmem_alloc_loop sz flags p s = Kmem_alloc_loop sz flags (nexts s i) s"
      unfolding p(1) by (subst Kmem_alloc_loop.simps) (use skip in \<open>auto simp: h_next_nexts\<close>)
    moreover have "alloc_outcome flags sz s (ks @ [i]) js fs (Kmem_alloc_loop sz flags (nexts s i) s)"
      using Cons.IH [of "ks @ [i]"] rep p by simp
    ultimately show ?thesis using skip by (intro alloc_outcome_skip) auto
  qed
qed

lemma Kmem_alloc_outcome:
  assumes "hole_rep s is fs" "sz \<noteq> 0"
  shows "alloc_outcome (ief s) sz (s\<lparr>ief := False\<rparr>) [] is fs (Kmem_alloc sz s)"
proof -
  have "chain (nexts s) (h_head s) is" using assms(1) by (simp add: hole_rep_def)
  then show ?thesis
    using alloc_loop_outcome [of "s\<lparr>ief := False\<rparr>" "[]" "is" fs "h_head s" "ief s" sz] assms
    by (simp add: Kmem_alloc_def lock_irq_save_def)
qed

section \<open>Kmem_free implements merging\<close>

lemma merge_next_rep:
  assumes rep: "hole_rep s (ks @ i # js) fs" and st: "h_status (mem_hole s i) = STAT_FREE"
  shows "\<exists>js' fs'. hole_rep (merge_next i s) (ks @ i # js') fs' \<and>
     h_status (mem_hole (merge_next i s) i) = STAT_FREE \<and>
     blocks (merge_next i s) ks = blocks s ks \<and>
     blocks (merge_next i s) (i # js') = absorb (block_of s i) (blocks s js)"
proof -
  have nx: "nexts s i = (case js of [] \<Rightarrow> None | t # _ \<Rightarrow> Some t)"
    using rep by (auto simp: hole_rep_def chain_append dest: chain_hd)
  show ?thesis
  proof (cases "\<exists>t js'. js = t # js' \<and> h_status (mem_hole s t) = STAT_FREE")
    case True
    then obtain t js' where js: "js = t # js'" "h_status (mem_hole s t) = STAT_FREE" by blast
    let ?z = "h_size (mem_hole s i) + h_size (mem_hole s t)"
    let ?s = "free_hole_slot t (set_hole i ((mem_hole s i)
                   \<lparr>h_size := ?z, h_next := h_next (mem_hole s t)\<rparr>) s)"
    have m: "merge_next i s = ?s" using js nx by (simp add: merge_next_def h_next_nexts)
    note u = unlink_rep [of s ks i t js' fs ?z]
    have r: "hole_rep ?s (ks @ i # js') (t # fs)"
      "blocks ?s (ks @ i # js') = blocks s ks @ (h_base (mem_hole s i), ?z, STAT_FREE) # blocks s js'"
      using u rep js st by simp_all
    have "length (blocks ?s ks) = length (blocks s ks)" by (simp add: blocks_def)
    then have "blocks ?s ks = blocks s ks"
      "blocks ?s (i # js') = (h_base (mem_hole s i), ?z, STAT_FREE) # blocks s js'"
      using r(2) by simp_all
    then show ?thesis
      using r(1) js st unfolding m
      by (intro exI [of _ js'] exI [of _ "t # fs"]) (simp add: block_of_def)
  next
    case False
    then have m: "merge_next i s = s"
      using nx by (auto simp: merge_next_def h_next_nexts split: list.splits)
    have "absorb (block_of s i) (blocks s js) = blocks s (i # js)"
      using False by (cases js) (auto simp: block_of_def absorb_cases)
    then show ?thesis using rep st unfolding m by auto
  qed
qed

lemma merge_previous_rep:
  assumes rep: "hole_rep s (ks @ p # i # js) fs"
  shows "\<exists>is' fs'. hole_rep (merge_previous p i s) is' fs' \<and>
     blocks (merge_previous p i s) is' =
       blocks s ks @ join (block_of s p) (blocks s (i # js))"
proof (cases "h_status (mem_hole s p) = STAT_FREE")
  case True
  have pi: "p \<noteq> i" using hole_rep_distinct [OF rep] by auto
  let ?z = "h_size (mem_hole s p) + h_size (mem_hole s i)"
  let ?s = "free_hole_slot i (set_hole p ((mem_hole s p)
                   \<lparr>h_size := ?z, h_next := h_next (mem_hole s i)\<rparr>) s)"
  have m: "merge_previous p i s = ?s" using True pi by (simp add: merge_previous_def)
  have "hole_rep ?s (ks @ p # js) (i # fs)"
    "blocks ?s (ks @ p # js) = blocks s ks @ (h_base (mem_hole s p), ?z, STAT_FREE) # blocks s js"
    using unlink_rep [OF rep, of ?z] True by simp_all
  then show ?thesis
    using True unfolding m
    by (intro exI [of _ "ks @ p # js"] exI [of _ "i # fs"]) (simp add: block_of_def)
next
  case False
  then have "merge_previous p i s = s" by (simp add: merge_previous_def)
  moreover have "join (block_of s p) (blocks s (i # js)) = block_of s p # blocks s (i # js)"
    using False by (simp add: block_of_def join_cases)
  ultimately show ?thesis using rep by (intro exI [of _ "ks @ p # i # js"] exI [of _ fs]) simp
qed

lemma merge_ief [simp]:
  "ief (merge_next i s) = ief s" "ief (merge_previous p i s) = ief s"
  by (auto simp: merge_next_def merge_previous_def free_hole_slot_def split: option.splits)

lemma free_found_rep:
  assumes rep: "hole_rep s (ks @ i # js) fs"
  defines "s2 \<equiv> merge_next i (set_hole i ((mem_hole s i)\<lparr>h_status := STAT_FREE\<rparr>) s)"
  shows "\<exists>js' fs'. hole_rep s2 (ks @ i # js') fs' \<and> h_status (mem_hole s2 i) = STAT_FREE \<and>
     blocks s2 ks = blocks s ks \<and>
     blocks s2 (i # js') = absorb (free_it (block_of s i)) (blocks s js)"
proof -
  let ?s1 = "set_hole i ((mem_hole s i)\<lparr>h_status := STAT_FREE\<rparr>) s"
  note s1 = set_hole_rep [OF rep, of "(mem_hole s i)\<lparr>h_status := STAT_FREE\<rparr>"]
  have rep1: "hole_rep ?s1 (ks @ i # js) fs" using s1(1) by (simp add: h_next_nexts)
  have "blocks ?s1 (ks @ i # js) = blocks s ks @ free_it (block_of s i) # blocks s js"
    using s1(2) by (simp add: h_next_nexts block_of_def)
  moreover have "length (blocks ?s1 ks) = length (blocks s ks)" by (simp add: blocks_def)
  ultimately have b1: "blocks ?s1 ks = blocks s ks" "block_of ?s1 i = free_it (block_of s i)"
      "blocks ?s1 js = blocks s js"
    by (simp_all del: blocks_simps(2) add: blocks_simps(2) [of ?s1])
  have "h_status (mem_hole ?s1 i) = STAT_FREE" by simp
  from merge_next_rep [OF rep1 this] show ?thesis
    unfolding s2_def b1 by blast
qed

lemma free_loop_rep:
  assumes "hole_rep s (ks @ p # js) fs" "chain (nexts s) q js"
  shows "\<exists>s' is' fs'. Kmem_free_loop a p q s = Some s' \<and> hole_rep s' is' fs' \<and>
     blocks s' is' = blocks s ks @ free_after (block_of s p) a (blocks s js) \<and> ief s' = ief s"
  using assms
proof (induction js arbitrary: ks p q)
  case Nil
  then show ?case by (auto simp: Kmem_free_loop.simps)
next
  case (Cons i js)
  then have q: "q = Some i" "chain (nexts s) (nexts s i) js" by simp_all
  have rep: "hole_rep s ((ks @ [p]) @ i # js) fs" using Cons.prems by simp
  show ?case
  proof (cases "is_busy_at a (block_of s i)")
    case True
    then have h: "h_base (mem_hole s i) = a" "h_status (mem_hole s i) = STAT_BUSY"
      by (simp_all add: block_of_def)
    let ?s2 = "merge_next i (set_hole i ((mem_hole s i)\<lparr>h_status := STAT_FREE\<rparr>) s)"
    have r: "Kmem_free_loop a p q s = Some (merge_previous p i ?s2)"
      unfolding q(1) by (subst Kmem_free_loop.simps) (simp add: h)
    obtain js' fs' where f: "hole_rep ?s2 (ks @ p # i # js') fs'"
        "blocks ?s2 ks = blocks s ks" "block_of ?s2 p = block_of s p"
        "blocks ?s2 (i # js') = absorb (free_it (block_of s i)) (blocks s js)"
      using free_found_rep [OF rep] by (auto simp del: blocks_simps(2)) (auto simp: blocks_def)
    obtain is' fs'' where m: "hole_rep (merge_previous p i ?s2) is' fs''"
      "blocks (merge_previous p i ?s2) is' = blocks ?s2 ks @ join (block_of ?s2 p) (blocks ?s2 (i # js'))"
      using merge_previous_rep [OF f(1)] by blast
    have "free_after (block_of s p) a (blocks s (i # js)) =
        join (block_of s p) (absorb (free_it (block_of s i)) (blocks s js))"
      using True by simp
    then show ?thesis using m unfolding r f by auto
  next
    case False
    then have r: "Kmem_free_loop a p q s = Kmem_free_loop a i (nexts s i) s"
      unfolding q(1) by (subst Kmem_free_loop.simps) (auto simp: block_of_def h_next_nexts)
    show ?thesis
      using Cons.IH [of "ks @ [p]" i "nexts s i"] rep q(2) False unfolding r by simp
  qed
qed

lemma Kmem_free_refines:
  assumes rep: "hole_rep s is fs"
  shows "\<exists>s' is' fs'. Kmem_free a s = Some s' \<and> hole_rep s' is' fs' \<and>
     blocks s' is' = free_block a (blocks s is) \<and> ief s' = ief s"
proof -
  let ?s = "s\<lparr>ief := False\<rparr>"
  have rep': "hole_rep ?s is fs" using rep by simp
  have hd: "h_head s = (case is of [] \<Rightarrow> None | i # _ \<Rightarrow> Some i)"
    using rep by (auto simp: hole_rep_def dest: chain_hd)
  show ?thesis
  proof (cases "is")
    case Nil
    then show ?thesis
      using rep hd by (auto simp: Kmem_free_def lock_irq_save_def unlock_irq_restore_def)
  next
    case (Cons i js)
    have "\<exists>s' is' fs'. Kmem_free_loop a i (Some i) ?s = Some s' \<and> hole_rep s' is' fs' \<and>
        blocks s' is' = free_block a (blocks s is) \<and> ief s' = False"
    proof (cases "is_busy_at a (block_of s i)")
      case True
      then have h: "h_base (mem_hole s i) = a" "h_status (mem_hole s i) = STAT_BUSY"
        by (simp_all add: block_of_def)
      let ?s2 = "merge_next i (set_hole i ((mem_hole ?s i)\<lparr>h_status := STAT_FREE\<rparr>) ?s)"
      obtain js' fs' where f: "hole_rep ?s2 (i # js') fs'"
        "blocks ?s2 (i # js') = absorb (free_it (block_of s i)) (blocks s js)"
        using free_found_rep [of ?s "[]" i js fs] rep' Cons by auto
      have "merge_previous i i ?s2 = ?s2" by (simp add: merge_previous_def)
      then have "Kmem_free_loop a i (Some i) ?s = Some ?s2"
        by (subst Kmem_free_loop.simps) (simp add: h)
      moreover have "ief ?s2 = False" by simp
      ultimately show ?thesis using f True Cons by auto
    next
      case False
      then have "Kmem_free_loop a i (Some i) ?s = Kmem_free_loop a i (nexts s i) ?s"
        by (subst Kmem_free_loop.simps) (auto simp: block_of_def h_next_nexts)
      moreover have "chain (nexts ?s) (nexts s i) js"
        using rep Cons by (simp add: hole_rep_def)
      ultimately show ?thesis
        using free_loop_rep [of ?s "[]" i js fs "nexts s i" a] rep' Cons False by simp
    qed
    then obtain s' is' fs' where f: "Kmem_free_loop a i (Some i) ?s = Some s'" "hole_rep s' is' fs'"
        "blocks s' is' = free_block a (blocks s is)" by blast
    have "Kmem_free a s = Some (s'\<lparr>ief := ief s\<rparr>)"
      using hd Cons f(1) by (simp add: Kmem_free_def lock_irq_save_def unlock_irq_restore_def)
    moreover have "hole_rep (s'\<lparr>ief := ief s\<rparr>) is' fs'" using f(2) by simp
    moreover have "blocks (s'\<lparr>ief := ief s\<rparr>) is' = free_block a (blocks s is)" using f(3) by simp
    ultimately show ?thesis by (intro exI [of _ "s'\<lparr>ief := ief s\<rparr>"] exI [of _ is'] exI [of _ fs']) simp
  qed
qed

end
