(* ===== verification/Heap_Contract.thy ===== *)
theory Heap_Contract
  imports Holes_Refine
begin

text \<open>
  What the users of \<open>Kmem_alloc\<close> and \<open>Kmem_free\<close> (fork and exit) rely on, as a locale over the
  set of live regions, and the model of \<^verbatim>\<open>ker/mem.c\<close> as its instance. The properties of the
  system memory manager close the theory.
\<close>

section \<open>The contract of a memory manager\<close>

text \<open>A region is its base and its size; two regions that share no address are apart.\<close>

definition apart :: "u32 \<times> u32 \<Rightarrow> u32 \<times> u32 \<Rightarrow> bool" where
  "apart r q \<longleftrightarrow> unat (fst r) + unat (snd r) \<le> unat (fst q) \<or>
                  unat (fst q) + unat (snd q) \<le> unat (fst r)"

lemma apart_sym: "apart r q \<longleftrightarrow> apart q r"
  by (auto simp: apart_def)

locale memory_manager =
  fixes alloc :: "u32 \<Rightarrow> 's \<Rightarrow> (u32 \<times> 's) option"
    and free :: "u32 \<Rightarrow> 's \<Rightarrow> 's option"
    and heap :: "'s \<Rightarrow> (u32 \<times> u32) set \<Rightarrow> bool"
  assumes alloc_law: "heap s L \<Longrightarrow> sz \<noteq> 0 \<Longrightarrow> \<exists>a s'. alloc sz s = Some (a, s') \<and>
      (if a = 0 then heap s' L else heap s' (insert (a, sz) L) \<and> (\<forall>r \<in> L. apart (a, sz) r))"
    and free_law: "heap s L \<Longrightarrow> (a, z) \<in> L \<Longrightarrow> \<exists>s'. free a s = Some s' \<and> heap s' (L - {(a, z)})"
    and free_other_law: "heap s L \<Longrightarrow> a \<notin> fst ` L \<Longrightarrow> \<exists>s'. free a s = Some s' \<and> heap s' L"
    and live_apart: "heap s L \<Longrightarrow> r \<in> L \<Longrightarrow> q \<in> L \<Longrightarrow> r \<noteq> q \<Longrightarrow> apart r q"
    and live_nonempty: "heap s L \<Longrightarrow> (a, z) \<in> L \<Longrightarrow> a \<noteq> 0 \<and> z \<noteq> 0"
begin

lemma alloc_returns: "heap s L \<Longrightarrow> sz \<noteq> 0 \<Longrightarrow> alloc sz s \<noteq> None"
  using alloc_law by fastforce

lemma alloc_keeps_live:
  assumes "heap s L" "sz \<noteq> 0" "alloc sz s = Some (a, s')"
  shows "heap s' (if a = 0 then L else insert (a, sz) L)"
  using alloc_law [OF assms(1,2)] assms(3) by (auto split: if_splits)

lemma alloc_fresh:
  assumes "heap s L" "sz \<noteq> 0" "alloc sz s = Some (a, s')" "a \<noteq> 0" "r \<in> L"
  shows "apart (a, sz) r" and "(a, sz) \<notin> L"
proof -
  have ap: "apart (a, sz) q" if "q \<in> L" for q
    using alloc_law [OF assms(1,2)] assms(3,4) that by auto
  then show "apart (a, sz) r" using assms(5) .
  show "(a, sz) \<notin> L"
  proof
    assume "(a, sz) \<in> L"
    then have "apart (a, sz) (a, sz)" by (rule ap)
    then have "unat sz = 0" by (simp add: apart_def)
    then show False using assms(2) by (simp add: unat_eq_0)
  qed
qed

text \<open>Two blocks that are live at the same time never overlap, whatever happened in between.\<close>

lemma two_allocs_apart:
  assumes "heap s L" "sz \<noteq> 0" "alloc sz s = Some (a, s1)" "a \<noteq> 0"
    and "sz' \<noteq> 0" "alloc sz' s1 = Some (b, s2)" "b \<noteq> 0"
  shows "apart (b, sz') (a, sz)"
  using alloc_fresh(1) [of s1 "insert (a, sz) L" sz' b s2 "(a, sz)"]
    alloc_keeps_live [OF assms(1-3)] assms by simp

lemma alloc_then_free:
  assumes "heap s L" "sz \<noteq> 0" "alloc sz s = Some (a, s1)" "a \<noteq> 0"
  shows "\<exists>s2. free a s1 = Some s2 \<and> heap s2 L"
proof -
  have h1: "heap s1 (insert (a, sz) L)" using alloc_keeps_live [OF assms(1-3)] assms(4) by simp
  have "(a, sz) \<notin> L"
  proof (cases "L = {}")
    case False
    then obtain r where "r \<in> L" by blast
    then show ?thesis using alloc_fresh(2) [OF assms] by blast
  qed simp
  then have "insert (a, sz) L - {(a, sz)} = L" by simp
  then show ?thesis using free_law [OF h1, of a sz] by auto
qed

text \<open>Freeing any address, live or not, leaves a well-formed heap.\<close>

lemma free_keeps:
  assumes "heap t L" "free a t = Some u"
  shows "\<exists>L'. heap u L'"
proof (cases "a \<in> fst ` L")
  case True
  then obtain z where "(a, z) \<in> L" by auto
  with assms show ?thesis using free_law by fastforce
next
  case False
  with assms show ?thesis using free_other_law by fastforce
qed

end

section \<open>The memory list of the kernel as an instance\<close>

text \<open>
  \<open>heap lo hi s L\<close>: the memory list is well formed, its blocks tile the addresses from \<open>lo\<close> to
  \<open>hi\<close>, no two free blocks are neighbours, and the busy blocks are \<open>L\<close>.
\<close>

definition heap :: "nat \<Rightarrow> nat \<Rightarrow> 'a kmem_scheme \<Rightarrow> (u32 \<times> u32) set \<Rightarrow> bool" where
  "heap lo hi s L \<longleftrightarrow> 0 < lo \<and> hi < 2 ^ 32 \<and>
     (\<exists>is fs. hole_rep s is fs \<and> tiles lo (blocks s is) hi \<and> coalesced (blocks s is) \<and>
        L = set (busy_blocks (blocks s is)))"

lemma heapI:
  "0 < lo \<Longrightarrow> hi < 2 ^ 32 \<Longrightarrow> hole_rep s is fs \<Longrightarrow> tiles lo (blocks s is) hi \<Longrightarrow> coalesced (blocks s is) \<Longrightarrow>
     L = set (busy_blocks (blocks s is)) \<Longrightarrow> heap lo hi s L"
  by (auto simp: heap_def)

lemma heapE:
  assumes "heap lo hi s L"
  obtains "is" fs where "0 < lo" "hi < 2 ^ 32" "hole_rep s is fs" "tiles lo (blocks s is) hi"
    "coalesced (blocks s is)" "L = set (busy_blocks (blocks s is))"
  using assms by (auto simp: heap_def)

lemma heap_ief [simp]: "heap lo hi (s\<lparr>ief := b\<rparr>) L = heap lo hi s L"
  by (simp add: heap_def)

lemma busy_blocks_mem: "(b, z) \<in> set (busy_blocks bs) \<longleftrightarrow> (b, z, STAT_BUSY) \<in> set bs"
  by (force simp: busy_blocks_def)

lemma tiles_mem_pos: "tiles a xs e \<Longrightarrow> (b, z, st) \<in> set xs \<Longrightarrow> 0 < unat z"
  by (induction a xs e rule: tiles.induct) auto

lemma tiles_mem_apart:
  assumes "tiles a xs e" "(b, z, s) \<in> set xs" "(b', z', s') \<in> set xs" "(b, z, s) \<noteq> (b', z', s')"
  shows "apart (b, z) (b', z')"
proof -
  obtain l r where xs: "xs = l @ (b, z, s) # r"
    using assms(2) by (meson split_list)
  then have "(b', z', s') \<in> set l \<union> set r" using assms(3,4) by auto
  then show ?thesis
    using tiles_disjoint [of a l b z s r e b' z' s'] assms(1) xs by (simp add: apart_def)
qed

lemma hole_rep_unique: "hole_rep s is fs \<Longrightarrow> hole_rep s js gs \<Longrightarrow> is = js \<and> fs = gs"
  by (auto simp: hole_rep_def free_holes_def dest: chain_deterministic)

text \<open>First fit decides whether \<open>Kmem_alloc\<close> has a region for the caller.\<close>

lemma heap_alloc_fit:
  assumes "heap lo hi s L" "hole_rep s is fs" "sz \<noteq> 0"
  shows "case first_fit (fs \<noteq> []) sz (blocks s is) of
      None \<Rightarrow> \<exists>s'. Kmem_alloc sz s = Some (0, s') \<and> heap lo hi s' L
    | Some (a, bs') \<Rightarrow> \<exists>s'. a \<noteq> 0 \<and> Kmem_alloc sz s = Some (a, s') \<and> heap lo hi s' (insert (a, sz) L)
        \<and> (\<forall>r \<in> L. apart (a, sz) r) \<and> lo \<le> unat a \<and> unat a + unat sz \<le> hi \<and> ief s' = ief s"
proof -
  have h: "0 < lo" "hi < 2 ^ 32" "tiles lo (blocks s is) hi" "coalesced (blocks s is)" "L = set (busy_blocks (blocks s is))"
    using assms(1) hole_rep_unique [OF assms(2)] by (auto elim!: heapE)
  have out: "alloc_outcome (ief s) sz (s\<lparr>ief := False\<rparr>) [] is fs (Kmem_alloc sz s)"
    using Kmem_alloc_outcome [OF assms(2,3)] .
  show ?thesis
  proof (cases "first_fit (fs \<noteq> []) sz (blocks s is)")
    case None
    with out assms(1) show ?thesis by (auto simp: alloc_outcome_def)
  next
    case (Some r)
    obtain a bs' where r: "r = (a, bs')" by (cases r)
    note ff = Some [unfolded r]
    obtain s' is' fs' where s': "Kmem_alloc sz s = Some (a, s')" "hole_rep s' is' fs'"
        "blocks s' is' = bs'" "ief s' = ief s"
      using out ff by (auto simp: alloc_outcome_def)
    have pos: "0 < sz" using assms(3) by (simp add: word_neq_0_conv)
    have t': "tiles lo bs' hi" using first_fit_tiles [OF ff h(3,2) pos] .
    obtain l r' where busy: "busy_blocks (blocks s is) = l @ r'" "busy_blocks bs' = l @ (a, sz) # r'"
      using first_fit_busy [OF ff] by blast
    then have mem: "(a, sz, STAT_BUSY) \<in> set bs'"
      by (simp flip: busy_blocks_mem)
    have rng: "lo \<le> unat a" "unat a + unat sz \<le> hi" using tiles_in [OF t' mem] by auto
    have "heap lo hi s' (insert (a, sz) L)"
      using h t' s' first_fit_coalesced [OF ff] busy by (intro heapI) auto
    moreover have "\<forall>q \<in> L. apart (a, sz) q"
      using first_fit_disjoint [OF ff h(3)] h(5) by (auto simp: apart_def)
    moreover have "a \<noteq> 0" using rng(1) h(1) by auto
    ultimately show ?thesis using s' rng ff by auto
  qed
qed

lemma heap_alloc:
  assumes "heap lo hi s L" "sz \<noteq> 0"
  shows "\<exists>a s'. Kmem_alloc sz s = Some (a, s') \<and>
    (if a = 0 then heap lo hi s' L
     else heap lo hi s' (insert (a, sz) L) \<and> (\<forall>r \<in> L. apart (a, sz) r) \<and>
          lo \<le> unat a \<and> unat a + unat sz \<le> hi \<and> ief s' = ief s)"
proof -
  obtain "is" fs where "hole_rep s is fs" using assms(1) by (rule heapE)
  from heap_alloc_fit [OF assms(1) this assms(2)] show ?thesis
    by (cases "first_fit (fs \<noteq> []) sz (blocks s is)") auto
qed

lemma heap_free:
  assumes "heap lo hi s L" "(a, z) \<in> L"
  shows "\<exists>s'. Kmem_free a s = Some s' \<and> heap lo hi s' (L - {(a, z)}) \<and> ief s' = ief s"
proof -
  obtain "is" fs where h: "0 < lo" "hi < 2 ^ 32" "hole_rep s is fs" "tiles lo (blocks s is) hi"
    "coalesced (blocks s is)" "L = set (busy_blocks (blocks s is))"
    using assms(1) by (rule heapE)
  obtain pre post where bs: "blocks s is = pre @ (a, z, STAT_BUSY) # post"
    using assms(2) h(6) by (metis busy_blocks_mem split_list)
  obtain s' is' fs' where s': "Kmem_free a s = Some s'" "hole_rep s' is' fs'"
      "blocks s' is' = free_block a (blocks s is)" "ief s' = ief s"
    using Kmem_free_refines [OF h(3)] by blast
  note t = h(4) [unfolded bs]
  have "(a, z) \<notin> set (busy_blocks pre) \<union> set (busy_blocks post)"
    using tiles_unique_base [OF t, of z STAT_BUSY] by (simp add: busy_blocks_mem)
  moreover have "L = insert (a, z) (set (busy_blocks pre) \<union> set (busy_blocks post))"
    using h(6) bs by simp
  moreover have "busy_blocks (blocks s' is') = busy_blocks pre @ busy_blocks post"
    using free_block_busy [OF t] s'(3) bs by simp
  ultimately have L: "L - {(a, z)} = set (busy_blocks (blocks s' is'))" by auto
  have "heap lo hi s' (L - {(a, z)})"
    using free_block_tiles [OF t h(2)] free_block_coalesced [OF t] h(1,2,5) s' bs L
    by (intro heapI [of lo hi s' is' fs']) auto
  with s' show ?thesis by blast
qed

lemma heap_free_other:
  assumes "heap lo hi s L" "a \<notin> fst ` L"
  shows "\<exists>s'. Kmem_free a s = Some s' \<and> heap lo hi s' L"
proof -
  obtain "is" fs where h: "0 < lo" "hi < 2 ^ 32" "hole_rep s is fs" "tiles lo (blocks s is) hi"
    "coalesced (blocks s is)" "L = set (busy_blocks (blocks s is))"
    using assms(1) by (rule heapE)
  obtain s' is' fs' where s': "Kmem_free a s = Some s'" "hole_rep s' is' fs'"
      "blocks s' is' = free_block a (blocks s is)"
    using Kmem_free_refines [OF h(3)] by blast
  have "\<forall>x \<in> set (blocks s is). \<not> is_busy_at a x"
  proof
    fix x
    assume x: "x \<in> set (blocks s is)"
    obtain b z st where "x = (b, z, st)" by (cases x) auto
    moreover have "(a, z) \<notin> L" using assms(2) by force
    ultimately show "\<not> is_busy_at a x" using x h(6) by (auto simp: busy_blocks_mem)
  qed
  then have "blocks s' is' = blocks s is" using s'(3) by (simp add: free_block_not_busy)
  then have "heap lo hi s' L" using h s' by (intro heapI) auto
  with s' show ?thesis by blast
qed

lemma heap_live_apart:
  assumes "heap lo hi s L" "r \<in> L" "q \<in> L" "r \<noteq> q"
  shows "apart r q"
proof -
  obtain "is" fs where h: "tiles lo (blocks s is) hi" "L = set (busy_blocks (blocks s is))"
    using assms(1) by (rule heapE)
  obtain b z where r: "r = (b, z)" by (cases r)
  obtain b' z' where q: "q = (b', z')" by (cases q)
  show ?thesis
    using tiles_mem_apart [OF h(1), of b z STAT_BUSY b' z' STAT_BUSY] assms(2-4) h(2) r q
    by (simp add: busy_blocks_mem)
qed

lemma heap_live_nonempty: "heap lo hi s L \<Longrightarrow> (a, z) \<in> L \<Longrightarrow> a \<noteq> 0 \<and> z \<noteq> 0"
  by (erule heapE) (fastforce simp: busy_blocks_mem dest: tiles_in tiles_mem_pos)

interpretation kmem: memory_manager Kmem_alloc Kmem_free "heap lo hi" for lo hi
proof unfold_locales
  fix s :: "'a kmem_scheme" and L :: "(u32 \<times> u32) set"
  assume h: "heap lo hi s L"
  show "\<exists>a s'. Kmem_alloc sz s = Some (a, s') \<and>
      (if a = 0 then heap lo hi s' L else heap lo hi s' (insert (a, sz) L) \<and> (\<forall>r \<in> L. apart (a, sz) r))"
    if "sz \<noteq> 0" for sz
    using heap_alloc [OF h that] by (auto split: if_splits)
  show "\<exists>s'. Kmem_free a s = Some s' \<and> heap lo hi s' (L - {(a, z)})" if "(a, z) \<in> L" for a z
    using heap_free [OF h that] by blast
  show "\<exists>s'. Kmem_free a s = Some s' \<and> heap lo hi s' L" if "a \<notin> fst ` L" for a
    using heap_free_other [OF h that] .
  show "apart r q" if "r \<in> L" "q \<in> L" "r \<noteq> q" for r q
    using heap_live_apart [OF h that] .
  show "a \<noteq> 0 \<and> z \<noteq> 0" if "(a, z) \<in> L" for a z
    using heap_live_nonempty [OF h that] .
qed

section \<open>The heap that mem_init makes\<close>

lemma link_holes_nth: "link_holes n hs i = (if i < n then (hs i)\<lparr>h_next := Some (Suc i)\<rparr> else hs i)"
  by (induction n) (auto simp: Let_def)

lemma init_hole_slot_free: "free_holes (init_hole_slot s) [0..<NR_HOLE]"
proof -
  have n: "0 < NR_HOLE" by (simp add: NR_HOLE_def)
  have "chain (nexts (init_hole_slot s)) (Some 0) [0..<NR_HOLE] =
      chain ((init_links (NR_HOLE - 1) (nexts s))(NR_HOLE - 1 := None)) (Some 0) [0..<NR_HOLE]"
    by (rule chain_cong) (auto simp: init_hole_slot_def nexts_def link_holes_nth init_links_nth Let_def)
  then show ?thesis
    using chain_init_links [OF n n] by (simp add: free_holes_def init_hole_slot_def Let_def)
qed

lemma mem_init_holes_rep:
  "hole_rep (mem_init_holes ext s) [0] [1..<NR_HOLE] \<and>
   blocks (mem_init_holes ext s) [0] = [(2 ^ 20, push_bit 10 ext + 1, STAT_FREE)] \<and>
   ief (mem_init_holes ext s) = ief s"
proof -
  let ?s0 = "(init_hole_slot s)\<lparr>h_head := None\<rparr>"
  have up: "[0..<NR_HOLE] = 0 # [1..<NR_HOLE]" by (simp add: NR_HOLE_def upt_conv_Cons)
  have "free_holes ?s0 (0 # [1..<NR_HOLE])"
    using init_hole_slot_free [of s] by (simp add: free_holes_def up)
  then obtain s1 where s1: "alloc_hole_slot ?s0 = (Some 0, s1)" "free_holes s1 [1..<NR_HOLE]"
    using hole_pool.alloc_cons by blast
  have hd: "h_head s1 = None" "ief s1 = ief s"
    using s1(1) by (auto simp: alloc_hole_slot_def init_hole_slot_def Let_def)
  have e: "mem_init_holes ext s = (set_hole 0 \<lparr>h_base = 2 ^ 20, h_size = push_bit 10 ext + 1,
      h_status = STAT_FREE, h_next = None\<rparr> s1)\<lparr>h_head := Some 0\<rparr>"
    using s1(1) by (simp add: mem_init_holes_def Let_def add.commute)
  have "set [0] \<union> set [1..<NR_HOLE] = {..<NR_HOLE}" by (auto simp: NR_HOLE_def)
  moreover have "free_holes (mem_init_holes ext s) [1..<NR_HOLE]"
    using s1(2) by (simp add: e free_holes_def)
  ultimately have "hole_rep (mem_init_holes ext s) [0] [1..<NR_HOLE]"
    by (simp add: hole_rep_def e)
  then show ?thesis using hd(2) by (simp add: e blocks_def block_of_def)
qed

lemma mem_init_holes_heap:
  assumes "2 ^ 20 + unat ext * 1024 + 1 < 2 ^ 32"
  shows "heap (2 ^ 20) (2 ^ 20 + unat ext * 1024 + 1) (mem_init_holes ext s) {}"
proof -
  have "unat (push_bit 10 ext) = unat ext * 1024"
    using assms by (simp add: push_bit_eq_mult unat_word_ariths)
  then have "unat (push_bit 10 ext + 1) = unat ext * 1024 + 1"
    using assms by (simp add: unat_word_ariths)
  then show ?thesis
    using mem_init_holes_rep [of ext s] assms by (intro heapI) auto
qed

end
