(* ===== verification/Memory_Props.thy ===== *)
theory Memory_Props
  imports Heap_Contract
begin

text \<open>
  The properties of \<open>Kmem_alloc\<close>, \<open>Kmem_free\<close> and the memory part of \<open>mem_init\<close>
  (\<^verbatim>\<open>ker/mem.c\<close>), each with an instance on the heap of a machine with 1 MB of extended memory.
\<close>

section \<open>A concrete machine\<close>

definition cold_kmem :: kmem where
  "cold_kmem = \<lparr>ief = True, mem_hole = (\<lambda>_. \<lparr>h_base = 0, h_size = 0, h_status = STAT_BUSY, h_next = None\<rparr>),
                h_head = None, slot_free = None\<rparr>"

definition warm_kmem :: kmem where
  "warm_kmem = mem_init_holes 1024 cold_kmem"

lemma warm_rep: "hole_rep warm_kmem [0] [1..<NR_HOLE]"
  "blocks warm_kmem [0] = [(1048576, 1048577, STAT_FREE)]" "ief warm_kmem"
  using mem_init_holes_rep [of 1024 cold_kmem]
  by (simp_all add: warm_kmem_def cold_kmem_def push_bit_eq_mult)

lemma warm_block [simp]: "block_of warm_kmem 0 = (1048576, 1048577, STAT_FREE)"
  using warm_rep(2) by simp

lemma warm_heap: "heap 1048576 2097153 warm_kmem {}"
  using mem_init_holes_heap [of 1024 cold_kmem] by (simp add: warm_kmem_def)

text \<open>The same machine with its 30 hole records used up: one record per byte, the last one free.\<close>

definition full_kmem :: kmem where
  "full_kmem = \<lparr>ief = True,
     mem_hole = (\<lambda>i. \<lparr>h_base = 2 ^ 20 + of_nat i, h_size = (if i = 29 then 100 else 1),
                      h_status = (if i = 29 then STAT_FREE else STAT_BUSY),
                      h_next = (if i < 29 then Some (Suc i) else None)\<rparr>),
     h_head = Some 0, slot_free = None\<rparr>"

lemma full_rep: "hole_rep full_kmem [0..<30] []"
proof -
  have "chain (nexts full_kmem) (h_head full_kmem) [0..<30]"
    using chain_init_links [of 30 0 "\<lambda>_. None"]
    by (subst chain_cong [of _ _ "(init_links (30 - 1) (\<lambda>_. None))(30 - 1 := None)"])
      (auto simp: full_kmem_def nexts_def init_links_nth)
  then show ?thesis
    by (auto simp: hole_rep_def free_holes_def NR_HOLE_def full_kmem_def)
qed

section \<open>Allocation\<close>

text \<open>
  Property C1: \<open>Kmem_alloc\<close> implements first fit on the list of blocks in address order: it
  returns the base of the first free block that is large enough, splits a larger one, keeps the
  pointer structure well formed and restores the interrupt flag; when first fit finds nothing it
  returns the null pointer and changes neither the list nor the records.
\<close>

theorem Kmem_alloc_first_fit:
  assumes "hole_rep s is fs" "sz \<noteq> 0"
  shows "case first_fit (fs \<noteq> []) sz (blocks s is) of
      None \<Rightarrow> Kmem_alloc sz s =
        Some (0, s\<lparr>ief := (ief s \<and> first_fit True sz (blocks s is) = None)\<rparr>)
    | Some (a, bs') \<Rightarrow> \<exists>s' is' fs'. Kmem_alloc sz s = Some (a, s') \<and> hole_rep s' is' fs' \<and>
        blocks s' is' = bs' \<and> ief s' = ief s"
  using Kmem_alloc_outcome [OF assms]
  by (cases "first_fit (fs \<noteq> []) sz (blocks s is)"; cases "first_fit True sz (blocks s is)")
    (auto simp: alloc_outcome_def)

theorem Kmem_alloc_first_fit_witness:
  "\<exists>s' is' fs'. Kmem_alloc 4096 warm_kmem = Some (1048576, s') \<and> hole_rep s' is' fs' \<and>
     blocks s' is' = [(1048576, 4096, STAT_BUSY), (1052672, 1044481, STAT_FREE)]"
proof -
  have "[1..<NR_HOLE] \<noteq> []" by (simp add: NR_HOLE_def)
  then show ?thesis
    using Kmem_alloc_first_fit [OF warm_rep(1), of 4096] by (auto simp: warm_rep(2))
qed

text \<open>
  An address that \<open>Kmem_alloc\<close> hands out is new. It lies inside the managed memory,
  the whole region of the requested size does, and it meets no region that is live; the heap
  stays well formed, with exactly this region added to the live ones.
\<close>

theorem Kmem_alloc_safe:
  assumes "heap lo hi s L" "sz \<noteq> 0"
  shows "\<exists>a s'. Kmem_alloc sz s = Some (a, s') \<and>
    (if a = 0 then heap lo hi s' L
     else heap lo hi s' (insert (a, sz) L) \<and> (\<forall>r \<in> L. apart (a, sz) r) \<and>
          lo \<le> unat a \<and> unat a + unat sz \<le> hi)"
  using heap_alloc [OF assms] by (auto split: if_splits)

theorem Kmem_alloc_safe_witness:
  "\<exists>a s'. Kmem_alloc 4096 warm_kmem = Some (a, s') \<and>
    (if a = 0 then heap 1048576 2097153 s' {}
     else heap 1048576 2097153 s' {(a, 4096)} \<and> 1048576 \<le> unat a \<and> unat a + 4096 \<le> 2097153)"
proof -
  have "(4096 :: u32) \<noteq> 0" "unat (4096 :: u32) = 4096" by simp_all
  then show ?thesis using Kmem_alloc_safe [OF warm_heap, of 4096] by (simp only: ball_simps simp_thms)
qed

text \<open>
  two regions that are live at the same time never overlap, even when the second one
  was allocated after the first.
\<close>

theorem Kmem_allocs_apart:
  assumes "heap lo hi s L" "sz \<noteq> 0" "Kmem_alloc sz s = Some (a, s1)" "a \<noteq> 0"
    and "sz' \<noteq> 0" "Kmem_alloc sz' s1 = Some (b, s2)" "b \<noteq> 0"
  shows "unat a + unat sz \<le> unat b \<or> unat b + unat sz' \<le> unat a"
  using kmem.two_allocs_apart [OF assms] by (auto simp: apart_def)

definition warm1_kmem :: kmem where
  "warm1_kmem = snd (the (Kmem_alloc 4096 warm_kmem))"

lemma warm1_alloc:
  "Kmem_alloc 4096 warm_kmem = Some (1048576, warm1_kmem)"
  "\<exists>is fs. hole_rep warm1_kmem is fs \<and> fs \<noteq> [] \<and>
     blocks warm1_kmem is = [(1048576, 4096, STAT_BUSY), (1052672, 1044481, STAT_FREE)]"
proof -
  have "[1..<NR_HOLE] \<noteq> []" by (simp add: NR_HOLE_def)
  then obtain s' is' fs' where r: "Kmem_alloc 4096 warm_kmem = Some (1048576, s')" "hole_rep s' is' fs'"
     "blocks s' is' = [(1048576, 4096, STAT_BUSY), (1052672, 1044481, STAT_FREE)]"
    using Kmem_alloc_outcome [OF warm_rep(1), of 4096] by (auto simp: alloc_outcome_def warm_rep(2))
  then have s': "s' = warm1_kmem" by (simp add: warm1_kmem_def)
  have "length is' = 2" using arg_cong [OF r(3), of length] by (simp add: blocks_def)
  then have "fs' \<noteq> []" using hole_rep_count [OF r(2)] by (auto simp: NR_HOLE_def)
  then show "Kmem_alloc 4096 warm_kmem = Some (1048576, warm1_kmem)"
    "\<exists>is fs. hole_rep warm1_kmem is fs \<and> fs \<noteq> [] \<and>
     blocks warm1_kmem is = [(1048576, 4096, STAT_BUSY), (1052672, 1044481, STAT_FREE)]"
    using r s' by auto
qed

lemma warm1_heap: "heap 1048576 2097153 warm1_kmem {(1048576, 4096)}"
  using kmem.alloc_keeps_live [OF warm_heap _ warm1_alloc(1)] by simp

lemma warm2_alloc: "\<exists>s2. Kmem_alloc 100 warm1_kmem = Some (1052672, s2)"
proof -
  obtain "is" fs where r: "hole_rep warm1_kmem is fs" "fs \<noteq> []"
     "blocks warm1_kmem is = [(1048576, 4096, STAT_BUSY), (1052672, 1044481, STAT_FREE)]"
    using warm1_alloc(2) by blast
  then show ?thesis
    using Kmem_alloc_outcome [OF r(1), of 100] by (auto simp: alloc_outcome_def)
qed

theorem Kmem_allocs_apart_witness:
  "\<exists>s2. Kmem_alloc 4096 warm_kmem = Some (1048576, warm1_kmem) \<and>
     Kmem_alloc 100 warm1_kmem = Some (1052672, s2) \<and>
     (unat (1048576 :: u32) + unat (4096 :: u32) \<le> unat (1052672 :: u32) \<or>
      unat (1052672 :: u32) + unat (100 :: u32) \<le> unat (1048576 :: u32))"
proof -
  obtain s2 where s2: "Kmem_alloc 100 warm1_kmem = Some (1052672, s2)"
    using warm2_alloc by blast
  show ?thesis
    using Kmem_allocs_apart [OF warm_heap _ warm1_alloc(1) _ _ s2] warm1_alloc(1) s2 by simp
qed

text \<open>
  when a block is large enough but must be split and all 30 hole records are in use,
  \<open>Kmem_alloc\<close> returns the null pointer on a path that skips \<open>unlock_irq_restore\<close>: the caller
  goes on with interrupts disabled. (When no block is large enough, the flag is restored.)
\<close>

theorem Kmem_alloc_leaves_irq_off:
  assumes "hole_rep s is []" "sz \<noteq> 0" "first_fit False sz (blocks s is) = None"
    and "(b, z, STAT_FREE) \<in> set (blocks s is)" "sz \<le> z"
  shows "Kmem_alloc sz s = Some (0, s\<lparr>ief := False\<rparr>)"
proof -
  have "first_fit True sz (blocks s is) \<noteq> None"
  proof
    assume "first_fit True sz (blocks s is) = None"
    then have "z < sz" using assms(4) by (auto simp: first_fit_None_iff)
    with assms(5) show False by simp
  qed
  then show ?thesis
    using Kmem_alloc_outcome [OF assms(1,2)] assms(3) by (auto simp: alloc_outcome_def)
qed

lemma full_blocks:
  "first_fit False 50 (blocks full_kmem [0..<30]) = None"
  "(2 ^ 20 + 29, 100, STAT_FREE) \<in> set (blocks full_kmem [0..<30])"
proof -
  have "[0..<30] = [0..<29] @ [29::nat]" by (simp add: upt_rec)
  then have b: "blocks full_kmem [0..<30] = blocks full_kmem [0..<29] @ [(2 ^ 20 + 29, 100, STAT_FREE)]"
    by (simp add: block_of_def full_kmem_def)
  have "\<forall>x \<in> set (blocks full_kmem [0..<29]). snd (snd x) = STAT_BUSY"
    by (auto simp: blocks_def block_of_def full_kmem_def)
  then have "first_fit False 50 (blocks full_kmem [0..<29] @ [(2 ^ 20 + 29, 100, STAT_FREE)]) = None"
    by (simp add: first_fit_skip_busy)
  then show "first_fit False 50 (blocks full_kmem [0..<30]) = None" using b by simp
  show "(2 ^ 20 + 29, 100, STAT_FREE) \<in> set (blocks full_kmem [0..<30])" by (simp add: b)
qed

theorem Kmem_alloc_leaves_irq_off_witness:
  "ief full_kmem \<and> (\<exists>s'. Kmem_alloc 50 full_kmem = Some (0, s') \<and> \<not> ief s')"
  using Kmem_alloc_leaves_irq_off [OF full_rep _ full_blocks] by (simp add: full_kmem_def)

section \<open>Deallocation\<close>

text \<open>
  Property C2: \<open>Kmem_free\<close> turns the busy block with the given base free and merges it with a
  free successor and a free predecessor, on every shape of the list, and it ignores an address
  that no busy block has. It always returns, with the interrupt flag restored.
\<close>

theorem Kmem_free_merges:
  assumes "hole_rep s is fs"
  shows "\<exists>s' is' fs'. Kmem_free a s = Some s' \<and> hole_rep s' is' fs' \<and>
     blocks s' is' = free_block a (blocks s is) \<and> ief s' = ief s"
  using Kmem_free_refines [OF assms] .

theorem Kmem_free_merges_witness:
  "\<exists>s' is' fs'. Kmem_free 1048576 warm1_kmem = Some s' \<and> hole_rep s' is' fs' \<and>
     blocks s' is' = [(1048576, 1048577, STAT_FREE)]"
proof -
  obtain "is" fs where r: "hole_rep warm1_kmem is fs"
     "blocks warm1_kmem is = [(1048576, 4096, STAT_BUSY), (1052672, 1044481, STAT_FREE)]"
    using warm1_alloc(2) by blast
  then show ?thesis
    using Kmem_free_merges [OF r(1), of 1048576] by auto
qed

text \<open>
  Property C34: freeing what was just allocated gives back the block list that was there before,
  block for block, so no fragmentation is left behind.
\<close>

theorem Kmem_alloc_free_roundtrip:
  assumes rep: "hole_rep s is fs" and t: "tiles lo (blocks s is) hi" "0 < lo" "hi < 2 ^ 32"
    and c: "coalesced (blocks s is)" and a: "sz \<noteq> 0" "Kmem_alloc sz s = Some (a, s1)" "a \<noteq> 0"
  shows "\<exists>s2 is2 fs2. Kmem_free a s1 = Some s2 \<and> hole_rep s2 is2 fs2 \<and> blocks s2 is2 = blocks s is"
proof -
  have sz: "0 < sz" using a(1) by (simp add: word_neq_0_conv)
  obtain is1 fs1 where s1: "hole_rep s1 is1 fs1"
      "first_fit (fs \<noteq> []) sz (blocks s is) = Some (a, blocks s1 is1)"
    using Kmem_alloc_outcome [OF rep a(1)] a(2,3)
    by (auto simp: alloc_outcome_def split: option.splits)
  have "free_block a (blocks s1 is1) = blocks s is"
    using first_fit_then_free [OF s1(2) t(1,3) c sz] .
  then show ?thesis using Kmem_free_refines [OF s1(1), of a] by metis
qed

theorem Kmem_alloc_free_roundtrip_witness:
  "\<exists>s2 is2 fs2. Kmem_free 1048576 warm1_kmem = Some s2 \<and> hole_rep s2 is2 fs2 \<and>
     blocks s2 is2 = blocks warm_kmem [0]"
  using Kmem_alloc_free_roundtrip [OF warm_rep(1) _ _ _ _ _ warm1_alloc(1), of 1048576 2097153]
  by (simp add: warm_rep(2))

section \<open>From boot on\<close>

text \<open>Any sequence of calls, with any arguments.\<close>

inductive kmem_run :: "'a kmem_scheme \<Rightarrow> 'a kmem_scheme \<Rightarrow> bool" where
  run_start: "kmem_run s s"
| run_alloc: "kmem_run s t \<Longrightarrow> Kmem_alloc sz t = Some (a, u) \<Longrightarrow> kmem_run s u"
| run_free: "kmem_run s t \<Longrightarrow> Kmem_free a t = Some u \<Longrightarrow> kmem_run s u"

inductive_cases kmem_run_from: "kmem_run s t"

lemma kmem_run_heap: "kmem_run s t \<Longrightarrow> heap lo hi s L \<Longrightarrow> \<exists>L'. heap lo hi t L'"
proof (induction rule: kmem_run.induct)
  case (run_start s)
  then show ?case by blast
next
  case (run_alloc s t sz a u)
  show ?case
  proof (cases "sz = 0")
    case True
    with run_alloc show ?thesis by (auto simp: Kmem_alloc_def)
  next
    case False
    with run_alloc show ?thesis using kmem.alloc_keeps_live by blast
  qed
next
  case (run_free s t a u)
  then show ?case using kmem.free_keeps by blast
qed

text \<open>
  Property C3: from boot on, whatever addresses and sizes are passed in whatever order, the hole
  list stays well formed: its blocks tile the managed memory exactly, neighbouring free blocks
  are merged, every record is on exactly one list, and both calls return.
\<close>

theorem kmem_invariant:
  assumes "2 ^ 20 + unat ext * 1024 + 1 < 2 ^ 32" "kmem_run (mem_init_holes ext s0) s"
  shows "(\<exists>L. heap (2 ^ 20) (2 ^ 20 + unat ext * 1024 + 1) s L) \<and>
         Kmem_alloc sz s \<noteq> None \<and> Kmem_free a s \<noteq> None"
proof -
  obtain L where L: "heap (2 ^ 20) (2 ^ 20 + unat ext * 1024 + 1) s L"
    using kmem_run_heap [OF assms(2) mem_init_holes_heap [OF assms(1)]] by blast
  then obtain "is" fs where "hole_rep s is fs" by (auto simp: heap_def)
  then have "Kmem_free a s \<noteq> None" using Kmem_free_refines [of s "is" fs a] by auto
  moreover have "Kmem_alloc sz s \<noteq> None"
    using kmem.alloc_returns [OF L, of sz] by (cases "sz = 0") (auto simp: Kmem_alloc_def)
  ultimately show ?thesis using L by blast
qed

theorem kmem_invariant_witness:
  "(\<exists>L. heap 1048576 2097153 warm1_kmem L) \<and> Kmem_alloc 7 warm1_kmem \<noteq> None \<and>
     Kmem_free 12345 warm1_kmem \<noteq> None"
proof -
  have "kmem_run (mem_init_holes 1024 cold_kmem) warm1_kmem"
    using kmem_run.run_alloc [OF kmem_run.run_start] warm1_alloc(1) by (fold warm_kmem_def) blast
  then show ?thesis using kmem_invariant [of 1024 cold_kmem warm1_kmem 7 12345] by simp
qed

text \<open>
  \<open>mem_init\<close> makes one free hole that starts at 1 MB, but one byte longer than the
  extended memory that the boot sector reported: the last byte it manages is not there.
\<close>

theorem mem_init_one_byte_too_many:
  assumes "2 ^ 20 + unat ext * 1024 + 1 < 2 ^ 32"
  shows "\<exists>is fs z. hole_rep (mem_init_holes ext s) is fs \<and>
     blocks (mem_init_holes ext s) is = [(2 ^ 20, z, STAT_FREE)] \<and>
     unat z = unat ext * 1024 + 1"
proof -
  have "unat (push_bit 10 ext) = unat ext * 1024"
    using assms by (simp add: push_bit_eq_mult unat_word_ariths)
  then have "unat (push_bit 10 ext + 1) = unat ext * 1024 + 1"
    using assms by (simp add: unat_word_ariths)
  then show ?thesis using mem_init_holes_rep [of ext s] by blast
qed

theorem mem_init_one_byte_too_many_witness:
  "\<exists>is fs z. hole_rep warm_kmem is fs \<and> blocks warm_kmem is = [(2 ^ 20, z, STAT_FREE)] \<and>
     unat z = 1048577"
  using mem_init_one_byte_too_many [of 1024 cold_kmem] by (simp add: warm_kmem_def)

end
