(* ===== verification/Pages.thy ===== *)
theory Pages
  imports Holes
begin

text \<open>
  The small-object allocator of \<^verbatim>\<open>ker/mem.c\<close>: \<open>kmalloc\<close> and \<open>kfree\<close> on 128 pages of 1024 bytes. The
  array \<open>kmem_page\<close> has one word per page: the first page of a run holds 0 when the run is
  free and the requested size in bytes when it is used, and every further page of the run holds
  the mark \<open>PAGE_S_CONT\<close>. The first half is the code; the second half reads the array as a list
  of runs.
\<close>

section \<open>The code\<close>

definition PAGE_SIZE :: u32 where "PAGE_SIZE = 1024"
definition NR_PAGES :: nat where "NR_PAGES = 128"
definition PAGE_S_CONT :: u32 where "PAGE_S_CONT = NOT 0"
definition PAGE_S_FREE :: u32 where "PAGE_S_FREE = 0"

record kpages = kmem +
  kmem_page :: "u32 list"
  kmem_base :: u32

definition kmem_page_init :: "'a kpages_scheme \<Rightarrow> 'a kpages_scheme" where
  "kmem_page_init s = s\<lparr>kmem_page := (replicate NR_PAGES PAGE_S_CONT)[0 := PAGE_S_FREE]\<rparr>"

definition calc_count :: "u32 \<Rightarrow> u32" where
  "calc_count sz = (let count = sz div PAGE_SIZE in
     if 0 < sz mod PAGE_SIZE then count + 1 else count)"

text \<open>
  The search loop. \<open>i\<close> is the page that \<open>pptr\<close> points to, \<open>free_h\<close> the last free run's first
  page, \<open>tmp_c\<close> the pages counted since. The loop runs one page too far, so that a search which
  finds nothing reads past the array; so does a successful one that ends on the last page, when
  it looks at the page behind. A page that starts a used run resets neither \<open>tmp_c\<close> nor \<open>a_flag\<close>.
\<close>

function kmalloc_loop ::
  "u32 \<Rightarrow> nat \<Rightarrow> nat \<Rightarrow> nat \<Rightarrow> bool \<Rightarrow> nat \<Rightarrow> u32 list \<Rightarrow> (nat option \<times> u32 list) res" where
  "kmalloc_loop sz count i tmp_c a_flag free_h ps =
     (if i \<le> NR_PAGES then
        res_bind (rd ps i) (\<lambda>v.
          let (tmp_c, a_flag, free_h) =
            (if v = PAGE_S_FREE then (1, True, i)
             else if v = PAGE_S_CONT \<and> a_flag then (tmp_c + 1, a_flag, free_h)
             else (tmp_c, a_flag, free_h))
          in if tmp_c = count then
               res_bind (wr ps free_h sz) (\<lambda>ps1.
               res_bind (rd ps1 (i + 1)) (\<lambda>nxt.
               res_bind (if nxt = PAGE_S_CONT then wr ps1 (i + 1) PAGE_S_FREE else Inr ps1) (\<lambda>ps2.
               Inr (Some free_h, ps2))))
             else kmalloc_loop sz count (i + 1) tmp_c a_flag free_h ps)
      else Inr (None, ps))"
  by pat_completeness auto
termination
  by (relation "measure (\<lambda>(sz, count, i, _). Suc NR_PAGES - i)") auto

declare kmalloc_loop.simps [simp del]

text \<open>The exit with a page found does not restore the interrupt flag.\<close>

definition kmalloc :: "u32 \<Rightarrow> 'a kpages_scheme \<Rightarrow> (u32 \<times> 'a kpages_scheme) res" where
  "kmalloc sz s =
     (let count = unat (calc_count sz); (flags, s1) = lock_irq_save s in
      res_bind (kmalloc_loop sz count 0 0 False 0 (kmem_page s1)) (\<lambda>(r, ps).
        case r of
          Some free_h \<Rightarrow> Inr (kmem_base s1 + of_nat free_h * PAGE_SIZE, s1\<lparr>kmem_page := ps\<rparr>)
        | None \<Rightarrow> Inr (0, unlock_irq_restore flags s1)))"

text \<open>The backward search for the start of the previous run.\<close>

primrec run_start :: "u32 list \<Rightarrow> nat \<Rightarrow> nat res" where
  "run_start ps 0 = res_bind (rd ps 0) (\<lambda>v. if v = PAGE_S_CONT then Inl Out_of_bounds else Inr 0)"
| "run_start ps (Suc t) =
     res_bind (rd ps (Suc t)) (\<lambda>v. if v = PAGE_S_CONT then run_start ps t else Inr (Suc t))"

definition kfree_pages :: "nat \<Rightarrow> u32 list \<Rightarrow> u32 list res" where
  "kfree_pages start ps =
     res_bind (rd ps start) (\<lambda>sz.
     let end1 = start + unat (calc_count sz) in
     res_bind
       (if start \<noteq> 0 then
          res_bind (run_start ps (start - 1)) (\<lambda>tmp.
          res_bind (rd ps tmp) (\<lambda>v.
            wr ps start (if v = PAGE_S_FREE then PAGE_S_CONT else PAGE_S_FREE)))
        else wr ps start PAGE_S_FREE) (\<lambda>ps1.
     if end1 \<noteq> NR_PAGES + 1 then
       res_bind (rd ps1 end1) (\<lambda>v.
         if v = PAGE_S_FREE then wr ps1 end1 PAGE_S_CONT else Inr ps1)
     else Inr ps1))"

definition kfree :: "u32 \<Rightarrow> 'a kpages_scheme \<Rightarrow> 'a kpages_scheme res" where
  "kfree base s =
     (let (flags, s1) = lock_irq_save s;
          index = (base - kmem_base s1) div PAGE_SIZE
      in res_bind (kfree_pages (unat index) (kmem_page s1)) (\<lambda>ps.
         Inr (unlock_irq_restore flags (s1\<lparr>kmem_page := ps\<rparr>))))"

text \<open>
  The whole of \<open>mem_init\<close>: the holes, then 128 KB taken from them for the pages, or a panic.
\<close>

definition mem_init :: "u32 \<Rightarrow> 'a kpages_scheme \<Rightarrow> 'a kpages_scheme res option" where
  "mem_init ext_mem_size s =
     map_option (\<lambda>(base, s2).
       if base = 0 then Inl (Panic ''cannot alloc for kernel'')
       else Inr (kmem_page_init (s2\<lparr>kmem_base := base\<rparr>)))
     (Kmem_alloc (PAGE_SIZE * of_nat NR_PAGES) (mem_init_holes ext_mem_size s))"

lemmas pages_consts = PAGE_SIZE_def NR_PAGES_def PAGE_S_CONT_def PAGE_S_FREE_def

lemma cont_not_free [simp]: "PAGE_S_CONT \<noteq> PAGE_S_FREE" "PAGE_S_FREE \<noteq> PAGE_S_CONT"
  by (simp_all add: pages_consts)

section \<open>The array as a list of runs\<close>

text \<open>
  A run is free with a number of pages, or used by a request of a size in bytes.
\<close>

datatype run = Free nat | Used u32

definition pages_of :: "u32 \<Rightarrow> nat" where
  "pages_of sz = unat (calc_count sz)"

lemma pages_of_ceil: "pages_of sz = (unat sz + 1023) div 1024"
proof -
  have "unat (sz div 1024 + 1) = unat sz div 1024 + 1"
  proof -
    have "unat sz < 2 ^ 32" using unsigned_less [of sz] by simp
    then have "unat sz div 1024 + 1 < 2 ^ 32" by auto
    then show ?thesis by (simp add: unat_word_ariths unat_div)
  qed
  moreover have "(0 < sz mod 1024) = (0 < unat sz mod 1024)"
    by (simp add: word_less_nat_alt unat_mod)
  moreover have "unat (sz div 1024) = unat sz div 1024" by (simp add: unat_div)
  ultimately show ?thesis
    using nat_ceil_div [of 1024 "unat sz"]
    by (simp add: pages_of_def calc_count_def PAGE_SIZE_def Let_def add.commute)
qed

lemma pages_of_pos: "sz \<noteq> 0 \<Longrightarrow> 0 < pages_of sz"
  by (simp add: pages_of_ceil div_greater_zero_iff unat_gt_0 Suc_le_eq)

fun run_pages :: "run \<Rightarrow> u32 list" where
  "run_pages (Free n) = PAGE_S_FREE # replicate (n - 1) PAGE_S_CONT"
| "run_pages (Used sz) = sz # replicate (pages_of sz - 1) PAGE_S_CONT"

fun run_len :: "run \<Rightarrow> nat" where
  "run_len (Free n) = n"
| "run_len (Used sz) = pages_of sz"

fun run_ok :: "run \<Rightarrow> bool" where
  "run_ok (Free n) \<longleftrightarrow> 0 < n"
| "run_ok (Used sz) \<longleftrightarrow> sz \<noteq> 0 \<and> sz \<noteq> PAGE_S_CONT"

definition layout :: "run list \<Rightarrow> u32 list" where
  "layout rs = concat (map run_pages rs)"

definition runs_ok :: "run list \<Rightarrow> bool" where
  "runs_ok rs \<longleftrightarrow> list_all run_ok rs"

lemma layout_simps [simp]:
  "layout [] = []" "layout (r # rs) = run_pages r @ layout rs"
  "layout (rs @ qs) = layout rs @ layout qs"
  by (simp_all add: layout_def)

lemma runs_ok_simps [simp]:
  "runs_ok []" "runs_ok (r # rs) \<longleftrightarrow> run_ok r \<and> runs_ok rs"
  "runs_ok (rs @ qs) \<longleftrightarrow> runs_ok rs \<and> runs_ok qs"
  by (simp_all add: runs_ok_def)

lemma length_run_pages: "run_ok r \<Longrightarrow> length (run_pages r) = run_len r"
  by (cases r) (auto dest: pages_of_pos)

lemma run_len_pos: "run_ok r \<Longrightarrow> 0 < run_len r"
  by (cases r) (auto dest: pages_of_pos)

section \<open>The search loop on runs\<close>

definition kmalloc_found :: "u32 \<Rightarrow> nat \<Rightarrow> nat \<Rightarrow> u32 list \<Rightarrow> (nat option \<times> u32 list) res" where
  "kmalloc_found sz free_h i ps =
     res_bind (wr ps free_h sz) (\<lambda>ps1.
     res_bind (rd ps1 (i + 1)) (\<lambda>nxt.
     res_bind (if nxt = PAGE_S_CONT then wr ps1 (i + 1) PAGE_S_FREE else Inr ps1) (\<lambda>ps2.
     Inr (Some free_h, ps2))))"

lemma loop_out: "length ps \<le> i \<Longrightarrow> i \<le> NR_PAGES \<Longrightarrow>
    kmalloc_loop sz c i k fl h ps = Inl Out_of_bounds"
  by (subst kmalloc_loop.simps) simp

lemma loop_free:
  assumes "i < length ps" "i \<le> NR_PAGES" "ps ! i = PAGE_S_FREE"
  shows "kmalloc_loop sz c i k fl h ps =
    (if c = 1 then kmalloc_found sz i i ps else kmalloc_loop sz c (i + 1) 1 True i ps)"
  by (subst kmalloc_loop.simps) (use assms in \<open>auto simp: kmalloc_found_def\<close>)

lemma loop_cont:
  assumes "i < length ps" "i \<le> NR_PAGES" "ps ! i = PAGE_S_CONT"
  shows "kmalloc_loop sz c i k fl h ps =
    (let k' = (if fl then k + 1 else k) in
     if k' = c then kmalloc_found sz h i ps else kmalloc_loop sz c (i + 1) k' fl h ps)"
  by (subst kmalloc_loop.simps) (use assms in \<open>auto simp: kmalloc_found_def Let_def\<close>)

lemma loop_used:
  assumes "i < length ps" "i \<le> NR_PAGES" "ps ! i \<noteq> PAGE_S_FREE" "ps ! i \<noteq> PAGE_S_CONT"
  shows "kmalloc_loop sz c i k fl h ps =
    (if k = c then kmalloc_found sz h i ps else kmalloc_loop sz c (i + 1) k fl h ps)"
  by (subst kmalloc_loop.simps) (use assms in \<open>auto simp: kmalloc_found_def\<close>)

text \<open>Continuation pages are counted one by one once a free run has been seen.\<close>

lemma loop_conts:
  assumes "ps = as @ replicate n PAGE_S_CONT @ bs" "length as + n \<le> NR_PAGES" "k < c"
  shows "kmalloc_loop sz c (length as) k True h ps =
    (if k + n < c then kmalloc_loop sz c (length as + n) (k + n) True h ps
     else kmalloc_found sz h (length as + (c - k) - 1) ps)"
  using assms
proof (induction n arbitrary: as k)
  case 0
  then show ?case by simp
next
  case (Suc n)
  have step: "kmalloc_loop sz c (length as) k True h ps =
      (if k + 1 = c then kmalloc_found sz h (length as) ps
       else kmalloc_loop sz c (length as + 1) (k + 1) True h ps)"
    using Suc.prems by (simp add: loop_cont)
  show ?case
  proof (cases "k + 1 = c")
    case True
    with step show ?thesis by auto
  next
    case False
    have "ps = (as @ [PAGE_S_CONT]) @ replicate n PAGE_S_CONT @ bs" using Suc.prems by simp
    with Suc.IH [of "as @ [PAGE_S_CONT]" "k + 1"] Suc.prems False step show ?thesis
      by (auto simp: algebra_simps)
  qed
qed

lemma loop_conts_unflagged:
  assumes "ps = as @ replicate n PAGE_S_CONT @ bs" "length as + n \<le> NR_PAGES" "k \<noteq> c"
  shows "kmalloc_loop sz c (length as) k False h ps =
    kmalloc_loop sz c (length as + n) k False h ps"
  using assms
proof (induction n arbitrary: as)
  case 0
  then show ?case by simp
next
  case (Suc n)
  have "ps = (as @ [PAGE_S_CONT]) @ replicate n PAGE_S_CONT @ bs" using Suc.prems by simp
  with Suc.IH [of "as @ [PAGE_S_CONT]"] Suc.prems show ?case
    by (simp add: loop_cont Let_def)
qed

text \<open>
  The state of the search between two runs: the count, and whether a free run has been seen. The
  count that the code keeps runs on over the continuation pages of used runs.
\<close>

fun skip_run :: "nat \<Rightarrow> nat \<times> bool \<Rightarrow> run \<Rightarrow> (nat \<times> bool) option" where
  "skip_run c (k, fl) (Free n) = (if n < c then Some (n, True) else None)"
| "skip_run c (k, fl) (Used z) =
     (if \<not> fl then Some (k, fl)
      else if k + (pages_of z - 1) < c then Some (k + (pages_of z - 1), fl) else None)"

fun skip_runs :: "nat \<Rightarrow> nat \<times> bool \<Rightarrow> run list \<Rightarrow> (nat \<times> bool) option" where
  "skip_runs c st [] = Some st"
| "skip_runs c st (r # rs) = (case skip_run c st r of None \<Rightarrow> None | Some st' \<Rightarrow> skip_runs c st' rs)"

lemma loop_free_run:
  assumes "ps = as @ run_pages (Free n) @ bs" "0 < n" "length as + n \<le> NR_PAGES" "0 < c"
  shows "kmalloc_loop sz c (length as) k fl h ps =
    (if n < c then kmalloc_loop sz c (length as + n) n True (length as) ps
     else kmalloc_found sz (length as) (length as + c - 1) ps)"
proof -
  have hd: "kmalloc_loop sz c (length as) k fl h ps =
      (if c = 1 then kmalloc_found sz (length as) (length as) ps
       else kmalloc_loop sz c (length as + 1) 1 True (length as) ps)"
    using assms by (simp add: loop_free)
  show ?thesis
  proof (cases "c = 1")
    case True
    with hd assms show ?thesis by auto
  next
    case False
    have "ps = (as @ [PAGE_S_FREE]) @ replicate (n - 1) PAGE_S_CONT @ bs" using assms by simp
    then have "kmalloc_loop sz c (length (as @ [PAGE_S_FREE])) 1 True (length as) ps =
      (if 1 + (n - 1) < c
       then kmalloc_loop sz c (length (as @ [PAGE_S_FREE]) + (n - 1)) (1 + (n - 1)) True (length as) ps
       else kmalloc_found sz (length as) (length (as @ [PAGE_S_FREE]) + (c - 1) - 1) ps)"
      using assms False by (intro loop_conts) auto
    with hd False assms show ?thesis by auto
  qed
qed

lemma loop_used_run:
  assumes "ps = as @ run_pages (Used z) @ bs" "run_ok (Used z)" "length as + pages_of z \<le> NR_PAGES"
    and "k < c"
  shows "kmalloc_loop sz c (length as) k fl h ps =
    (if \<not> fl then kmalloc_loop sz c (length as + pages_of z) k fl h ps
     else if k + (pages_of z - 1) < c
     then kmalloc_loop sz c (length as + pages_of z) (k + (pages_of z - 1)) fl h ps
     else kmalloc_found sz h (length as + (c - k)) ps)"
proof -
  have z: "z \<noteq> PAGE_S_FREE" "z \<noteq> PAGE_S_CONT" "0 < pages_of z"
    using assms(2) pages_of_pos by (auto simp: PAGE_S_FREE_def)
  have hd: "kmalloc_loop sz c (length as) k fl h ps = kmalloc_loop sz c (length as + 1) k fl h ps"
    using assms z by (subst loop_used) auto
  have ps: "ps = (as @ [z]) @ replicate (pages_of z - 1) PAGE_S_CONT @ bs" using assms(1) by simp
  show ?thesis
  proof (cases fl)
    case True
    have "kmalloc_loop sz c (length (as @ [z])) k True h ps =
      (if k + (pages_of z - 1) < c
       then kmalloc_loop sz c (length (as @ [z]) + (pages_of z - 1)) (k + (pages_of z - 1)) True h ps
       else kmalloc_found sz h (length (as @ [z]) + (c - k) - 1) ps)"
      using ps assms z by (intro loop_conts) auto
    with True hd z show ?thesis by simp
  next
    case False
    have "kmalloc_loop sz c (length (as @ [z])) k False h ps =
        kmalloc_loop sz c (length (as @ [z]) + (pages_of z - 1)) k False h ps"
      using ps assms z by (intro loop_conts_unflagged) auto
    with False hd z show ?thesis by simp
  qed
qed

fun last_free :: "nat \<Rightarrow> nat \<Rightarrow> run list \<Rightarrow> nat" where
  "last_free i h [] = h"
| "last_free i h (Free n # rs) = last_free (i + n) i rs"
| "last_free i h (Used z # rs) = last_free (i + pages_of z) h rs"

lemma loop_skip_run:
  assumes "ps = as @ run_pages r @ bs" "run_ok r" "length as + run_len r \<le> NR_PAGES"
    and "k < c" "skip_run c (k, fl) r = Some (k', fl')"
  shows "k' < c \<and> kmalloc_loop sz c (length as) k fl h ps =
     kmalloc_loop sz c (length as + run_len r) k' fl' (last_free (length as) h [r]) ps"
proof (cases r)
  case (Free n)
  with assms loop_free_run [of ps as n bs c sz k fl h] show ?thesis by (auto split: if_splits)
next
  case (Used z)
  with assms loop_used_run [of ps as z bs k c sz fl h] show ?thesis by (auto split: if_splits)
qed

lemma loop_skip_runs:
  assumes "ps = as @ layout rs @ bs" "runs_ok rs" "length as + length (layout rs) \<le> NR_PAGES"
    and "k < c" "skip_runs c (k, fl) rs = Some (k', fl')"
  shows "k' < c \<and> kmalloc_loop sz c (length as) k fl h ps =
     kmalloc_loop sz c (length as + length (layout rs)) k' fl' (last_free (length as) h rs) ps"
  using assms
proof (induction rs arbitrary: as k fl h)
  case Nil
  then show ?case by simp
next
  case (Cons r rs)
  then obtain k1 fl1 where sk: "skip_run c (k, fl) r = Some (k1, fl1)"
      "skip_runs c (k1, fl1) rs = Some (k', fl')"
    by (auto split: option.splits)
  have len: "length (run_pages r) = run_len r" using Cons.prems by (simp add: length_run_pages)
  have step: "k1 < c \<and> kmalloc_loop sz c (length as) k fl h ps =
     kmalloc_loop sz c (length as + run_len r) k1 fl1 (last_free (length as) h [r]) ps"
    using Cons.prems sk(1) len by (intro loop_skip_run [where bs = "layout rs @ bs"]) auto
  have "k' < c \<and> kmalloc_loop sz c (length (as @ run_pages r)) k1 fl1 (last_free (length as) h [r]) ps =
     kmalloc_loop sz c (length (as @ run_pages r) + length (layout rs)) k' fl'
       (last_free (length (as @ run_pages r)) (last_free (length as) h [r]) rs) ps"
    using Cons.prems sk(2) step by (intro Cons.IH) auto
  moreover have "last_free (length as) h (r # rs) =
      last_free (length as + run_len r) (last_free (length as) h [r]) rs"
    by (cases r) auto
  ultimately show ?case using step len by (simp add: add.assoc)
qed

section \<open>What kmalloc does to the runs\<close>

lemma hd_run_pages: "run_ok r \<Longrightarrow> \<exists>v vs. run_pages r = v # vs \<and> v \<noteq> PAGE_S_CONT"
  by (cases r) auto

lemma hd_layout_not_cont:
  "runs_ok rs \<Longrightarrow> rs \<noteq> [] \<Longrightarrow> \<exists>v vs. layout rs = v # vs \<and> v \<noteq> PAGE_S_CONT"
  by (cases rs) (use hd_run_pages in fastforce)+

definition carve_run :: "u32 \<Rightarrow> nat \<Rightarrow> run list" where
  "carve_run sz n = (if n = pages_of sz then [Used sz] else [Used sz, Free (n - pages_of sz)])"

lemma carve_pages:
  assumes ok: "runs_ok post" and c: "pages_of sz = c" "0 < c" "c \<le> n"
    and room: "length as + c < length (as @ run_pages (Free n) @ layout post)"
  shows "kmalloc_found sz (length as) (length as + c - 1) (as @ run_pages (Free n) @ layout post) =
     Inr (Some (length as), as @ layout (carve_run sz n) @ layout post)"
proof -
  let ?ps = "as @ run_pages (Free n) @ layout post"
  let ?ps1 = "as @ (sz # replicate (n - 1) PAGE_S_CONT) @ layout post"
  have w: "wr ?ps (length as) sz = Inr ?ps1" by (simp add: wr_def)
  have i: "length as + c - 1 + 1 = length as + c" using c by simp
  show ?thesis
  proof (cases "n = c")
    case True
    then have "post \<noteq> []" using room c by auto
    then obtain v vs where post: "layout post = v # vs" "v \<noteq> PAGE_S_CONT"
      using hd_layout_not_cont ok by blast
    have "rd ?ps1 (length as + c) = Inr v"
      using True c post by (simp add: rd_def nth_append)
    with w i post True c show ?thesis by (simp add: kmalloc_found_def carve_run_def)
  next
    case False
    then obtain d where d: "n = c + Suc d" using c by (metis le_neq_implies_less less_iff_Suc_add add_Suc_right)
    have n1: "n - 1 = (c - 1) + Suc d" using c(2) d by simp
    have rep: "replicate (n - 1) PAGE_S_CONT =
        replicate (c - 1) PAGE_S_CONT @ PAGE_S_CONT # replicate d PAGE_S_CONT"
      unfolding n1 replicate_add by simp
    have ps1: "?ps1 = (as @ sz # replicate (c - 1) PAGE_S_CONT) @ PAGE_S_CONT # replicate d PAGE_S_CONT @ layout post"
      by (simp only: rep append_assoc append_Cons)
    have l: "length (as @ sz # replicate (c - 1) PAGE_S_CONT) = length as + c" using c by simp
    have r: "rd ?ps1 (length as + c) = Inr PAGE_S_CONT"
      unfolding ps1 by (rule rd_middle [OF l])
    have "wr ?ps1 (length as + c) PAGE_S_FREE =
        Inr ((as @ sz # replicate (c - 1) PAGE_S_CONT) @ PAGE_S_FREE # replicate d PAGE_S_CONT @ layout post)"
      unfolding ps1 by (rule wr_middle [OF l])
    with w i r c d show ?thesis by (simp add: kmalloc_found_def carve_run_def)
  qed
qed

lemma kmalloc_loop_fits:
  assumes ps: "ps = layout (pre @ Free n # post)" and ok: "runs_ok (pre @ Free n # post)"
    and len: "length ps \<le> NR_PAGES"
    and sk: "skip_runs (pages_of sz) (0, False) pre = Some st"
    and fit: "sz \<noteq> 0" "pages_of sz \<le> n" and room: "length (layout pre) + pages_of sz < length ps"
  shows "kmalloc_loop sz (pages_of sz) 0 0 False 0 ps =
     Inr (Some (length (layout pre)), layout (pre @ carve_run sz n @ post))"
proof -
  obtain k fl where st: "st = (k, fl)" by (cases st)
  have c: "0 < pages_of sz" using fit(1) by (rule pages_of_pos)
  have n: "length (run_pages (Free n)) = n" using ok by auto
  have "kmalloc_loop sz (pages_of sz) 0 0 False 0 ps =
     kmalloc_loop sz (pages_of sz) (length (layout pre)) k fl (last_free 0 0 pre) ps"
    using loop_skip_runs [where as = "[]" and rs = pre and bs = "run_pages (Free n) @ layout post" and ps = ps
        and k = 0 and h = 0 and c = "pages_of sz" and fl = False] ps ok len sk st c by simp
  also have "\<dots> = kmalloc_found sz (length (layout pre)) (length (layout pre) + pages_of sz - 1) ps"
    using loop_free_run [of ps "layout pre" n "layout post" "pages_of sz" sz k fl] ps ok len fit c n by auto
  also have "\<dots> = Inr (Some (length (layout pre)), layout (pre @ carve_run sz n @ post))"
    using carve_pages [of post sz "pages_of sz" n "layout pre"] ps ok fit c room by simp
  finally show ?thesis by simp
qed

text \<open>
  When the free run is too short and a used run follows whose pages make up the difference, the
  code takes the free run all the same, and writes its size over the free run's first page only.
\<close>

lemma kmalloc_loop_overlaps:
  assumes ps: "ps = layout (pre @ Free n # Used z # post)" and ok: "runs_ok (pre @ Free n # Used z # post)"
    and len: "length ps \<le> NR_PAGES"
    and sk: "skip_runs (pages_of sz) (0, False) pre = Some st"
    and short: "n < pages_of sz" "pages_of sz \<le> n + (pages_of z - 1)"
    and room: "length (layout pre) + pages_of sz + 1 < length ps"
  shows "\<exists>ps'. kmalloc_loop sz (pages_of sz) 0 0 False 0 ps = Inr (Some (length (layout pre)), ps')"
proof -
  obtain k fl where st: "st = (k, fl)" by (cases st)
  have c: "0 < pages_of sz" using short by linarith
  have n: "length (run_pages (Free n)) = n" "0 < n" using ok by auto
  have z: "length (run_pages (Used z)) = pages_of z" using ok length_run_pages [of "Used z"] by simp
  let ?h = "length (layout pre)"
  have "kmalloc_loop sz (pages_of sz) 0 0 False 0 ps =
     kmalloc_loop sz (pages_of sz) ?h k fl (last_free 0 0 pre) ps"
    using loop_skip_runs [where as = "[]" and rs = pre and bs = "run_pages (Free n) @ layout (Used z # post)"
        and ps = ps and k = 0 and h = 0 and c = "pages_of sz" and fl = False] ps ok len sk st c by simp
  also have "\<dots> = kmalloc_loop sz (pages_of sz) (?h + n) n True ?h ps"
    using loop_free_run [of ps "layout pre" n "layout (Used z # post)" "pages_of sz" sz k fl] ps ok len short c n
    by auto
  also have "\<dots> = kmalloc_found sz ?h (?h + n + (pages_of sz - n)) ps"
  proof -
    let ?as = "layout pre @ run_pages (Free n)"
    have as: "length ?as = ?h + n" using n by simp
    have "length ?as + pages_of z \<le> NR_PAGES" using ps len n z by simp
    with ps ok short have "kmalloc_loop sz (pages_of sz) (length ?as) n True ?h ps =
        (if n + (pages_of z - 1) < pages_of sz
         then kmalloc_loop sz (pages_of sz) (length ?as + pages_of z) (n + (pages_of z - 1)) True ?h ps
         else kmalloc_found sz ?h (length ?as + (pages_of sz - n)) ps)"
      by (subst loop_used_run [where bs = "layout post" and z = z]) auto
    moreover have "\<not> n + (pages_of z - 1) < pages_of sz" using short by simp
    ultimately show ?thesis by (simp only: as if_False)
  qed
  also have "?h + n + (pages_of sz - n) = ?h + pages_of sz" using short by simp
  finally show ?thesis
    using room by (simp add: kmalloc_found_def)
qed

text \<open>When no run is taken, the search reads behind the array.\<close>

lemma kmalloc_loop_exhausted:
  assumes "ps = layout rs" "runs_ok rs" "length ps = NR_PAGES"
    and "skip_runs c (0, False) rs = Some st" "0 < c"
  shows "kmalloc_loop sz c 0 0 False 0 ps = Inl Out_of_bounds"
proof -
  obtain k fl where st: "st = (k, fl)" by (cases st)
  have "kmalloc_loop sz c 0 0 False 0 ps =
     kmalloc_loop sz c (length (layout rs)) k fl (last_free 0 0 rs) ps"
    using loop_skip_runs [where as = "[]" and rs = rs and bs = "[]" and ps = ps and k = 0 and h = 0
        and c = c and fl = False] assms st by simp
  then show ?thesis using assms by (simp add: loop_out)
qed

section \<open>What kfree does to the runs\<close>

fun release_right :: "nat \<Rightarrow> run list \<Rightarrow> nat \<times> run list" where
  "release_right n (Free m # rs) = (n + m, rs)"
| "release_right n rs = (n, rs)"

definition release_left :: "run list \<Rightarrow> nat \<Rightarrow> run list" where
  "release_left pre n = (if pre = [] then [Free n] else
     case last pre of Free m \<Rightarrow> butlast pre @ [Free (m + n)] | Used _ \<Rightarrow> pre @ [Free n])"

definition release :: "run list \<Rightarrow> u32 \<Rightarrow> run list \<Rightarrow> run list" where
  "release pre z post =
     (let (n, post') = release_right (pages_of z) post in release_left pre n @ post')"

lemma run_start_back:
  "v \<noteq> PAGE_S_CONT \<Longrightarrow> run_start (as @ v # replicate m PAGE_S_CONT @ bs) (length as + m) = Inr (length as)"
proof (induction m arbitrary: bs)
  case 0
  have "rd (as @ v # bs) (length as) = Inr v" by (simp only: rd_middle)
  then show ?case using 0 by (cases "length as") simp_all
next
  case (Suc m)
  have e: "as @ v # replicate (Suc m) PAGE_S_CONT @ bs
      = as @ v # replicate m PAGE_S_CONT @ (PAGE_S_CONT # bs)"
    by (simp add: replicate_app_Cons_same)
  have r: "rd (as @ v # replicate m PAGE_S_CONT @ (PAGE_S_CONT # bs)) (Suc (length as + m)) = Inr PAGE_S_CONT"
    using rd_middle [of "as @ v # replicate m PAGE_S_CONT" "Suc (length as + m)" PAGE_S_CONT bs] by simp
  have "run_start (as @ v # replicate m PAGE_S_CONT @ (PAGE_S_CONT # bs)) (Suc (length as + m))
      = run_start (as @ v # replicate m PAGE_S_CONT @ (PAGE_S_CONT # bs)) (length as + m)"
    using r by simp
  with Suc.IH [of "PAGE_S_CONT # bs"] Suc.prems show ?case unfolding e by simp
qed

lemma run_start_layout:
  assumes "runs_ok (pre @ [r])"
  shows "run_start (layout (pre @ [r]) @ bs) (length (layout (pre @ [r])) - 1) = Inr (length (layout pre))"
    and "rd (layout (pre @ [r]) @ bs) (length (layout pre)) = Inr (hd (run_pages r))"
proof -
  obtain v where v: "run_pages r = v # replicate (run_len r - 1) PAGE_S_CONT" "v \<noteq> PAGE_S_CONT"
    using assms by (cases r) auto
  have "layout (pre @ [r]) @ bs = layout pre @ v # replicate (run_len r - 1) PAGE_S_CONT @ bs"
    by (simp add: v)
  moreover have "length (layout (pre @ [r])) - 1 = length (layout pre) + (run_len r - 1)"
    by (simp add: v)
  ultimately show "run_start (layout (pre @ [r]) @ bs) (length (layout (pre @ [r])) - 1) = Inr (length (layout pre))"
    using run_start_back [OF v(2)] by simp
  show "rd (layout (pre @ [r]) @ bs) (length (layout pre)) = Inr (hd (run_pages r))"
    by (simp add: v rd_middle)
qed

text \<open>The mark that the freed run's first page gets.\<close>

definition freed_mark :: "run list \<Rightarrow> u32" where
  "freed_mark pre = (if pre \<noteq> [] \<and> hd (run_pages (last pre)) = PAGE_S_FREE then PAGE_S_CONT else PAGE_S_FREE)"

lemma kfree_mark:
  assumes ok: "runs_ok pre" and ps: "ps = layout pre @ z # rest"
  shows "(if length (layout pre) \<noteq> 0 then
          res_bind (run_start ps (length (layout pre) - 1)) (\<lambda>tmp.
          res_bind (rd ps tmp) (\<lambda>v.
            wr ps (length (layout pre)) (if v = PAGE_S_FREE then PAGE_S_CONT else PAGE_S_FREE)))
        else wr ps (length (layout pre)) PAGE_S_FREE) = Inr (layout pre @ freed_mark pre # rest)"
proof (cases pre rule: rev_cases)
  case Nil
  then show ?thesis using ps by (simp add: freed_mark_def wr_middle)
next
  case (snoc ks k)
  have "run_pages k \<noteq> []" by (cases k) auto
  then have ne: "length (layout pre) \<noteq> 0" using snoc by simp
  have rs: "run_start ps (length (layout pre) - 1) = Inr (length (layout ks))"
    and rv: "rd ps (length (layout ks)) = Inr (hd (run_pages k))"
    using run_start_layout [of ks k "z # rest"] ok snoc ps by simp_all
  have w: "wr ps (length (layout pre)) v = Inr (layout pre @ v # rest)" for v
    unfolding ps by (simp add: wr_middle del: layout_simps)
  show ?thesis
    unfolding if_P [OF ne] rs rv w res_bind_Inr using snoc by (simp add: freed_mark_def)
qed

lemma cont_replicate: "0 < n \<Longrightarrow> PAGE_S_CONT # replicate (n - 1) PAGE_S_CONT = replicate n PAGE_S_CONT"
  by (cases n) auto

lemma cont_join:
  assumes "0 < n" "0 < m"
  shows "replicate (n - 1) PAGE_S_CONT @ PAGE_S_CONT # replicate (m - 1) PAGE_S_CONT @ bs =
    replicate (n + m - 1) PAGE_S_CONT @ bs"
proof -
  have "replicate (n - 1) PAGE_S_CONT @ PAGE_S_CONT # replicate (m - 1) PAGE_S_CONT =
      replicate (n + m - 1) PAGE_S_CONT"
    using assms by (simp only: cont_replicate flip: replicate_add) simp
  then show ?thesis by (metis append.assoc append_Cons)
qed

lemma freed_layout:
  assumes ok: "runs_ok pre" and n: "0 < n"
  shows "layout pre @ freed_mark pre # replicate (n - 1) PAGE_S_CONT @ bs = layout (release_left pre n) @ bs"
proof (cases "pre \<noteq> [] \<and> (\<exists>m. last pre = Free m)")
  case True
  then obtain ks m where pre: "pre = ks @ [Free m]" by (metis append_butlast_last_id)
  then have m: "0 < m" using ok by simp
  note cont_join [OF m n, of bs]
  then show ?thesis
    using pre by (simp add: release_left_def freed_mark_def)
next
  case False
  have "freed_mark pre = PAGE_S_FREE"
  proof (cases pre rule: rev_cases)
    case Nil
    then show ?thesis by (simp add: freed_mark_def)
  next
    case (snoc ks k)
    with False ok show ?thesis by (cases k) (auto simp: freed_mark_def PAGE_S_FREE_def)
  qed
  moreover have "release_left pre n = pre @ [Free n]"
    using False by (auto simp: release_left_def split: run.splits)
  ultimately show ?thesis by simp
qed

lemma kfree_pages_release:
  assumes ps: "ps = layout (pre @ Used z # post)" and ok: "runs_ok (pre @ Used z # post)"
    and len: "length ps \<le> NR_PAGES" and post: "post \<noteq> []"
  shows "kfree_pages (length (layout pre)) ps = Inr (layout (release pre z post))"
proof -
  let ?h = "length (layout pre)" and ?n = "pages_of z"
  have n: "0 < ?n" using ok pages_of_pos by simp
  have ps': "ps = layout pre @ z # replicate (?n - 1) PAGE_S_CONT @ layout post" using ps by simp
  let ?ps1 = "layout pre @ freed_mark pre # replicate (?n - 1) PAGE_S_CONT @ layout post"
  have rd0: "rd ps ?h = Inr z" unfolding ps' by (simp add: rd_middle)
  obtain q qs where q: "post = q # qs" using post by (cases post) auto
  have end1: "?h + ?n \<noteq> NR_PAGES + 1" using len ps n by simp
  have pre1: "length (layout pre @ freed_mark pre # replicate (?n - 1) PAGE_S_CONT) = ?h + ?n"
    using n by simp
  have step: "kfree_pages ?h ps =
      res_bind (rd ?ps1 (?h + ?n)) (\<lambda>v. if v = PAGE_S_FREE then wr ?ps1 (?h + ?n) PAGE_S_CONT else Inr ?ps1)"
  proof -
    have mark: "(if ?h \<noteq> 0 then
          res_bind (run_start ps (?h - 1)) (\<lambda>tmp.
          res_bind (rd ps tmp) (\<lambda>v.
            wr ps ?h (if v = PAGE_S_FREE then PAGE_S_CONT else PAGE_S_FREE)))
        else wr ps ?h PAGE_S_FREE) = Inr ?ps1"
      using ok ps' by (intro kfree_mark) simp_all
    show ?thesis
      unfolding kfree_pages_def rd0 res_bind_Inr Let_def mark pages_of_def [symmetric] if_P [OF end1] ..
  qed
  show ?thesis
  proof (cases q)
    case (Free m)
    have ps1: "?ps1 = (layout pre @ freed_mark pre # replicate (?n - 1) PAGE_S_CONT) @
        PAGE_S_FREE # (replicate (m - 1) PAGE_S_CONT @ layout qs)"
      by (simp add: q Free)
    have m: "0 < m" using ok q Free by simp
    note cont_join [OF n m, of "layout qs"]
    then have "kfree_pages ?h ps = Inr (layout pre @ freed_mark pre #
        replicate (?n + m - 1) PAGE_S_CONT @ layout qs)"
      unfolding step ps1 rd_middle [OF pre1] wr_middle [OF pre1] res_bind_Inr
      by simp
    then show ?thesis
      using freed_layout [of pre "?n + m" "layout qs"] ok m q Free by (simp add: release_def)
  next
    case (Used y)
    have ps1: "?ps1 = (layout pre @ freed_mark pre # replicate (?n - 1) PAGE_S_CONT) @
        y # (replicate (pages_of y - 1) PAGE_S_CONT @ layout qs)"
      by (simp add: q Used)
    have "y \<noteq> PAGE_S_FREE" using ok q Used by (simp add: PAGE_S_FREE_def)
    then have "kfree_pages ?h ps = Inr ?ps1"
      unfolding step ps1 rd_middle [OF pre1] res_bind_Inr by simp
    then show ?thesis
      using freed_layout [of pre ?n "layout post"] ok n q Used by (simp add: release_def)
  qed
qed

lemma kfree_pages_last:
  assumes ps: "ps = layout (pre @ [Used z])" and ok: "runs_ok (pre @ [Used z])" and len: "length ps = NR_PAGES"
  shows "kfree_pages (length (layout pre)) ps = Inl Out_of_bounds"
proof -
  let ?h = "length (layout pre)" and ?n = "pages_of z"
  have n: "0 < ?n" using ok pages_of_pos by simp
  have ps': "ps = layout pre @ z # replicate (?n - 1) PAGE_S_CONT" using ps by simp
  have rd0: "rd ps ?h = Inr z" unfolding ps' by (simp add: rd_middle)
  have end1: "?h + ?n = NR_PAGES" using len ps n by simp
  have mark: "(if ?h \<noteq> 0 then
          res_bind (run_start ps (?h - 1)) (\<lambda>tmp.
          res_bind (rd ps tmp) (\<lambda>v.
            wr ps ?h (if v = PAGE_S_FREE then PAGE_S_CONT else PAGE_S_FREE)))
        else wr ps ?h PAGE_S_FREE) = Inr (layout pre @ freed_mark pre # replicate (?n - 1) PAGE_S_CONT)"
    using ok ps' by (intro kfree_mark) simp_all
  have out: "rd (layout pre @ freed_mark pre # replicate (?n - 1) PAGE_S_CONT) (?h + ?n) = Inl Out_of_bounds"
    using n by (intro rd_out) simp
  have ne: "?h + ?n \<noteq> NR_PAGES + 1" using end1 by simp
  show ?thesis
    unfolding kfree_pages_def rd0 res_bind_Inr Let_def mark pages_of_def [symmetric] if_P [OF ne] out
    by simp
qed

end
