(* ===== verification/Pages_Props.thy ===== *)
theory Pages_Props
  imports Pages
begin

text \<open>
  The properties of \<open>kmalloc\<close> and \<open>kfree\<close> (\<^verbatim>\<open>ker/mem.c\<close>) on the list of runs that the page array
  stands for, each with an instance on the 128 pages that \<open>mem_init\<close> leaves.
\<close>

section \<open>Addresses and pages\<close>

text \<open>The address of a page, and the page of an address.\<close>

definition page_addr :: "'a kpages_scheme \<Rightarrow> nat \<Rightarrow> u32" where
  "page_addr s h = kmem_base s + of_nat h * PAGE_SIZE"

lemma page_index:
  assumes "h \<le> NR_PAGES"
  shows "unat ((page_addr s h - kmem_base s) div PAGE_SIZE) = h"
proof -
  have h: "h \<le> 128" using assms by (simp add: NR_PAGES_def)
  have "unat (of_nat h * (1024 :: u32)) = h * 1024"
    using h by (simp add: unat_word_ariths unat_of_nat)
  then have "unat (of_nat h * 1024 div (1024 :: u32)) = h" by (simp add: unat_div)
  then show ?thesis by (simp add: page_addr_def PAGE_SIZE_def)
qed

lemma kfree_at:
  assumes "kfree_pages h (kmem_page s) = Inr ps" "h \<le> NR_PAGES"
  shows "kfree (page_addr s h) s = Inr (s\<lparr>kmem_page := ps\<rparr>)"
proof -
  have "kmem_base (snd (lock_irq_save s)) = kmem_base s" "kmem_page (snd (lock_irq_save s)) = kmem_page s"
    by (simp_all add: irq_defs)
  with assms page_index [of h s] show ?thesis
    by (simp add: kfree_def irq_defs)
qed

lemma kmalloc_at:
  assumes "kmalloc_loop sz (pages_of sz) 0 0 False 0 (kmem_page s) = Inr (Some h, ps)"
  shows "kmalloc sz s = Inr (page_addr s h, s\<lparr>ief := False, kmem_page := ps\<rparr>)"
  using assms by (simp add: kmalloc_def irq_defs page_addr_def flip: pages_of_def)

definition fresh_pages :: kpages where
  "fresh_pages = kmem_page_init \<lparr>ief = True, mem_hole = (\<lambda>_. \<lparr>h_base = 0, h_size = 0, h_status = STAT_BUSY, h_next = None\<rparr>),
                h_head = None, slot_free = None, kmem_page = [], kmem_base = 1048576\<rparr>"

lemma fresh_layout: "kmem_page fresh_pages = layout [Free 128]"
  by (simp add: fresh_pages_def kmem_page_init_def NR_PAGES_def numeral_eq_Suc)

definition with_runs :: "run list \<Rightarrow> kpages" where
  "with_runs rs = fresh_pages\<lparr>kmem_page := layout rs\<rparr>"

lemma with_runs_sel [simp]: "kmem_page (with_runs rs) = layout rs"
  by (simp add: with_runs_def)

lemma length_layout: "runs_ok rs \<Longrightarrow> length (layout rs) = sum_list (map run_len rs)"
  by (induction rs) (auto simp: length_run_pages)

section \<open>kmalloc\<close>

text \<open>
  Property C36: when the search passes the runs in front of a free run that is long enough for the request, and the
  request ends before the last page of the array, \<open>kmalloc\<close> takes it from the start of that run: it returns the address of the run's first page, marks it
  with the size, and leaves the rest of the run free. The interrupts stay disabled: the code
  returns without \<open>unlock_irq_restore\<close>.
\<close>

theorem kmalloc_carves:
  assumes "kmem_page s = layout (pre @ Free n # post)" "runs_ok (pre @ Free n # post)"
    and "length (kmem_page s) = NR_PAGES" "skip_runs (pages_of sz) (0, False) pre = Some st"
    and "sz \<noteq> 0" "pages_of sz \<le> n" "length (layout pre) + pages_of sz < NR_PAGES"
  shows "kmalloc sz s = Inr (page_addr s (length (layout pre)),
     s\<lparr>ief := False, kmem_page := layout (pre @ carve_run sz n @ post)\<rparr>)"
  using assms by (intro kmalloc_at) (use kmalloc_loop_fits [OF assms(1,2) _ assms(4,5,6)] in simp)

lemma pages_of_num [simp]:
  "pages_of 1024 = 1" "pages_of 2048 = 2" "pages_of 3000 = 3" "pages_of 4096 = 4"
  by (simp_all add: pages_of_ceil)

theorem kmalloc_carves_witness:
  "kmalloc 3000 (with_runs [Used 1024, Free 127]) =
     Inr (page_addr (with_runs [Used 1024, Free 127]) 1,
       (with_runs [Used 1024, Free 127])\<lparr>ief := False, kmem_page := layout [Used 1024, Used 3000, Free 124]\<rparr>)"
proof -
  have "runs_ok ([Used 1024] @ Free 127 # [])" by (simp add: PAGE_S_CONT_def)
  then show ?thesis
    using kmalloc_carves [of "with_runs [Used 1024, Free 127]" "[Used 1024]" 127 "[]" 3000]
    by (simp add: NR_PAGES_def carve_run_def)
qed

text \<open>
  Property C38: the search does not reset its count at a used run. When a free run is too short
  and the continuation pages of the used run behind it make up the difference, away from the end of the array,
  \<open>kmalloc\<close> returns the free run, and the returned block reaches into the used run: the two live blocks share a byte.
\<close>

theorem kmalloc_overlaps:
  assumes "kmem_page s = layout (pre @ Free n # Used z # post)" "runs_ok (pre @ Free n # Used z # post)"
    and "length (kmem_page s) = NR_PAGES" "skip_runs (pages_of sz) (0, False) pre = Some st"
    and "n < pages_of sz" "pages_of sz \<le> n + (pages_of z - 1)"
    and "length (layout pre) + pages_of sz + 1 < NR_PAGES"
  shows "\<exists>h s'. kmalloc sz s = Inr (page_addr s h, s')
     \<and> h * 1024 \<le> (h + n) * 1024 \<and> (h + n) * 1024 < h * 1024 + unat sz
     \<and> h + n = length (layout (pre @ [Free n]))"
proof -
  let ?h = "length (layout pre)"
  obtain ps' where "kmalloc_loop sz (pages_of sz) 0 0 False 0 (kmem_page s) = Inr (Some ?h, ps')"
    using kmalloc_loop_overlaps [OF assms(1,2) _ assms(4-6)] assms(3,7) by auto
  then have "kmalloc sz s = Inr (page_addr s ?h, s\<lparr>ief := False, kmem_page := ps'\<rparr>)" by (rule kmalloc_at)
  moreover have "n * 1024 < unat sz" using assms(5) by (simp add: pages_of_ceil)
  moreover have "length (layout (pre @ [Free n])) = ?h + n" using assms(2) by (simp add: length_run_pages)
  ultimately show ?thesis by (intro exI [of _ ?h] exI) auto
qed

theorem kmalloc_overlaps_witness:
  "\<exists>h s'. kmalloc 2048 (with_runs [Free 1, Used 3000, Free 124]) =
       Inr (page_addr (with_runs [Free 1, Used 3000, Free 124]) h, s')
     \<and> h * 1024 \<le> (h + 1) * 1024 \<and> (h + 1) * 1024 < h * 1024 + unat (2048 :: u32)
     \<and> h + 1 = length (layout [Free 1])"
proof -
  have "runs_ok ([] @ Free 1 # Used 3000 # [Free 124])" by (simp add: PAGE_S_CONT_def)
  then show ?thesis
    using kmalloc_overlaps [of "with_runs [Free 1, Used 3000, Free 124]" "[]" 1 3000 "[Free 124]" 2048]
    by (simp add: NR_PAGES_def)
qed

text \<open>
  \<open>kmalloc\<close> never returns the null pointer that its last line promises: when no run
  is taken, the loop runs on to the word behind the 128 pages.
\<close>

theorem kmalloc_exhausted:
  assumes "kmem_page s = layout rs" "runs_ok rs" "length (kmem_page s) = NR_PAGES"
    and "skip_runs (pages_of sz) (0, False) rs = Some st" "sz \<noteq> 0"
  shows "kmalloc sz s = Inl Out_of_bounds"
  using kmalloc_loop_exhausted [OF assms(1-4)] pages_of_pos [OF assms(5)]
  by (simp add: kmalloc_def irq_defs flip: pages_of_def)

theorem kmalloc_exhausted_witness: "kmalloc 1024 (with_runs [Used 131072]) = Inl Out_of_bounds"
proof -
  have "runs_ok [Used 131072]" by (simp add: PAGE_S_CONT_def)
  then show ?thesis
    using kmalloc_exhausted [of "with_runs [Used 131072]" "[Used 131072]" 1024]
    by (simp add: NR_PAGES_def pages_of_ceil)
qed

section \<open>kfree\<close>

text \<open>
  Property C37: \<open>kfree\<close> of a used run that is not the last turns it into a free run and merges it
  with a free run in front and with a free run behind, so that the array is again a list of runs;
  the interrupt flag is restored.
\<close>

theorem kfree_releases:
  assumes "kmem_page s = layout (pre @ Used z # post)" "runs_ok (pre @ Used z # post)"
    and "length (kmem_page s) = NR_PAGES" "post \<noteq> []"
  shows "kfree (page_addr s (length (layout pre))) s = Inr (s\<lparr>kmem_page := layout (release pre z post)\<rparr>)"
  using assms by (intro kfree_at kfree_pages_release) auto

theorem kfree_releases_witness:
  "kfree (page_addr (with_runs [Free 1, Used 3000, Free 124]) 1) (with_runs [Free 1, Used 3000, Free 124]) =
     Inr ((with_runs [Free 1, Used 3000, Free 124])\<lparr>kmem_page := layout [Free 128]\<rparr>)"
proof -
  have "runs_ok ([Free 1] @ Used 3000 # [Free 124])" by (simp add: PAGE_S_CONT_def)
  then show ?thesis
    using kfree_releases [of "with_runs [Free 1, Used 3000, Free 124]" "[Free 1]" 3000 "[Free 124]"]
    by (simp add: NR_PAGES_def release_def release_left_def)
qed

text \<open>
  \<open>kfree\<close> of the run that ends on the last page reads the word behind the array.
\<close>

theorem kfree_last_run:
  assumes "kmem_page s = layout (pre @ [Used z])" "runs_ok (pre @ [Used z])"
    and "length (kmem_page s) = NR_PAGES"
  shows "kfree (page_addr s (length (layout pre))) s = Inl Out_of_bounds"
proof -
  have "length (layout pre) \<le> NR_PAGES" using assms by simp
  then show ?thesis
    using kfree_pages_last [OF assms] page_index [of "length (layout pre)" s] by (simp add: kfree_def irq_defs)
qed

theorem kfree_last_run_witness:
  "kfree (page_addr (with_runs [Free 124, Used 4096]) 124) (with_runs [Free 124, Used 4096]) = Inl Out_of_bounds"
proof -
  have "runs_ok ([Free 124] @ [Used 4096])" by (simp add: PAGE_S_CONT_def)
  then show ?thesis
    using kfree_last_run [of "with_runs [Free 124, Used 4096]" "[Free 124]" 4096] by (simp add: NR_PAGES_def)
qed

text \<open>
  freeing what \<open>kmalloc\<close> returned gives back the page array that was there before,
  when the run that was cut is not next to another free run.
\<close>

theorem kmalloc_kfree_roundtrip:
  assumes "kmem_page s = layout (pre @ Free n # post)" "runs_ok (pre @ Free n # post)"
    and "length (kmem_page s) = NR_PAGES" "skip_runs (pages_of sz) (0, False) pre = Some st"
    and "sz \<noteq> 0" "sz \<noteq> PAGE_S_CONT" "pages_of sz \<le> n" "length (layout pre) + pages_of sz < NR_PAGES"
    and "\<forall>m. pre = [] \<or> last pre \<noteq> Free m" "\<forall>m. post = [] \<or> hd post \<noteq> Free m"
  shows "\<exists>p s1. kmalloc sz s = Inr (p, s1) \<and> kfree p s1 = Inr (s\<lparr>ief := False\<rparr>)"
proof -
  let ?s1 = "s\<lparr>ief := False, kmem_page := layout (pre @ carve_run sz n @ post)\<rparr>"
  let ?h = "length (layout pre)"
  have c: "0 < pages_of sz" using assms(5) by (rule pages_of_pos)
  have fwd: "kmalloc sz s = Inr (page_addr s ?h, ?s1)"
    using kmalloc_loop_fits [OF assms(1,2) _ assms(4,5,7)] assms(3,8) by (intro kmalloc_at) simp
  have left: "release_left pre m = pre @ [Free m]" for m
    using assms(9) by (auto simp: release_left_def split: run.splits)
  have right: "release_right m post = (m, post)" for m
    using assms(10) by (cases post rule: list.exhaust; cases "hd post") auto
  obtain post' where carve: "carve_run sz n @ post = Used sz # post'" and post': "post' \<noteq> []"
    and rel: "release pre sz post' = pre @ Free n # post"
  proof (cases "n = pages_of sz")
    case True
    then have "post \<noteq> []" using assms(1,2,3,8) by (auto simp: length_run_pages)
    then show thesis using that [of post] True left right by (simp add: carve_run_def release_def)
  next
    case False
    then show thesis
      using that [of "Free (n - pages_of sz) # post"] left assms(7) by (simp add: carve_run_def release_def)
  qed
  have ok: "runs_ok (pre @ Used sz # post')"
    using assms(2,5,6,7) carve by (auto simp: carve_run_def split: if_splits)
  have "length (layout (pre @ Used sz # post')) = length (kmem_page s)"
    using assms(1,2,5,7) c carve by (auto simp: carve_run_def split: if_splits)
  then have "kfree_pages ?h (layout (pre @ Used sz # post')) = Inr (kmem_page s)"
    using kfree_pages_release [OF refl ok _ post'] rel assms(1,3) by simp
  moreover have "page_addr ?s1 ?h = page_addr s ?h" by (simp add: page_addr_def)
  moreover have "?h \<le> NR_PAGES" using assms(8) by simp
  ultimately have "kfree (page_addr s ?h) ?s1 = Inr (s\<lparr>ief := False\<rparr>)"
    using kfree_at [of ?h ?s1 "kmem_page s"] carve by simp
  with fwd show ?thesis by blast
qed

theorem kmalloc_kfree_roundtrip_witness:
  "\<exists>p s1. kmalloc 3000 fresh_pages = Inr (p, s1) \<and> kfree p s1 = Inr (fresh_pages\<lparr>ief := False\<rparr>)"
  using kmalloc_kfree_roundtrip [of fresh_pages "[]" 128 "[]" 3000]
  by (simp add: fresh_layout NR_PAGES_def PAGE_S_CONT_def)

end
