(* ===== verification/Protect.thy ===== *)
theory Protect
  imports Sysops
begin

text \<open>
  Protected-mode tables, from \<^verbatim>\<open>include/protect.h\<close> and \<^verbatim>\<open>ker/protect.c\<close>: segment and gate
  descriptors as the code lays out their fields, the routines that build them, and the reading
  of a descriptor by the processor (Intel SDM, volume 3: segment and gate descriptors), against
  which the routines are checked.
\<close>

section \<open>Descriptors\<close>

record segdesc =
  limit_low :: u16
  base_low :: u16
  base_middle :: u8
  access :: u8
  granularity :: u8
  base_high :: u8

record gatedesc =
  offset_low :: u16
  selector :: u16
  pad :: u8
  p_dpl_type :: u8
  offset_high :: u16

definition PRESENT :: u32 where "PRESENT = 0x80"
definition SEGMENT :: u32 where "SEGMENT = 0x10"
definition EXECUTABLE :: u32 where "EXECUTABLE = 0x08"
definition READABLE :: u32 where "READABLE = 0x02"
definition WRITEABLE :: u32 where "WRITEABLE = 0x02"
definition TRAP_TYPE :: u32 where "TRAP_TYPE = 0x0F"
definition INT_TYPE :: u32 where "INT_TYPE = 0x0E"
definition LDT_TYPE :: u32 where "LDT_TYPE = 0x02"
definition TSS_TYPE :: u32 where "TSS_TYPE = 0x09"
definition KERNEL_PRIV :: u32 where "KERNEL_PRIV = 0"
definition USER_PRIV :: u32 where "USER_PRIV = 3"

lemmas access_consts = PRESENT_def SEGMENT_def EXECUTABLE_def READABLE_def WRITEABLE_def
  TRAP_TYPE_def INT_TYPE_def LDT_TYPE_def TSS_TYPE_def KERNEL_PRIV_def USER_PRIV_def

text \<open>\<^verbatim>\<open>#define seg_selector(index,TI,RPL)\<close>\<close>

definition seg_selector :: "u32 \<Rightarrow> u32 \<Rightarrow> u32 \<Rightarrow> u32" where
  "seg_selector index ti rpl = (push_bit 3 index OR push_bit 2 ti) OR rpl"

definition setseg :: "u32 \<Rightarrow> u32 \<Rightarrow> segdesc \<Rightarrow> segdesc" where
  "setseg base sz d =
     (let d1 = d\<lparr>base_low := ucast base, base_middle := ucast (drop_bit 16 base),
                 base_high := ucast (drop_bit 24 base)\<rparr>;
          d2 = (if 0xfffff < sz
                then d1\<lparr>limit_low := ucast (drop_bit 12 sz), granularity := ucast (0x80 OR drop_bit 28 sz)\<rparr>
                else d1\<lparr>limit_low := ucast sz, granularity := ucast (drop_bit 16 sz)\<rparr>)
      in d2\<lparr>granularity := granularity d2 OR 0x40\<rparr>)"

definition init_codeseg :: "u32 \<Rightarrow> u32 \<Rightarrow> u32 \<Rightarrow> segdesc \<Rightarrow> segdesc" where
  "init_codeseg base sz pri d =
     (setseg base sz d)\<lparr>access := ucast (push_bit 5 pri OR (PRESENT OR EXECUTABLE OR READABLE OR SEGMENT))\<rparr>"

definition init_dataseg :: "u32 \<Rightarrow> u32 \<Rightarrow> u32 \<Rightarrow> segdesc \<Rightarrow> segdesc" where
  "init_dataseg base sz pri d =
     (setseg base sz d)\<lparr>access := ucast (push_bit 5 pri OR (PRESENT OR WRITEABLE OR SEGMENT))\<rparr>"

text \<open>The sizes that the compiler gives the packed structures.\<close>

definition sizeof_segdesc :: u32 where "sizeof_segdesc = 8"
definition sizeof_tss :: u32 where "sizeof_tss = 104"

definition set_ldt_desc :: "u32 \<Rightarrow> segdesc \<Rightarrow> segdesc" where
  "set_ldt_desc base d =
     (init_dataseg base (sizeof_segdesc * 3) KERNEL_PRIV d)\<lparr>access := ucast (PRESENT OR LDT_TYPE)\<rparr>"

definition set_tss_desc :: "u32 \<Rightarrow> segdesc \<Rightarrow> segdesc" where
  "set_tss_desc base d =
     (init_dataseg base sizeof_tss KERNEL_PRIV d)\<lparr>access := ucast (PRESENT OR push_bit 5 KERNEL_PRIV OR TSS_TYPE)\<rparr>"

text \<open>
  \<^verbatim>\<open>struct desctableptr\<close> is laid over a segment descriptor: the limit over its first two bytes, the
  base over the next four.
\<close>

definition set_desctableptr :: "u32 \<Rightarrow> u16 \<Rightarrow> segdesc \<Rightarrow> segdesc" where
  "set_desctableptr base limit d = d\<lparr>base_low := ucast base, base_middle := ucast (drop_bit 16 base),
     access := ucast (drop_bit 24 base), limit_low := limit\<rparr>"

section \<open>What the processor reads from a descriptor\<close>

definition seg_base :: "segdesc \<Rightarrow> u32" where
  "seg_base d = ucast (base_low d) OR push_bit 16 (ucast (base_middle d)) OR push_bit 24 (ucast (base_high d))"

definition seg_limit :: "segdesc \<Rightarrow> u32" where
  "seg_limit d =
     (let raw = ucast (limit_low d) OR push_bit 16 (ucast (granularity d) AND 0xF)
      in if bit (granularity d) 7 then push_bit 12 raw OR 0xFFF else raw)"

definition seg_dpl :: "segdesc \<Rightarrow> u32" where
  "seg_dpl d = drop_bit 5 (ucast (access d)) AND 3"

definition seg_present :: "segdesc \<Rightarrow> bool" where
  "seg_present d = bit (access d) 7"

definition seg_code :: "segdesc \<Rightarrow> bool" where
  "seg_code d = (bit (access d) 4 \<and> bit (access d) 3)"

definition seg_data :: "segdesc \<Rightarrow> bool" where
  "seg_data d = (bit (access d) 4 \<and> \<not> bit (access d) 3)"

text \<open>The bit for a system segment and the type, the bit for 32 bits, and all that a descriptor says.\<close>

definition seg_type :: "segdesc \<Rightarrow> u8" where
  "seg_type d = access d AND 0x1F"

definition seg_big :: "segdesc \<Rightarrow> bool" where
  "seg_big d = bit (granularity d) 6"

definition describes :: "u8 \<Rightarrow> u32 \<Rightarrow> u32 \<Rightarrow> u32 \<Rightarrow> segdesc \<Rightarrow> bool" where
  "describes ty dpl base limit d \<longleftrightarrow> seg_present d \<and> seg_type d = ty \<and> seg_dpl d = dpl \<and> seg_base d = base
     \<and> seg_limit d = limit \<and> seg_big d"

definition table_ptr :: "segdesc \<Rightarrow> u32 \<times> u16" where
  "table_ptr d = (ucast (base_low d) OR push_bit 16 (ucast (base_middle d)) OR push_bit 24 (ucast (access d)),
     limit_low d)"


text \<open>The number of significant bits of a bounded word.\<close>

lemma small_bits:
  assumes "unat (w :: u32) < 2 ^ k" "k \<le> n"
  shows "\<not> bit w n"
proof
  assume "bit w n"
  then have "bit (unat w) n" by (simp add: bit_unsigned_iff bit_imp_possible_bit)
  then have "0 < unat w div 2 ^ n" by (simp add: bit_iff_odd odd_pos)
  moreover have "unat w < 2 ^ n"
    using assms by (meson less_le_trans power_increasing one_le_numeral)
  ultimately show False by simp
qed

lemma low_nibble: "(0xF :: u32) = mask 4" "(0xFFF :: u32) = mask 12"
  by (simp_all add: mask_eq_exp_minus_1)

lemma setseg_base: "seg_base (setseg base sz d) = base"
proof (rule bit_word_eqI)
  fix n :: nat
  assume "n < LENGTH(32)"
  then show "bit (seg_base (setseg base sz d)) n = bit base n"
    by (cases "n < 16"; cases "n < 24") (auto simp: setseg_def seg_base_def Let_def bit_simps)
qed

lemma setseg_big:
  assumes "0xfffff < sz"
  shows "ucast (granularity (setseg base sz d)) AND (0xF :: u32) = drop_bit 28 sz"
    and "bit (granularity (setseg base sz d)) 7"
proof -
  have g: "granularity (setseg base sz d) = ucast (0x80 OR drop_bit 28 sz) OR 0x40"
    using assms by (simp add: setseg_def Let_def)
  show "bit (granularity (setseg base sz d)) 7" unfolding g by (simp add: bit_simps)
  have "(ucast (ucast (drop_bit 28 sz) :: u8) :: u32) AND mask 4 = drop_bit 28 sz"
    by (rule bit_word_eqI) (auto simp: bit_simps dest: bit_imp_le_length)
  then show "ucast (granularity (setseg base sz d)) AND (0xF :: u32) = drop_bit 28 sz"
    unfolding g by (simp add: unsigned_or_eq bit.conj_disj_distrib2 flip: low_nibble)
qed

lemma setseg_small:
  assumes "\<not> 0xfffff < sz"
  shows "ucast (granularity (setseg base sz d)) AND (0xF :: u32) = drop_bit 16 sz"
    and "\<not> bit (granularity (setseg base sz d)) 7"
proof -
  have g: "granularity (setseg base sz d) = ucast (drop_bit 16 sz) OR 0x40"
    using assms by (simp add: setseg_def Let_def)
  have z: "\<not> bit sz n" if "20 \<le> n" for n
    using assms that by (intro small_bits [of sz 20]) (simp_all add: word_less_nat_alt)
  show "\<not> bit (granularity (setseg base sz d)) 7" unfolding g by (simp add: bit_simps z)
  have "(ucast (ucast (drop_bit 16 sz) :: u8) :: u32) AND mask 4 = drop_bit 16 sz"
  proof (rule bit_word_eqI)
    fix n :: nat
    assume "n < LENGTH(32)"
    then show "bit ((ucast (ucast (drop_bit 16 sz) :: u8) :: u32) AND mask 4) n = bit (drop_bit 16 sz) n"
      by (cases "n < 4") (auto simp: bit_simps z)
  qed
  then show "ucast (granularity (setseg base sz d)) AND (0xF :: u32) = drop_bit 16 sz"
    unfolding g by (simp add: unsigned_or_eq bit.conj_disj_distrib2 flip: low_nibble)
qed

lemma setseg_limit:
  "seg_limit (setseg base sz d) = (if 0xfffff < sz then sz OR 0xFFF else sz)"
proof (cases "0xfffff < sz")
  case True
  have "limit_low (setseg base sz d) = ucast (drop_bit 12 sz)"
    using True by (simp add: setseg_def Let_def)
  then have "seg_limit (setseg base sz d) =
      push_bit 12 (ucast (ucast (drop_bit 12 sz) :: u16) OR push_bit 16 (drop_bit 28 sz)) OR mask 12"
    using setseg_big [OF True] by (simp add: seg_limit_def Let_def flip: low_nibble)
  also have "\<dots> = sz OR mask 12"
  proof (rule bit_word_eqI)
    fix n :: nat
    assume "n < LENGTH(32)"
    then show "bit (push_bit 12 (ucast (ucast (drop_bit 12 sz) :: u16) OR push_bit 16 (drop_bit 28 sz)) OR mask 12 :: u32) n
        = bit (sz OR mask 12) n"
      by (cases "n < 12"; cases "n < 28") (auto simp: bit_simps)
  qed
  finally show ?thesis using True by (simp flip: low_nibble)
next
  case False
  have "limit_low (setseg base sz d) = ucast sz"
    using False by (simp add: setseg_def Let_def)
  then have "seg_limit (setseg base sz d) = ucast (ucast sz :: u16) OR push_bit 16 (drop_bit 16 sz)"
    using setseg_small [OF False] by (simp add: seg_limit_def Let_def)
  also have "\<dots> = sz"
  proof (rule bit_word_eqI)
    fix n :: nat
    assume "n < LENGTH(32)"
    then show "bit (ucast (ucast sz :: u16) OR push_bit 16 (drop_bit 16 sz) :: u32) n = bit sz n"
      by (cases "n < 16") (auto simp: bit_simps)
  qed
  finally show ?thesis using False by simp
qed

section \<open>Gates\<close>

text \<open>
  The addresses of the assembly entry points are the linker's: they are the argument \<open>addr\<close> of
  the routines that store them.
\<close>

datatype entry_point =
    Divide_error | Debug_exception | Nmi | Breakpoint_exception | Overflow | Bounds_check
  | Inval_opcode | Copr_not_avaiable | Double_fault | Copr_segment | Inval_tss
  | Segment_not_present | Stack_exception | General_protection | Page_fault | Reserve
  | X87_fpu | Align_check | Machine_check | Simd | System_call | Hwint nat

definition IDT_SIZE :: nat where "IDT_SIZE = 70"
definition IRQ0_VECTOR :: nat where "IRQ0_VECTOR = 0x28"
definition IRQ8_VECTOR :: nat where "IRQ8_VECTOR = 0x30"
definition SYS_VECTOR :: nat where "SYS_VECTOR = 0x3C"
definition CS_SELECTOR :: u16 where "CS_SELECTOR = 0x08"

lemmas vector_consts = IDT_SIZE_def IRQ0_VECTOR_def IRQ8_VECTOR_def SYS_VECTOR_def

text \<open>\<^verbatim>\<open>#define VECTOR(irq)\<close>\<close>

definition VECTOR :: "nat \<Rightarrow> nat" where
  "VECTOR irq = (if irq < 8 then IRQ0_VECTOR else IRQ8_VECTOR) + irq mod 8"

definition init_gate :: "nat \<Rightarrow> u32 \<Rightarrow> u32 \<Rightarrow> gatedesc list \<Rightarrow> gatedesc list res" where
  "init_gate vector base ty idt =
     res_bind (rd idt vector) (\<lambda>idp.
     wr idt vector (idp\<lparr>offset_low := ucast base, selector := CS_SELECTOR, p_dpl_type := ucast ty,
                        pad := 0, offset_high := ucast (drop_bit 16 base)\<rparr>))"

definition set_int_gate :: "u32 \<Rightarrow> nat \<Rightarrow> gatedesc list \<Rightarrow> gatedesc list res" where
  "set_int_gate base vector = init_gate vector base (PRESENT OR INT_TYPE)"

definition set_trap_gate :: "u32 \<Rightarrow> nat \<Rightarrow> gatedesc list \<Rightarrow> gatedesc list res" where
  "set_trap_gate base vector = init_gate vector base (PRESENT OR TRAP_TYPE)"

definition set_sys_gate :: "u32 \<Rightarrow> nat \<Rightarrow> gatedesc list \<Rightarrow> gatedesc list res" where
  "set_sys_gate base vector = init_gate vector base (PRESENT OR INT_TYPE OR push_bit 5 USER_PRIV)"

text \<open>\<open>trap_init\<close> is a straight line of such calls; \<open>do_calls\<close> runs them in order.\<close>

fun do_calls :: "('s \<Rightarrow> 's res) list \<Rightarrow> 's \<Rightarrow> 's res" where
  "do_calls [] s = Inr s"
| "do_calls (f # fs) s = res_bind (f s) (do_calls fs)"

lemma do_calls_append: "do_calls (fs @ gs) s = res_bind (do_calls fs s) (do_calls gs)"
proof (induction fs arbitrary: s)
  case (Cons f fs)
  then show ?case by (cases "f s") simp_all
qed simp

definition trap_init :: "(entry_point \<Rightarrow> u32) \<Rightarrow> gatedesc list \<Rightarrow> gatedesc list res" where
  "trap_init addr = do_calls [
     set_trap_gate (addr Divide_error) 0,
     set_trap_gate (addr Debug_exception) 1,
     set_trap_gate (addr Nmi) 2,
     set_trap_gate (addr Breakpoint_exception) 3,
     set_trap_gate (addr Overflow) 4,
     set_trap_gate (addr Bounds_check) 5,
     set_trap_gate (addr Inval_opcode) 6,
     set_trap_gate (addr Copr_not_avaiable) 7,
     set_trap_gate (addr Double_fault) 8,
     set_trap_gate (addr Copr_segment) 9,
     set_trap_gate (addr Inval_tss) 10,
     set_trap_gate (addr Segment_not_present) 11,
     set_trap_gate (addr Stack_exception) 12,
     set_trap_gate (addr General_protection) 13,
     set_trap_gate (addr Page_fault) 14,
     set_trap_gate (addr Reserve) 15,
     set_trap_gate (addr X87_fpu) 16,
     set_trap_gate (addr Align_check) 17,
     set_trap_gate (addr Machine_check) 18,
     set_trap_gate (addr Simd) 19,
     set_sys_gate (addr System_call) SYS_VECTOR,
     set_int_gate (addr (Hwint 0)) (VECTOR 0),
     set_int_gate (addr (Hwint 1)) (VECTOR 1),
     set_int_gate (addr (Hwint 2)) (VECTOR 2),
     set_int_gate (addr (Hwint 3)) (VECTOR 3),
     set_int_gate (addr (Hwint 4)) (VECTOR 4),
     set_int_gate (addr (Hwint 5)) (VECTOR 5),
     set_int_gate (addr (Hwint 6)) (VECTOR 6),
     set_int_gate (addr (Hwint 7)) (VECTOR 7),
     set_int_gate (addr (Hwint 8)) (VECTOR 8),
     set_int_gate (addr (Hwint 9)) (VECTOR 9),
     set_int_gate (addr (Hwint 10)) (VECTOR 10),
     set_int_gate (addr (Hwint 11)) (VECTOR 11),
     set_int_gate (addr (Hwint 12)) (VECTOR 12),
     set_int_gate (addr (Hwint 13)) (VECTOR 13),
     set_int_gate (addr (Hwint 14)) (VECTOR 14),
     set_int_gate (addr (Hwint 15)) (VECTOR 15)]"

text \<open>What the processor reads from a gate.\<close>

definition gate_entry :: "gatedesc \<Rightarrow> u32" where
  "gate_entry g = ucast (offset_low g) OR push_bit 16 (ucast (offset_high g))"

definition gate_dpl :: "gatedesc \<Rightarrow> u8" where
  "gate_dpl g = drop_bit 5 (p_dpl_type g) AND 3"

definition gate_is_int :: "gatedesc \<Rightarrow> bool" where
  "gate_is_int g = (p_dpl_type g AND 0x0F = 0x0E)"

definition gate_is_trap :: "gatedesc \<Rightarrow> bool" where
  "gate_is_trap g = (p_dpl_type g AND 0x0F = 0x0F)"

text \<open>A gate of the given kind in place: present, in the kernel's code segment, with its entry.\<close>

definition gate_for :: "u32 \<Rightarrow> u32 \<Rightarrow> gatedesc \<Rightarrow> bool" where
  "gate_for base ty g \<longleftrightarrow> gate_entry g = base \<and> selector g = CS_SELECTOR \<and> p_dpl_type g = ucast ty \<and> pad g = 0"

lemma split_offset: "ucast (ucast base :: u16) OR push_bit 16 (ucast (ucast (drop_bit 16 base) :: u16)) = (base :: u32)"
proof (rule bit_word_eqI)
  fix n :: nat
  assume "n < LENGTH(32)"
  then show "bit (ucast (ucast base :: u16) OR push_bit 16 (ucast (ucast (drop_bit 16 base) :: u16)) :: u32) n = bit base n"
    by (cases "n < 16") (auto simp: bit_simps)
qed

lemma init_gate_spec:
  assumes "v < length idt"
  shows "\<exists>g. init_gate v base ty idt = Inr (idt[v := g]) \<and> gate_for base ty g"
  using assms by (auto simp: init_gate_def gate_for_def gate_entry_def split_offset)

text \<open>
  A list of gate calls with distinct vectors: each call's gate is still there at the end.
\<close>

definition gate_call :: "nat \<times> u32 \<times> u32 \<Rightarrow> gatedesc list \<Rightarrow> gatedesc list res" where
  "gate_call c = init_gate (fst c) (fst (snd c)) (snd (snd c))"

lemma gate_calls:
  assumes "\<forall>c \<in> set cs. fst c < length idt" "distinct (map fst cs)"
  shows "\<exists>idt'. do_calls (map gate_call cs) idt = Inr idt' \<and> length idt' = length idt
     \<and> (\<forall>(v, base, ty) \<in> set cs. gate_for base ty (idt' ! v))
     \<and> (\<forall>v. v \<notin> fst ` set cs \<longrightarrow> idt' ! v = idt ! v)"
  using assms
proof (induction cs arbitrary: idt)
  case Nil
  then show ?case by simp
next
  case (Cons c cs)
  obtain v base ty where c: "c = (v, base, ty)" by (cases c)
  obtain g where g: "gate_call c idt = Inr (idt[v := g])" "gate_for base ty g"
    using init_gate_spec [of v idt base ty] Cons.prems c by (auto simp: gate_call_def)
  from Cons.IH [of "idt[v := g]"] Cons.prems obtain idt' where
    "do_calls (map gate_call cs) (idt[v := g]) = Inr idt'" "length idt' = length idt"
    "\<forall>(v, base, ty) \<in> set cs. gate_for base ty (idt' ! v)"
    "\<forall>u. u \<notin> fst ` set cs \<longrightarrow> idt' ! u = idt[v := g] ! u" by auto
  moreover have "v \<notin> fst ` set cs" using Cons.prems c by auto
  ultimately show ?case using g c Cons.prems by (intro exI [of _ idt']) auto
qed

text \<open>The table that \<open>trap_init\<close> writes, as data.\<close>

definition exception_entries :: "entry_point list" where
  "exception_entries = [Divide_error, Debug_exception, Nmi, Breakpoint_exception, Overflow, Bounds_check,
     Inval_opcode, Copr_not_avaiable, Double_fault, Copr_segment, Inval_tss, Segment_not_present,
     Stack_exception, General_protection, Page_fault, Reserve, X87_fpu, Align_check, Machine_check, Simd]"

definition trap_table :: "(entry_point \<Rightarrow> u32) \<Rightarrow> (nat \<times> u32 \<times> u32) list" where
  "trap_table addr =
     map (\<lambda>i. (i, addr (exception_entries ! i), PRESENT OR TRAP_TYPE)) [0..<20] @
     (SYS_VECTOR, addr System_call, PRESENT OR INT_TYPE OR push_bit 5 USER_PRIV) #
     map (\<lambda>i. (VECTOR i, addr (Hwint i), PRESENT OR INT_TYPE)) [0..<16]"

lemma upt20: "[0..<20] = [0, 1, 2, 3, 4, 5, 6, 7, 8, 9, 10, 11, 12, 13, 14, 15, 16, 17, 18, 19]"
  by (simp add: upt_rec numeral_eq_Suc)

lemma upt16: "[0..<16] = [0, 1, 2, 3, 4, 5, 6, 7, 8, 9, 10, 11, 12, 13, 14, 15]"
  by (simp add: upt_rec numeral_eq_Suc)

lemma trap_init_table: "trap_init addr = do_calls (map gate_call (trap_table addr))"
  by (simp add: trap_init_def trap_table_def upt20 upt16 exception_entries_def
      gate_call_def [abs_def] set_trap_gate_def set_int_gate_def set_sys_gate_def)

lemma VECTOR_eq: "irq < 16 \<Longrightarrow> VECTOR irq = 40 + irq"
  by (auto simp: VECTOR_def vector_consts le_mod_geq)

lemma trap_table_vectors: "map fst (trap_table addr) = [0..<20] @ 60 # [40..<56]"
proof -
  have "map VECTOR [0..<16] = map ((+) 40) [0..<16]" by (simp add: VECTOR_eq)
  also have "\<dots> = [40..<56]" by (simp add: upt16)
  finally show ?thesis by (simp add: trap_table_def comp_def SYS_VECTOR_def map_idI)
qed

section \<open>Properties\<close>

text \<open>
  The processor reads back from a descriptor that \<open>setseg\<close> filled the base it was
  given, and as limit the size it was given, in pages of 4 KB with the lowest twelve bits set
  when the size does not fit the 20 bits of the limit field.
\<close>

theorem setseg_decodes:
  "seg_base (setseg base sz d) = base
   \<and> seg_limit (setseg base sz d) = (if 0xfffff < sz then sz OR 0xFFF else sz)"
  by (simp only: setseg_base setseg_limit simp_thms)

lemma setseg_access: "access (setseg base sz d) = access d"
  by (simp add: setseg_def Let_def)

lemma seg_base_access [simp]: "seg_base (d\<lparr>access := a\<rparr>) = seg_base d"
  by (simp add: seg_base_def)

lemma seg_limit_access [simp]: "seg_limit (d\<lparr>access := a\<rparr>) = seg_limit d"
  by (simp add: seg_limit_def)

lemma data_access:
  "pri \<in> {0, 1, 2, 3} \<Longrightarrow> seg_dpl (init_dataseg base sz pri d) = pri \<and>
     seg_present (init_dataseg base sz pri d) \<and> seg_data (init_dataseg base sz pri d)"
  by (auto simp: init_dataseg_def seg_dpl_def seg_present_def seg_data_def access_consts)

lemma code_access:
  "pri \<in> {0, 1, 2, 3} \<Longrightarrow> seg_dpl (init_codeseg base sz pri d) = pri \<and>
     seg_present (init_codeseg base sz pri d) \<and> seg_code (init_codeseg base sz pri d)"
  by (auto simp: init_codeseg_def seg_dpl_def seg_present_def seg_code_def access_consts)

lemma seg_base_init [simp]:
  "seg_base (init_codeseg base sz pri d) = base" "seg_base (init_dataseg base sz pri d) = base"
  "seg_base (set_ldt_desc base d) = base" "seg_base (set_tss_desc base d) = base"
  by (simp_all add: init_codeseg_def init_dataseg_def set_ldt_desc_def set_tss_desc_def setseg_base)

lemma seg_limit_init:
  "seg_limit (init_codeseg base sz pri d) = (if 0xfffff < sz then sz OR 0xFFF else sz)"
  "seg_limit (init_dataseg base sz pri d) = (if 0xfffff < sz then sz OR 0xFFF else sz)"
  by (simp_all add: init_codeseg_def init_dataseg_def setseg_limit)

lemma setseg_big_bit: "bit (granularity (setseg base sz d)) 6"
  by (simp add: setseg_def Let_def bit_simps)

text \<open>What the four routines for descriptors make; the limit of a large segment is in pages of 4 KB.\<close>

lemma init_describes:
  "describes 0x1A 0 base (if 0xfffff < sz then sz OR 0xFFF else sz) (init_codeseg base sz KERNEL_PRIV d)"
  "describes 0x12 0 base (if 0xfffff < sz then sz OR 0xFFF else sz) (init_dataseg base sz KERNEL_PRIV d)"
  "describes 0x02 0 base 24 (set_ldt_desc base d)" "describes 0x09 0 base 104 (set_tss_desc base d)"
  by (simp_all add: describes_def seg_limit_init seg_present_def seg_type_def seg_dpl_def seg_big_def)
    (simp_all add: init_codeseg_def init_dataseg_def set_ldt_desc_def set_tss_desc_def setseg_big_bit setseg_limit access_consts
      sizeof_segdesc_def sizeof_tss_def)

text \<open>The gates of the 20 exceptions, of the system call and of the 16 lines of the interrupt controllers.\<close>

definition gates_for :: "(entry_point \<Rightarrow> u32) \<Rightarrow> gatedesc list \<Rightarrow> bool" where
  "gates_for addr idt \<longleftrightarrow>
     (\<forall>i < 20. gate_for (addr (exception_entries ! i)) (PRESENT OR TRAP_TYPE) (idt ! i) \<and> gate_dpl (idt ! i) = 0)
     \<and> gate_for (addr System_call) (PRESENT OR INT_TYPE OR push_bit 5 USER_PRIV) (idt ! SYS_VECTOR) \<and> gate_dpl (idt ! SYS_VECTOR) = 3
     \<and> (\<forall>irq < 16. gate_for (addr (Hwint irq)) (PRESENT OR INT_TYPE) (idt ! VECTOR irq) \<and> gate_dpl (idt ! VECTOR irq) = 0)"

lemma trap_init_works:
  assumes "length idt = IDT_SIZE"
  shows "\<exists>idt'. trap_init addr idt = Inr idt' \<and> length idt' = IDT_SIZE
    \<and> (\<forall>i \<in> {0..<20}. gate_for (addr (exception_entries ! i)) (PRESENT OR TRAP_TYPE) (idt' ! i)
                       \<and> gate_dpl (idt' ! i) = 0)
    \<and> gate_for (addr System_call) (PRESENT OR INT_TYPE OR push_bit 5 USER_PRIV) (idt' ! SYS_VECTOR)
    \<and> gate_dpl (idt' ! SYS_VECTOR) = 3
    \<and> (\<forall>irq \<in> {0..<16}. gate_for (addr (Hwint irq)) (PRESENT OR INT_TYPE) (idt' ! VECTOR irq)
                         \<and> gate_dpl (idt' ! VECTOR irq) = 0)"
proof -
  have vs: "map fst (trap_table addr) = [0..<20] @ 60 # [40..<56]" by (rule trap_table_vectors)
  have "\<forall>v \<in> set (map fst (trap_table addr)). v < length idt"
    unfolding vs using assms by (auto simp: IDT_SIZE_def)
  then have 1: "\<forall>c \<in> set (trap_table addr). fst c < length idt" by simp
  have 2: "distinct (map fst (trap_table addr))" unfolding vs by auto
  obtain idt' where r: "do_calls (map gate_call (trap_table addr)) idt = Inr idt'" "length idt' = length idt"
    and g: "\<forall>(v, base, ty) \<in> set (trap_table addr). gate_for base ty (idt' ! v)"
    using gate_calls [OF 1 2] by blast
  have dpl: "gate_dpl h = drop_bit 5 (ucast ty) AND 3" if "gate_for base ty h" for base ty h
    using that by (simp add: gate_for_def gate_dpl_def)
  have e: "gate_for (addr (exception_entries ! i)) (PRESENT OR TRAP_TYPE) (idt' ! i)" if "i < 20" for i
    using g that by (auto simp: trap_table_def ball_Un)
  have h: "gate_for (addr (Hwint i)) (PRESENT OR INT_TYPE) (idt' ! VECTOR i)" if "i < 16" for i
    using g that by (auto simp: trap_table_def ball_Un)
  have s: "gate_for (addr System_call) (PRESENT OR INT_TYPE OR push_bit 5 USER_PRIV) (idt' ! SYS_VECTOR)"
    using g by (auto simp: trap_table_def)
  have "\<forall>i \<in> {0..<20}. gate_for (addr (exception_entries ! i)) (PRESENT OR TRAP_TYPE) (idt' ! i)
      \<and> gate_dpl (idt' ! i) = 0"
    using e dpl [OF e] by (auto simp: access_consts)
  moreover have "\<forall>i \<in> {0..<16}. gate_for (addr (Hwint i)) (PRESENT OR INT_TYPE) (idt' ! VECTOR i)
      \<and> gate_dpl (idt' ! VECTOR i) = 0"
    using h dpl [OF h] by (auto simp: access_consts)
  moreover have "gate_dpl (idt' ! SYS_VECTOR) = 3" using dpl [OF s] by (simp add: access_consts)
  ultimately show ?thesis
    using r s assms by (intro exI [of _ idt'] conjI) (simp_all only: trap_init_table)
qed

lemma trap_init_gates:
  assumes "length idt = IDT_SIZE"
  shows "\<exists>idt'. trap_init addr idt = Inr idt' \<and> length idt' = IDT_SIZE \<and> gates_for addr idt'"
  using trap_init_works [OF assms, of addr] by (auto simp: gates_for_def)

text \<open>
  \<open>trap_init\<close> fills 37 gates of the interrupt table and stays inside it: each
  exception, the system call and each hardware interrupt has the gate of its kind, with its own
  entry point, at its vector, no call overwrites another, and of these gates a user program may
  call the system call's alone.
\<close>

theorem trap_init_installs:
  assumes "length idt = IDT_SIZE"
  shows "\<exists>idt'. trap_init addr idt = Inr idt' \<and> length idt' = IDT_SIZE
    \<and> (\<forall>i \<in> {0..<20}. gate_for (addr (exception_entries ! i)) (PRESENT OR TRAP_TYPE) (idt' ! i)
                       \<and> gate_dpl (idt' ! i) = 0)
    \<and> gate_for (addr System_call) (PRESENT OR INT_TYPE OR push_bit 5 USER_PRIV) (idt' ! SYS_VECTOR)
    \<and> gate_dpl (idt' ! SYS_VECTOR) = 3
    \<and> (\<forall>irq \<in> {0..<16}. gate_for (addr (Hwint irq)) (PRESENT OR INT_TYPE) (idt' ! VECTOR irq)
                         \<and> gate_dpl (idt' ! VECTOR irq) = 0)"
  using trap_init_works [OF assms] .

definition zero_gate :: gatedesc where
  "zero_gate = \<lparr>offset_low = 0, selector = 0, pad = 0, p_dpl_type = 0, offset_high = 0\<rparr>"

theorem trap_init_installs_witness:
  "\<exists>idt'. trap_init (\<lambda>_. 0x12345678) (replicate IDT_SIZE zero_gate) = Inr idt' \<and> gate_entry (idt' ! 0x3C) = 0x12345678"
  using trap_init_installs [of "replicate IDT_SIZE zero_gate" "\<lambda>_. 0x12345678"]
  by (auto simp: gate_for_def SYS_VECTOR_def)

end
