(* ===== verification/List_Head.thy ===== *)
theory List_Head
  imports Prelude
begin

text \<open>
  The circular doubly linked lists of \<^verbatim>\<open>include/list.h\<close>. A list is a head node whose \<open>next\<close> and
  \<open>prev\<close> close the ring; the nodes are embedded in other structures, so that the model's nodes
  are an arbitrary type of addresses. The lemmas read a ring as the list of its entries.
\<close>

section \<open>The code\<close>

record 'n links =
  l_next :: "'n \<Rightarrow> 'n option"
  l_prev :: "'n \<Rightarrow> 'n option"

abbreviation set_lnext :: "'n \<Rightarrow> 'n option \<Rightarrow> 'n links \<Rightarrow> 'n links" where
  "set_lnext a v s \<equiv> s\<lparr>l_next := (l_next s)(a := v)\<rparr>"

abbreviation set_lprev :: "'n \<Rightarrow> 'n option \<Rightarrow> 'n links \<Rightarrow> 'n links" where
  "set_lprev a v s \<equiv> s\<lparr>l_prev := (l_prev s)(a := v)\<rparr>"

definition deref :: "'n option \<Rightarrow> 'n res" where
  "deref p = (case p of None \<Rightarrow> Inl Null_deref | Some a \<Rightarrow> Inr a)"

lemma deref_simps [simp]: "deref None = Inl Null_deref" "deref (Some a) = Inr a"
  by (simp_all add: deref_def)

definition list_add :: "'n \<Rightarrow> 'n \<Rightarrow> 'n links \<Rightarrow> 'n links res" where
  "list_add head new s =
     res_bind (deref (l_next s head)) (\<lambda>hn.
     let s1 = set_lprev hn (Some new) s;
         s2 = set_lnext new (l_next s1 head) s1;
         s3 = set_lprev new (Some head) s2
     in Inr (set_lnext head (Some new) s3))"

text \<open>The third assignment reads \<open>head->prev\<close> after the first has overwritten it.\<close>

definition list_add_tail :: "'n \<Rightarrow> 'n \<Rightarrow> 'n links \<Rightarrow> 'n links res" where
  "list_add_tail head new s =
     (let s1 = set_lprev head (Some new) s;
          s2 = set_lnext new (Some head) s1;
          s3 = set_lprev new (l_prev s2 head) s2
      in res_bind (deref (l_prev s3 head)) (\<lambda>hp. Inr (set_lnext hp (Some new) s3)))"

definition list_del :: "'n \<Rightarrow> 'n links \<Rightarrow> 'n links res" where
  "list_del old s =
     res_bind (deref (l_next s old)) (\<lambda>n.
     let s1 = set_lprev n (l_prev s old) s in
     res_bind (deref (l_prev s1 old)) (\<lambda>p.
     Inr (set_lnext p (l_next s1 old) s1)))"

section \<open>Rings\<close>

fun linked :: "'n links \<Rightarrow> 'n list \<Rightarrow> bool" where
  "linked s (a # b # xs) \<longleftrightarrow> l_next s a = Some b \<and> l_prev s b = Some a \<and> linked s (b # xs)"
| "linked s xs \<longleftrightarrow> True"

definition ring :: "'n links \<Rightarrow> 'n \<Rightarrow> 'n list \<Rightarrow> bool" where
  "ring s h xs \<longleftrightarrow> distinct (h # xs) \<and> linked s (h # xs @ [h])"

lemma linked_append:
  "linked s (xs @ a # ys) \<longleftrightarrow> linked s (xs @ [a]) \<and> linked s (a # ys)"
proof (induction xs)
  case (Cons x xs)
  then show ?case by (cases xs) auto
qed simp

lemma linked_cong:
  assumes "\<And>a. a \<in> set (butlast xs) \<Longrightarrow> l_next s' a = l_next s a"
    and "\<And>a. a \<in> set (List.tl xs) \<Longrightarrow> l_prev s' a = l_prev s a"
  shows "linked s' xs = linked s xs"
  using assms by (induction s xs rule: linked.induct) auto

lemma linked_next: "linked s (as @ a # b # bs) \<Longrightarrow> l_next s a = Some b \<and> l_prev s b = Some a"
  using linked_append [of s as a "b # bs"] by simp

lemma ring_empty: "ring s h [] \<longleftrightarrow> l_next s h = Some h \<and> l_prev s h = Some h"
  by (auto simp: ring_def)

text \<open>The node behind the head, which is the head itself for the empty ring.\<close>

lemma ring_first: "ring s h xs \<Longrightarrow> l_next s h = Some (hd (xs @ [h]))"
  by (cases xs) (auto simp: ring_def)

lemma ring_walk:
  assumes "ring s h (as @ x # bs)"
  shows "l_next s x = Some (hd (bs @ [h]))" "l_prev s x = Some (last (h # as))"
proof -
  have "linked s ((h # as) @ x # (bs @ [h]))" using assms by (simp add: ring_def)
  then have l1: "linked s ((h # as) @ [x])" and l2: "linked s (x # (bs @ [h]))"
    using linked_append [of s "h # as" x "bs @ [h]"] by blast+
  show "l_next s x = Some (hd (bs @ [h]))" using l2 by (cases bs) auto
  show "l_prev s x = Some (last (h # as))"
  proof (cases as rule: rev_cases)
    case Nil
    with l1 show ?thesis by simp
  next
    case (snoc cs c)
    with l1 linked_next [of s "h # cs" c x "[]"] show ?thesis by simp
  qed
qed

lemma ring_list_add:
  assumes "ring s h xs" "new \<notin> set (h # xs)"
  shows "\<exists>s'. list_add h new s = Inr s' \<and> ring s' h (new # xs)"
proof -
  define s' where "s' = s\<lparr>l_next := (l_next s)(new := l_next s h, h := Some new),
      l_prev := (l_prev s)(hd (xs @ [h]) := Some new, new := Some h)\<rparr>"
  have n: "l_next s h = Some (hd (xs @ [h]))" using assms(1) by (rule ring_first)
  have ne: "new \<noteq> h" "hd (xs @ [h]) \<noteq> new" using assms(2) by (auto simp: hd_append)
  have run: "list_add h new s = Inr s'"
    using n ne by (simp add: list_add_def Let_def s'_def fun_upd_twist)
  obtain y ys where y: "xs @ [h] = y # ys" by (cases "xs @ [h]") auto
  have "linked s (y # ys)" using assms(1) y by (cases ys) (auto simp: ring_def)
  moreover have "l_next s' a = l_next s a" if "a \<in> set (butlast (y # ys))" for a
    using that assms by (auto simp: s'_def ring_def simp flip: y)
  moreover have "l_prev s' a = l_prev s a" if "a \<in> set (List.tl (y # ys))" for a
  proof -
    have "a \<noteq> y"
    proof (cases xs)
      case Nil
      with that y show ?thesis by simp
    next
      case (Cons z zs)
      with y have "y = z" "ys = zs @ [h]" by auto
      with that Cons assms(1) show ?thesis by (auto simp: ring_def)
    qed
    moreover have "a \<noteq> new"
      using that assms(2) y by (metis (no_types, opaque_lifting) Un_iff empty_iff empty_set in_set_conv_decomp
          list.sel(3) list.set_intros(1) list.set_intros(2) set_ConsD set_append)
    ultimately show ?thesis using y by (simp add: s'_def)
  qed
  ultimately have "linked s' (y # ys)" using linked_cong [of "y # ys" s' s] by simp
  then have "linked s' (h # new # y # ys)" using n y ne by (simp add: s'_def)
  then have "ring s' h (new # xs)" using assms y by (auto simp: ring_def)
  with run show ?thesis by blast
qed

lemma ring_list_del:
  assumes "ring s h (as @ x # bs)"
  shows "\<exists>s'. list_del x s = Inr s' \<and> ring s' h (as @ bs)
     \<and> l_next s' x = l_next s x \<and> l_prev s' x = l_prev s x"
proof -
  let ?n = "hd (bs @ [h])" and ?p = "last (h # as)"
  define s' where "s' = s\<lparr>l_next := (l_next s)(?p := Some ?n), l_prev := (l_prev s)(?n := Some ?p)\<rparr>"
  have nx: "l_next s x = Some ?n" "l_prev s x = Some ?p" using ring_walk [OF assms] by simp_all
  have dist: "distinct (h # as @ x # bs)" using assms by (simp add: ring_def)
  have ne: "?n \<noteq> x" "?p \<noteq> x" using dist by (auto simp: hd_append)
  have run: "list_del x s = Inr s'" using nx ne by (simp add: list_del_def Let_def s'_def)
  obtain ns where ns: "bs @ [h] = ?n # ns" by (cases bs) auto
  obtain qs where qs: "h # as = qs @ [?p]" by (metis append_butlast_last_id list.distinct(2))
  have "linked s (h # as @ x # bs @ [h])" using assms by (simp add: ring_def)
  then have "linked s (qs @ ?p # x # ?n # ns)" using qs ns by (metis append_Cons append_Nil append_assoc)
  then have l1: "linked s (qs @ [?p])" and l2: "linked s (?n # ns)"
    using linked_append [of s qs ?p "x # ?n # ns"] by auto
  have "linked s' (qs @ [?p])"
  proof (subst linked_cong [where s = s])
    fix a assume "a \<in> set (butlast (qs @ [?p]))"
    then show "l_next s' a = l_next s a" using dist qs by (auto simp: s'_def) (metis distinct.simps(2) distinct_append not_distinct_conv_prefix qs append_Cons)
  next
    fix a assume a: "a \<in> set (List.tl (qs @ [?p]))"
    have "set (List.tl (qs @ [?p])) = set as" using qs by (metis list.sel(3))
    then have "a \<in> set as" using a by simp
    moreover have "?n \<in> insert h (set bs)" by (cases bs) auto
    ultimately have "a \<noteq> ?n" using dist by auto
    then show "l_prev s' a = l_prev s a" by (simp add: s'_def)
  qed (use l1 in simp)
  moreover have "linked s' (?n # ns)"
  proof (subst linked_cong [where s = s])
    fix a assume a: "a \<in> set (butlast (?n # ns))"
    then have "a \<in> set bs" using ns by (metis butlast_snoc)
    moreover have "?p \<in> insert h (set as)" by (cases as rule: rev_cases) auto
    ultimately have "a \<noteq> ?p" using dist by auto
    then show "l_next s' a = l_next s a" by (simp add: s'_def)
  next
    fix a assume a: "a \<in> set (List.tl (?n # ns))"
    have "distinct (bs @ [h])" using dist by auto
    then have "a \<noteq> ?n" using a ns by (metis distinct.simps(2) list.sel(3))
    then show "l_prev s' a = l_prev s a" by (simp add: s'_def)
  qed (use l2 in simp)
  ultimately have "linked s' (qs @ ?p # ?n # ns)"
    by (subst linked_append) (simp add: s'_def)
  then have "linked s' (h # (as @ bs) @ [h])" using qs ns by (metis append_Cons append_Nil append_assoc)
  then have "ring s' h (as @ bs)" using dist by (auto simp: ring_def)
  moreover have "l_next s' x = l_next s x" "l_prev s' x = l_prev s x" using ne by (auto simp: s'_def)
  ultimately show ?thesis using run by blast
qed

lemma ring_cong:
  assumes "\<And>a. a \<in> set (h # xs) \<Longrightarrow> l_next s' a = l_next s a \<and> l_prev s' a = l_prev s a"
  shows "ring s' h xs = ring s h xs"
proof -
  have "linked s' (h # xs @ [h]) = linked s (h # xs @ [h])"
  proof (rule linked_cong)
    fix a
    show "a \<in> set (butlast (h # xs @ [h])) \<Longrightarrow> l_next s' a = l_next s a"
      using assms by (metis append_Cons butlast_snoc)
    show "a \<in> set (List.tl (h # xs @ [h])) \<Longrightarrow> l_prev s' a = l_prev s a"
      using assms by (cases "a = h") simp_all
  qed
  then show ?thesis by (simp add: ring_def)
qed

section \<open>Properties\<close>

text \<open>
  on a ring, \<open>list_add\<close> puts a new node in front, \<open>list_del\<close> takes it out again, and
  what is left is a ring with the entries that were there before; neither runs into a null pointer.
\<close>

theorem list_add_del_roundtrip:
  assumes "ring s h xs" "new \<notin> set (h # xs)"
  shows "\<exists>s1 s2. list_add h new s = Inr s1 \<and> ring s1 h (new # xs)
    \<and> list_del new s1 = Inr s2 \<and> ring s2 h xs"
proof -
  obtain s1 where s1: "list_add h new s = Inr s1" "ring s1 h (new # xs)" using ring_list_add [OF assms] by blast
  from s1(2) have "ring s1 h ([] @ new # xs)" by simp
  from ring_list_del [OF this] obtain s2 where "list_del new s1 = Inr s2" "ring s2 h ([] @ xs)" by blast
  with s1 show ?thesis by (intro exI [of _ s1] exI [of _ s2]) simp
qed

definition ring_of_two :: "nat links" where
  "ring_of_two = \<lparr>l_next = (\<lambda>_. None)(0 := Some 1, 1 := Some 0), l_prev = (\<lambda>_. None)(0 := Some 1, 1 := Some 0)\<rparr>"

lemma ring_of_two_ring: "ring ring_of_two 0 [1]"
  by (simp add: ring_def ring_of_two_def)

theorem list_add_del_roundtrip_witness:
  "\<exists>s1 s2. list_add 0 2 ring_of_two = Inr s1 \<and> ring s1 0 [2, 1] \<and> list_del 2 s1 = Inr s2 \<and> ring s2 0 [1]"
  using list_add_del_roundtrip [OF ring_of_two_ring, of 2] by simp

text \<open>
  \<open>list_add_tail\<close>, which is meant to put a new node in front of the head, does not
  insert it: no node of the ring points to it, so the walk from the head meets the old entries only,
  and the new node's two pointers both lead back to itself.
\<close>

theorem list_add_tail_not_inserted:
  assumes "ring s h xs" "new \<notin> set (h # xs)"
  shows "\<exists>s'. list_add_tail h new s = Inr s'
    \<and> (\<forall>a \<in> set (h # xs). l_next s' a = l_next s a)
    \<and> l_next s' new = Some new \<and> l_prev s' new = Some new \<and> l_prev s' h = Some new"
proof -
  have "new \<noteq> h" using assms(2) by simp
  then show ?thesis using assms(2) by (auto simp: list_add_tail_def Let_def)
qed

theorem list_add_tail_not_inserted_witness:
  "\<exists>s'. list_add_tail 0 2 ring_of_two = Inr s' \<and> l_next s' 1 = Some 0 \<and> l_next s' 2 = Some 2"
  using list_add_tail_not_inserted [OF ring_of_two_ring, of 2] by (auto simp: ring_of_two_def)

end
