(* ===== verification/Kernel_State.thy ===== *)
theory Kernel_State
  imports Pages Protect List_Head
begin

text \<open>
  The data of the process and file system parts: \<^verbatim>\<open>include/proc.h\<close>, \<^verbatim>\<open>include/fs.h\<close>,
  \<^verbatim>\<open>include/wait.h\<close>, the task state segment of \<^verbatim>\<open>include/protect.h\<close>, and the state record that the
  process, interrupt and file system theories work on. A pointer into a static array is the index
  of the element, optional where the code uses the null pointer.
\<close>

section \<open>Constants of const.h and proc.h\<close>

definition NR_TASK :: nat where "NR_TASK = 10"
definition FIRST_LDT_INDEX :: nat where "FIRST_LDT_INDEX = 6"
definition GDT_SIZE :: nat where "GDT_SIZE = FIRST_LDT_INDEX + NR_TASK"
definition CS_INDEX :: nat where "CS_INDEX = 1"
definition DS_INDEX :: nat where "DS_INDEX = 2"
definition GDT_INDEX :: nat where "GDT_INDEX = 3"
definition IDT_INDEX :: nat where "IDT_INDEX = 4"
definition TSS_INDEX :: nat where "TSS_INDEX = 5"
definition DS_SELECTOR :: u32 where "DS_SELECTOR = 0x10"
definition TSS_SELECTOR :: u16 where "TSS_SELECTOR = 0x28"

definition sizeof_stackframe :: u32 where "sizeof_stackframe = 68"
definition KERNEL_THREAD_SIZE :: u32 where "KERNEL_THREAD_SIZE = sizeof_stackframe + 1024 * 3"

definition TASK_RUNNING :: int where "TASK_RUNNING = 1"
definition TASK_STOPED :: int where "TASK_STOPED = 2"
definition TASK_INTERRUPT :: int where "TASK_INTERRUPT = 3"

definition P_IN_USE :: u32 where "P_IN_USE = 1"
definition IDLE_TASK :: nat where "IDLE_TASK = 0"

lemmas table_consts = NR_TASK_def FIRST_LDT_INDEX_def GDT_SIZE_def CS_INDEX_def DS_INDEX_def
  GDT_INDEX_def IDT_INDEX_def TSS_INDEX_def DS_SELECTOR_def TSS_SELECTOR_def
lemmas task_consts = TASK_RUNNING_def TASK_STOPED_def TASK_INTERRUPT_def

section \<open>Process data\<close>

record stackframe =
  r_gs :: u32
  r_fs :: u32
  r_es :: u32
  r_ds :: u32
  r_ebp :: u32
  r_edi :: u32
  r_esi :: u32
  r_edx :: u32
  r_ecx :: u32
  r_ebx :: u32
  r_eax :: u32
  r_retaddr :: u32
  r_eip :: u32
  r_cs :: u32
  r_psw :: u32
  r_esp :: u32
  r_ss :: u32

record memmap =
  vir :: u32
  phys :: u32
  map_size :: u32

text \<open>The index constants \<open>T\<close>, \<open>D\<close> and \<open>S\<close> of the array \<open>map\<close> in \<^verbatim>\<open>struct proc\<close>.\<close>

datatype map_index = Map_T | Map_D | Map_S

record thread =
  th_esp0 :: u32
  th_eip :: u32
  th_esp :: u32

record file_struct =
  openfd :: u32
  maxopen :: int
  fd_array :: "nat option list"

record fs_struct =
  fs_root :: "nat option"

record proc =
  need_resched :: u32
  ldt_selector :: u16
  ldt :: "segdesc list"
  pthread :: thread
  pid :: int
  status :: int
  counter :: int
  flags :: u32
  pmap :: "map_index \<Rightarrow> memmap"
  files :: file_struct
  pfs :: fs_struct
  p_next :: "nat option"

record tss_s =
  tss_backlink :: u32
  tss_esp0 :: u32
  tss_ss0 :: u32
  tss_esp1 :: u32
  tss_ss1 :: u32
  tss_esp2 :: u32
  tss_ss2 :: u32
  tss_cr3 :: u32
  tss_eip :: u32
  tss_flags :: u32
  tss_eax :: u32
  tss_ecx :: u32
  tss_edx :: u32
  tss_ebx :: u32
  tss_esp :: u32
  tss_ebp :: u32
  tss_esi :: u32
  tss_edi :: u32
  tss_es :: u32
  tss_cs :: u32
  tss_ss :: u32
  tss_ds :: u32
  tss_fs :: u32
  tss_gs :: u32
  tss_ldt :: u32
  tss_trap :: u16
  tss_iobase :: u16

section \<open>List nodes\<close>

text \<open>
  The list nodes of the kernel, by the structure they are embedded in: the heads of the wait
  queues, and the \<open>wait_queue_t\<close> that \<open>sleep_on\<close> has on the kernel stack of a process. The
  \<open>proc\<close> field of that structure is set to the process when it is declared, and never again.
\<close>

datatype lnode = Kb_wait | Hd_wait | Super_wait nat | Waiter nat

fun entry_proc :: "lnode \<Rightarrow> nat option" where
  "entry_proc (Waiter p) = Some p"
| "entry_proc _ = None"

section \<open>File system data\<close>

record super_block =
  sb_base :: u32
  sb_sector_size :: u32
  sb_cluster_size :: u32
  sb_fat_number :: u32
  sb_sector_number :: u32
  sb_sectorsperfat :: u32
  sb_sectorspertrack :: u32
  sb_resvdseccnt :: u32
  sb_heads :: u32
  sb_hidden :: u32
  sb_type :: u32
  sb_dir_first_sec :: u32
  sb_dir_number :: u32
  sb_data_first_sec :: u32
  sb_lock :: u8
  sb_dev :: int
  sb_rootdir :: "nat option"

record inode =
  i_sb :: "nat option"
  i_size :: u32
  i_name :: "u8 list"
  i_block :: "u32 list"

record filp =
  f_ino :: "nat option"
  f_pos :: u32
  f_count :: int

section \<open>The state\<close>

record kstate = kpages +
  procs :: "nat \<Rightarrow> proc"
  kstack :: "nat \<Rightarrow> stackframe"
  ready_head :: "nat option"
  ready_tail :: "nat option"
  current :: nat
  tss :: tss_s
  gdt :: "segdesc list"
  idt :: "gatedesc list"
  gdtr :: "u32 \<times> u16"
  idtr :: "u32 \<times> u16"
  ldtr :: u16
  tr :: u16
  k_esp :: u32
  k_eip :: u32
  wait_links :: "lnode links"
  ram :: "u32 \<Rightarrow> u8"
  super_block :: "super_block list"

text \<open>The addresses that the linker gives to the kernel's variables and code.\<close>

record symbols =
  sym_proc_table :: u32
  sym_userstack :: u32
  sym_gdt :: u32
  sym_idt :: u32
  sym_tss :: u32
  sym_ret_with_schedule :: u32
  sym_idle_task :: u32
  sym_init_task :: u32
  sym_resume :: u32
  sym_entry :: "entry_point \<Rightarrow> u32"

definition proc_addr :: "symbols \<Rightarrow> nat \<Rightarrow> u32" where
  "proc_addr sy t = sym_proc_table sy + of_nat t * KERNEL_THREAD_SIZE"

text \<open>\<^verbatim>\<open>#define GET_PROC_KSTACK(p)\<close>, as an address; the frame itself is \<open>kstack s t\<close>.\<close>

definition GET_PROC_KSTACK :: "symbols \<Rightarrow> nat \<Rightarrow> u32" where
  "GET_PROC_KSTACK sy t = proc_addr sy t + KERNEL_THREAD_SIZE - sizeof_stackframe"

definition upd_proc :: "nat \<Rightarrow> (proc \<Rightarrow> proc) \<Rightarrow> 'a kstate_scheme \<Rightarrow> 'a kstate_scheme" where
  "upd_proc t f s = s\<lparr>procs := (procs s)(t := f (procs s t))\<rparr>"

definition upd_kstack :: "nat \<Rightarrow> (stackframe \<Rightarrow> stackframe) \<Rightarrow> 'a kstate_scheme \<Rightarrow> 'a kstate_scheme" where
  "upd_kstack t f s = s\<lparr>kstack := (kstack s)(t := f (kstack s t))\<rparr>"

lemma upd_proc_sel [simp]:
  "procs (upd_proc t f s) = (procs s)(t := f (procs s t))"
  "ready_head (upd_proc t f s) = ready_head s" "ready_tail (upd_proc t f s) = ready_tail s"
  "current (upd_proc t f s) = current s" "ief (upd_proc t f s) = ief s"
  "kstack (upd_proc t f s) = kstack s" "wait_links (upd_proc t f s) = wait_links s"
  by (simp_all add: upd_proc_def)

lemma upd_kstack_sel [simp]:
  "kstack (upd_kstack t f s) = (kstack s)(t := f (kstack s t))"
  "procs (upd_kstack t f s) = procs s"
  "ready_head (upd_kstack t f s) = ready_head s" "ready_tail (upd_kstack t f s) = ready_tail s"
  "current (upd_kstack t f s) = current s" "ief (upd_kstack t f s) = ief s"
  "wait_links (upd_kstack t f s) = wait_links s"
  by (simp_all add: upd_kstack_def)

end
