(* ===== verification/Proc.thy ===== *)
theory Proc
  imports Kernel_State
begin

text \<open>
  The process table and the ready queue: \<^verbatim>\<open>ker/proc.c\<close>, and \<open>alloc_segments\<close> of
  \<^verbatim>\<open>ker/protect.c\<close>. The ready queue is a singly linked list through \<open>next\<close> with a head and a tail
  pointer; the idle task, process 0, is never on it.
\<close>

section \<open>The ready queue\<close>

definition get_free_proc_struct :: "'a kstate_scheme \<Rightarrow> nat option" where
  "get_free_proc_struct s = find (\<lambda>t. flags (procs s t) AND P_IN_USE = 0) [0..<NR_TASK]"

definition proc_ready :: "nat option \<Rightarrow> 'a kstate_scheme \<Rightarrow> 'a kstate_scheme res" where
  "proc_ready rp s =
     (case rp of
        None \<Rightarrow> Inr s
      | Some p \<Rightarrow>
          if p = IDLE_TASK then Inr s
          else
            res_bind
              (if ready_head s \<noteq> None then
                 res_bind (deref (ready_tail s)) (\<lambda>t. Inr (upd_proc t (p_next_update (\<lambda>_. Some p)) s))
               else Inr (s\<lparr>ready_head := Some p\<rparr>)) (\<lambda>s1.
            Inr ((upd_proc p (p_next_update (\<lambda>_. None)) s1)\<lparr>ready_tail := Some p\<rparr>)))"

definition pick_proc :: "'a kstate_scheme \<Rightarrow> nat" where
  "pick_proc s = (case ready_head s of Some p \<Rightarrow> p | None \<Rightarrow> IDLE_TASK)"

text \<open>
  The loop of \<open>proc_block\<close>: from \<open>hp\<close>, the node whose successor is \<open>bp\<close>, or none when the list ends.
\<close>

partial_function (option) find_before ::
    "(nat \<Rightarrow> nat option) \<Rightarrow> nat \<Rightarrow> nat \<Rightarrow> nat option option" where
  "find_before nx bp hp =
     (if nx hp = Some bp then Some (Some hp)
      else case nx hp of None \<Rightarrow> Some None | Some hp' \<Rightarrow> find_before nx bp hp')"

definition proc_block :: "nat option \<Rightarrow> 'a kstate_scheme \<Rightarrow> 'a kstate_scheme exec" where
  "proc_block bp s =
     (case bp of
        None \<Rightarrow> Some (Inr s)
      | Some b \<Rightarrow>
          if b = IDLE_TASK then Some (Inr s)
          else case ready_head s of
            None \<Rightarrow> Some (Inl Null_deref)
          | Some hp \<Rightarrow>
              if hp = b then
                let s1 = s\<lparr>ready_head := p_next (procs s hp)\<rparr>
                in Some (Inr (s1\<lparr>current := pick_proc s1\<rparr>))
              else case find_before (\<lambda>i. p_next (procs s i)) b hp of
                None \<Rightarrow> None
              | Some None \<Rightarrow> Some (Inr s)
              | Some (Some h) \<Rightarrow>
                  let s1 = upd_proc h (p_next_update (\<lambda>_. p_next (procs s b))) s
                  in Some (Inr (if ready_tail s1 = Some b then s1\<lparr>ready_tail := Some h\<rparr> else s1)))"

section \<open>Time slices\<close>

definition bill_process_time :: "'a kstate_scheme \<Rightarrow> 'a kstate_scheme" where
  "bill_process_time s =
     (let c = current s in
      if c = IDLE_TASK then upd_proc c (need_resched_update (\<lambda>_. 1)) s
      else if 0 < counter (procs s c) then upd_proc c (counter_update (\<lambda>n. n - 1)) s
      else upd_proc c (need_resched_update (\<lambda>_. 1)) s)"

definition RoundRobin :: "'a kstate_scheme \<Rightarrow> 'a kstate_scheme res" where
  "RoundRobin s =
     (case ready_head s of
        None \<Rightarrow> Inr s
      | Some h \<Rightarrow>
          if counter (procs s (current s)) \<le> 0 then
            res_bind (deref (ready_tail s)) (\<lambda>t.
            let s1 = upd_proc t (p_next_update (\<lambda>_. Some h)) s;
                s2 = s1\<lparr>ready_tail := Some h\<rparr>;
                s3 = s2\<lparr>ready_head := p_next (procs s2 h)\<rparr>;
                s4 = upd_proc h (p_next_update (\<lambda>_. None)) s3
            in Inr (upd_proc (current s4) (counter_update (\<lambda>_. 10)) s4))
          else Inr s)"

section \<open>Setting up a process\<close>

definition proc_thread_init :: "symbols \<Rightarrow> nat \<Rightarrow> 'a kstate_scheme \<Rightarrow> 'a kstate_scheme" where
  "proc_thread_init sy p =
     upd_proc p (pthread_update (\<lambda>_. \<lparr>th_esp0 = GET_PROC_KSTACK sy p + sizeof_stackframe,
       th_eip = sym_ret_with_schedule sy, th_esp = GET_PROC_KSTACK sy p\<rparr>))"

definition CS_LDT_INDEX :: nat where "CS_LDT_INDEX = 0"
definition DS_LDT_INDEX :: nat where "DS_LDT_INDEX = 1"

definition alloc_segments :: "nat \<Rightarrow> 'a kstate_scheme \<Rightarrow> 'a kstate_scheme" where
  "alloc_segments p s =
     (let m = pmap (procs s p); d = ldt (procs s p);
          d1 = d[CS_LDT_INDEX := init_codeseg (phys (m Map_T)) (map_size (m Map_T)) USER_PRIV (d ! CS_LDT_INDEX)];
          d2 = d1[DS_LDT_INDEX := init_dataseg (phys (m Map_D)) (vir (m Map_S) + map_size (m Map_S)) USER_PRIV
                                    (d1 ! DS_LDT_INDEX)];
          cs = seg_selector (of_nat CS_LDT_INDEX) 1 USER_PRIV;
          ds = seg_selector (of_nat DS_LDT_INDEX) 1 USER_PRIV
      in upd_kstack p (\<lambda>r. r\<lparr>r_cs := cs, r_ds := ds, r_es := ds, r_fs := ds, r_gs := ds, r_ss := ds\<rparr>)
           (upd_proc p (ldt_update (\<lambda>_. d2)) s))"

text \<open>From \<^verbatim>\<open>fs/open.c\<close>; \<open>super_block.rootdir\<close> is the root of the first super block.\<close>

definition proc_fd_init :: "nat \<Rightarrow> 'a kstate_scheme \<Rightarrow> 'a kstate_scheme" where
  "proc_fd_init p s = upd_proc p (\<lambda>r. r\<lparr>files := (files r)\<lparr>openfd := 0, maxopen := 5\<rparr>,
     pfs := (pfs r)\<lparr>fs_root := sb_rootdir (super_block s ! 0)\<rparr>\<rparr>) s"

definition tasktab :: "symbols \<Rightarrow> (u32 \<times> u32) list" where
  "tasktab sy = [(sym_idle_task sy, 50), (sym_init_task sy, 512 * 5)]"

definition FLAGS_IF :: u32 where "FLAGS_IF = 0x200"

text \<open>One round of the second loop of \<open>proc_init\<close>.\<close>

definition proc_init_task :: "symbols \<Rightarrow> nat \<Rightarrow> u32 \<Rightarrow> 'a kstate_scheme \<Rightarrow> 'a kstate_scheme res" where
  "proc_init_task sy t tstkbase s =
     (let (init_eip, stksize) = tasktab sy ! t;
          s1 = proc_fd_init t (proc_thread_init sy t s);
          s2 = upd_kstack t (r_eip_update (\<lambda>_. init_eip)) s1;
          s3 = upd_proc t (\<lambda>r. r\<lparr>pmap := (\<lambda>i. case i of
                  Map_T \<Rightarrow> (pmap r Map_T)\<lparr>phys := 0, vir := 0, map_size := 0x20000\<rparr>
                | Map_D \<Rightarrow> (pmap r Map_D)\<lparr>phys := 0, vir := 0, map_size := tstkbase + stksize\<rparr>
                | Map_S \<Rightarrow> (pmap r Map_S)\<lparr>phys := 0, vir := tstkbase, map_size := stksize\<rparr>)\<rparr>) s2;
          s4 = upd_kstack t (\<lambda>r. r\<lparr>r_esp := tstkbase + stksize, r_psw := FLAGS_IF\<rparr>) s3;
          s5 = upd_proc t (\<lambda>r. r\<lparr>pid := int t, flags := flags r OR P_IN_USE, counter := 10,
                  need_resched := 0, status := TASK_RUNNING\<rparr>) s4
      in proc_ready (Some t) (alloc_segments t s5))"

definition proc_init :: "symbols \<Rightarrow> 'a kstate_scheme \<Rightarrow> 'a kstate_scheme res" where
  "proc_init sy s =
     (let s1 = s\<lparr>ready_head := None, ready_tail := None\<rparr>;
          s2 = fold (\<lambda>t. upd_proc t (\<lambda>r. r\<lparr>pid := int t, flags := 0\<rparr>)) [0..<NR_TASK] s1
      in res_bind (proc_init_task sy 0 (sym_userstack sy) s2) (\<lambda>s3.
         res_bind (proc_init_task sy 1 (sym_userstack sy + snd (tasktab sy ! 0)) s3) (\<lambda>s4.
         let s5 = s4\<lparr>current := IDLE_TASK\<rparr>;
             s6 = s5\<lparr>tss := (tss s5)\<lparr>tss_esp0 := th_esp0 (pthread (procs s5 (current s5)))\<rparr>\<rparr>
         in Inr (upd_proc (current s6) (need_resched_update (\<lambda>_. 1)) s6))))"

text \<open>The address of a user pointer in the kernel's flat segment, or null.\<close>

definition umap :: "proc \<Rightarrow> u32 \<Rightarrow> u32" where
  "umap p offset =
     (if vir (pmap p Map_D) + map_size (pmap p Map_D) \<le> offset then 0
      else phys (pmap p Map_D) + offset)"

end
