(* ===== verification/Sched.thy ===== *)
theory Sched
  imports Proc
begin

text \<open>
  The scheduler, \<^verbatim>\<open>ker/schedule.c\<close>, with the wait queues of \<^verbatim>\<open>include/wait.h\<close> and the path of
  \<^verbatim>\<open>ker/sys.S\<close> that a clock interrupt takes on its way back to user mode. \<open>sleep_on\<close> is split where
  \<open>schedule\<close> switches away: the part before runs in the process that goes to sleep, the part behind
  when that process is switched to again.
\<close>

section \<open>The context switch\<close>

definition switch_to :: "nat \<Rightarrow> 'a kstate_scheme \<Rightarrow> 'a kstate_scheme" where
  "switch_to next s =
     s\<lparr>tss := (tss s)\<lparr>tss_esp0 := th_esp0 (pthread (procs s next))\<rparr>,
       ldtr := ldt_selector (procs s next)\<rparr>"

text \<open>
  The assembly saves four registers on the kernel stack (16 bytes), the stack pointer and the
  address behind the jump in the old thread, loads the new stack pointer, and reaches the new
  thread's \<open>eip\<close> by the return of \<open>_switch_to\<close>.
\<close>

definition switch_kernel_thread ::
    "symbols \<Rightarrow> nat \<Rightarrow> nat \<Rightarrow> 'a kstate_scheme \<Rightarrow> 'a kstate_scheme" where
  "switch_kernel_thread sy cur next s =
     (let s1 = s\<lparr>k_esp := k_esp s - 16\<rparr>;
          s2 = upd_proc cur (pthread_update (th_esp_update (\<lambda>_. k_esp s1))) s1;
          s3 = s2\<lparr>k_esp := th_esp (pthread (procs s2 next))\<rparr>;
          s4 = upd_proc cur (pthread_update (th_eip_update (\<lambda>_. sym_resume sy))) s3;
          s5 = switch_to next s4
      in s5\<lparr>k_eip := th_eip (pthread (procs s4 next))\<rparr>)"

definition schedule :: "symbols \<Rightarrow> 'a kstate_scheme \<Rightarrow> 'a kstate_scheme exec" where
  "schedule sy s =
     (let cur = current s in
      exec_bind (Some (RoundRobin s)) (\<lambda>s1.
      exec_bind (if status (procs s1 cur) = TASK_INTERRUPT \<or> status (procs s1 cur) = TASK_STOPED
                 then proc_block (Some cur) s1 else Some (Inr s1)) (\<lambda>s2.
      let s3 = upd_proc cur (need_resched_update (\<lambda>_. 0)) s2;
          next = pick_proc s3
      in Some (Inr (if cur \<noteq> next then
           let s4 = s3\<lparr>current := next\<rparr>;
               s5 = upd_proc (current s4) (need_resched_update (\<lambda>_. 0)) s4
           in switch_kernel_thread sy cur next s5
         else s3)))))"

text \<open>
  \<^verbatim>\<open>ret_from_int\<close> and \<^verbatim>\<open>ret_with_schedule\<close> of \<^verbatim>\<open>ker/sys.S\<close>, for an interrupt of the clock in user mode.
\<close>

definition clock_tick :: "symbols \<Rightarrow> 'a kstate_scheme \<Rightarrow> 'a kstate_scheme exec" where
  "clock_tick sy s =
     (let s1 = bill_process_time s in
      if need_resched (procs s1 (current s1)) \<noteq> 0 then schedule sy s1 else Some (Inr s1))"

section \<open>Wait queues\<close>

definition on_links :: "(lnode links \<Rightarrow> lnode links res) \<Rightarrow> 'a kstate_scheme \<Rightarrow> 'a kstate_scheme res" where
  "on_links f s = res_bind (f (wait_links s)) (\<lambda>l. Inr (s\<lparr>wait_links := l\<rparr>))"

definition add_wait_queue :: "lnode \<Rightarrow> lnode \<Rightarrow> 'a kstate_scheme \<Rightarrow> 'a kstate_scheme res" where
  "add_wait_queue head new = on_links (list_add head new)"

definition remove_wait_queue :: "lnode \<Rightarrow> lnode \<Rightarrow> 'a kstate_scheme \<Rightarrow> 'a kstate_scheme res" where
  "remove_wait_queue head old = on_links (list_del old)"

definition INIT_WAIT_QUEUE_HEAD :: "lnode \<Rightarrow> 'a kstate_scheme \<Rightarrow> 'a kstate_scheme" where
  "INIT_WAIT_QUEUE_HEAD name s =
     s\<lparr>wait_links := set_lnext name (Some name) (set_lprev name (Some name) (wait_links s))\<rparr>"

definition DECLARE_WAIT_QUEUE :: "nat \<Rightarrow> 'a kstate_scheme \<Rightarrow> 'a kstate_scheme" where
  "DECLARE_WAIT_QUEUE task s =
     s\<lparr>wait_links := set_lnext (Waiter task) None (set_lprev (Waiter task) None (wait_links s))\<rparr>"

definition sleep_on_enter :: "symbols \<Rightarrow> lnode \<Rightarrow> 'a kstate_scheme \<Rightarrow> 'a kstate_scheme exec" where
  "sleep_on_enter sy head s =
     (let s0 = DECLARE_WAIT_QUEUE (current s) s;
          (fl, s1) = lock_irq_save s0;
          s2 = upd_proc (current s1) (status_update (\<lambda>_. TASK_INTERRUPT)) s1
      in exec_bind (Some (add_wait_queue head (Waiter (current s)) s2)) (\<lambda>s3.
         schedule sy (unlock_irq_restore fl s3)))"

definition sleep_on_leave :: "lnode \<Rightarrow> nat \<Rightarrow> 'a kstate_scheme \<Rightarrow> 'a kstate_scheme res" where
  "sleep_on_leave head p s =
     (let (fl, s1) = lock_irq_save s in
      res_bind (remove_wait_queue head (Waiter p) s1) (\<lambda>s2. Inr (unlock_irq_restore fl s2)))"

text \<open>The process whose status becomes running is the one that wakes, not the one that is woken.\<close>

definition wake_up_process :: "nat \<Rightarrow> 'a kstate_scheme \<Rightarrow> 'a kstate_scheme res" where
  "wake_up_process p s =
     (let (fl, s1) = lock_irq_save s;
          s2 = upd_proc (current s1) (status_update (\<lambda>_. TASK_RUNNING)) s1
      in res_bind (proc_ready (Some p) s2) (\<lambda>s3. Inr (unlock_irq_restore fl s3)))"

text \<open>The walk of \<open>wake_up\<close> along the queue, from \<open>tmp\<close> until it is back at the head.\<close>

partial_function (option) wake_loop ::
    "lnode \<Rightarrow> lnode option \<Rightarrow> 'a kstate_scheme \<Rightarrow> (fault + 'a kstate_scheme) option" where
  "wake_loop he tmp s =
     (case tmp of None \<Rightarrow> Some (Inl Null_deref)
      | Some t \<Rightarrow>
          if t = he then Some (Inr s)
          else case entry_proc t of None \<Rightarrow> Some (Inl Out_of_bounds)
          | Some p \<Rightarrow>
              (case wake_up_process p s of Inl e \<Rightarrow> Some (Inl e)
               | Inr s' \<Rightarrow> wake_loop he (l_next (wait_links s) t) s'))"

definition wake_up :: "lnode option \<Rightarrow> 'a kstate_scheme \<Rightarrow> 'a kstate_scheme exec" where
  "wake_up head s =
     (case head of None \<Rightarrow> Some (Inr s)
      | Some he \<Rightarrow>
          let (fl, s1) = lock_irq_save s in
          exec_bind (wake_loop he (l_next (wait_links s1) he) s1) (\<lambda>s2.
          Some (Inr (unlock_irq_restore fl s2))))"

end
