(* ===== verification/Ready_Queue.thy ===== *)
theory Ready_Queue
  imports Sched
begin

text \<open>
  The ready queue as a list of processes: what each operation of \<^verbatim>\<open>ker/proc.c\<close> does to it, and the
  contract of a round-robin run queue, of which the ready queue is an instance.
\<close>

section \<open>The contract of a run queue\<close>

primrec iter_res :: "('s \<Rightarrow> 's res) \<Rightarrow> nat \<Rightarrow> 's \<Rightarrow> 's res" where
  "iter_res f 0 s = Inr s"
| "iter_res f (Suc n) s = res_bind (f s) (iter_res f n)"

locale run_queue =
  fixes enq :: "'p \<Rightarrow> 's \<Rightarrow> 's res"
    and remove :: "'p \<Rightarrow> 's \<Rightarrow> 's exec"
    and rotate_q :: "'s \<Rightarrow> 's res"
    and front :: "'s \<Rightarrow> 'p"
    and rep :: "'s \<Rightarrow> 'p list \<Rightarrow> bool"
    and ok :: "'p \<Rightarrow> bool"
  assumes rep_distinct: "rep s L \<Longrightarrow> distinct L"
    and enq_back: "rep s L \<Longrightarrow> ok p \<Longrightarrow> p \<notin> set L \<Longrightarrow> \<exists>s'. enq p s = Inr s' \<and> rep s' (L @ [p])"
    and remove_one: "rep s L \<Longrightarrow> L \<noteq> [] \<Longrightarrow> ok p \<Longrightarrow> \<exists>s'. remove p s = Some (Inr s') \<and> rep s' (remove1 p L)"
    and rotate_front: "rep s (p # L) \<Longrightarrow> \<exists>s'. rotate_q s = Inr s' \<and> rep s' (L @ [p])"
    and front_hd: "rep s (p # L) \<Longrightarrow> front s = p"
begin

text \<open>A process at place \<open>i\<close> of the queue is at the front after \<open>i\<close> rotations.\<close>

lemma rotations: "rep s L \<Longrightarrow> L \<noteq> [] \<Longrightarrow> \<exists>s'. iter_res rotate_q n s = Inr s' \<and> rep s' (rotate n L)"
proof (induction n arbitrary: s L)
  case 0
  then show ?case by simp
next
  case (Suc n)
  then obtain p M where L: "L = p # M" by (cases L) auto
  then obtain s1 where s1: "rotate_q s = Inr s1" "rep s1 (M @ [p])"
    using rotate_front Suc.prems by blast
  then obtain s' where "iter_res rotate_q n s1 = Inr s'" "rep s' (rotate n (M @ [p]))"
    using Suc.IH by blast
  with s1 L show ?case by (simp add: rotate1_rotate_swap rotate_def funpow_swap1)
qed

lemma reaches_front:
  assumes "rep s L" "i < length L"
  shows "\<exists>s'. iter_res rotate_q i s = Inr s' \<and> front s' = L ! i"
proof -
  have ne: "L \<noteq> []" using assms(2) by auto
  obtain s' where s': "iter_res rotate_q i s = Inr s'" "rep s' (rotate i L)"
    using rotations [OF assms(1) ne] by blast
  have "hd (rotate i L) = L ! i" using assms(2) ne by (simp add: hd_rotate_conv_nth)
  moreover obtain M where "rotate i L = hd (rotate i L) # M" using ne by (cases "rotate i L") auto
  ultimately show ?thesis using s' front_hd by metis
qed

text \<open>A process that is put on the queue is served before those put on it later.\<close>

lemma enq_then_reaches_front:
  assumes "rep s L" "ok p" "p \<notin> set L"
  shows "\<exists>s1 s2. enq p s = Inr s1 \<and> iter_res rotate_q (length L) s1 = Inr s2 \<and> front s2 = p"
proof -
  obtain s1 where "enq p s = Inr s1" "rep s1 (L @ [p])" using enq_back assms by blast
  with reaches_front [of s1 "L @ [p]" "length L"] show ?thesis by auto
qed

lemma removed_is_gone:
  assumes "rep s L" "L \<noteq> []" "ok p"
  shows "\<exists>s' M. remove p s = Some (Inr s') \<and> rep s' M \<and> p \<notin> set M \<and> set M = set L - {p}"
  using remove_one [OF assms] rep_distinct [OF assms(1)]
  by (metis in_set_remove1 set_remove1_eq Diff_iff singletonI)

end

section \<open>The representation\<close>

definition next_of :: "'a kstate_scheme \<Rightarrow> nat \<Rightarrow> nat option" where
  "next_of s = (\<lambda>i. p_next (procs s i))"

lemma next_of_simps [simp]:
  "next_of (s\<lparr>ready_head := h\<rparr>) = next_of s" "next_of (s\<lparr>ready_tail := h\<rparr>) = next_of s"
  "next_of (s\<lparr>current := c\<rparr>) = next_of s" "next_of (s\<lparr>ief := b\<rparr>) = next_of s"
  "next_of (s\<lparr>wait_links := l\<rparr>) = next_of s"
  "next_of (upd_proc t (p_next_update (\<lambda>_. v)) s) = (next_of s)(t := v)"
  "next_of (upd_proc t (status_update f) s) = next_of s"
  "next_of (upd_proc t (counter_update g) s) = next_of s"
  "next_of (upd_proc t (need_resched_update k) s) = next_of s"
  by (auto simp: next_of_def)

definition user_task :: "nat \<Rightarrow> bool" where
  "user_task p \<longleftrightarrow> p \<noteq> IDLE_TASK \<and> p < NR_TASK"

definition ready_rep :: "'a kstate_scheme \<Rightarrow> nat list \<Rightarrow> bool" where
  "ready_rep s L \<longleftrightarrow> chain (next_of s) (ready_head s) L \<and> list_all user_task L
     \<and> (L \<noteq> [] \<longrightarrow> ready_tail s = Some (last L))"

text \<open>What the queue operations may change: the links and the two pointers.\<close>

definition queue_frame :: "'a kstate_scheme \<Rightarrow> 'a kstate_scheme \<Rightarrow> bool" where
  "queue_frame s s' \<longleftrightarrow> (\<exists>f h t. s' = s\<lparr>procs := (\<lambda>i. (procs s i)\<lparr>p_next := f i\<rparr>), ready_head := h, ready_tail := t\<rparr>)"

lemma queue_frameI:
  assumes "procs s' = (\<lambda>i. (procs s i)\<lparr>p_next := p_next (procs s' i)\<rparr>)"
    and "s' = s\<lparr>procs := procs s', ready_head := ready_head s', ready_tail := ready_tail s'\<rparr>"
  shows "queue_frame s s'"
  using assms unfolding queue_frame_def by metis

lemma queue_frame_refl: "queue_frame s s"
  by (rule queue_frameI) simp_all

lemma queue_frame_sel:
  assumes "queue_frame s s'"
  shows "current s' = current s" "ief s' = ief s" "wait_links s' = wait_links s"
    "status (procs s' i) = status (procs s i)" "counter (procs s' i) = counter (procs s i)"
    "flags (procs s' i) = flags (procs s i)" "need_resched (procs s' i) = need_resched (procs s i)"
    "pthread (procs s' i) = pthread (procs s i)" "ldt_selector (procs s' i) = ldt_selector (procs s i)"
  using assms by (auto simp: queue_frame_def)

lemma queue_frame_trans: "queue_frame s t \<Longrightarrow> queue_frame t u \<Longrightarrow> queue_frame s u"
  unfolding queue_frame_def by (elim exE) (simp, blast)

lemma ready_rep_distinct: "ready_rep s L \<Longrightarrow> distinct L"
  by (auto simp: ready_rep_def dest: chain_distinct)

lemma ready_rep_deterministic: "ready_rep s L \<Longrightarrow> ready_rep s M \<Longrightarrow> L = M"
  by (auto simp: ready_rep_def dest: chain_deterministic)

lemma ready_rep_head: "ready_rep s L \<Longrightarrow> ready_head s = (case L of [] \<Rightarrow> None | p # _ \<Rightarrow> Some p)"
  by (auto simp: ready_rep_def dest: chain_hd)

lemma pick_proc_hd: "ready_rep s L \<Longrightarrow> pick_proc s = (case L of [] \<Rightarrow> IDLE_TASK | p # _ \<Rightarrow> p)"
  by (auto simp: pick_proc_def dest!: ready_rep_head split: list.splits)

section \<open>Operations\<close>

lemma proc_ready_new:
  assumes rep: "ready_rep s L" and p: "user_task p" "p \<notin> set L"
  shows "\<exists>s'. proc_ready (Some p) s = Inr s' \<and> ready_rep s' (L @ [p]) \<and> queue_frame s s'"
proof (cases L rule: rev_cases)
  case Nil
  then have h: "ready_head s = None" using rep ready_rep_head by fastforce
  let ?s = "(upd_proc p (p_next_update (\<lambda>_. None)) (s\<lparr>ready_head := Some p\<rparr>))\<lparr>ready_tail := Some p\<rparr>"
  have "proc_ready (Some p) s = Inr ?s"
    using p h by (simp add: proc_ready_def user_task_def)
  moreover have "ready_rep ?s [p]" using p by (simp add: ready_rep_def)
  moreover have "queue_frame s ?s" by (rule queue_frameI) (auto simp: upd_proc_def)
  ultimately show ?thesis using Nil by auto
next
  case (snoc M l)
  then have h: "ready_head s \<noteq> None" and t: "ready_tail s = Some l"
    using rep by (cases M; auto simp: ready_rep_def)+
  let ?s = "(upd_proc p (p_next_update (\<lambda>_. None)) (upd_proc l (p_next_update (\<lambda>_. Some p)) s))\<lparr>ready_tail := Some p\<rparr>"
  have "proc_ready (Some p) s = Inr ?s"
    using p h t by (simp add: proc_ready_def user_task_def)
  moreover have "chain (next_of ?s) (ready_head ?s) (L @ [p])"
    using chain_snoc [of "next_of s" "ready_head s" L p] rep p snoc
    by (simp add: ready_rep_def)
  then have "ready_rep ?s (L @ [p])"
    using rep p by (simp add: ready_rep_def)
  moreover have "queue_frame s ?s" by (rule queue_frameI) (auto simp: upd_proc_def)
  ultimately show ?thesis by blast
qed


text \<open>
  A process that is already on the queue: the list is cut behind it.
\<close>

lemma proc_ready_twice:
  assumes rep: "ready_rep s (as @ p # bs)"
  shows "\<exists>s'. proc_ready (Some p) s = Inr s' \<and> ready_rep s' (as @ [p]) \<and> queue_frame s s'"
proof -
  let ?L = "as @ p # bs" and ?l = "last (p # bs)"
  have h: "ready_head s \<noteq> None" and t: "ready_tail s = Some ?l" and p: "p \<noteq> IDLE_TASK"
    using rep by (cases as; auto simp: ready_rep_def user_task_def)+
  let ?s = "(upd_proc p (p_next_update (\<lambda>_. None)) (upd_proc ?l (p_next_update (\<lambda>_. Some p)) s))\<lparr>ready_tail := Some p\<rparr>"
  have "proc_ready (Some p) s = Inr ?s"
    using p h t by (simp add: proc_ready_def)
  moreover have "lseg (next_of s) (ready_head s) as (Some p)"
    using rep by (auto simp: ready_rep_def chain_append)
  moreover have "?l \<notin> set as" "p \<notin> set as"
    using ready_rep_distinct [OF rep] by auto
  ultimately have "proc_ready (Some p) s = Inr ?s" "chain (next_of ?s) (ready_head ?s) (as @ [p])"
    by (simp_all add: chain_append)
  moreover have "list_all user_task (as @ [p])" using rep by (simp add: ready_rep_def)
  moreover have "queue_frame s ?s" by (rule queue_frameI) (auto simp: upd_proc_def)
  ultimately show ?thesis by (auto simp: ready_rep_def)
qed

lemma find_before_chain:
  assumes "chain nx (Some hp) (hp # xs)"
  shows "find_before nx b hp =
    Some (if b \<in> set xs then Some (last (hp # takeWhile (\<lambda>x. x \<noteq> b) xs)) else None)"
  using assms
proof (induction xs arbitrary: hp)
  case Nil
  then show ?case by (subst find_before.simps) simp
next
  case (Cons x xs)
  show ?case
  proof (cases "x = b")
    case True
    with Cons.prems show ?thesis by (subst find_before.simps) simp
  next
    case False
    with Cons.IH [of x] Cons.prems show ?thesis by (subst find_before.simps) auto
  qed
qed

lemma proc_block_head:
  assumes rep: "ready_rep s (b # L)"
  shows "\<exists>s'. proc_block (Some b) s = Some (Inr (s'\<lparr>current := pick_proc s'\<rparr>))
    \<and> ready_rep s' L \<and> queue_frame s s'"
proof -
  have h: "ready_head s = Some b" and b: "b \<noteq> IDLE_TASK"
    using rep by (auto simp: ready_rep_def user_task_def)
  let ?s = "s\<lparr>ready_head := p_next (procs s b)\<rparr>"
  have "proc_block (Some b) s = Some (Inr (?s\<lparr>current := pick_proc ?s\<rparr>))"
    using h b by (simp add: proc_block_def Let_def)
  moreover have "ready_rep ?s L" using rep by (cases L) (auto simp: ready_rep_def next_of_def)
  moreover have "queue_frame s ?s" by (rule queue_frameI) auto
  ultimately show ?thesis by blast
qed

lemma proc_block_inner:
  assumes rep: "ready_rep s (as @ h # b # bs)"
  shows "\<exists>s'. proc_block (Some b) s = Some (Inr s') \<and> ready_rep s' (as @ h # bs) \<and> queue_frame s s'"
proof -
  let ?L = "as @ h # b # bs"
  obtain hp xs where L: "?L = hp # xs" by (cases as) auto
  have d: "distinct ?L" using rep by (rule ready_rep_distinct)
  have hd: "ready_head s = Some hp" using ready_rep_head [OF rep] L by simp
  have b: "b \<noteq> IDLE_TASK" using rep by (auto simp: ready_rep_def user_task_def)
  have ne: "hp \<noteq> b" using d L by (cases as) auto
  have "last (hp # takeWhile (\<lambda>x. x \<noteq> b) xs) = h \<and> b \<in> set xs"
  proof (cases as)
    case Nil
    then show ?thesis using L by auto
  next
    case (Cons a cs)
    then have "xs = (cs @ [h]) @ b # bs" using L by auto
    moreover have "\<forall>x \<in> set (cs @ [h]). x \<noteq> b" using d Cons by auto
    ultimately show ?thesis by (simp add: takeWhile_append2)
  qed
  then have f: "find_before (next_of s) b hp = Some (Some h)"
    using find_before_chain [of "next_of s" hp xs b] rep L hd by (simp add: ready_rep_def)
  let ?s1 = "upd_proc h (p_next_update (\<lambda>_. next_of s b)) s"
  let ?s = "if ready_tail ?s1 = Some b then ?s1\<lparr>ready_tail := Some h\<rparr> else ?s1"
  have run: "proc_block (Some b) s = Some (Inr ?s)"
    using b hd ne f by (simp add: proc_block_def Let_def next_of_def [symmetric]) (simp add: next_of_def)
  have "chain ((next_of s)(h := next_of s b)) (ready_head s) (as @ h # bs)"
    using rep by (intro chain_unlink) (simp add: ready_rep_def)
  moreover have tl: "ready_tail s = Some (last (b # bs))" using rep by (simp add: ready_rep_def)
  moreover have "last (b # bs) = b \<longleftrightarrow> bs = []" using d by (cases bs rule: rev_cases) auto
  ultimately have "ready_rep ?s (as @ h # bs)"
    using rep by (auto simp: ready_rep_def)
  moreover have "queue_frame s ?s" by (rule queue_frameI) (auto simp: upd_proc_def)
  ultimately show ?thesis using run by blast
qed

lemma proc_block_absent:
  assumes rep: "ready_rep s L" and b: "b \<notin> set L" "b \<noteq> IDLE_TASK" "L \<noteq> []"
  shows "proc_block (Some b) s = Some (Inr s)"
proof -
  obtain hp xs where L: "L = hp # xs" using b(3) by (cases L) auto
  have "ready_head s = Some hp" using ready_rep_head [OF rep] L by simp
  moreover from this have "find_before (next_of s) b hp = Some None"
    using find_before_chain [of "next_of s" hp xs b] rep L b by (simp add: ready_rep_def)
  ultimately show ?thesis using b L by (auto simp: proc_block_def simp flip: next_of_def)
qed

lemma RoundRobin_empty: "ready_rep s [] \<Longrightarrow> RoundRobin s = Inr s"
  by (simp add: RoundRobin_def ready_rep_def)

lemma RoundRobin_running: "0 < counter (procs s (current s)) \<Longrightarrow> RoundRobin s = Inr s"
  by (simp add: RoundRobin_def split: option.split)

lemma RoundRobin_expired:
  assumes rep: "ready_rep s (h # L)" and c: "counter (procs s (current s)) \<le> 0"
  shows "\<exists>s'. RoundRobin s = Inr (upd_proc (current s) (counter_update (\<lambda>_. 10)) s')
    \<and> ready_rep s' (L @ [h]) \<and> queue_frame s s'"
proof -
  let ?t = "last (h # L)"
  have hd: "ready_head s = Some h" and tl: "ready_tail s = Some ?t"
    using rep by (auto simp: ready_rep_def)
  let ?s1 = "(upd_proc ?t (p_next_update (\<lambda>_. Some h)) s)\<lparr>ready_tail := Some h\<rparr>"
  let ?s = "upd_proc h (p_next_update (\<lambda>_. None)) (?s1\<lparr>ready_head := p_next (procs ?s1 h)\<rparr>)"
  have run: "RoundRobin s = Inr (upd_proc (current s) (counter_update (\<lambda>_. 10)) ?s)"
    using hd tl c by (simp add: RoundRobin_def Let_def)
  have d: "distinct (h # L)" using rep by (rule ready_rep_distinct)
  have "chain (next_of ?s) (ready_head ?s) (L @ [h])"
  proof (cases L rule: rev_cases)
    case Nil
    then show ?thesis by simp
  next
    case (snoc M l)
    then have "chain ((next_of s)(last L := Some h, h := None)) (next_of s h) (L @ [h])"
      using rep d by (intro chain_snoc) (auto simp: ready_rep_def)
    moreover have "l \<noteq> h" using d snoc by auto
    moreover from this have "ready_head ?s = next_of s h" using snoc by (simp add: next_of_def)
    ultimately show ?thesis using snoc by simp
  qed
  moreover have "ready_tail ?s = Some h" by simp
  ultimately have "ready_rep ?s (L @ [h])" using rep by (simp add: ready_rep_def)
  moreover have "queue_frame s ?s" by (rule queue_frameI) (auto simp: upd_proc_def)
  ultimately show ?thesis using run by blast
qed

section \<open>The ready queue is a run queue\<close>

text \<open>The end of a time slice: \<open>RoundRobin\<close> with the current process's counter used up.\<close>

definition slice_end :: "'a kstate_scheme \<Rightarrow> 'a kstate_scheme res" where
  "slice_end s = RoundRobin (upd_proc (current s) (counter_update (\<lambda>_. 0)) s)"

lemma ready_rep_simps [simp]:
  "ready_rep (s\<lparr>current := c\<rparr>) L = ready_rep s L" "ready_rep (s\<lparr>ief := b\<rparr>) L = ready_rep s L"
  "ready_rep (s\<lparr>wait_links := l\<rparr>) L = ready_rep s L"
  "ready_rep (upd_proc t (status_update f) s) L = ready_rep s L"
  "ready_rep (upd_proc t (counter_update g) s) L = ready_rep s L"
  "ready_rep (upd_proc t (need_resched_update k) s) L = ready_rep s L"
  by (simp_all add: ready_rep_def)

lemma slice_end_rotates:
  assumes "ready_rep s (p # L)"
  shows "\<exists>s'. slice_end s = Inr s' \<and> ready_rep s' (L @ [p])"
proof -
  have "ready_rep (upd_proc (current s) (counter_update (\<lambda>_. 0)) s) (p # L)" using assms by simp
  from RoundRobin_expired [OF this] show ?thesis by (auto simp: slice_end_def)
qed

lemma proc_block_removes:
  assumes rep: "ready_rep s L" and L: "L \<noteq> []" and b: "b \<noteq> IDLE_TASK"
  shows "\<exists>s'. proc_block (Some b) s = Some (Inr s') \<and> ready_rep s' (remove1 b L)"
proof (cases "b \<in> set L")
  case False
  then show ?thesis using proc_block_absent [OF rep False b L] rep by (simp add: remove1_idem)
next
  case True
  then obtain as bs where split: "L = as @ b # bs" "b \<notin> set as" by (meson split_list_first)
  then have rm: "remove1 b L = as @ bs" by (simp add: remove1_append)
  show ?thesis
  proof (cases as rule: rev_cases)
    case Nil
    then have "ready_rep s (b # bs)" using rep split by simp
    from proc_block_head [OF this] show ?thesis using rm Nil by auto
  next
    case (snoc cs h)
    then have "ready_rep s (cs @ h # b # bs)" using rep split by simp
    from proc_block_inner [OF this] show ?thesis using rm snoc by auto
  qed
qed

interpretation rq: run_queue "\<lambda>p. proc_ready (Some p)" "\<lambda>p. proc_block (Some p)" slice_end pick_proc
  ready_rep user_task
proof
  fix s :: "'a kstate_scheme" and L p
  show "ready_rep s L \<Longrightarrow> distinct L" by (rule ready_rep_distinct)
  show "ready_rep s L \<Longrightarrow> user_task p \<Longrightarrow> p \<notin> set L
      \<Longrightarrow> \<exists>s'. proc_ready (Some p) s = Inr s' \<and> ready_rep s' (L @ [p])"
    using proc_ready_new by blast
  show "ready_rep s L \<Longrightarrow> L \<noteq> [] \<Longrightarrow> user_task p
      \<Longrightarrow> \<exists>s'. proc_block (Some p) s = Some (Inr s') \<and> ready_rep s' (remove1 p L)"
    using proc_block_removes by (auto simp: user_task_def)
  show "ready_rep s (p # L) \<Longrightarrow> \<exists>s'. slice_end s = Inr s' \<and> ready_rep s' (L @ [p])"
    by (rule slice_end_rotates)
  show "ready_rep s (p # L) \<Longrightarrow> pick_proc s = p" using pick_proc_hd by fastforce
qed

end
