(* ===== verification/Sched_Refine.thy ===== *)
theory Sched_Refine
  imports Ready_Queue
begin

text \<open>
  What \<open>schedule\<close>, the clock and the wait queues do, on the list of ready processes.
\<close>

section \<open>Frames\<close>

text \<open>Everything of a process but its link, its counter and its need to be rescheduled.\<close>

definition keeps :: "'a kstate_scheme \<Rightarrow> 'a kstate_scheme \<Rightarrow> bool" where
  "keeps s s' \<longleftrightarrow> ief s' = ief s \<and> wait_links s' = wait_links s \<and> k_esp s' = k_esp s
     \<and> mem_hole s' = mem_hole s \<and> h_head s' = h_head s \<and> slot_free s' = slot_free s
     \<and> (\<forall>i. status (procs s' i) = status (procs s i) \<and> pthread (procs s' i) = pthread (procs s i)
          \<and> ldt_selector (procs s' i) = ldt_selector (procs s i) \<and> flags (procs s' i) = flags (procs s i))"

lemma keeps_refl [simp]: "keeps s s" and
  keeps_trans: "keeps s t \<Longrightarrow> keeps t u \<Longrightarrow> keeps s u"
  by (auto simp: keeps_def)

lemma queue_frame_keeps: "queue_frame s s' \<Longrightarrow> keeps s s'"
  by (auto simp: queue_frame_def keeps_def)

lemma upd_proc_mem [simp]:
  "mem_hole (upd_proc t f s) = mem_hole s" "h_head (upd_proc t f s) = h_head s"
  "slot_free (upd_proc t f s) = slot_free s"
  by (simp_all add: upd_proc_def)

lemma keeps_upd [simp]:
  "keeps s (upd_proc t (counter_update g) s') = keeps s s'"
  "keeps s (upd_proc t (need_resched_update h) s') = keeps s s'"
  "keeps s (s'\<lparr>current := c\<rparr>) = keeps s s'"
  by (auto simp: keeps_def upd_proc_def)

section \<open>schedule\<close>

text \<open>The scheduling policy: the ready list and the process that runs next.\<close>

definition policy :: "bool \<Rightarrow> bool \<Rightarrow> nat \<Rightarrow> nat list \<Rightarrow> nat list" where
  "policy expired blocked cur L =
     (let L1 = (if expired then rotate1 L else L)
      in if blocked then remove1 cur L1 else L1)"

definition runs_next :: "nat list \<Rightarrow> nat" where
  "runs_next L = (case L of [] \<Rightarrow> IDLE_TASK | p # _ \<Rightarrow> p)"

lemma runs_next_simps [simp]: "runs_next [] = IDLE_TASK" "runs_next (p # L) = p"
  by (simp_all add: runs_next_def)

lemma pick_proc_runs_next: "ready_rep s L \<Longrightarrow> pick_proc s = runs_next L"
  by (auto simp: runs_next_def dest: pick_proc_hd)

definition expired :: "'a kstate_scheme \<Rightarrow> bool" where
  "expired s \<longleftrightarrow> counter (procs s (current s)) \<le> 0"

definition blocked :: "'a kstate_scheme \<Rightarrow> nat \<Rightarrow> bool" where
  "blocked s p \<longleftrightarrow> p \<noteq> IDLE_TASK \<and> status (procs s p) \<in> {TASK_INTERRUPT, TASK_STOPED}"

lemma RoundRobin_spec:
  assumes rep: "ready_rep s L"
  shows "\<exists>s1. RoundRobin s = Inr s1 \<and> ready_rep s1 (if expired s then rotate1 L else L) \<and> keeps s s1
    \<and> current s1 = current s
    \<and> (\<forall>i. counter (procs s1 i) = (if expired s \<and> L \<noteq> [] \<and> i = current s then 10 else counter (procs s i)))
    \<and> (\<forall>i. need_resched (procs s1 i) = need_resched (procs s i))"
proof (cases L)
  case Nil
  then show ?thesis using rep by (intro exI [of _ s]) (simp add: RoundRobin_empty)
next
  case (Cons h M)
  show ?thesis
  proof (cases "expired s")
    case False
    then show ?thesis using rep by (intro exI [of _ s]) (simp add: RoundRobin_running expired_def)
  next
    case True
    then obtain s' where s': "RoundRobin s = Inr (upd_proc (current s) (counter_update (\<lambda>_. 10)) s')"
        "ready_rep s' (M @ [h])" "queue_frame s s'"
      using RoundRobin_expired [of s h M] rep Cons by (auto simp: expired_def)
    then show ?thesis
      using True Cons by (intro exI [of _ "upd_proc (current s) (counter_update (\<lambda>_. 10)) s'"])
        (simp add: queue_frame_keeps queue_frame_sel)
  qed
qed

lemma block_step:
  assumes rep: "ready_rep s L" and dead: "blocked s c \<Longrightarrow> L \<noteq> []"
  shows "\<exists>s2. (if status (procs s c) = TASK_INTERRUPT \<or> status (procs s c) = TASK_STOPED
               then proc_block (Some c) s else Some (Inr s)) = Some (Inr s2)
    \<and> ready_rep s2 (if blocked s c then remove1 c L else L) \<and> keeps s s2
    \<and> (current s2 = current s \<or> current s2 = runs_next (if blocked s c then remove1 c L else L))
    \<and> (\<not> blocked s c \<longrightarrow> current s2 = current s)
    \<and> (\<forall>i. counter (procs s2 i) = counter (procs s i))
    \<and> (\<forall>i. need_resched (procs s2 i) = need_resched (procs s i))"
proof (cases "blocked s c")
  case False
  then show ?thesis using rep by (intro exI [of _ s]) (auto simp: blocked_def proc_block_def)
next
  case True
  then have c: "c \<noteq> IDLE_TASK" and st: "status (procs s c) = TASK_INTERRUPT \<or> status (procs s c) = TASK_STOPED"
    by (auto simp: blocked_def)
  have L: "L \<noteq> []" using dead True .
  show ?thesis
  proof (cases "c \<in> set L")
    case False
    then show ?thesis
      using rep st True proc_block_absent [OF rep False c L]
      by (intro exI [of _ s]) (simp add: remove1_idem)
  next
    case in_L: True
    then obtain as bs where split: "L = as @ c # bs" "c \<notin> set as" by (meson split_list_first)
    then have rm: "remove1 c L = as @ bs" by (simp add: remove1_append)
    show ?thesis
    proof (cases as rule: rev_cases)
      case Nil
      then have "ready_rep s (c # bs)" using rep split by simp
      then obtain s' where "proc_block (Some c) s = Some (Inr (s'\<lparr>current := pick_proc s'\<rparr>))"
          "ready_rep s' bs" "queue_frame s s'"
        using proc_block_head by blast
      then show ?thesis
        using st True rm Nil
        by (intro exI [of _ "s'\<lparr>current := pick_proc s'\<rparr>"])
          (simp add: queue_frame_keeps queue_frame_sel pick_proc_runs_next)
    next
      case (snoc cs h)
      then have "ready_rep s (cs @ h # c # bs)" using rep split by simp
      then obtain s' where "proc_block (Some c) s = Some (Inr s')"
          "ready_rep s' (cs @ h # bs)" "queue_frame s s'"
        using proc_block_inner by blast
      then show ?thesis
        using st True rm snoc by (intro exI [of _ s']) (simp add: queue_frame_keeps queue_frame_sel)
    qed
  qed
qed

lemma switch_sel [simp]:
  "ready_head (switch_kernel_thread sy c n s) = ready_head s"
  "ready_tail (switch_kernel_thread sy c n s) = ready_tail s"
  "current (switch_kernel_thread sy c n s) = current s"
  "ief (switch_kernel_thread sy c n s) = ief s"
  "wait_links (switch_kernel_thread sy c n s) = wait_links s"
  "next_of (switch_kernel_thread sy c n s) = next_of s"
  "status (procs (switch_kernel_thread sy c n s) i) = status (procs s i)"
  "counter (procs (switch_kernel_thread sy c n s) i) = counter (procs s i)"
  "need_resched (procs (switch_kernel_thread sy c n s) i) = need_resched (procs s i)"
  "flags (procs (switch_kernel_thread sy c n s) i) = flags (procs s i)"
  "ldt_selector (procs (switch_kernel_thread sy c n s) i) = ldt_selector (procs s i)"
  "mem_hole (switch_kernel_thread sy c n s) = mem_hole s"
  "h_head (switch_kernel_thread sy c n s) = h_head s"
  "slot_free (switch_kernel_thread sy c n s) = slot_free s"
  by (simp_all add: switch_kernel_thread_def switch_to_def Let_def upd_proc_def next_of_def cong: if_cong)
    (auto simp: fun_eq_iff)

lemma switch_context:
  assumes "c \<noteq> n"
  shows "k_eip (switch_kernel_thread sy c n s) = th_eip (pthread (procs s n))"
    "k_esp (switch_kernel_thread sy c n s) = th_esp (pthread (procs s n))"
    "tss_esp0 (tss (switch_kernel_thread sy c n s)) = th_esp0 (pthread (procs s n))"
    "ldtr (switch_kernel_thread sy c n s) = ldt_selector (procs s n)"
    "pthread (procs (switch_kernel_thread sy c n s) c) =
       \<lparr>th_esp0 = th_esp0 (pthread (procs s c)), th_eip = sym_resume sy, th_esp = k_esp s - 16\<rparr>"
  using assms by (simp_all add: switch_kernel_thread_def switch_to_def Let_def upd_proc_def)

definition switched :: "symbols \<Rightarrow> 'a kstate_scheme \<Rightarrow> nat \<Rightarrow> 'a kstate_scheme \<Rightarrow> bool" where
  "switched sy s n s' \<longleftrightarrow>
     k_eip s' = th_eip (pthread (procs s n)) \<and> k_esp s' = th_esp (pthread (procs s n))
     \<and> tss_esp0 (tss s') = th_esp0 (pthread (procs s n)) \<and> ldtr s' = ldt_selector (procs s n)
     \<and> th_eip (pthread (procs s' (current s))) = sym_resume sy
     \<and> th_esp (pthread (procs s' (current s))) = k_esp s - 16"

lemma schedule_spec:
  assumes rep: "ready_rep s L" and dead: "blocked s (current s) \<Longrightarrow> L \<noteq> []"
  defines "M \<equiv> policy (expired s) (blocked s (current s)) (current s) L"
  shows "\<exists>s'. schedule sy s = Some (Inr s') \<and> ready_rep s' M \<and> current s' = runs_next M
    \<and> need_resched (procs s' (current s)) = 0 \<and> need_resched (procs s' (current s')) = 0
    \<and> (\<forall>i. i \<noteq> current s \<and> i \<noteq> current s' \<longrightarrow> need_resched (procs s' i) = need_resched (procs s i))
    \<and> ief s' = ief s \<and> wait_links s' = wait_links s
    \<and> (\<forall>i. status (procs s' i) = status (procs s i))
    \<and> (\<forall>i. counter (procs s' i) = (if expired s \<and> L \<noteq> [] \<and> i = current s then 10 else counter (procs s i)))
    \<and> (\<forall>i. flags (procs s' i) = flags (procs s i) \<and> ldt_selector (procs s' i) = ldt_selector (procs s i))
    \<and> mem_hole s' = mem_hole s \<and> h_head s' = h_head s \<and> slot_free s' = slot_free s
    \<and> (runs_next M \<noteq> current s \<longrightarrow> switched sy s (runs_next M) s')"
proof -
  let ?c = "current s" and ?L1 = "if expired s then rotate1 L else L"
  obtain s1 where s1: "RoundRobin s = Inr s1" "ready_rep s1 ?L1" "keeps s s1" "current s1 = ?c"
      "\<forall>i. counter (procs s1 i) = (if expired s \<and> L \<noteq> [] \<and> i = ?c then 10 else counter (procs s i))"
      "\<forall>i. need_resched (procs s1 i) = need_resched (procs s i)"
    using RoundRobin_spec [OF rep] by blast
  have b1: "blocked s1 ?c = blocked s ?c" using s1(3) by (simp add: blocked_def keeps_def)
  have "blocked s1 ?c \<Longrightarrow> ?L1 \<noteq> []" using dead b1 by simp
  then obtain s2 where s2: "(if status (procs s1 ?c) = TASK_INTERRUPT \<or> status (procs s1 ?c) = TASK_STOPED
               then proc_block (Some ?c) s1 else Some (Inr s1)) = Some (Inr s2)"
      "ready_rep s2 M" "keeps s1 s2" "current s2 = ?c \<or> current s2 = runs_next M"
      "\<forall>i. counter (procs s2 i) = counter (procs s1 i)"
      "\<forall>i. need_resched (procs s2 i) = need_resched (procs s1 i)"
    using block_step [OF s1(2), of ?c] b1 s1(4) by (auto simp: M_def policy_def)
  let ?s3 = "upd_proc ?c (need_resched_update (\<lambda>_. 0)) s2"
  have n: "pick_proc ?s3 = runs_next M" using s2(2) by (intro pick_proc_runs_next) simp
  have k: "keeps s s2" using s1(3) s2(3) by (rule keeps_trans)
  show ?thesis
  proof (cases "?c = runs_next M")
    case True
    then have "schedule sy s = Some (Inr ?s3)"
      unfolding schedule_def Let_def s1(1) exec_bind_simps s2(1) n by simp
    moreover have "current ?s3 = ?c" using s2(4) True by simp
    ultimately show ?thesis
      using True s2 s1 k by (intro exI [of _ ?s3]) (auto simp: keeps_def)
  next
    case False
    let ?n = "runs_next M"
    let ?s5 = "upd_proc ?n (need_resched_update (\<lambda>_. 0)) (?s3\<lparr>current := ?n\<rparr>)"
    let ?s' = "switch_kernel_thread sy ?c ?n ?s5"
    have r: "schedule sy s = Some (Inr ?s')"
      unfolding schedule_def Let_def s1(1) exec_bind_simps s2(1) n using False by simp
    have "ready_rep ?s5 M" using s2(2) by simp
    then have r': "ready_rep ?s' M" by (simp add: ready_rep_def)
    have t: "pthread (procs ?s5 i) = pthread (procs s i)" "ldt_selector (procs ?s5 i) = ldt_selector (procs s i)" for i
      using k by (auto simp: keeps_def)
    have e: "k_esp ?s5 = k_esp s" using k by (simp add: keeps_def upd_proc_def)
    have sw: "switched sy s ?n ?s'"
      unfolding switched_def switch_context [OF False] t e by simp
    show ?thesis
      using r r' sw False s2 s1 k by (intro exI [of _ ?s']) (auto simp: keeps_def)
  qed
qed

section \<open>The clock\<close>

primrec iter_exec :: "('s \<Rightarrow> 's exec) \<Rightarrow> nat \<Rightarrow> 's \<Rightarrow> 's exec" where
  "iter_exec f 0 s = Some (Inr s)"
| "iter_exec f (Suc n) s = exec_bind (f s) (iter_exec f n)"

lemma iter_exec_add: "iter_exec f (m + n) s = exec_bind (iter_exec f m s) (iter_exec f n)"
proof (induction m arbitrary: s)
  case (Suc m)
  then show ?case by (cases "f s") (auto simp: exec_bind_def split: sum.splits)
qed simp

text \<open>All processes of the list ready to run with a full time slice, the first one running.\<close>

definition steady :: "'a kstate_scheme \<Rightarrow> nat list \<Rightarrow> bool" where
  "steady s L \<longleftrightarrow> ready_rep s L \<and> L \<noteq> [] \<and> current s = hd L
     \<and> (\<forall>p \<in> set L. counter (procs s p) = 10 \<and> status (procs s p) = TASK_RUNNING \<and> need_resched (procs s p) = 0)"

lemma upd_proc_twice: "upd_proc c f (upd_proc c g s) = upd_proc c (f \<circ> g) s"
  by (simp add: upd_proc_def)

lemma counter_same: "counter_update (\<lambda>m. m) r = (r :: proc)"
  by (cases r) simp

lemma ticks_count_down:
  assumes "current s \<noteq> IDLE_TASK" "need_resched (procs s (current s)) = 0"
    and "int n \<le> counter (procs s (current s))"
  shows "iter_exec (clock_tick sy) n s =
     Some (Inr (upd_proc (current s) (counter_update (\<lambda>m. m - int n)) s))"
  using assms
proof (induction n arbitrary: s)
  case 0
  then show ?case by (simp add: upd_proc_def counter_same)
next
  case (Suc n)
  let ?s = "upd_proc (current s) (counter_update (\<lambda>m. m - 1)) s"
  have "clock_tick sy s = Some (Inr ?s)"
    using Suc.prems by (simp add: clock_tick_def bill_process_time_def Let_def)
  moreover have "iter_exec (clock_tick sy) n ?s =
      Some (Inr (upd_proc (current ?s) (counter_update (\<lambda>m. m - int n)) ?s))"
    using Suc.prems by (intro Suc.IH) simp_all
  ultimately show ?case by (simp add: upd_proc_twice comp_def algebra_simps)
qed

lemma slice_of_ticks:
  assumes "steady s L"
  shows "\<exists>s'. iter_exec (clock_tick sy) 11 s = Some (Inr s') \<and> steady s' (rotate1 L)"
proof -
  let ?c = "current s"
  have rep: "ready_rep s L" and ne: "L \<noteq> []" and c: "?c = hd L" "?c \<in> set L" using assms by (auto simp: steady_def)
  have st: "counter (procs s p) = 10" "status (procs s p) = TASK_RUNNING" "need_resched (procs s p) = 0"
    if "p \<in> set L" for p using assms that by (auto simp: steady_def)
  have u: "?c \<noteq> IDLE_TASK" using rep c(2) by (auto simp: ready_rep_def list_all_iff user_task_def)
  let ?s1 = "upd_proc ?c (counter_update (\<lambda>m. m - int 10)) s"
  have ten: "iter_exec (clock_tick sy) 10 s = Some (Inr ?s1)"
    using u st [OF c(2)] by (intro ticks_count_down) simp_all
  let ?s2 = "upd_proc ?c (need_resched_update (\<lambda>_. 1)) ?s1"
  have rep2: "ready_rep ?s2 L" using rep by simp
  have ex: "expired ?s2" "\<not> blocked ?s2 (current ?s2)"
    using st [OF c(2)] by (auto simp: expired_def blocked_def task_consts)
  have pol: "policy (expired ?s2) (blocked ?s2 (current ?s2)) (current ?s2) L = rotate1 L"
    using ex by (simp add: policy_def)
  obtain s' where s': "schedule sy ?s2 = Some (Inr s')" "ready_rep s' (rotate1 L)"
      "current s' = runs_next (rotate1 L)" "need_resched (procs s' ?c) = 0"
      "need_resched (procs s' (current s')) = 0"
      "\<forall>i. i \<noteq> ?c \<and> i \<noteq> current s' \<longrightarrow> need_resched (procs s' i) = need_resched (procs ?s2 i)"
      "\<forall>i. status (procs s' i) = status (procs ?s2 i)"
      "\<forall>i. counter (procs s' i) = (if i = ?c then 10 else counter (procs ?s2 i))"
    using schedule_spec [OF rep2, of sy] ex ne unfolding pol by auto
  have "clock_tick sy ?s1 = schedule sy ?s2"
    using u st [OF c(2)] by (simp add: clock_tick_def bill_process_time_def Let_def)
  then have "iter_exec (clock_tick sy) (10 + 1) s = Some (Inr s')"
    using ten s'(1) by (subst iter_exec_add) simp
  moreover have "steady s' (rotate1 L)"
    using s' st ne by (auto simp: steady_def runs_next_def hd_conv_nth split: list.splits)
  ultimately show ?thesis by auto
qed

lemma slices_of_ticks:
  "steady s L \<Longrightarrow> \<exists>s'. iter_exec (clock_tick sy) (11 * n) s = Some (Inr s') \<and> steady s' (rotate n L)"
proof (induction n arbitrary: s L)
  case 0
  then show ?case by simp
next
  case (Suc n)
  obtain s1 where s1: "iter_exec (clock_tick sy) 11 s = Some (Inr s1)" "steady s1 (rotate1 L)"
    using slice_of_ticks Suc.prems by blast
  obtain s' where "iter_exec (clock_tick sy) (11 * n) s1 = Some (Inr s')" "steady s' (rotate n (rotate1 L))"
    using Suc.IH [OF s1(2)] by blast
  with s1(1) show ?case
    using iter_exec_add [of "clock_tick sy" 11 "11 * n" s] by (simp add: rotate1_rotate_swap)
qed

section \<open>Wait queues\<close>

text \<open>What scheduling leaves alone: memory, the pages, the file system, and all but the queue of a process.\<close>

definition same_rest :: "'a kstate_scheme \<Rightarrow> 'a kstate_scheme \<Rightarrow> bool" where
  "same_rest s s' \<longleftrightarrow> ram s' = ram s \<and> super_block s' = super_block s
     \<and> kmem_page s' = kmem_page s \<and> kmem_base s' = kmem_base s \<and> kstate.more s' = kstate.more s
     \<and> (\<forall>i. pmap (procs s' i) = pmap (procs s i) \<and> files (procs s' i) = files (procs s i)
          \<and> pfs (procs s' i) = pfs (procs s i) \<and> pid (procs s' i) = pid (procs s i))"

lemma same_rest_refl [simp]: "same_rest s s" and
  same_rest_trans: "same_rest s t \<Longrightarrow> same_rest t u \<Longrightarrow> same_rest s u"
  by (auto simp: same_rest_def)

lemma same_rest_upd [simp]:
  "same_rest s (s'\<lparr>current := c\<rparr>) = same_rest s s'" "same_rest s (s'\<lparr>ready_head := h\<rparr>) = same_rest s s'"
  "same_rest s (s'\<lparr>ready_tail := h\<rparr>) = same_rest s s'" "same_rest s (s'\<lparr>ief := b\<rparr>) = same_rest s s'"
  "same_rest s (s'\<lparr>wait_links := l\<rparr>) = same_rest s s'"
  "same_rest s (s'\<lparr>k_esp := w\<rparr>) = same_rest s s'" "same_rest s (s'\<lparr>k_eip := w\<rparr>) = same_rest s s'"
  "same_rest s (s'\<lparr>tss := t\<rparr>) = same_rest s s'" "same_rest s (s'\<lparr>ldtr := v\<rparr>) = same_rest s s'"
  "same_rest (s\<lparr>ief := b\<rparr>) s' = same_rest s s'" "same_rest (s\<lparr>wait_links := l\<rparr>) s' = same_rest s s'"
  by (simp_all add: same_rest_def)

lemma same_rest_upd_proc [simp]:
  "same_rest s (upd_proc t (status_update f1) s') = same_rest s s'"
  "same_rest s (upd_proc t (counter_update f1) s') = same_rest s s'"
  "same_rest s (upd_proc t (need_resched_update f2) s') = same_rest s s'"
  "same_rest s (upd_proc t (p_next_update f3) s') = same_rest s s'"
  "same_rest s (upd_proc t (pthread_update f4) s') = same_rest s s'"
  by (auto simp: same_rest_def upd_proc_def)

lemma RoundRobin_rest: "RoundRobin s = Inr s' \<Longrightarrow> same_rest s s'"
  by (auto simp: RoundRobin_def Let_def res_bind_eq_Inr split: option.splits if_splits)

lemma proc_block_rest: "proc_block b s = Some (Inr s') \<Longrightarrow> same_rest s s'"
  by (auto simp: proc_block_def Let_def split: option.splits if_splits)

lemma switch_rest: "same_rest s (switch_kernel_thread sy c n s') = same_rest s s'"
  by (simp add: switch_kernel_thread_def switch_to_def Let_def)

lemma schedule_rest:
  fixes s :: "'a kstate_scheme"
  assumes "schedule sy s = Some (Inr s')"
  shows "same_rest s s'"
proof -
  let ?c = "current s"
  let ?blk = "\<lambda>s1. if status (procs s1 ?c) = TASK_INTERRUPT \<or> status (procs s1 ?c) = TASK_STOPED
      then proc_block (Some ?c) s1 else Some (Inr s1)"
  let ?run = "\<lambda>s2. let s3 = upd_proc ?c (need_resched_update (\<lambda>_. 0)) s2; next = pick_proc s3
      in if ?c \<noteq> next then
           let s4 = s3\<lparr>current := next\<rparr>; s5 = upd_proc (current s4) (need_resched_update (\<lambda>_. 0)) s4
           in switch_kernel_thread sy ?c next s5
         else s3"
  have "schedule sy s = exec_bind (Some (RoundRobin s)) (\<lambda>s1. exec_bind (?blk s1) (\<lambda>s2. Some (Inr (?run s2))))"
    by (simp add: schedule_def Let_def)
  then have "exec_bind (Some (RoundRobin s)) (\<lambda>s1. exec_bind (?blk s1) (\<lambda>s2. Some (Inr (?run s2)))) = Some (Inr s')"
    by (simp only: assms)
  from iffD1 [OF exec_bind_eq this] obtain s1 where s1: "Some (RoundRobin s) = Some (Inr s1)"
    and b: "exec_bind (?blk s1) (\<lambda>s2. Some (Inr (?run s2))) = Some (Inr s')" by (elim exE conjE)
  from iffD1 [OF exec_bind_eq b] obtain s2 where s2: "?blk s1 = Some (Inr s2)"
    and r: "(Some (Inr (?run s2)) :: 'a kstate_scheme exec) = Some (Inr s')" by (elim exE conjE)
  have s': "s' = ?run s2" using r by (simp only: option.inject sum.inject)
  have "same_rest s s1" using s1 by (simp only: option.inject RoundRobin_rest)
  moreover have "same_rest s1 s2" using s2 by (auto dest: proc_block_rest split: if_splits)
  moreover have "same_rest s2 s'" unfolding s' Let_def by (simp add: switch_rest)
  ultimately show ?thesis by (blast intro: same_rest_trans)
qed

text \<open>What \<open>wake_up\<close> leaves alone.\<close>

definition woke :: "'a kstate_scheme \<Rightarrow> 'a kstate_scheme \<Rightarrow> bool" where
  "woke s s' \<longleftrightarrow> wait_links s' = wait_links s \<and> current s' = current s \<and> ief s' = ief s
     \<and> same_rest s s'
     \<and> (\<forall>i. i \<noteq> current s \<longrightarrow> status (procs s' i) = status (procs s i))
     \<and> (\<forall>i. counter (procs s' i) = counter (procs s i))"

lemma queue_frame_rest: "queue_frame s s' \<Longrightarrow> same_rest s s'"
  by (auto simp: queue_frame_def same_rest_def)

lemma wake_up_process_spec:
  assumes rep: "ready_rep s L" and p: "user_task p"
  shows "p \<notin> set L \<Longrightarrow> \<exists>s'. wake_up_process p s = Inr s' \<and> ready_rep s' (L @ [p]) \<and> woke s s'
           \<and> status (procs s' (current s)) = TASK_RUNNING"
    and "L = as @ p # bs \<Longrightarrow> \<exists>s'. wake_up_process p s = Inr s' \<and> ready_rep s' (as @ [p]) \<and> woke s s'
           \<and> status (procs s' (current s)) = TASK_RUNNING"
proof -
  let ?s1 = "upd_proc (current s) (status_update (\<lambda>_. TASK_RUNNING)) (s\<lparr>ief := False\<rparr>)"
  have rep1: "ready_rep ?s1 L" using rep by simp
  have run: "wake_up_process p s = res_bind (proc_ready (Some p) ?s1) (\<lambda>s3. Inr (s3\<lparr>ief := ief s\<rparr>))"
    by (simp add: wake_up_process_def irq_defs)
  have fin: "woke s (s'\<lparr>ief := ief s\<rparr>)" "status (procs (s'\<lparr>ief := ief s\<rparr>) (current s)) = TASK_RUNNING"
    if "queue_frame ?s1 s'" for s'
    using queue_frame_sel [OF that] same_rest_trans [OF _ queue_frame_rest [OF that], of s] by (auto simp: woke_def)
  show "\<exists>s'. wake_up_process p s = Inr s' \<and> ready_rep s' (L @ [p]) \<and> woke s s'
      \<and> status (procs s' (current s)) = TASK_RUNNING" if new: "p \<notin> set L"
  proof -
    obtain s' where "proc_ready (Some p) ?s1 = Inr s'" "ready_rep s' (L @ [p])" "queue_frame ?s1 s'"
      using proc_ready_new [OF rep1 p new] by blast
    with run fin show ?thesis by (intro exI [of _ "s'\<lparr>ief := ief s\<rparr>"]) simp
  qed
  show "\<exists>s'. wake_up_process p s = Inr s' \<and> ready_rep s' (as @ [p]) \<and> woke s s'
      \<and> status (procs s' (current s)) = TASK_RUNNING" if L: "L = as @ p # bs"
  proof -
    obtain s' where "proc_ready (Some p) ?s1 = Inr s'" "ready_rep s' (as @ [p])" "queue_frame ?s1 s'"
      using proc_ready_twice [of ?s1 as p bs] rep1 L by blast
    with run fin show ?thesis by (intro exI [of _ "s'\<lparr>ief := ief s\<rparr>"]) simp
  qed
qed

lemma woke_trans: "woke s t \<Longrightarrow> woke t u \<Longrightarrow> woke s u"
  using same_rest_trans by (auto simp: woke_def)

lemma wake_loop_spec:
  assumes "ready_rep s L" "ring (wait_links s) he (as @ map Waiter ps)" "he \<notin> range Waiter"
    and "distinct (L @ ps)" "list_all user_task ps"
  shows "\<exists>s'. wake_loop he (Some (hd (map Waiter ps @ [he]))) s = Some (Inr s')
     \<and> ready_rep s' (L @ ps) \<and> woke s s'"
  using assms
proof (induction ps arbitrary: s L as)
  case Nil
  then show ?case by (subst wake_loop.simps) (auto simp: woke_def)
next
  case (Cons p ps)
  obtain s1 where s1: "wake_up_process p s = Inr s1" "ready_rep s1 (L @ [p])" "woke s s1"
    using wake_up_process_spec(1) [of s L p] Cons.prems by auto
  have nx: "l_next (wait_links s) (Waiter p) = Some (hd (map Waiter ps @ [he]))"
    using ring_walk(1) [of "wait_links s" he as "Waiter p" "map Waiter ps"] Cons.prems(2) by simp
  have "ring (wait_links s1) he ((as @ [Waiter p]) @ map Waiter ps)"
    using Cons.prems(2) s1(3) by (simp add: woke_def)
  from Cons.IH [OF s1(2) this Cons.prems(3)] Cons.prems(4,5) obtain s' where
    s': "wake_loop he (Some (hd (map Waiter ps @ [he]))) s1 = Some (Inr s')"
      "ready_rep s' ((L @ [p]) @ ps)" "woke s1 s'" by auto
  have "Waiter p \<noteq> he" using Cons.prems(3) by auto
  then have "wake_loop he (Some (hd (map Waiter (p # ps) @ [he]))) s = Some (Inr s')"
    using s1(1) s'(1) nx by (subst wake_loop.simps) simp
  with s' s1(3) woke_trans show ?case by fastforce
qed

lemma wake_up_spec:
  assumes "ready_rep s L" "ring (wait_links s) he (map Waiter ps)" "he \<notin> range Waiter"
    and "distinct (L @ ps)" "list_all user_task ps"
  shows "\<exists>s'. wake_up (Some he) s = Some (Inr s') \<and> ready_rep s' (L @ ps) \<and> woke s s'"
proof -
  let ?s1 = "s\<lparr>ief := False\<rparr>"
  have r: "ring (wait_links ?s1) he ([] @ map Waiter ps)" using assms(2) by simp
  have rep1: "ready_rep ?s1 L" using assms(1) by simp
  have hd: "l_next (wait_links ?s1) he = Some (hd (map Waiter ps @ [he]))"
    using ring_first [OF assms(2)] by simp
  obtain s' where "wake_loop he (Some (hd (map Waiter ps @ [he]))) ?s1 = Some (Inr s')"
      "ready_rep s' (L @ ps)" "woke ?s1 s'"
    using wake_loop_spec [OF rep1 r assms(3-5)] by blast
  with hd show ?thesis
    by (intro exI [of _ "s'\<lparr>ief := ief s\<rparr>"]) (simp add: wake_up_def irq_defs woke_def)
qed

end
