(* ===== verification/Sched_Props.thy ===== *)
theory Sched_Props
  imports Sched_Refine
begin

text \<open>
  The properties of the scheduler and the wait queues (\<^verbatim>\<open>ker/proc.c\<close>, \<^verbatim>\<open>ker/schedule.c\<close>), each
  with an instance on a table of three processes.
\<close>

section \<open>A concrete machine\<close>

definition zero_frame :: stackframe where
  "zero_frame = \<lparr>r_gs = 0, r_fs = 0, r_es = 0, r_ds = 0, r_ebp = 0, r_edi = 0, r_esi = 0, r_edx = 0, r_ecx = 0,
     r_ebx = 0, r_eax = 0, r_retaddr = 0, r_eip = 0, r_cs = 0, r_psw = 0, r_esp = 0, r_ss = 0\<rparr>"

definition zero_seg :: segdesc where
  "zero_seg = \<lparr>limit_low = 0, base_low = 0, base_middle = 0, access = 0, granularity = 0, base_high = 0\<rparr>"

definition zero_proc :: proc where
  "zero_proc = \<lparr>need_resched = 0, ldt_selector = 0, ldt = [zero_seg, zero_seg, zero_seg],
     pthread = \<lparr>th_esp0 = 0, th_eip = 0, th_esp = 0\<rparr>, pid = 0, status = TASK_RUNNING, counter = 10, flags = 0,
     pmap = (\<lambda>_. \<lparr>vir = 0, phys = 0, map_size = 0\<rparr>),
     files = \<lparr>openfd = 0, maxopen = 5, fd_array = replicate 5 None\<rparr>, pfs = \<lparr>fs_root = None\<rparr>, p_next = None\<rparr>"

definition zero_tss :: tss_s where
  "zero_tss = \<lparr>tss_backlink = 0, tss_esp0 = 0, tss_ss0 = 0, tss_esp1 = 0, tss_ss1 = 0, tss_esp2 = 0, tss_ss2 = 0,
     tss_cr3 = 0, tss_eip = 0, tss_flags = 0, tss_eax = 0, tss_ecx = 0, tss_edx = 0, tss_ebx = 0, tss_esp = 0,
     tss_ebp = 0, tss_esi = 0, tss_edi = 0, tss_es = 0, tss_cs = 0, tss_ss = 0, tss_ds = 0, tss_fs = 0, tss_gs = 0,
     tss_ldt = 0, tss_trap = 0, tss_iobase = 0\<rparr>"

definition zero_super :: super_block where
  "zero_super = \<lparr>sb_base = 0, sb_sector_size = 0, sb_cluster_size = 0, sb_fat_number = 0, sb_sector_number = 0,
     sb_sectorsperfat = 0, sb_sectorspertrack = 0, sb_resvdseccnt = 0, sb_heads = 0, sb_hidden = 0, sb_type = 0,
     sb_dir_first_sec = 0, sb_dir_number = 0, sb_data_first_sec = 0, sb_lock = 0, sb_dev = 0, sb_rootdir = None\<rparr>"

definition boot_state :: kstate where
  "boot_state = \<lparr>ief = True, mem_hole = (\<lambda>_. \<lparr>h_base = 0, h_size = 0, h_status = STAT_BUSY, h_next = None\<rparr>),
     h_head = None, slot_free = None, kmem_page = [], kmem_base = 0,
     procs = (\<lambda>_. zero_proc), kstack = (\<lambda>_. zero_frame), ready_head = None, ready_tail = None, current = IDLE_TASK,
     tss = zero_tss, gdt = replicate GDT_SIZE zero_seg, idt = replicate IDT_SIZE zero_gate,
     gdtr = (0, 0), idtr = (0, 0), ldtr = 0, tr = 0, k_esp = 0, k_eip = 0,
     wait_links = \<lparr>l_next = Some, l_prev = Some\<rparr>, ram = (\<lambda>_. 0), super_block = [zero_super, zero_super]\<rparr>"

definition no_symbols :: symbols where
  "no_symbols = \<lparr>sym_proc_table = 0x20000, sym_userstack = 0x30000, sym_gdt = 0x40000, sym_idt = 0x41000,
     sym_tss = 0x42000, sym_ret_with_schedule = 0x1000, sym_idle_task = 0x2000, sym_init_task = 0x3000,
     sym_resume = 0x4000, sym_entry = (\<lambda>_. 0x5000)\<rparr>"

text \<open>Process 1 runs, process 2 is ready behind it.\<close>

definition two_ready :: kstate where
  "two_ready = boot_state\<lparr>procs := (\<lambda>_. zero_proc)(1 := zero_proc\<lparr>p_next := Some 2\<rparr>),
     ready_head := Some 1, ready_tail := Some 2, current := 1\<rparr>"

lemma two_ready_rep: "ready_rep two_ready [1, 2]"
  by (simp add: ready_rep_def two_ready_def next_of_def zero_proc_def user_task_def IDLE_TASK_def NR_TASK_def)

lemma two_ready_steady: "steady two_ready [1, 2]"
  using two_ready_rep by (auto simp: steady_def two_ready_def zero_proc_def)

lemma boot_rep: "ready_rep boot_state []"
  by (simp add: ready_rep_def boot_state_def)

section \<open>Scheduling\<close>

text \<open>
  Property C4: \<open>schedule\<close> implements the policy on the list of ready processes: the front goes to the
  end when the time slice of the running process is used up, a process that is not running any more
  leaves the list, and the front of what is left runs next, the idle task when nothing is. When
  another process is chosen, the processor gets its stack, its instruction pointer, its kernel
  stack and its LDT, and the old process is left to resume behind the switch.
\<close>

theorem schedule_policy:
  assumes "ready_rep s L" "blocked s (current s) \<longrightarrow> L \<noteq> []"
  shows "\<exists>s'. schedule sy s = Some (Inr s')
    \<and> (let M = policy (expired s) (blocked s (current s)) (current s) L in
       ready_rep s' M \<and> current s' = runs_next M \<and> need_resched (procs s' (current s)) = 0
       \<and> ief s' = ief s \<and> (runs_next M = current s \<or> switched sy s (runs_next M) s'))"
  using schedule_spec [OF assms(1), of sy] assms(2) unfolding Let_def by blast

theorem schedule_policy_witness:
  "\<exists>s'. schedule no_symbols (upd_proc 1 (status_update (\<lambda>_. TASK_STOPED)) two_ready) = Some (Inr s')
     \<and> ready_rep s' [2] \<and> current s' = 2"
proof -
  let ?s = "upd_proc 1 (status_update (\<lambda>_. TASK_STOPED)) two_ready"
  have "ready_rep ?s [1, 2]" using two_ready_rep by simp
  moreover have "\<not> expired ?s" "blocked ?s (current ?s)" "current ?s = 1"
    by (simp_all add: two_ready_def expired_def blocked_def zero_proc_def IDLE_TASK_def)
  ultimately show ?thesis
    using schedule_policy [of ?s "[1, 2]" no_symbols] by (auto simp: policy_def Let_def)
qed

text \<open>
  Property C5: the clock serves the ready processes in turn. From a state in which they all have a
  full time slice and the first one runs, the process at place \<open>i\<close> runs after \<open>11 * i\<close> ticks: ten
  that use up a slice and one that finds it used up, for each process in front of it.
\<close>

theorem every_ready_process_runs:
  assumes "steady s L" "i < length L"
  shows "\<exists>s'. iter_exec (clock_tick sy) (11 * i) s = Some (Inr s') \<and> current s' = L ! i"
proof -
  obtain s' where "iter_exec (clock_tick sy) (11 * i) s = Some (Inr s')" "steady s' (rotate i L)"
    using slices_of_ticks [OF assms(1)] by blast
  moreover have "hd (rotate i L) = L ! i" using assms(2) by (subst hd_rotate_conv_nth) auto
  ultimately show ?thesis by (auto simp: steady_def)
qed

theorem every_ready_process_runs_witness:
  "\<exists>s'. iter_exec (clock_tick no_symbols) 11 two_ready = Some (Inr s') \<and> current s' = 2"
  using every_ready_process_runs [OF two_ready_steady, of 1 no_symbols] by simp

text \<open>
  the ready queue is first in, first out: a process put on it is picked when the time
  slices of those in front of it, and only of those, have ended.
\<close>

theorem ready_queue_fifo:
  assumes "ready_rep s L" "user_task p" "p \<notin> set L"
  shows "\<exists>s1 s2. proc_ready (Some p) s = Inr s1 \<and> iter_res slice_end (length L) s1 = Inr s2 \<and> pick_proc s2 = p"
  using assms by (rule rq.enq_then_reaches_front)

theorem ready_queue_fifo_witness:
  "\<exists>s1 s2. proc_ready (Some 3) two_ready = Inr s1 \<and> iter_res slice_end 2 s1 = Inr s2 \<and> pick_proc s2 = 3"
  using ready_queue_fifo [OF two_ready_rep, of 3]
  by (simp add: user_task_def IDLE_TASK_def NR_TASK_def numeral_2_eq_2)

text \<open>
  \<open>proc_ready\<close> does not look whether the process is on the queue already. When it is,
  the queue ends at it, and every process that waited behind it is lost.
\<close>

theorem proc_ready_twice_loses:
  assumes "ready_rep s (as @ p # bs)"
  shows "\<exists>s'. proc_ready (Some p) s = Inr s' \<and> ready_rep s' (as @ [p])"
  using proc_ready_twice [OF assms] by blast

theorem proc_ready_twice_loses_witness:
  "\<exists>s'. proc_ready (Some 1) two_ready = Inr s' \<and> ready_rep s' [1]"
  using proc_ready_twice_loses [of two_ready "[]" 1 "[2]"] two_ready_rep by simp

text \<open>
  \<open>proc_block\<close> of a process other than the idle task runs into the null pointer when no
  process is ready.
\<close>

theorem proc_block_empty:
  assumes "ready_rep s []" "b \<noteq> IDLE_TASK"
  shows "proc_block (Some b) s = Some (Inl Null_deref)"
  using assms by (simp add: proc_block_def ready_rep_def)

theorem proc_block_empty_witness: "proc_block (Some 1) boot_state = Some (Inl Null_deref)"
  using proc_block_empty [OF boot_rep, of 1] by (simp add: IDLE_TASK_def)

section \<open>Sleeping and waking\<close>

lemma sleep_on_spec:
  assumes "ready_rep s L" "current s \<in> set L" "ring (wait_links s) he xs" "Waiter (current s) \<notin> set (he # xs)"
  shows "\<exists>s'. sleep_on_enter sy he s = Some (Inr s')
    \<and> ready_rep s' (policy (expired s) True (current s) L)
    \<and> current s' = runs_next (policy (expired s) True (current s) L)
    \<and> ring (wait_links s') he (Waiter (current s) # xs)
    \<and> status (procs s' (current s)) = TASK_INTERRUPT \<and> ief s' = ief s \<and> same_rest s s'"
proof -
  let ?c = "current s" and ?w = "Waiter (current s)"
  let ?s2 = "upd_proc ?c (status_update (\<lambda>_. TASK_INTERRUPT)) ((DECLARE_WAIT_QUEUE ?c s)\<lparr>ief := False\<rparr>)"
  have "ring (wait_links ?s2) he xs = ring (wait_links s) he xs"
    using assms(4) by (intro ring_cong) (auto simp: DECLARE_WAIT_QUEUE_def)
  then have r2: "ring (wait_links ?s2) he xs" using assms(3) by blast
  obtain l where l: "list_add he ?w (wait_links ?s2) = Inr l" "ring l he (?w # xs)"
    using ring_list_add [OF r2 assms(4)] by blast
  let ?s3 = "(?s2\<lparr>wait_links := l\<rparr>)\<lparr>ief := ief s\<rparr>"
  have run: "sleep_on_enter sy he s = schedule sy ?s3"
    using l(1) by (simp add: sleep_on_enter_def add_wait_queue_def on_links_def irq_defs DECLARE_WAIT_QUEUE_def)
  have c0: "?c \<noteq> IDLE_TASK" using assms(1,2) by (auto simp: ready_rep_def list_all_iff user_task_def)
  have rep3: "ready_rep ?s3 L" using assms(1) by (simp add: DECLARE_WAIT_QUEUE_def)
  have cur: "current ?s3 = ?c" "expired ?s3 = expired s" "blocked ?s3 ?c"
    using c0 by (simp_all add: DECLARE_WAIT_QUEUE_def expired_def blocked_def upd_proc_def)
  have ne: "L \<noteq> []" using assms(2) by auto
  have st: "status (procs ?s3 ?c) = TASK_INTERRUPT" by simp
  obtain s' where sc: "schedule sy ?s3 = Some (Inr s')" and s': "ready_rep s' (policy (expired s) True ?c L)"
      "current s' = runs_next (policy (expired s) True ?c L)" "ief s' = ief ?s3" "wait_links s' = wait_links ?s3"
      "\<forall>i. status (procs s' i) = status (procs ?s3 i)"
    using schedule_spec [OF rep3 ne, of sy] cur(3) unfolding cur(1,2) by (simp only: simp_thms) blast
  have "same_rest s s'" using schedule_rest [OF sc] by (auto simp: DECLARE_WAIT_QUEUE_def intro: same_rest_trans [of s ?s3])
  with sc s' show ?thesis using run l(2) st by (intro exI [of _ s']) simp
qed

text \<open>
  \<open>sleep_on\<close> takes the calling process off the ready queue and puts it on the wait
  queue, and another process runs; the interrupt flag is as before.
\<close>

theorem sleep_on_blocks:
  assumes "ready_rep s L" "current s \<in> set L" "ring (wait_links s) he xs" "Waiter (current s) \<notin> set (he # xs)"
  shows "\<exists>s'. sleep_on_enter sy he s = Some (Inr s')
    \<and> ready_rep s' (policy (expired s) True (current s) L)
    \<and> current s' = runs_next (policy (expired s) True (current s) L)
    \<and> ring (wait_links s') he (Waiter (current s) # xs)
    \<and> status (procs s' (current s)) = TASK_INTERRUPT \<and> ief s' = ief s"
  using sleep_on_spec [OF assms, of sy] by blast

theorem sleep_on_blocks_witness:
  "\<exists>s'. sleep_on_enter no_symbols Kb_wait two_ready = Some (Inr s') \<and> ready_rep s' [2] \<and> current s' = 2
     \<and> ring (wait_links s') Kb_wait [Waiter 1]"
proof -
  have "ring (wait_links two_ready) Kb_wait []" "current two_ready = 1" "\<not> expired two_ready"
    by (simp_all add: ring_empty two_ready_def boot_state_def expired_def zero_proc_def)
  then show ?thesis
    using sleep_on_blocks [OF two_ready_rep, of Kb_wait "[]" no_symbols] by (auto simp: policy_def)
qed

text \<open>
  \<open>wake_up\<close> puts every process of the wait queue at the end of the ready queue, in the
  order of the queue, and leaves the wait queue and the interrupt flag as they are, provided that
  none of them was ready.
\<close>

theorem wake_up_readies_all:
  assumes "ready_rep s L" "ring (wait_links s) he (map Waiter ps)" "he \<notin> range Waiter"
    and "distinct (L @ ps)" "list_all user_task ps"
  shows "\<exists>s'. wake_up (Some he) s = Some (Inr s') \<and> ready_rep s' (L @ ps)
    \<and> wait_links s' = wait_links s \<and> ief s' = ief s \<and> current s' = current s"
  using wake_up_spec [OF assms] by (auto simp: woke_def)

definition one_sleeps :: kstate where
  "one_sleeps = boot_state\<lparr>procs := (\<lambda>_. zero_proc)(1 := zero_proc\<lparr>status := TASK_INTERRUPT\<rparr>),
     wait_links := \<lparr>l_next = (\<lambda>_. None)(Kb_wait := Some (Waiter 1), Waiter 1 := Some Kb_wait),
                    l_prev = (\<lambda>_. None)(Kb_wait := Some (Waiter 1), Waiter 1 := Some Kb_wait)\<rparr>\<rparr>"

lemma one_sleeps_rep: "ready_rep one_sleeps []" "ring (wait_links one_sleeps) Kb_wait (map Waiter [1])"
  by (simp_all add: ready_rep_def one_sleeps_def boot_state_def ring_def)

theorem wake_up_readies_all_witness:
  "\<exists>s'. wake_up (Some Kb_wait) one_sleeps = Some (Inr s') \<and> ready_rep s' [1]"
proof -
  have "Kb_wait \<notin> range Waiter" by auto
  then show ?thesis
    using wake_up_readies_all [OF one_sleeps_rep]
    by (auto simp: user_task_def IDLE_TASK_def NR_TASK_def)
qed

text \<open>
  Property C35: \<open>wake_up_process\<close> sets the status of the running process instead of the woken one. A
  sleeper that is woken while the machine is idle runs once with the status of a sleeper, and the
  next call of \<open>schedule\<close> takes it off the ready queue although it waits for nothing: the idle task
  runs again.
\<close>

theorem woken_process_blocks_again:
  assumes "ready_rep s []" "current s = IDLE_TASK" "user_task p" "status (procs s p) = TASK_INTERRUPT"
  shows "\<exists>s1 s2 s3. wake_up_process p s = Inr s1
    \<and> schedule sy s1 = Some (Inr s2) \<and> current s2 = p
    \<and> schedule sy s2 = Some (Inr s3) \<and> current s3 = IDLE_TASK \<and> ready_rep s3 []
    \<and> status (procs s3 p) = TASK_INTERRUPT"
proof -
  have p: "p \<noteq> IDLE_TASK" using assms(3) by (simp add: user_task_def)
  obtain s1 where s1: "wake_up_process p s = Inr s1" "ready_rep s1 [p]" "woke s s1"
    using wake_up_process_spec(1) [OF assms(1,3)] by auto
  have b1: "\<not> blocked s1 (current s1)" using s1(3) assms(2) by (simp add: woke_def blocked_def)
  then have m1: "policy (expired s1) (blocked s1 (current s1)) (current s1) [p] = [p]" by (simp add: policy_def)
  obtain s2 where s2: "schedule sy s1 = Some (Inr s2)" "ready_rep s2 [p]" "current s2 = p"
      "\<forall>i. status (procs s2 i) = status (procs s1 i)"
    using schedule_spec [OF s1(2), of sy] unfolding m1 by auto
  have st: "status (procs s2 p) = TASK_INTERRUPT"
    using s2(4) s1(3) assms(2,4) p by (simp add: woke_def)
  then have "blocked s2 (current s2)" using s2(3) p by (simp add: blocked_def)
  then have m2: "policy (expired s2) (blocked s2 (current s2)) (current s2) [p] = []"
    using s2(3) by (simp add: policy_def)
  obtain s3 where "schedule sy s2 = Some (Inr s3)" "ready_rep s3 []" "current s3 = IDLE_TASK"
      "\<forall>i. status (procs s3 i) = status (procs s2 i)"
    using schedule_spec [OF s2(2), of sy] unfolding m2 by auto
  with s1(1) s2 st show ?thesis by auto
qed

theorem woken_process_blocks_again_witness:
  "\<exists>s1 s2 s3. wake_up_process 1 one_sleeps = Inr s1
    \<and> schedule no_symbols s1 = Some (Inr s2) \<and> current s2 = 1
    \<and> schedule no_symbols s2 = Some (Inr s3) \<and> current s3 = IDLE_TASK \<and> ready_rep s3 []
    \<and> status (procs s3 1) = TASK_INTERRUPT"
proof -
  have "current one_sleeps = IDLE_TASK" "user_task 1" "status (procs one_sleeps 1) = TASK_INTERRUPT"
    by (simp_all add: one_sleeps_def boot_state_def user_task_def IDLE_TASK_def NR_TASK_def)
  then show ?thesis using woken_process_blocks_again [OF one_sleeps_rep(1)] by blast
qed

end
