(* ===== verification/Fork.thy ===== *)
theory Fork
  imports Sched_Refine Heap_Contract
begin

text \<open>
  Processes that are made and end: \<^verbatim>\<open>ker/fork.c\<close> and \<^verbatim>\<open>ker/exit.c\<close>. A child gets a copy of its
  father's record, saved registers and data and stack memory; the text segment is shared.
\<close>

section \<open>The code\<close>

definition mem_copy :: "nat \<Rightarrow> nat \<Rightarrow> 'a kstate_scheme \<Rightarrow> (int \<times> 'a kstate_scheme) option" where
  "mem_copy p c s =
     (let m = pmap (procs s p);
          r_size = map_size (m Map_S) + (vir (m Map_S) - vir (m Map_D));
          (fl, s1) = lock_irq_save s
      in case Kmem_alloc r_size s1 of
           None \<Rightarrow> None
         | Some (child_base, s2) \<Rightarrow>
             let s3 = unlock_irq_restore fl s2 in
             if child_base = 0 then Some (- 1, s3)
             else
               let s4 = s3\<lparr>ram := memcpy (phys (m Map_D)) child_base r_size (ram s3)\<rparr>
               in Some (0, upd_proc c (pmap_update (\<lambda>q. q(
                    Map_D := (q Map_D)\<lparr>phys := child_base\<rparr>,
                    Map_S := (q Map_S)\<lparr>phys := child_base + (vir (m Map_S) - vir (m Map_D))\<rparr>))) s4))"

definition do_fork :: "symbols \<Rightarrow> 'a kstate_scheme \<Rightarrow> (int \<times> 'a kstate_scheme) exec" where
  "do_fork sy s =
     (let (fl, s1) = lock_irq_save s;
          child = get_free_proc_struct s1;
          s2 = unlock_irq_restore fl s1
      in case child of
           None \<Rightarrow> Some (Inr (- 1, s2))
         | Some c \<Rightarrow>
             let father = current s2;
                 sel = ldt_selector (procs s2 c);
                 cpid = pid (procs s2 c);
                 s3 = upd_proc c (\<lambda>_. (procs s2 father)\<lparr>pid := cpid, ldt_selector := sel\<rparr>) s2;
                 s4 = upd_kstack c (\<lambda>_. (kstack s3 father)\<lparr>r_eax := 0\<rparr>) s3;
                 s5 = upd_proc c (pthread_update (\<lambda>_. \<lparr>th_esp0 = GET_PROC_KSTACK sy c + sizeof_stackframe,
                        th_eip = sym_ret_with_schedule sy, th_esp = GET_PROC_KSTACK sy c\<rparr>)) s4
             in case mem_copy father c s5 of
                  None \<Rightarrow> None
                | Some (r, s6) \<Rightarrow>
                    if r = - 1 then Some (Inr (- 1, s6))
                    else
                      let s7 = upd_proc c (\<lambda>q. q\<lparr>flags := flags q OR P_IN_USE, counter := 10\<rparr>) s6
                      in exec_bind (Some (wake_up_process c (alloc_segments c s7))) (\<lambda>s8.
                         Some (Inr (cpid, s8))))"

definition sys_fork :: "symbols \<Rightarrow> 'a kstate_scheme \<Rightarrow> (int \<times> 'a kstate_scheme) exec" where
  "sys_fork sy = do_fork sy"

definition do_exit :: "symbols \<Rightarrow> int \<Rightarrow> 'a kstate_scheme \<Rightarrow> (int \<times> 'a kstate_scheme) exec" where
  "do_exit sy error s =
     (let c = current s in
      if pid (procs s c) = 0 then Some (Inl (Panic ''Attempted to kill the idle Task''))
      else if pid (procs s c) = 1 then Some (Inl (Panic ''Attempted to kill the Init Task''))
      else
        let s1 = upd_proc c (flags_update (\<lambda>f. f AND NOT P_IN_USE)) s
        in case Kmem_free (phys (pmap (procs s1 c) Map_D)) s1 of
             None \<Rightarrow> None
           | Some s2 \<Rightarrow>
               let s3 = upd_proc c (\<lambda>q. q\<lparr>ldt_selector := 0, status := TASK_STOPED\<rparr>) s2
               in exec_bind (schedule sy s3) (\<lambda>s4. Some (Inr (- 1, s4))))"

definition sys_exit :: "symbols \<Rightarrow> int \<Rightarrow> 'a kstate_scheme \<Rightarrow> (int \<times> 'a kstate_scheme) exec" where
  "sys_exit sy error = do_exit sy error"

section \<open>The memory manager leaves the rest of the state alone\<close>

lemma Kmem_alloc_loop_more:
  assumes "Kmem_alloc_loop sz fl p s = Some y"
  shows "kmem.more (snd y) = kmem.more s"
  using assms
proof (rule Kmem_alloc_loop.raw_induct [rotated])
  fix loop :: "u32 \<Rightarrow> bool \<Rightarrow> nat option \<Rightarrow> 'a kmem_scheme \<Rightarrow> (u32 \<times> 'a kmem_scheme) option"
    and sz fl p s y
  assume IH: "\<And>sz fl p s y. loop sz fl p s = Some y \<Longrightarrow> kmem.more (snd y) = kmem.more s"
    and step: "(case p of None \<Rightarrow> Some (0, unlock_irq_restore fl s)
      | Some i \<Rightarrow>
          if h_status (mem_hole s i) = STAT_FREE then
            if sz < h_size (mem_hole s i) then
              (case alloc_hole_slot s of
                 (None, s1) \<Rightarrow> Some (0, s1)
               | (Some t, s1) \<Rightarrow>
                   Some (h_base (mem_hole s1 i), unlock_irq_restore fl (split_hole i t sz s1)))
            else if h_size (mem_hole s i) = sz then
              Some (h_base (mem_hole s i), unlock_irq_restore fl
                      (set_hole i ((mem_hole s i)\<lparr>h_status := STAT_BUSY\<rparr>) s))
            else loop sz fl (h_next (mem_hole s i)) s
          else loop sz fl (h_next (mem_hole s i)) s) = Some y"
  show "kmem.more (snd y) = kmem.more s"
    using step by (auto simp: unlock_irq_restore_def split_hole_def alloc_hole_slot_def Let_def
        split: option.splits if_splits dest: IH)
qed

lemma Kmem_alloc_more: "Kmem_alloc sz s = Some (a, s') \<Longrightarrow> kmem.more s' = kmem.more s"
  using Kmem_alloc_loop_more [of sz "ief s" "h_head s" "s\<lparr>ief := False\<rparr>" "(a, s')"]
  by (auto simp: Kmem_alloc_def lock_irq_save_def split: if_splits)

lemma merge_more [simp]:
  "kmem.more (merge_next i s) = kmem.more s" "kmem.more (merge_previous q i s) = kmem.more s"
  by (simp_all add: merge_next_def merge_previous_def free_hole_slot_def split: option.split)

lemma Kmem_free_loop_more:
  assumes "Kmem_free_loop base pre p s = Some s'"
  shows "kmem.more s' = kmem.more s"
  using assms
proof (rule Kmem_free_loop.raw_induct [rotated])
  fix loop :: "u32 \<Rightarrow> nat \<Rightarrow> nat option \<Rightarrow> 'a kmem_scheme \<Rightarrow> 'a kmem_scheme option" and base pre p s s'
  assume IH: "\<And>base pre p s s'. loop base pre p s = Some s' \<Longrightarrow> kmem.more s' = kmem.more s"
    and step: "(case p of None \<Rightarrow> Some s
      | Some i \<Rightarrow>
          if h_base (mem_hole s i) = base \<and> h_status (mem_hole s i) = STAT_BUSY then
            Some (merge_previous pre i (merge_next i
                    (set_hole i ((mem_hole s i)\<lparr>h_status := STAT_FREE\<rparr>) s)))
          else loop base i (h_next (mem_hole s i)) s) = Some s'"
  show "kmem.more s' = kmem.more s"
    using step by (auto split: option.splits if_splits dest: IH)
qed

lemma Kmem_free_more: "Kmem_free a s = Some s' \<Longrightarrow> kmem.more s' = kmem.more s"
  using Kmem_free_loop_more [of a _ "h_head s" "s\<lparr>ief := False\<rparr>"]
  by (auto simp: Kmem_free_def irq_defs split: option.splits)

lemma more_frame:
  fixes s s' :: "'a kstate_scheme"
  assumes "kmem.more s' = kmem.more s"
  shows "procs s' = procs s" "kstack s' = kstack s" "ready_head s' = ready_head s"
    "ready_tail s' = ready_tail s" "current s' = current s" "wait_links s' = wait_links s" "ram s' = ram s"
  using assms by (cases s; cases s'; simp)+

lemma heap_cong:
  assumes "mem_hole s' = mem_hole s" "h_head s' = h_head s" "slot_free s' = slot_free s"
  shows "heap lo hi s' L = heap lo hi s L"
proof -
  have n: "nexts s' = nexts s" and b: "block_of s' = block_of s"
    using assms by (auto simp: nexts_def block_of_def fun_eq_iff)
  show ?thesis by (simp add: heap_def hole_rep_def free_holes_def blocks_def n b assms)
qed

lemma heap_upd [simp]:
  "heap lo hi (upd_proc t f s) L = heap lo hi s L" "heap lo hi (upd_kstack t g s) L = heap lo hi s L"
  "heap lo hi (s\<lparr>ram := m\<rparr>) L = heap lo hi s L"
  by (rule heap_cong; simp add: upd_proc_def upd_kstack_def)+

lemma hole_rep_cong:
  assumes "mem_hole s' = mem_hole s" "h_head s' = h_head s" "slot_free s' = slot_free s"
  shows "hole_rep s' is fs = hole_rep s is fs" "blocks s' is = blocks s is"
proof -
  have n: "nexts s' = nexts s" and b: "block_of s' = block_of s"
    using assms by (auto simp: nexts_def block_of_def fun_eq_iff)
  show "hole_rep s' is fs = hole_rep s is fs" "blocks s' is = blocks s is"
    by (simp_all add: hole_rep_def free_holes_def blocks_def n b assms)
qed

section \<open>A process slot outside the ready queue\<close>

lemma ready_rep_outside:
  assumes "c \<notin> set L"
  shows "ready_rep (upd_proc c f s) L = ready_rep s L"
proof -
  have "chain (next_of (upd_proc c f s)) p L = chain (next_of s) p L" for p
    using assms by (intro chain_cong) (auto simp: next_of_def)
  then show ?thesis by (simp add: ready_rep_def)
qed

lemma ready_rep_cong:
  assumes "procs s' = procs s" "ready_head s' = ready_head s" "ready_tail s' = ready_tail s"
  shows "ready_rep s' L = ready_rep s L"
  using assms by (simp add: ready_rep_def next_of_def)

lemma ready_rep_kstack [simp]: "ready_rep (upd_kstack c f s) L = ready_rep s L"
  by (rule ready_rep_cong) simp_all

lemma alloc_segments_sel:
  "ready_head (alloc_segments c s) = ready_head s" "ready_tail (alloc_segments c s) = ready_tail s"
  "current (alloc_segments c s) = current s" "ief (alloc_segments c s) = ief s"
  "ram (alloc_segments c s) = ram s" "mem_hole (alloc_segments c s) = mem_hole s"
  "h_head (alloc_segments c s) = h_head s" "slot_free (alloc_segments c s) = slot_free s"
  by (simp_all add: alloc_segments_def Let_def upd_proc_def upd_kstack_def)

text \<open>The segment registers that \<open>alloc_segments\<close> gives a process.\<close>

definition user_segs :: "stackframe \<Rightarrow> stackframe" where
  "user_segs r = r\<lparr>r_cs := 7, r_ds := 15, r_es := 15, r_fs := 15, r_gs := 15, r_ss := 15\<rparr>"

lemma alloc_segments_kstack: "kstack (alloc_segments c s) = (kstack s)(c := user_segs (kstack s c))"
  by (simp add: alloc_segments_def Let_def user_segs_def seg_selector_def CS_LDT_INDEX_def DS_LDT_INDEX_def
      USER_PRIV_def)

lemma alloc_segments_procs: "\<exists>d. alloc_segments c s = upd_kstack c user_segs (upd_proc c (ldt_update (\<lambda>_. d)) s)"
  by (simp add: alloc_segments_def Let_def user_segs_def [abs_def] seg_selector_def CS_LDT_INDEX_def
      DS_LDT_INDEX_def USER_PRIV_def) blast

section \<open>What do_fork does\<close>

definition fork_size :: "proc \<Rightarrow> u32" where
  "fork_size p = map_size (pmap p Map_S) + (vir (pmap p Map_S) - vir (pmap p Map_D))"

text \<open>The state in which \<open>mem_copy\<close> is called: the child's slot holds the copy of the father.\<close>

definition fork_prepared :: "symbols \<Rightarrow> nat \<Rightarrow> 'a kstate_scheme \<Rightarrow> 'a kstate_scheme" where
  "fork_prepared sy c s =
     upd_proc c (pthread_update (\<lambda>_. \<lparr>th_esp0 = GET_PROC_KSTACK sy c + sizeof_stackframe,
                        th_eip = sym_ret_with_schedule sy, th_esp = GET_PROC_KSTACK sy c\<rparr>))
      (upd_kstack c (\<lambda>_. (kstack s (current s))\<lparr>r_eax := 0\<rparr>)
        (upd_proc c (\<lambda>_. (procs s (current s))\<lparr>pid := pid (procs s c), ldt_selector := ldt_selector (procs s c)\<rparr>) s))"

lemma do_fork_prepared:
  assumes "get_free_proc_struct s = Some c"
  shows "do_fork sy s = (case mem_copy (current s) c (fork_prepared sy c s) of
                  None \<Rightarrow> None
                | Some (r, s6) \<Rightarrow>
                    if r = - 1 then Some (Inr (- 1, s6))
                    else exec_bind (Some (wake_up_process c (alloc_segments c
                           (upd_proc c (\<lambda>q. q\<lparr>flags := flags q OR P_IN_USE, counter := 10\<rparr>) s6))))
                         (\<lambda>s8. Some (Inr (pid (procs s c), s8))))"
proof -
  have "get_free_proc_struct (s\<lparr>ief := False\<rparr>) = Some c" using assms by (simp add: get_free_proc_struct_def)
  then show ?thesis
    by (simp add: do_fork_def irq_defs Let_def fork_prepared_def split: option.split)
qed

text \<open>The memory of the father: below the heap, or inside a block that is live.\<close>

definition owns_memory :: "nat \<Rightarrow> (u32 \<times> u32) set \<Rightarrow> u32 \<Rightarrow> u32 \<Rightarrow> bool" where
  "owns_memory lo X a n \<longleftrightarrow> unat a + unat n \<le> lo \<or> (\<exists>z. (a, z) \<in> X \<and> unat n \<le> unat z \<and> unat a + unat z < 2 ^ 32)"

lemma memcpy_apart:
  assumes "unat f + unat n < 2 ^ 32" "unat t + unat n < 2 ^ 32" "apart (t, n) (f, n)" "i < unat n"
  shows "memcpy f t n m (t + of_nat i) = m (f + of_nat i)"
  using assms unfolding memcpy_def by (intro rep_movsb_copies) (auto simp: apart_def)

text \<open>The memory that \<open>mem_copy\<close> asks for, by first fit, and what the copy leaves there.\<close>

lemma mem_copy_outcome:
  assumes h: "heap lo hi s X" "hole_rep s is fs" and n: "fork_size (procs s p) \<noteq> 0"
    and own: "owns_memory lo X (phys (pmap (procs s p) Map_D)) (fork_size (procs s p))"
  shows "case first_fit (fs \<noteq> []) (fork_size (procs s p)) (blocks s is) of
      None \<Rightarrow> \<exists>s'. Kmem_alloc (fork_size (procs s p)) (s\<lparr>ief := False\<rparr>) = Some (0, s') \<and> kmem.more s' = kmem.more s
        \<and> heap lo hi s' X
    | Some (a, _) \<Rightarrow> \<exists>s'. Kmem_alloc (fork_size (procs s p)) (s\<lparr>ief := False\<rparr>) = Some (a, s') \<and> kmem.more s' = kmem.more s
        \<and> a \<noteq> 0 \<and> heap lo hi s' (insert (a, fork_size (procs s p)) X) \<and> (\<forall>r \<in> X. apart (a, fork_size (procs s p)) r)
        \<and> unat a + unat (fork_size (procs s p)) < 2 ^ 32
        \<and> (\<forall>m. \<forall>i < unat (fork_size (procs s p)).
              memcpy (phys (pmap (procs s p) Map_D)) a (fork_size (procs s p)) m (a + of_nat i)
                = m (phys (pmap (procs s p) Map_D) + of_nat i))"
proof -
  let ?n = "fork_size (procs s p)" and ?f = "phys (pmap (procs s p) Map_D)" and ?s = "s\<lparr>ief := False\<rparr>"
  have h': "heap lo hi ?s X" "hole_rep ?s is fs" "blocks ?s is = blocks s is" using h by simp_all
  note fit = heap_alloc_fit [OF h'(1,2) n, unfolded h'(3)]
  have hi: "hi < 2 ^ 32" "0 < lo" using h(1) by (auto elim: heapE)
  show ?thesis
  proof (cases "first_fit (fs \<noteq> []) ?n (blocks s is)")
    case None
    with fit Kmem_alloc_more [of ?n ?s] show ?thesis by fastforce
  next
    case (Some r)
    obtain a bs where r: "r = (a, bs)" by (cases r)
    obtain s' where s': "a \<noteq> 0" "Kmem_alloc ?n ?s = Some (a, s')" "heap lo hi s' (insert (a, ?n) X)" "\<forall>q \<in> X. apart (a, ?n) q"
      "lo \<le> unat a" "unat a + unat ?n \<le> hi"
      using fit Some r by auto
    have "memcpy ?f a ?n m (a + of_nat i) = m (?f + of_nat i)" if "i < unat ?n" for m i
    proof (rule memcpy_apart [OF _ _ _ that])
      show "unat a + unat ?n < 2 ^ 32" using s'(6) hi by auto
      show "apart (a, ?n) (?f, ?n)" "unat ?f + unat ?n < 2 ^ 32"
        using own s'(4-6) hi by (fastforce simp: owns_memory_def apart_def)+
    qed
    moreover have "kmem.more s' = kmem.more s" using Kmem_alloc_more [OF s'(2)] by simp
    ultimately show ?thesis using s' hi Some r by auto
  qed
qed

text \<open>
  The two ways \<open>do_fork\<close> can end with a free slot: without memory, and with a child.
\<close>

text \<open>The father goes on where it was.\<close>

definition father_kept :: "'a kstate_scheme \<Rightarrow> 'a kstate_scheme \<Rightarrow> bool" where
  "father_kept s s' \<longleftrightarrow> current s' = current s \<and> kstack s' (current s) = kstack s (current s)
     \<and> need_resched (procs s' (current s)) = need_resched (procs s (current s))"

definition fork_failed :: "nat \<Rightarrow> 'a kstate_scheme \<Rightarrow> 'a kstate_scheme \<Rightarrow> bool" where
  "fork_failed c s s' \<longleftrightarrow> flags (procs s' c) = flags (procs s (current s))
     \<and> status (procs s' c) = status (procs s (current s)) \<and> pid (procs s' c) = pid (procs s c) \<and> ram s' = ram s \<and> father_kept s s'"

definition fork_child :: "symbols \<Rightarrow> nat \<Rightarrow> u32 \<Rightarrow> 'a kstate_scheme \<Rightarrow> 'a kstate_scheme \<Rightarrow> bool" where
  "fork_child sy c a s s' \<longleftrightarrow>
     kstack s' c = user_segs ((kstack s (current s))\<lparr>r_eax := 0\<rparr>)
     \<and> pid (procs s' c) = pid (procs s c) \<and> ldt_selector (procs s' c) = ldt_selector (procs s c)
     \<and> flags (procs s' c) AND P_IN_USE = P_IN_USE \<and> counter (procs s' c) = 10
     \<and> pthread (procs s' c) = \<lparr>th_esp0 = GET_PROC_KSTACK sy c + sizeof_stackframe,
          th_eip = sym_ret_with_schedule sy, th_esp = GET_PROC_KSTACK sy c\<rparr>
     \<and> files (procs s' c) = files (procs s (current s))
     \<and> (let m = pmap (procs s (current s)); n = fork_size (procs s (current s)) in
          pmap (procs s' c) = m(Map_D := (m Map_D)\<lparr>phys := a\<rparr>, Map_S := (m Map_S)\<lparr>phys := a + (vir (m Map_S) - vir (m Map_D))\<rparr>)
        \<and> (\<forall>i < unat n. ram s' (a + of_nat i) = ram s (phys (m Map_D) + of_nat i))
        \<and> (\<forall>x. unat x < unat a \<or> unat a + unat n \<le> unat x \<longrightarrow> ram s' x = ram s x))
     \<and> father_kept s s'"

lemma queue_frame_proc_ready:
  assumes "ready_rep s L" "user_task p" "p \<notin> set L"
  shows "\<exists>s'. wake_up_process p s = Inr s' \<and> ready_rep s' (L @ [p])
    \<and> queue_frame (upd_proc (current s) (status_update (\<lambda>_. TASK_RUNNING)) s) s'"
proof -
  let ?s1 = "upd_proc (current s) (status_update (\<lambda>_. TASK_RUNNING)) (s\<lparr>ief := False\<rparr>)"
  have "ready_rep ?s1 L" using assms(1) by simp
  then obtain s' where s': "proc_ready (Some p) ?s1 = Inr s'" "ready_rep s' (L @ [p])" "queue_frame ?s1 s'"
    using proc_ready_new [OF _ assms(2,3)] by blast
  have "queue_frame (upd_proc (current s) (status_update (\<lambda>_. TASK_RUNNING)) s) (s'\<lparr>ief := ief s\<rparr>)"
    using s'(3) unfolding queue_frame_def by (elim exE) (auto simp: upd_proc_def)
  with s' show ?thesis
    by (intro exI [of _ "s'\<lparr>ief := ief s\<rparr>"]) (simp add: wake_up_process_def irq_defs)
qed

lemma queue_frame_heap: "queue_frame s s' \<Longrightarrow> heap lo hi s' X = heap lo hi s X"
  by (rule heap_cong) (auto simp: queue_frame_def)

lemma queue_frame_data:
  assumes "queue_frame s s'"
  shows "kstack s' = kstack s" "ram s' = ram s" "pid (procs s' i) = pid (procs s i)"
    "pmap (procs s' i) = pmap (procs s i)" "files (procs s' i) = files (procs s i)"
    "need_resched (procs s' i) = need_resched (procs s i)" "current s' = current s"
  using assms by (auto simp: queue_frame_def)

lemma fork_prepared_keeps:
  "mem_hole (fork_prepared sy c s) = mem_hole s" "h_head (fork_prepared sy c s) = h_head s" "slot_free (fork_prepared sy c s) = slot_free s"
  "ram (fork_prepared sy c s) = ram s" "current (fork_prepared sy c s) = current s"
  "p \<noteq> c \<Longrightarrow> procs (fork_prepared sy c s) p = procs s p" "p \<noteq> c \<Longrightarrow> kstack (fork_prepared sy c s) p = kstack s p"
  "c \<notin> set L \<Longrightarrow> ready_rep (fork_prepared sy c s) L = ready_rep s L"
proof -
  show "c \<notin> set L \<Longrightarrow> ready_rep (fork_prepared sy c s) L = ready_rep s L"
    by (simp add: fork_prepared_def ready_rep_outside)
qed (simp_all add: fork_prepared_def upd_proc_def upd_kstack_def)

text \<open>Without memory the prepared slot stays behind.\<close>

lemma fork_without_memory:
  assumes "ready_rep s L" "get_free_proc_struct s = Some c" "c \<notin> set L" "c \<noteq> current s"
    and "Kmem_alloc (fork_size (procs s (current s))) ((fork_prepared sy c s)\<lparr>ief := False\<rparr>) = Some (0, s2)"
    and "kmem.more s2 = kmem.more (fork_prepared sy c s)" "heap lo hi s2 X"
  shows "\<exists>s'. do_fork sy s = Some (Inr (- 1, s')) \<and> ready_rep s' L \<and> heap lo hi s' X \<and> fork_failed c s s'"
proof -
  let ?s5 = "fork_prepared sy c s"
  let ?s3 = "s2\<lparr>ief := ief ?s5\<rparr>"
  note fr = more_frame [OF assms(6)] and p5 = fork_prepared_keeps [where sy = sy and c = c and s = s]
  have "mem_copy (current s) c ?s5 = Some (- 1, ?s3)"
    using assms(4,5) p5(6) by (simp add: mem_copy_def irq_defs fork_size_def Let_def)
  then have "do_fork sy s = Some (Inr (- 1, ?s3))" using do_fork_prepared [OF assms(2)] by simp
  moreover have "ready_rep ?s3 L" using assms(1,3) ready_rep_cong [of s2 ?s5 L] fr p5(8) by simp
  moreover have "heap lo hi ?s3 X" using assms(7) by simp
  moreover have "fork_failed c s ?s3"
    using fr p5(4) assms(4) by (simp add: fork_failed_def father_kept_def fork_prepared_def)
  ultimately show ?thesis by blast
qed

text \<open>With memory the child gets its copy and goes to the end of the ready queue.\<close>

lemma fork_with_memory:
  assumes rep: "ready_rep s L" and c: "get_free_proc_struct s = Some c" "user_task c" "c \<notin> set L" "c \<noteq> current s"
    and n: "n = fork_size (procs s (current s))" and f: "f = phys (pmap (procs s (current s)) Map_D)"
    and a: "Kmem_alloc n ((fork_prepared sy c s)\<lparr>ief := False\<rparr>) = Some (a, s2)" "kmem.more s2 = kmem.more (fork_prepared sy c s)"
      "a \<noteq> 0" "heap lo hi s2 Y"
    and copy: "unat a + unat n < 2 ^ 32" "\<forall>i < unat n. memcpy f a n (ram s) (a + of_nat i) = ram s (f + of_nat i)"
  shows "\<exists>s'. do_fork sy s = Some (Inr (pid (procs s c), s')) \<and> ready_rep s' (L @ [c]) \<and> heap lo hi s' Y \<and> fork_child sy c a s s'"
proof -
  let ?p = "current s" and ?s5 = "fork_prepared sy c s"
  let ?m = "pmap (procs s ?p)"
  let ?s3 = "s2\<lparr>ief := ief ?s5\<rparr>"
  note fr = more_frame [OF a(2)] and p5 = fork_prepared_keeps [where sy = sy and c = c and s = s]
  let ?g = "pmap_update (\<lambda>q. q(Map_D := (q Map_D)\<lparr>phys := a\<rparr>,
       Map_S := (q Map_S)\<lparr>phys := a + (vir (?m Map_S) - vir (?m Map_D))\<rparr>))"
  let ?s6 = "upd_proc c ?g (?s3\<lparr>ram := memcpy f a n (ram s2)\<rparr>)"
  let ?s7 = "upd_proc c (\<lambda>q. q\<lparr>flags := flags q OR P_IN_USE, counter := 10\<rparr>) ?s6"
  have mc: "mem_copy ?p c ?s5 = Some (0, ?s6)"
    using a(1,3) c(4) p5(6) n f by (simp add: mem_copy_def irq_defs fork_size_def Let_def)
  then have run: "do_fork sy s = exec_bind (Some (wake_up_process c (alloc_segments c ?s7)))
      (\<lambda>s8. Some (Inr (pid (procs s c), s8)))"
    using do_fork_prepared [OF c(1)] by simp
  obtain d where seg: "alloc_segments c ?s7 = upd_kstack c user_segs (upd_proc c (ldt_update (\<lambda>_. d)) ?s7)"
    using alloc_segments_procs by blast
  define t where "t = alloc_segments c ?s7"
  have "ready_rep s2 L" using rep c(3) p5(8) ready_rep_cong [of s2 ?s5 L] fr by simp
  then have "ready_rep (?s3\<lparr>ram := memcpy f a n (ram s2)\<rparr>) L"
    using ready_rep_cong [of "?s3\<lparr>ram := memcpy f a n (ram s2)\<rparr>" s2 L] by simp
  then have rept: "ready_rep t L" unfolding t_def seg using c(3) by (simp add: ready_rep_outside)
  have cur: "current t = ?p" "ram t = memcpy f a n (ram s)"
    using fr p5(4,5) unfolding t_def seg by (simp_all add: upd_proc_def upd_kstack_def)
  obtain s' where s': "wake_up_process c t = Inr s'" "ready_rep s' (L @ [c])"
      "queue_frame (upd_proc ?p (status_update (\<lambda>_. TASK_RUNNING)) t) s'"
    using queue_frame_proc_ready [OF rept c(2,3)] unfolding cur by blast
  have heap: "heap lo hi s' Y"
    using a(4) queue_frame_heap [OF s'(3)] unfolding t_def seg by simp
  have procs6: "procs s2 c = procs ?s5 c" and kst6: "kstack s2 c = kstack ?s5 c" using fr by simp_all
  have t: "kstack t c = user_segs ((kstack s ?p)\<lparr>r_eax := 0\<rparr>)" "pid (procs t c) = pid (procs s c)"
    "ldt_selector (procs t c) = ldt_selector (procs s c)" "flags (procs t c) = flags (procs s ?p) OR P_IN_USE"
    "counter (procs t c) = 10" "files (procs t c) = files (procs s ?p)"
    "pmap (procs t c) = ?m(Map_D := (?m Map_D)\<lparr>phys := a\<rparr>, Map_S := (?m Map_S)\<lparr>phys := a + (vir (?m Map_S) - vir (?m Map_D))\<rparr>)"
    "pthread (procs t c) = \<lparr>th_esp0 = GET_PROC_KSTACK sy c + sizeof_stackframe,
        th_eip = sym_ret_with_schedule sy, th_esp = GET_PROC_KSTACK sy c\<rparr>"
    unfolding t_def seg by (simp_all add: procs6 kst6) (simp_all add: fork_prepared_def)
  have fa: "kstack t ?p = kstack s ?p" "need_resched (procs t ?p) = need_resched (procs s ?p)"
    using fr c(4) p5(6,7) unfolding t_def seg by simp_all
  have use: "(flags (procs s ?p) OR P_IN_USE) AND P_IN_USE = P_IN_USE"
    by (rule bit_word_eqI) (auto simp: bit_simps)
  note q = queue_frame_data [OF s'(3)]
  have mem: "ram s' = memcpy f a n (ram s)" using q(2) cur(2) by (simp add: upd_proc_def)
  have out: "memcpy f a n (ram s) x = ram s x" if "unat x < unat a \<or> unat a + unat n \<le> unat x" for x
    unfolding memcpy_def using copy(1) that by (rule rep_movsb_outside)
  have "fork_child sy c a s s'"
    unfolding fork_child_def Let_def
  proof (intro conjI allI impI)
    show "father_kept s s'" using q fa cur c(4) by (simp add: father_kept_def)
  qed (use q queue_frame_sel [OF s'(3)] c(4) t use mem out copy(2) n f in simp_all)
  then show ?thesis using run s'(1,2) heap unfolding t_def by (intro exI [of _ s']) simp
qed

lemma do_fork_spec:
  assumes rep: "ready_rep s L" and h: "heap lo hi s X" "hole_rep s is fs"
    and c: "get_free_proc_struct s = Some c" "user_task c" "c \<notin> set L" "c \<noteq> current s"
    and n: "n = fork_size (procs s (current s))" "n \<noteq> 0" and own: "owns_memory lo X (phys (pmap (procs s (current s)) Map_D)) n"
  shows "case first_fit (fs \<noteq> []) n (blocks s is) of
      None \<Rightarrow> \<exists>s'. do_fork sy s = Some (Inr (- 1, s')) \<and> ready_rep s' L \<and> heap lo hi s' X \<and> fork_failed c s s'
    | Some (a, _) \<Rightarrow> \<exists>s'. do_fork sy s = Some (Inr (pid (procs s c), s')) \<and> ready_rep s' (L @ [c])
         \<and> heap lo hi s' (insert (a, n) X) \<and> (\<forall>r \<in> X. apart (a, n) r) \<and> fork_child sy c a s s'"
proof -
  let ?s5 = "fork_prepared sy c s" and ?f = "phys (pmap (procs s (current s)) Map_D)"
  note p5 = fork_prepared_keeps [where sy = sy and c = c and s = s]
  have pc: "procs ?s5 (current s) = procs s (current s)" using c(4) p5(6) by simp
  have h5: "heap lo hi ?s5 X" "hole_rep ?s5 is fs" "blocks ?s5 is = blocks s is"
    using h heap_cong [OF p5(1-3)] hole_rep_cong [OF p5(1-3)] by simp_all
  note out = mem_copy_outcome [OF h5(1,2), of "current s", unfolded pc h5(3), folded n(1), OF n(2) own]
  show ?thesis
  proof (cases "first_fit (fs \<noteq> []) n (blocks s is)")
    case None
    then show ?thesis using out fork_without_memory [OF rep c(1,3,4), of sy _ lo hi X] n(1) by auto
  next
    case (Some r)
    obtain a bs where r: "r = (a, bs)" by (cases r)
    obtain s2 where s2: "Kmem_alloc n (?s5\<lparr>ief := False\<rparr>) = Some (a, s2)" "kmem.more s2 = kmem.more ?s5" "a \<noteq> 0"
      "heap lo hi s2 (insert (a, n) X)" "\<forall>r \<in> X. apart (a, n) r" "unat a + unat n < 2 ^ 32"
      "\<forall>m. \<forall>i < unat n. memcpy ?f a n m (a + of_nat i) = m (?f + of_nat i)"
      using out Some r by auto
    from fork_with_memory [OF rep c n(1) refl s2(1-4,6) spec [OF s2(7)]] show ?thesis using s2(5) Some r by auto
  qed
qed

section \<open>What do_exit does\<close>

lemma do_exit_spec:
  assumes rep: "ready_rep s L" and h: "heap lo hi s X" and c: "current s \<in> set L"
    and p: "pid (procs s (current s)) \<noteq> 0" "pid (procs s (current s)) \<noteq> 1"
    and b: "(phys (pmap (procs s (current s)) Map_D), z) \<in> X"
  shows "\<exists>s'. do_exit sy e s = Some (Inr (- 1, s'))
    \<and> ready_rep s' (policy (expired s) True (current s) L)
    \<and> current s' = runs_next (policy (expired s) True (current s) L)
    \<and> heap lo hi s' (X - {(phys (pmap (procs s (current s)) Map_D), z)})
    \<and> flags (procs s' (current s)) AND P_IN_USE = 0 \<and> ldt_selector (procs s' (current s)) = 0"
proof -
  let ?c = "current s" and ?a = "phys (pmap (procs s (current s)) Map_D)"
  let ?s1 = "upd_proc ?c (flags_update (\<lambda>f. f AND NOT P_IN_USE)) s"
  have "heap lo hi ?s1 X" using h by simp
  then obtain s2 where s2: "Kmem_free ?a ?s1 = Some s2" "heap lo hi s2 (X - {(?a, z)})"
    using heap_free b by blast
  note fr = more_frame [OF Kmem_free_more [OF s2(1)]]
  let ?s3 = "upd_proc ?c (\<lambda>q. q\<lparr>ldt_selector := 0, status := TASK_STOPED\<rparr>) s2"
  have run: "do_exit sy e s = exec_bind (schedule sy ?s3) (\<lambda>s4. Some (Inr (- 1, s4)))"
    using p s2(1) by (simp add: do_exit_def Let_def)
  have nx: "next_of ?s3 = next_of s" using fr by (auto simp: next_of_def)
  have rep3: "ready_rep ?s3 L" using rep nx fr by (simp add: ready_rep_def)
  have c0: "?c \<noteq> IDLE_TASK" using rep c by (auto simp: ready_rep_def list_all_iff user_task_def)
  have cur: "current ?s3 = ?c" "expired ?s3 = expired s" "blocked ?s3 ?c"
    using c0 fr by (simp_all add: expired_def blocked_def)
  have ne: "L \<noteq> []" using c by auto
  obtain s' where s': "schedule sy ?s3 = Some (Inr s')" "ready_rep s' (policy (expired s) True ?c L)"
      "current s' = runs_next (policy (expired s) True ?c L)"
      "\<forall>i. flags (procs s' i) = flags (procs ?s3 i) \<and> ldt_selector (procs s' i) = ldt_selector (procs ?s3 i)"
      "mem_hole s' = mem_hole ?s3" "h_head s' = h_head ?s3" "slot_free s' = slot_free ?s3"
    using schedule_spec [OF rep3 ne, of sy] cur(3) unfolding cur(1,2) by (simp only: simp_thms) blast
  have "heap lo hi s' (X - {(?a, z)})" using heap_cong [OF s'(5-7)] s2(2) by simp
  moreover have "(flags (procs s ?c) AND NOT P_IN_USE) AND P_IN_USE = 0"
    by (rule bit_word_eqI) (auto simp: bit_simps)
  ultimately show ?thesis using run s' fr by (intro exI [of _ s']) simp
qed

end
