(* ===== verification/Fork_Props.thy ===== *)
theory Fork_Props
  imports Fork Sched_Props Memory_Props
begin

text \<open>
  The properties of \<open>do_fork\<close> and \<open>do_exit\<close> (\<^verbatim>\<open>ker/fork.c\<close>, \<^verbatim>\<open>ker/exit.c\<close>), with an instance on a
  machine where process 1 runs with its data in low memory.
\<close>

section \<open>A concrete machine\<close>

definition user_proc :: proc where
  "user_proc = zero_proc\<lparr>pid := 1, flags := P_IN_USE,
     pmap := (\<lambda>_. \<lparr>vir = 0, phys = 0, map_size = 0x20000\<rparr>)(Map_S := \<lparr>vir = 0x30000, phys = 0, map_size = 2560\<rparr>)\<rparr>"

definition fork_state :: kstate where
  "fork_state = boot_state\<lparr>mem_hole := mem_hole warm_kmem, h_head := h_head warm_kmem, slot_free := slot_free warm_kmem,
     procs := (\<lambda>t. zero_proc\<lparr>pid := int t\<rparr>)(0 := user_proc, 1 := user_proc),
     ready_head := Some 1, ready_tail := Some 1, current := 1\<rparr>"

lemma fork_heap: "heap 1048576 2097153 fork_state {}"
  using warm_heap by (subst heap_cong [of _ warm_kmem]) (simp_all add: fork_state_def)

lemma fork_rep: "ready_rep fork_state [1]"
  by (simp add: ready_rep_def fork_state_def next_of_def user_proc_def zero_proc_def user_task_def
      IDLE_TASK_def NR_TASK_def)

lemma fork_free_slot: "get_free_proc_struct fork_state = Some 2"
  by (simp add: get_free_proc_struct_def fork_state_def user_proc_def zero_proc_def P_IN_USE_def
      NR_TASK_def upt_rec)

lemma fork_current: "current fork_state = 1" "procs fork_state 1 = user_proc" "fork_size user_proc = 199168"
  "phys (pmap user_proc Map_D) = 0" "pid (procs fork_state 2) = 2" "procs fork_state (Suc 0) = user_proc"
  "owns_memory 1048576 {} 0 199168"
  by (simp_all add: fork_state_def fork_size_def user_proc_def owns_memory_def)

lemma user_proc_in_use: "flags user_proc AND P_IN_USE = 1"
  by (simp add: user_proc_def P_IN_USE_def)

section \<open>fork\<close>

text \<open>
  Property C6: \<open>do_fork\<close> with a free slot makes a child exactly when first fit finds a region of the size of the
  father's data and stack on the list of blocks. The child's memory is that region, with a copy of the father's bytes;
  no other byte changes, and the region meets no live one. The call returns the pid of the slot then, and the child is
  at the end of the ready queue with the father's saved registers, 0 as its result, and its own kernel stack. When
  first fit finds none, the call returns -1, and the queue, the heap and the memory are as before.
\<close>

theorem do_fork_makes_child:
  assumes "ready_rep s L" "heap lo hi s X" "hole_rep s is fs"
    and "get_free_proc_struct s = Some c" "user_task c" "c \<notin> set L" "c \<noteq> current s"
    and "n = fork_size (procs s (current s))" "n \<noteq> 0" "owns_memory lo X (phys (pmap (procs s (current s)) Map_D)) n"
  shows "case first_fit (fs \<noteq> []) n (blocks s is) of
      None \<Rightarrow> \<exists>s'. do_fork sy s = Some (Inr (- 1, s')) \<and> ready_rep s' L \<and> heap lo hi s' X \<and> fork_failed c s s'
    | Some (a, _) \<Rightarrow> \<exists>s'. do_fork sy s = Some (Inr (pid (procs s c), s')) \<and> ready_rep s' (L @ [c]) \<and> fork_child sy c a s s'
         \<and> heap lo hi s' (insert (a, n) X) \<and> (\<forall>r \<in> X. apart (a, n) r)"
  using do_fork_spec [OF assms, of sy] by (auto split: option.split)

text \<open>The block list of the machine, with memory and without.\<close>

lemma fork_blocks: "hole_rep fork_state [0] [1..<NR_HOLE]" "block_of fork_state 0 = (1048576, 1048577, STAT_FREE)"
  using warm_rep hole_rep_cong [of fork_state warm_kmem "[0]"] by (simp_all add: fork_state_def)

theorem do_fork_makes_child_witness:
  "\<exists>s'. do_fork no_symbols fork_state = Some (Inr (2, s')) \<and> ready_rep s' [1, 2] \<and> fork_child no_symbols 2 1048576 fork_state s'
     \<and> heap 1048576 2097153 s' {(1048576, 199168)}"
proof -
  have "user_task 2" "2 \<notin> set [1 :: nat]" by (simp_all add: user_task_def IDLE_TASK_def NR_TASK_def)
  moreover have "[1..<NR_HOLE] \<noteq> []" by (simp add: NR_HOLE_def)
  ultimately show ?thesis
    using do_fork_makes_child [OF fork_rep fork_heap fork_blocks(1) fork_free_slot, of 199168 no_symbols]
    by (auto simp: fork_current fork_blocks(2))
qed

text \<open>
  Property C33: a failed \<open>do_fork\<close> loses its slot. When the memory is too small for the copy, the call
  returns -1 and the slot it had chosen is marked in use, with the father's status, although no
  process is in it: it is not on the ready queue, and no call of \<open>get_free_proc_struct\<close> finds it as long as
  the flags of the slot stay what the failed call has left.
\<close>

theorem do_fork_leaks_slot:
  assumes "ready_rep s L" "heap lo hi s X"
    and "get_free_proc_struct s = Some c" "user_task c" "c \<notin> set L" "c \<noteq> current s"
    and "owns_memory lo X (phys (pmap (procs s (current s)) Map_D)) (fork_size (procs s (current s)))"
    and "hi - lo < unat (fork_size (procs s (current s)))" "flags (procs s (current s)) AND P_IN_USE \<noteq> 0"
  shows "\<exists>s'. do_fork sy s = Some (Inr (- 1, s')) \<and> ready_rep s' L \<and> c \<notin> set L
    \<and> flags (procs s' c) = flags (procs s (current s)) \<and> flags (procs s' c) AND P_IN_USE \<noteq> 0
    \<and> status (procs s' c) = status (procs s (current s))
    \<and> (\<forall>t :: 'a kstate_scheme. flags (procs t c) = flags (procs s' c) \<longrightarrow> get_free_proc_struct t \<noteq> Some c)"
proof -
  have n: "fork_size (procs s (current s)) \<noteq> 0" using assms(8) by auto
  obtain "is" fs where r: "hole_rep s is fs" using assms(2) by (rule heapE)
  have "first_fit (fs \<noteq> []) (fork_size (procs s (current s))) (blocks s is) = None"
    using heap_alloc_fit [OF assms(2) r n] assms(8) by (auto split: option.splits)
  then obtain s' where s': "do_fork sy s = Some (Inr (- 1, s'))" "ready_rep s' L" "fork_failed c s s'"
    using do_fork_spec [OF assms(1,2) r assms(3-6) refl n assms(7), of sy] by auto
  have f: "flags (procs s' c) = flags (procs s (current s))" "status (procs s' c) = status (procs s (current s))"
    using s'(3) by (simp_all add: fork_failed_def)
  have "get_free_proc_struct t \<noteq> Some c" if "flags (procs t c) = flags (procs s' c)" for t :: "'a kstate_scheme"
    using that f(1) assms(9) by (auto simp: get_free_proc_struct_def find_Some_iff)
  with s' f assms(5,9) show ?thesis by auto
qed

text \<open>The same machine with no extended memory.\<close>

definition small_state :: kstate where
  "small_state = fork_state\<lparr>mem_hole := mem_hole (mem_init_holes 0 cold_kmem),
     h_head := h_head (mem_init_holes 0 cold_kmem), slot_free := slot_free (mem_init_holes 0 cold_kmem)\<rparr>"

lemma small_heap: "heap 1048576 1048577 small_state {}"
  using mem_init_holes_heap [of 0 cold_kmem]
  by (subst heap_cong [of _ "mem_init_holes 0 cold_kmem"]) (simp_all add: small_state_def)

lemma small_sel: "procs small_state = procs fork_state" "current small_state = current fork_state"
  "ready_rep small_state [1]" "get_free_proc_struct small_state = Some 2"
proof -
  show p: "procs small_state = procs fork_state" "current small_state = current fork_state"
    by (simp_all add: small_state_def)
  show "get_free_proc_struct small_state = Some 2" using fork_free_slot p by (simp add: get_free_proc_struct_def)
  show "ready_rep small_state [1]"
    using fork_rep by (subst ready_rep_cong [of _ fork_state]) (simp_all add: small_state_def)
qed

theorem do_fork_leaks_slot_witness:
  "\<exists>s'. do_fork no_symbols small_state = Some (Inr (- 1, s')) \<and> flags (procs s' 2) = P_IN_USE \<and> get_free_proc_struct s' \<noteq> Some 2"
proof -
  have u: "user_task 2" "2 \<notin> set [1 :: nat]" "flags user_proc = P_IN_USE"
    by (simp_all add: user_task_def IDLE_TASK_def NR_TASK_def user_proc_def)
  obtain s' where "do_fork no_symbols small_state = Some (Inr (- 1, s'))" "flags (procs s' 2) = flags user_proc"
    "\<forall>t :: kstate. flags (procs t 2) = flags (procs s' 2) \<longrightarrow> get_free_proc_struct t \<noteq> Some 2"
    using do_fork_leaks_slot [OF small_sel(3) small_heap small_sel(4) u(1,2), of no_symbols]
    by (auto simp: fork_current small_sel user_proc_in_use)
  then show ?thesis using u(3) by auto
qed

section \<open>exit\<close>

text \<open>
  Property C27: \<open>do_exit\<close> of a process other than the first two frees its data block and its slot, takes
  it off the ready queue and runs the next process: the one that is first on the queue without it, after the head
  has gone to the end if the time of the process was over, or the idle task. The others stay in their order. It also
  clears the LDT selector of the slot.
\<close>

theorem do_exit_ends:
  assumes "ready_rep s L" "heap lo hi s X" "current s \<in> set L"
    and "pid (procs s (current s)) \<noteq> 0" "pid (procs s (current s)) \<noteq> 1"
    and "(phys (pmap (procs s (current s)) Map_D), z) \<in> X" "M = remove1 (current s) (if expired s then rotate1 L else L)"
  shows "\<exists>s'. do_exit sy e s = Some (Inr (- 1, s')) \<and> ready_rep s' M \<and> current s \<notin> set M
    \<and> set M = set L - {current s} \<and> current s' = (case M of [] \<Rightarrow> IDLE_TASK | p # _ \<Rightarrow> p)
    \<and> heap lo hi s' (X - {(phys (pmap (procs s (current s)) Map_D), z)})
    \<and> flags (procs s' (current s)) AND P_IN_USE = 0 \<and> ldt_selector (procs s' (current s)) = 0"
proof -
  have d: "distinct L" using assms(1) by (rule ready_rep_distinct)
  have m: "policy (expired s) True (current s) L = M" by (simp add: policy_def assms(7))
  have "set M = set L - {current s}" "current s \<notin> set M"
    using d by (simp_all add: assms(7))
  with do_exit_spec [OF assms(1-6), of sy e] show ?thesis unfolding m runs_next_def by blast
qed

text \<open>Process 3 runs in the block at 1 MB, 4 and 5 are ready behind it; its counter is \<open>n\<close>.\<close>

definition exit_state :: "int \<Rightarrow> kstate" where
  "exit_state n = fork_state\<lparr>mem_hole := mem_hole warm1_kmem, h_head := h_head warm1_kmem, slot_free := slot_free warm1_kmem,
     procs := (\<lambda>t. zero_proc\<lparr>pid := int t, flags := P_IN_USE, counter := n, p_next := (if t < 5 then Some (t + 1) else None),
       pmap := (\<lambda>_. \<lparr>vir = 0, phys = 1048576, map_size = 4096\<rparr>)\<rparr>),
     ready_head := Some 3, ready_tail := Some 5, current := 3\<rparr>"

lemma exit_heap: "heap 1048576 2097153 (exit_state n) {(1048576, 4096)}"
  using warm1_heap by (subst heap_cong [of _ warm1_kmem]) (simp_all add: exit_state_def)

lemma exit_rep: "ready_rep (exit_state n) [3, 4, 5]"
  by (simp add: ready_rep_def exit_state_def next_of_def zero_proc_def user_task_def IDLE_TASK_def NR_TASK_def)

theorem do_exit_ends_witness:
  "\<exists>s'. do_exit no_symbols 0 (exit_state 10) = Some (Inr (- 1, s')) \<and> ready_rep s' [4, 5] \<and> current s' = 4
     \<and> heap 1048576 2097153 s' {} \<and> ldt_selector (procs s' 3) = 0"
proof -
  have "current (exit_state 10) = 3" "pid (procs (exit_state 10) 3) = 3" "phys (pmap (procs (exit_state 10) 3) Map_D) = 1048576"
    "\<not> expired (exit_state 10)"
    by (simp_all add: exit_state_def expired_def)
  then show ?thesis
    using do_exit_ends [OF exit_rep exit_heap _ _ _ _ refl, of 10 4096 no_symbols 0] by fastforce
qed

end
