(* ===== verification/Boot.thy ===== *)
theory Boot
  imports Fork_Props
begin

text \<open>
  What the kernel sets up before the first process runs: \<open>prot_init\<close> of \<^verbatim>\<open>ker/protect.c\<close>, and what
  \<open>proc_init\<close> of \<^verbatim>\<open>ker/proc.c\<close> leaves.
\<close>

section \<open>prot_init\<close>

definition sizeof_gdt :: nat where "sizeof_gdt = GDT_SIZE * 8"
definition sizeof_idt :: nat where "sizeof_idt = IDT_SIZE * 8"

text \<open>The field \<open>ldt\<close> is at offset 6 of \<^verbatim>\<open>struct proc\<close>.\<close>

definition ldt_addr :: "symbols \<Rightarrow> nat \<Rightarrow> u32" where
  "ldt_addr sy t = proc_addr sy t + 6"

definition upd_gdt :: "nat \<Rightarrow> (segdesc \<Rightarrow> segdesc) \<Rightarrow> 'a kstate_scheme \<Rightarrow> 'a kstate_scheme res" where
  "upd_gdt i f s = res_bind (rd (gdt s) i) (\<lambda>d. res_bind (wr (gdt s) i (f d)) (\<lambda>g. Inr (s\<lparr>gdt := g\<rparr>)))"

text \<open>The loop that makes a descriptor for the LDT of each process.\<close>

fun prot_init_ldts :: "symbols \<Rightarrow> nat list \<Rightarrow> 'a kstate_scheme \<Rightarrow> 'a kstate_scheme res" where
  "prot_init_ldts sy [] s = Inr s"
| "prot_init_ldts sy (t # ts) s =
     res_bind (upd_gdt (FIRST_LDT_INDEX + t) (set_ldt_desc (ldt_addr sy t)) s) (\<lambda>s1.
     prot_init_ldts sy ts
       (upd_proc t (ldt_selector_update (\<lambda>_. ucast (seg_selector (of_nat (FIRST_LDT_INDEX + t)) 0 KERNEL_PRIV))) s1))"

definition prot_init :: "symbols \<Rightarrow> 'a kstate_scheme \<Rightarrow> 'a kstate_scheme res" where
  "prot_init sy s =
     res_bind (upd_gdt GDT_INDEX (set_desctableptr (sym_gdt sy) (of_nat (sizeof_gdt - 1))) s) (\<lambda>s1.
     res_bind (upd_gdt IDT_INDEX (set_desctableptr (sym_idt sy) (of_nat (sizeof_idt - 1))) s1) (\<lambda>s2.
     res_bind (upd_gdt CS_INDEX (init_codeseg 0 0xFFFFFFFF KERNEL_PRIV) s2) (\<lambda>s3.
     res_bind (upd_gdt DS_INDEX (init_dataseg 0 0xFFFFFFFF KERNEL_PRIV) s3) (\<lambda>s4.
     res_bind (prot_init_ldts sy [0..<NR_TASK] s4) (\<lambda>s5.
     res_bind (upd_gdt TSS_INDEX (set_tss_desc (sym_tss sy)) s5) (\<lambda>s6.
     let s7 = s6\<lparr>tss := (tss s6)\<lparr>tss_iobase := ucast sizeof_tss, tss_ss0 := DS_SELECTOR\<rparr>\<rparr> in
     res_bind (trap_init (sym_entry sy) (idt s7)) (\<lambda>i.
     Inr (s7\<lparr>idt := i, gdtr := table_ptr (gdt s7 ! GDT_INDEX), idtr := table_ptr (gdt s7 ! IDT_INDEX),
             tr := TSS_SELECTOR\<rparr>))))))))"

lemma upd_gdt_in: "i < length (gdt s) \<Longrightarrow> upd_gdt i f s = Inr (s\<lparr>gdt := (gdt s)[i := f (gdt s ! i)]\<rparr>)"
  by (simp add: upd_gdt_def)

lemma table_ptr_set: "table_ptr (set_desctableptr base limit d) = (base, limit)"
proof -
  have "ucast (ucast base :: u16) OR push_bit 16 (ucast (ucast (drop_bit 16 base) :: u8)) OR
      push_bit 24 (ucast (ucast (drop_bit 24 base) :: u8)) = base"
    using setseg_base [of base 0 undefined] by (simp add: seg_base_def setseg_def Let_def)
  then show ?thesis by (simp add: table_ptr_def set_desctableptr_def)
qed

text \<open>What the loop over the processes leaves.\<close>

lemma prot_init_ldts_spec:
  assumes "\<forall>t \<in> set ts. FIRST_LDT_INDEX + t < length (gdt s)" "distinct ts"
  shows "\<exists>s'. prot_init_ldts sy ts s = Inr s' \<and> length (gdt s') = length (gdt s) \<and> idt s' = idt s
    \<and> (\<forall>i. i \<notin> (+) FIRST_LDT_INDEX ` set ts \<longrightarrow> gdt s' ! i = gdt s ! i)
    \<and> (\<forall>t \<in> set ts. describes 0x02 0 (ldt_addr sy t) 24 (gdt s' ! (FIRST_LDT_INDEX + t))
        \<and> ldt_selector (procs s' t) = ucast (seg_selector (of_nat (FIRST_LDT_INDEX + t)) 0 KERNEL_PRIV))
    \<and> (\<forall>t. t \<notin> set ts \<longrightarrow> procs s' t = procs s t)"
  using assms
proof (induction ts arbitrary: s)
  case Nil
  then show ?case by simp
next
  case (Cons t ts)
  let ?i = "FIRST_LDT_INDEX + t"
  let ?s1 = "s\<lparr>gdt := (gdt s)[?i := set_ldt_desc (ldt_addr sy t) (gdt s ! ?i)]\<rparr>"
  let ?s2 = "upd_proc t (ldt_selector_update (\<lambda>_. ucast (seg_selector (of_nat ?i) 0 KERNEL_PRIV))) ?s1"
  have g2: "gdt ?s2 = (gdt s)[?i := set_ldt_desc (ldt_addr sy t) (gdt s ! ?i)]" "idt ?s2 = idt s"
    by (simp_all add: upd_proc_def)
  have "\<forall>t \<in> set ts. FIRST_LDT_INDEX + t < length (gdt ?s2)" "distinct ts"
    using Cons.prems g2 by simp_all
  from Cons.IH [OF this] obtain s' where s': "prot_init_ldts sy ts ?s2 = Inr s'"
      "length (gdt s') = length (gdt ?s2)" "idt s' = idt ?s2"
      "\<forall>i. i \<notin> (+) FIRST_LDT_INDEX ` set ts \<longrightarrow> gdt s' ! i = gdt ?s2 ! i"
      "\<forall>t \<in> set ts. describes 0x02 0 (ldt_addr sy t) 24 (gdt s' ! (FIRST_LDT_INDEX + t))
        \<and> ldt_selector (procs s' t) = ucast (seg_selector (of_nat (FIRST_LDT_INDEX + t)) 0 KERNEL_PRIV)"
      "\<forall>t. t \<notin> set ts \<longrightarrow> procs s' t = procs ?s2 t" by blast
  have run: "prot_init_ldts sy (t # ts) s = Inr s'"
    using Cons.prems s'(1) by (simp add: upd_gdt_in)
  have t: "t \<notin> set ts" "?i \<notin> (+) FIRST_LDT_INDEX ` set ts" using Cons.prems by auto
  have "gdt s' ! ?i = set_ldt_desc (ldt_addr sy t) (gdt s ! ?i)"
    using s'(4) t(2) Cons.prems g2 by simp
  moreover have "ldt_selector (procs s' t) = ucast (seg_selector (of_nat ?i) 0 KERNEL_PRIV)"
    using s'(6) t(1) by simp
  ultimately show ?case
    using run s' g2 init_describes(3) by (intro exI [of _ s']) auto
qed

lemma ldt_selector_value:
  assumes "t < NR_TASK"
  shows "unat (ucast (seg_selector (of_nat (FIRST_LDT_INDEX + t)) 0 KERNEL_PRIV) :: u16) = 8 * (6 + t)"
proof -
  from assms have "t = 0 \<or> t = 1 \<or> t = 2 \<or> t = 3 \<or> t = 4 \<or> t = 5 \<or> t = 6 \<or> t = 7 \<or> t = 8 \<or> t = 9"
    unfolding NR_TASK_def by arith
  then show ?thesis by (elim disjE) (simp_all add: seg_selector_def FIRST_LDT_INDEX_def KERNEL_PRIV_def)
qed

lemma upd_gdt_four:
  assumes "length (gdt s) = 16"
  shows "res_bind (upd_gdt GDT_INDEX p s) (\<lambda>s1. res_bind (upd_gdt IDT_INDEX i s1) (\<lambda>s2.
      res_bind (upd_gdt CS_INDEX c s2) (\<lambda>s3. res_bind (upd_gdt DS_INDEX d s3) f)))
    = f (s\<lparr>gdt := (gdt s)[GDT_INDEX := p (gdt s ! GDT_INDEX), IDT_INDEX := i (gdt s ! IDT_INDEX),
        CS_INDEX := c (gdt s ! CS_INDEX), DS_INDEX := d (gdt s ! DS_INDEX)]\<rparr>)"
  using assms by (simp add: upd_gdt_in GDT_INDEX_def IDT_INDEX_def CS_INDEX_def DS_INDEX_def)

text \<open>The four descriptors at the front and those of the processes behind them.\<close>

lemma prot_init_ldts_filled:
  assumes "length (gdt s) = 16"
  shows "\<exists>s5. prot_init_ldts sy [0..<NR_TASK] (s\<lparr>gdt := (gdt s)[GDT_INDEX := p, IDT_INDEX := i, CS_INDEX := c, DS_INDEX := d]\<rparr>) = Inr s5
    \<and> length (gdt s5) = 16 \<and> idt s5 = idt s \<and> gdt s5 ! GDT_INDEX = p \<and> gdt s5 ! IDT_INDEX = i \<and> gdt s5 ! CS_INDEX = c \<and> gdt s5 ! DS_INDEX = d
    \<and> (\<forall>t < NR_TASK. describes 0x02 0 (ldt_addr sy t) 24 (gdt s5 ! (FIRST_LDT_INDEX + t))
        \<and> ldt_selector (procs s5 t) = ucast (seg_selector (of_nat (FIRST_LDT_INDEX + t)) 0 KERNEL_PRIV))"
proof -
  let ?g = "(gdt s)[GDT_INDEX := p, IDT_INDEX := i, CS_INDEX := c, DS_INDEX := d]"
  have "\<forall>t \<in> set [0..<NR_TASK]. FIRST_LDT_INDEX + t < length (gdt (s\<lparr>gdt := ?g\<rparr>))" "distinct [0..<NR_TASK]"
    using assms by (simp_all add: table_consts)
  from prot_init_ldts_spec [OF this, of sy] obtain s5 where s5: "prot_init_ldts sy [0..<NR_TASK] (s\<lparr>gdt := ?g\<rparr>) = Inr s5"
      "length (gdt s5) = 16" "idt s5 = idt s" "\<forall>k. k \<notin> (+) FIRST_LDT_INDEX ` set [0..<NR_TASK] \<longrightarrow> gdt s5 ! k = ?g ! k"
      "\<forall>t \<in> set [0..<NR_TASK]. describes 0x02 0 (ldt_addr sy t) 24 (gdt s5 ! (FIRST_LDT_INDEX + t))
        \<and> ldt_selector (procs s5 t) = ucast (seg_selector (of_nat (FIRST_LDT_INDEX + t)) 0 KERNEL_PRIV)"
    using assms by auto
  have "gdt s5 ! GDT_INDEX = p" "gdt s5 ! IDT_INDEX = i" "gdt s5 ! CS_INDEX = c" "gdt s5 ! DS_INDEX = d"
    using s5(4) assms by (simp_all add: GDT_INDEX_def IDT_INDEX_def CS_INDEX_def DS_INDEX_def FIRST_LDT_INDEX_def image_iff)
  then show ?thesis using s5 by auto
qed

text \<open>
  Property C31: \<open>prot_init\<close> loads the two table registers with the addresses and limits of the tables it has filled, and
  the processor reads back from them: the flat kernel segments for code and data, present, of 32 bits and privilege 0; for
  each process a descriptor of its own LDT, at its own selector inside the table; the task state segment, whose stack
  segment is the kernel's; and the 37 gates, each with its kind, its entry point and its privilege: of these a user
  program may call the system call's alone.
\<close>

theorem prot_init_tables:
  assumes "length (gdt s) = GDT_SIZE" "length (idt s) = IDT_SIZE"
  shows "\<exists>s'. prot_init sy s = Inr s'
    \<and> gdtr s' = (sym_gdt sy, 127) \<and> idtr s' = (sym_idt sy, 559) \<and> tr s' = TSS_SELECTOR
    \<and> (\<forall>t < NR_TASK. unat (ldt_selector (procs s' t)) = 8 * (6 + t) \<and> 8 * (6 + t) + 7 \<le> 127
         \<and> describes 0x02 0 (ldt_addr sy t) 24 (gdt s' ! (6 + t)))
    \<and> describes 0x1A 0 0 0xFFFFFFFF (gdt s' ! CS_INDEX) \<and> describes 0x12 0 0 0xFFFFFFFF (gdt s' ! DS_INDEX)
    \<and> describes 0x09 0 (sym_tss sy) 104 (gdt s' ! TSS_INDEX) \<and> tss_ss0 (tss s') = DS_SELECTOR \<and> tss_iobase (tss s') = 104
    \<and> length (idt s') = IDT_SIZE \<and> gates_for (sym_entry sy) (idt s')"
proof -
  let ?P = "set_desctableptr (sym_gdt sy) (of_nat (sizeof_gdt - 1)) (gdt s ! GDT_INDEX)"
  let ?I = "set_desctableptr (sym_idt sy) (of_nat (sizeof_idt - 1)) (gdt s ! IDT_INDEX)"
  let ?C = "init_codeseg 0 0xFFFFFFFF KERNEL_PRIV (gdt s ! CS_INDEX)"
  let ?D = "init_dataseg 0 0xFFFFFFFF KERNEL_PRIV (gdt s ! DS_INDEX)"
  let ?s4 = "s\<lparr>gdt := (gdt s)[GDT_INDEX := ?P, IDT_INDEX := ?I, CS_INDEX := ?C, DS_INDEX := ?D]\<rparr>"
  note ix = GDT_INDEX_def IDT_INDEX_def CS_INDEX_def DS_INDEX_def TSS_INDEX_def
  have len: "length (gdt s) = 16" using assms(1) by (simp add: table_consts)
  from prot_init_ldts_filled [OF len, of sy ?P ?I ?C ?D] obtain s5 where s5: "prot_init_ldts sy [0..<NR_TASK] ?s4 = Inr s5"
      "length (gdt s5) = 16" "idt s5 = idt s" "gdt s5 ! GDT_INDEX = ?P" "gdt s5 ! IDT_INDEX = ?I" "gdt s5 ! CS_INDEX = ?C" "gdt s5 ! DS_INDEX = ?D"
      "\<And>t. t < NR_TASK \<Longrightarrow> describes 0x02 0 (ldt_addr sy t) 24 (gdt s5 ! (FIRST_LDT_INDEX + t))
        \<and> ldt_selector (procs s5 t) = ucast (seg_selector (of_nat (FIRST_LDT_INDEX + t)) 0 KERNEL_PRIV)" by blast
  let ?T = "set_tss_desc (sym_tss sy) (gdt s5 ! TSS_INDEX)" and ?e = "(tss s5)\<lparr>tss_iobase := ucast sizeof_tss, tss_ss0 := DS_SELECTOR\<rparr>"
  let ?g = "(gdt s5)[TSS_INDEX := ?T]"
  obtain i where i: "trap_init (sym_entry sy) (idt s) = Inr i" "length i = IDT_SIZE" "gates_for (sym_entry sy) i"
    using trap_init_gates [OF assms(2)] by blast
  let ?s' = "s5\<lparr>gdt := ?g, tss := ?e, idt := i, gdtr := table_ptr (?g ! GDT_INDEX), idtr := table_ptr (?g ! IDT_INDEX), tr := TSS_SELECTOR\<rparr>"
  have up: "upd_gdt TSS_INDEX (set_tss_desc (sym_tss sy)) s5 = Inr (s5\<lparr>gdt := ?g\<rparr>)"
    using s5(2) by (simp add: upd_gdt_in ix)
  have run: "prot_init sy s = Inr ?s'"
    unfolding prot_init_def upd_gdt_four [OF len] s5(1) res_bind_Inr up Let_def using i(1) s5(3) by simp
  have n5: "?g ! k = gdt s5 ! k" if "k \<noteq> TSS_INDEX" for k using that by simp
  have tb: "table_ptr (?g ! GDT_INDEX) = (sym_gdt sy, 127)" "table_ptr (?g ! IDT_INDEX) = (sym_idt sy, 559)"
    using n5 [of GDT_INDEX] n5 [of IDT_INDEX] s5(4,5)
    by (simp_all add: table_ptr_set sizeof_gdt_def sizeof_idt_def table_consts IDT_SIZE_def ix)
  have cs: "?g ! CS_INDEX = ?C" "?g ! DS_INDEX = ?D" "?g ! TSS_INDEX = ?T"
    using n5 [of CS_INDEX] n5 [of DS_INDEX] s5(2,6,7) by (simp_all add: ix)
  have sel: "unat (ldt_selector (procs ?s' t)) = 8 * (6 + t) \<and> 8 * (6 + t) + 7 \<le> 127
         \<and> describes 0x02 0 (ldt_addr sy t) 24 (gdt ?s' ! (6 + t))" if t: "t < NR_TASK" for t
    using s5(8) [OF t] ldt_selector_value [OF t] n5 [of "6 + t"] t by (simp add: TSS_INDEX_def FIRST_LDT_INDEX_def NR_TASK_def)
  have flat: "describes 0x1A 0 0 0xFFFFFFFF ?C" "describes 0x12 0 0 0xFFFFFFFF ?D"
    using init_describes(1) [of 0 "0xFFFFFFFF"] init_describes(2) [of 0 "0xFFFFFFFF"] by simp_all
  show ?thesis
    by (rule exI [of _ ?s'], intro conjI allI impI)
      (use run tb i(2,3) cs flat init_describes(4) sel in \<open>simp_all add: sizeof_tss_def\<close>)
qed

theorem prot_init_tables_witness:
  "\<exists>s'. prot_init no_symbols boot_state = Inr s' \<and> gdtr s' = (0x40000, 127) \<and> idtr s' = (0x41000, 559)"
  using prot_init_tables [of boot_state no_symbols] by (auto simp: boot_state_def no_symbols_def)

section \<open>proc_init\<close>

definition booted :: "'a kstate_scheme \<Rightarrow> nat \<Rightarrow> bool" where
  "booted s t \<longleftrightarrow> flags (procs s t) = P_IN_USE \<and> status (procs s t) = TASK_RUNNING
     \<and> counter (procs s t) = 10 \<and> pid (procs s t) = int t"

lemma alloc_segments_booted:
  "booted (alloc_segments c s) t = booted s t"
  "flags (procs (alloc_segments c s) i) = flags (procs s i)"
  by (simp_all add: alloc_segments_def Let_def booted_def)

lemma queue_frame_booted: "queue_frame s s' \<Longrightarrow> booted s' t = booted s t"
  by (auto simp: queue_frame_def booted_def)

text \<open>All that \<open>proc_init\<close> changes, and the context in which a new process starts.\<close>

definition proc_frame :: "'a kstate_scheme \<Rightarrow> 'a kstate_scheme \<Rightarrow> bool" where
  "proc_frame s s' \<longleftrightarrow> (\<exists>p k h l c e. s' = s\<lparr>procs := p, kstack := k, ready_head := h, ready_tail := l, current := c, tss := e\<rparr>)"

definition starts :: "symbols \<Rightarrow> 'a kstate_scheme \<Rightarrow> nat \<Rightarrow> bool" where
  "starts sy s t \<longleftrightarrow> pthread (procs s t) = \<lparr>th_esp0 = GET_PROC_KSTACK sy t + sizeof_stackframe,
     th_eip = sym_ret_with_schedule sy, th_esp = GET_PROC_KSTACK sy t\<rparr>"

lemma proc_frameI:
  "s' = s\<lparr>procs := procs s', kstack := kstack s', ready_head := ready_head s', ready_tail := ready_tail s', current := current s',
    tss := tss s'\<rparr> \<Longrightarrow> proc_frame s s'"
  unfolding proc_frame_def by blast

lemma proc_frame_trans: "proc_frame s t \<Longrightarrow> proc_frame t u \<Longrightarrow> proc_frame s u"
  unfolding proc_frame_def by (elim exE) (intro proc_frameI [unfolded proc_frame_def]; simp)

lemma proc_frame_upd:
  "proc_frame s (upd_proc t f s)" "proc_frame s (upd_kstack t g s)" "proc_frame s (s\<lparr>current := c\<rparr>)"
  "proc_frame s (s\<lparr>ready_head := h, ready_tail := l\<rparr>)" "proc_frame s (s\<lparr>tss := e\<rparr>)"
  by (rule proc_frameI; simp add: upd_proc_def upd_kstack_def)+

lemma queue_frame_proc: "queue_frame s s' \<Longrightarrow> proc_frame s s'"
  unfolding queue_frame_def by (elim exE) (rule proc_frameI; simp)

lemma queue_frame_starts: "queue_frame s s' \<Longrightarrow> starts sy s' t = starts sy s t"
  by (auto simp: queue_frame_def starts_def)

lemma proc_frame_fold: "proc_frame s (fold (\<lambda>t. upd_proc t (f t)) ts s)"
proof (induction ts arbitrary: s)
  case Nil
  then show ?case by (simp add: proc_frameI)
next
  case (Cons t ts)
  show ?case using proc_frame_trans [OF proc_frame_upd(1) Cons.IH] by simp
qed

lemma proc_init_task_spec:
  assumes rep: "ready_rep s L" and t: "t \<notin> set L" "t < 2" and f: "flags (procs s t) = 0"
  shows "\<exists>s'. proc_init_task sy t b s = Inr s' \<and> ready_rep s' (if t = 0 then L else L @ [t])
    \<and> booted s' t \<and> (\<forall>i. i \<noteq> t \<longrightarrow> flags (procs s' i) = flags (procs s i) \<and> (booted s i \<longrightarrow> booted s' i))
    \<and> current s' = current s \<and> proc_frame s s' \<and> starts sy s' t \<and> (\<forall>i. i \<noteq> t \<and> starts sy s i \<longrightarrow> starts sy s' i)"
proof -
  obtain eip sz where tt: "tasktab sy ! t = (eip, sz)" by (cases "tasktab sy ! t")
  let ?s1 = "proc_fd_init t (proc_thread_init sy t s)"
  let ?s2 = "upd_kstack t (r_eip_update (\<lambda>_. eip)) ?s1"
  let ?s3 = "upd_proc t (\<lambda>r. r\<lparr>pmap := (\<lambda>i. case i of
                  Map_T \<Rightarrow> (pmap r Map_T)\<lparr>phys := 0, vir := 0, map_size := 0x20000\<rparr>
                | Map_D \<Rightarrow> (pmap r Map_D)\<lparr>phys := 0, vir := 0, map_size := b + sz\<rparr>
                | Map_S \<Rightarrow> (pmap r Map_S)\<lparr>phys := 0, vir := b, map_size := sz\<rparr>)\<rparr>) ?s2"
  let ?s4 = "upd_kstack t (\<lambda>r. r\<lparr>r_esp := b + sz, r_psw := FLAGS_IF\<rparr>) ?s3"
  let ?s5 = "upd_proc t (\<lambda>r. r\<lparr>pid := int t, flags := flags r OR P_IN_USE, counter := 10,
                  need_resched := 0, status := TASK_RUNNING\<rparr>) ?s4"
  let ?s6 = "alloc_segments t ?s5"
  have run: "proc_init_task sy t b s = proc_ready (Some t) ?s6"
    by (simp add: proc_init_task_def tt Let_def)
  obtain d where seg: "?s6 = upd_kstack t user_segs (upd_proc t (ldt_update (\<lambda>_. d)) ?s5)"
    using alloc_segments_procs by blast
  have rep6: "ready_rep ?s6 L"
    unfolding seg using rep t(1) by (simp add: ready_rep_outside proc_fd_init_def proc_thread_init_def)
  have b6: "booted ?s6 t"
    unfolding alloc_segments_booted(1) using f by (simp add: booted_def proc_fd_init_def proc_thread_init_def)
  have o6: "flags (procs ?s6 i) = flags (procs s i)" "booted s i \<longrightarrow> booted ?s6 i" if "i \<noteq> t" for i
    using that by (auto simp: alloc_segments_booted) (auto simp: booted_def proc_fd_init_def proc_thread_init_def)
  have c6: "current ?s6 = current s"
    by (simp add: alloc_segments_sel proc_fd_init_def proc_thread_init_def)
  have p6: "proc_frame s ?s6"
    unfolding seg by (rule proc_frameI) (simp add: upd_proc_def upd_kstack_def proc_fd_init_def proc_thread_init_def)
  have st6: "starts sy ?s6 t" "\<forall>i. i \<noteq> t \<and> starts sy s i \<longrightarrow> starts sy ?s6 i"
    unfolding seg by (auto simp: starts_def proc_fd_init_def proc_thread_init_def)
  show ?thesis
  proof (cases "t = 0")
    case True
    then have "proc_ready (Some t) ?s6 = Inr ?s6" by (simp add: proc_ready_def IDLE_TASK_def)
    then show ?thesis using True run rep6 b6 o6 c6 p6 st6 by (intro exI [of _ ?s6]) auto
  next
    case False
    then have "user_task t" using t(2) by (simp add: user_task_def IDLE_TASK_def NR_TASK_def)
    then obtain s' where s': "proc_ready (Some t) ?s6 = Inr s'" "ready_rep s' (L @ [t])" "queue_frame ?s6 s'"
      using proc_ready_new [OF rep6 _ t(1)] by blast
    show ?thesis
      using False run s' b6 o6 c6 st6 queue_frame_sel [OF s'(3)] queue_frame_booted [OF s'(3)] queue_frame_starts [OF s'(3)]
        proc_frame_trans [OF p6 queue_frame_proc [OF s'(3)]]
      by (intro exI [of _ s']) auto
  qed
qed

lemma clear_table:
  "procs (fold (\<lambda>t. upd_proc t (\<lambda>r. r\<lparr>pid := int t, flags := 0\<rparr>)) [0..<n] s) i =
     (if i < n then (procs s i)\<lparr>pid := int i, flags := 0\<rparr> else procs s i)"
  "ready_head (fold (\<lambda>t. upd_proc t (\<lambda>r. r\<lparr>pid := int t, flags := 0\<rparr>)) [0..<n] s) = ready_head s"
  by (induction n) auto

lemma proc_init_spec:
  "\<exists>s'. proc_init sy s = Inr s' \<and> ready_rep s' [1] \<and> current s' = IDLE_TASK
    \<and> need_resched (procs s' IDLE_TASK) = 1 \<and> get_free_proc_struct s' = Some 2
    \<and> proc_frame s s' \<and> starts sy s' IDLE_TASK \<and> starts sy s' 1"
proof -
  let ?s1 = "s\<lparr>ready_head := None, ready_tail := None\<rparr>"
  let ?s2 = "fold (\<lambda>t. upd_proc t (\<lambda>r. r\<lparr>pid := int t, flags := 0\<rparr>)) [0..<NR_TASK] ?s1"
  have f2: "flags (procs ?s2 i) = 0" if "i < NR_TASK" for i using that by (simp add: clear_table)
  have "ready_rep ?s2 []" by (simp add: ready_rep_def clear_table)
  then obtain s3 where s3: "proc_init_task sy 0 (sym_userstack sy) ?s2 = Inr s3" "ready_rep s3 []" "booted s3 0"
      "\<forall>i. i \<noteq> 0 \<longrightarrow> flags (procs s3 i) = flags (procs ?s2 i)"
      "proc_frame ?s2 s3" "starts sy s3 0"
    using proc_init_task_spec [of ?s2 "[]" 0 sy "sym_userstack sy"] f2 [of 0] by (auto simp: NR_TASK_def)
  have f3: "flags (procs s3 1) = 0" using s3(4) f2 [of 1] by (simp add: NR_TASK_def)
  obtain s4 where s4: "proc_init_task sy 1 (sym_userstack sy + snd (tasktab sy ! 0)) s3 = Inr s4" "ready_rep s4 [1]"
      "booted s4 1" "booted s4 0" "\<forall>i. i \<noteq> 1 \<longrightarrow> flags (procs s4 i) = flags (procs s3 i)"
      "proc_frame s3 s4" "starts sy s4 0" "starts sy s4 1"
    using proc_init_task_spec [OF s3(2), of 1 sy "sym_userstack sy + snd (tasktab sy ! 0)"] f3 s3(3,6) by auto
  let ?s5 = "s4\<lparr>current := IDLE_TASK\<rparr>"
  let ?s6 = "?s5\<lparr>tss := (tss ?s5)\<lparr>tss_esp0 := th_esp0 (pthread (procs ?s5 (current ?s5)))\<rparr>\<rparr>"
  let ?s7 = "upd_proc (current ?s6) (need_resched_update (\<lambda>_. 1)) ?s6"
  have run: "proc_init sy s = Inr ?s7"
    unfolding proc_init_def Let_def s3(1) res_bind_Inr s4(1) ..
  have rep: "ready_rep ?s7 [1]" using s4(2) ready_rep_cong [of ?s6 s4 "[1]"] by simp
  have f4: "flags (procs s4 0) = 1" "flags (procs s4 (Suc 0)) = 1" "flags (procs s4 2) = 0"
    using s4(3,4) s3(4) s4(5) f2 [of 2] by (simp_all add: booted_def P_IN_USE_def NR_TASK_def)
  have "[0..<NR_TASK] = 0 # 1 # 2 # [3..<10]" by (simp add: NR_TASK_def upt_rec)
  then have "get_free_proc_struct ?s7 = Some 2"
    using f4 by (simp add: get_free_proc_struct_def P_IN_USE_def IDLE_TASK_def)
  moreover have "proc_frame s ?s7"
    by (rule proc_frame_trans [OF proc_frame_upd(4) proc_frame_trans [OF proc_frame_fold proc_frame_trans [OF s3(5)
        proc_frame_trans [OF s4(6) proc_frame_trans [OF proc_frame_upd(3) proc_frame_trans [OF proc_frame_upd(5) proc_frame_upd(1)]]]]]])
  moreover have "starts sy ?s7 0" "starts sy ?s7 1" using s4(7,8) by (simp_all add: starts_def IDLE_TASK_def)
  ultimately show ?thesis using run rep by (intro exI [of _ ?s7]) (simp add: upd_proc_def IDLE_TASK_def)
qed

lemma first_schedule:
  assumes "ready_rep s [1]" "current s = IDLE_TASK"
  shows "\<exists>s'. schedule sy s = Some (Inr s') \<and> current s' = 1 \<and> ready_rep s' [1]"
proof -
  have "\<not> blocked s (current s)" using assms(2) by (simp add: blocked_def)
  moreover from this have "policy (expired s) (blocked s (current s)) (current s) [1] = [1]" by (simp add: policy_def)
  ultimately show ?thesis using schedule_spec [OF assms(1), of sy] by auto
qed

text \<open>
  \<open>proc_init\<close> makes exactly two processes, the idle task, which is current and has to be
  rescheduled, and process 1, which is alone on the ready queue; the first call of \<open>schedule\<close> runs it.
  Slot 2 is the first free one.
\<close>

theorem proc_init_boots:
  "\<exists>s'. proc_init sy s = Inr s' \<and> ready_rep s' [1] \<and> current s' = IDLE_TASK
    \<and> need_resched (procs s' IDLE_TASK) = 1 \<and> get_free_proc_struct s' = Some 2
    \<and> (\<exists>s''. schedule sy s' = Some (Inr s'') \<and> current s'' = 1)"
  using proc_init_spec [of sy s] first_schedule by blast

end
