(* ===== verification/Copies.thy ===== *)
theory Copies
  imports Sysops
begin

text \<open>
  Facts about the block copies and fills of \<^verbatim>\<open>include/system.h\<close> that the drivers and the file system
  share: what a block of memory holds after a copy from above it, or a fill, and addresses within a
  block that does not wrap around.
\<close>

text \<open>The \<open>n\<close> bytes from an address.\<close>

definition block_at :: "memory \<Rightarrow> u32 \<Rightarrow> nat \<Rightarrow> u8 list" where
  "block_at m a n = map (\<lambda>i. m (a + of_nat i)) [0..<n]"

lemma length_block_at [simp]: "length (block_at m a n) = n"
  by (simp add: block_at_def)

lemma nth_block_at [simp]: "i < n \<Longrightarrow> block_at m a n ! i = m (a + of_nat i)"
  by (simp add: block_at_def)

lemma block_at_0 [simp]: "block_at m a 0 = []" by (simp add: block_at_def)

lemma block_at_add: "block_at m a (k + n) = block_at m a k @ block_at m (a + of_nat k) n"
  by (rule nth_equalityI) (auto simp: nth_append algebra_simps of_nat_diff)

text \<open>Numbers in memory, low byte first.\<close>

definition u16_at :: "memory \<Rightarrow> u32 \<Rightarrow> u16" where
  "u16_at m a = ucast (m a) OR push_bit 8 (ucast (m (a + 1)))"

definition u32_at :: "memory \<Rightarrow> u32 \<Rightarrow> u32" where
  "u32_at m a = ucast (u16_at m a) OR push_bit 16 (ucast (u16_at m (a + 2)))"

text \<open>Addresses of one block are different as long as it is smaller than the address space.\<close>

lemma of_nat_eq_u32: "i < 2 ^ 32 \<Longrightarrow> j < 2 ^ 32 \<Longrightarrow> (of_nat i :: u32) = of_nat j \<longleftrightarrow> i = j"
  by (simp add: word_unat_eq_iff unat_of_nat)

lemma addr_eq [simp]: "(a + of_nat i :: u32) = a + of_nat j \<longleftrightarrow> (of_nat i :: u32) = of_nat j"
  by simp

lemma block_at_upd:
  assumes "j < n" "n \<le> 2 ^ 32"
  shows "block_at (m(a + of_nat j := v)) a n = (block_at m a n)[j := v]"
  using assms by (intro nth_equalityI) (auto simp: nth_list_update of_nat_eq_u32)

lemma block_at_upd_outside:
  assumes "\<forall>i < n. b \<noteq> a + of_nat i"
  shows "block_at (m(b := v)) a n = block_at m a n"
  using assms by (intro nth_equalityI) auto

text \<open>A copy downwards sees only bytes that it has not written, even when the blocks overlap.\<close>

lemma rep_movsb_down:
  assumes "unat from + n < 2 ^ 32" "unat to \<le> unat from" "i < n"
  shows "rep_movsb n from to m (to + of_nat i) = m (from + of_nat i)"
  using assms
proof (induction n arbitrary: "from" to m i)
  case 0
  then show ?case by simp
next
  case (Suc n)
  have f: "unat (from + 1) = unat from + 1" and t: "unat (to + 1) = unat to + 1"
    using unat_add_small [of "from" 1] unat_add_small [of to 1] Suc.prems by simp_all
  show ?case
  proof (cases i)
    case 0
    with Suc.prems t show ?thesis by (simp add: rep_movsb_outside)
  next
    case (Suc j)
    then have "rep_movsb n (from + 1) (to + 1) (m(to := m from)) (to + 1 + of_nat j)
        = (m(to := m from)) (from + 1 + of_nat j)"
      using Suc.IH [of "from + 1" "to + 1" j] Suc.prems f t by simp
    moreover have "from + 1 + of_nat j \<noteq> to"
    proof
      assume "from + 1 + of_nat j = to"
      then have "unat to = unat from + 1 + j"
        using unat_add_small [of "from + 1" j] f Suc.prems Suc by simp
      then show False using Suc.prems Suc by auto
    qed
    ultimately show ?thesis using Suc by (simp add: add.assoc)
  qed
qed

lemma block_at_movsb_down:
  assumes "unat from + n < 2 ^ 32" "unat to \<le> unat from"
  shows "block_at (rep_movsb n from to m) to n = block_at m from n"
  using assms by (intro nth_equalityI) (simp_all add: rep_movsb_down)

lemma block_at_movsb:
  assumes "unat from + n < 2 ^ 32" "unat to + n < 2 ^ 32"
    and "unat to + n \<le> unat from \<or> unat from + n \<le> unat to"
  shows "block_at (rep_movsb n from to m) to n = block_at m from n"
  using assms by (intro nth_equalityI) (simp_all add: rep_movsb_copies)

lemma block_at_outside:
  assumes "\<And>i. i < n \<Longrightarrow> m' (a + of_nat i) = m (a + of_nat i)"
  shows "block_at m' a n = block_at m a n"
  using assms by (intro nth_equalityI) simp_all

lemma block_at_movsb_outside:
  assumes "unat to + n < 2 ^ 32" "unat a + k < 2 ^ 32" "unat a + k \<le> unat to \<or> unat to + n \<le> unat a"
  shows "block_at (rep_movsb n from to m) a k = block_at m a k"
proof (rule block_at_outside)
  fix i
  assume "i < k"
  then have "unat (a + of_nat i) = unat a + i" using assms(2) by (intro unat_add_small) simp
  with assms \<open>i < k\<close> show "rep_movsb n from to m (a + of_nat i) = m (a + of_nat i)"
    by (intro rep_movsb_outside) auto
qed

section \<open>Fills\<close>

lemma rep_stosb_outside:
  assumes "unat dest + n < 2 ^ 32" "unat a < unat dest \<or> unat dest + n \<le> unat a"
  shows "rep_stosb n v dest m a = m a"
  using assms
proof (induction n arbitrary: dest m)
  case 0
  then show ?case by simp
next
  case (Suc n)
  have "unat (dest + 1) = unat dest + 1" using unat_add_small [of dest 1] Suc.prems by simp
  with Suc show ?case by auto
qed

lemma rep_stosb_fills:
  assumes "unat dest + n < 2 ^ 32" "i < n"
  shows "rep_stosb n v dest m (dest + of_nat i) = v"
  using assms
proof (induction n arbitrary: dest m i)
  case 0
  then show ?case by simp
next
  case (Suc n)
  have d: "unat (dest + 1) = unat dest + 1" using unat_add_small [of dest 1] Suc.prems by simp
  show ?case
  proof (cases i)
    case 0
    with Suc.prems d show ?thesis by (simp add: rep_stosb_outside)
  next
    case (Suc j)
    with Suc.IH [of "dest + 1" j] Suc.prems d show ?thesis by (simp add: add.assoc)
  qed
qed

lemma block_at_stosb:
  "unat dest + n < 2 ^ 32 \<Longrightarrow> block_at (rep_stosb n v dest m) dest n = replicate n v"
  by (intro nth_equalityI) (simp_all add: rep_stosb_fills)

lemma block_at_stosb_outside:
  assumes "unat dest + n < 2 ^ 32" "unat a + k < 2 ^ 32" "unat a + k \<le> unat dest \<or> unat dest + n \<le> unat a"
  shows "block_at (rep_stosb n v dest m) a k = block_at m a k"
proof (rule block_at_outside)
  fix i
  assume "i < k"
  then have "unat (a + of_nat i) = unat a + i" using assms(2) by (intro unat_add_small) simp
  with assms \<open>i < k\<close> show "rep_stosb n v dest m (a + of_nat i) = m (a + of_nat i)"
    by (intro rep_stosb_outside) auto
qed

end
