(* ===== verification/Vsprintf.thy ===== *)
theory Vsprintf
  imports Sysops
begin

text \<open>
  Formatting: \<^verbatim>\<open>ker/vsprintf.c\<close>. A buffer is the list of the bytes of its array, a pointer into it
  an index, and a string the bytes from where the pointer points to the end of its object. The
  first half is the code; the second half says which text a format and its arguments stand for,
  and shows that the code produces it.
\<close>

section \<open>The code\<close>

definition atoi :: "u32 \<Rightarrow> u8" where
  "atoi d = ucast (d + 48)"

definition atoihex :: "u32 \<Rightarrow> u8" where
  "atoihex d = (if sint d \<le> 9 then ucast (48 + d) else ucast (97 + d - 10))"

function dec_loop :: "nat \<Rightarrow> nat \<Rightarrow> u32 \<Rightarrow> u8 list \<Rightarrow> (nat \<times> u8 list) res" where
  "dec_loop s i d b =
     (if 1 \<le> d then res_bind (wr b (s + i) (atoi (d mod 10))) (dec_loop s (i + 1) (d div 10))
      else Inr (i, b))"
  by pat_completeness auto
termination
  by (relation "measure (\<lambda>(s, i, d, b). unat d)")
    (auto simp: unat_div word_le_nat_alt intro!: div_less_dividend)

function hex_loop :: "nat \<Rightarrow> nat \<Rightarrow> u32 \<Rightarrow> u8 list \<Rightarrow> (nat \<times> u8 list) res" where
  "hex_loop s i d b =
     (if 1 \<le> d then res_bind (wr b (s + i) (atoihex (d AND 0xf))) (hex_loop s (i + 1) (drop_bit 4 d))
      else Inr (i, b))"
  by pat_completeness auto
termination
  by (relation "measure (\<lambda>(s, i, d, b). unat d)")
    (auto simp: unat_drop_bit_eq drop_bit_eq_div unat_div word_le_nat_alt intro!: div_less_dividend)

declare dec_loop.simps [simp del] hex_loop.simps [simp del]

text \<open>The reversal in place of the bytes \<open>s[0]\<close> to \<open>s[i]\<close>; the middle byte is swapped with itself.\<close>

function rev_loop :: "nat \<Rightarrow> nat \<Rightarrow> nat \<Rightarrow> u8 list \<Rightarrow> u8 list res" where
  "rev_loop s i j b =
     (if j \<le> i div 2 then
        res_bind (rd b (s + (i - j))) (\<lambda>tmp.
        res_bind (rd b (s + j)) (\<lambda>v.
        res_bind (wr b (s + (i - j)) v) (\<lambda>b1.
        res_bind (wr b1 (s + j) tmp) (rev_loop s i (j + 1)))))
      else Inr b)"
  by pat_completeness auto
termination
  by (relation "measure (\<lambda>(s, i, j, b). Suc (i div 2) - j)") auto

declare rev_loop.simps [simp del]

definition int_to_str :: "nat \<Rightarrow> u32 \<Rightarrow> u8 list \<Rightarrow> (nat \<times> u8 list) res" where
  "int_to_str s d b =
     (if d = 0 then res_bind (wr b s 48) (\<lambda>b1. res_bind (wr b1 (s + 1) 0) (\<lambda>b2. Inr (s + 1, b2)))
      else res_bind (dec_loop s 0 d b) (\<lambda>(n, b1).
        let i = n - 1 in res_bind (rev_loop s i 0 b1) (\<lambda>b2. Inr (s + i + 1, b2))))"

definition int_to_hexstr :: "nat \<Rightarrow> u32 \<Rightarrow> u8 list \<Rightarrow> (nat \<times> u8 list) res" where
  "int_to_hexstr s d b =
     (if d = 0 then res_bind (wr b s 48) (\<lambda>b1. res_bind (wr b1 (s + 1) 0) (\<lambda>b2. Inr (s + 1, b2)))
      else res_bind (hex_loop s 0 d b) (\<lambda>(n, b1).
        let i = n - 1 in res_bind (rev_loop s i 0 b1) (\<lambda>b2. Inr (s + i + 1, b2))))"

text \<open>An argument behind the format, as \<open>va_arg\<close> reads it.\<close>

datatype va_arg = Va_word u32 | Va_str "u8 list"

fun va_word :: "va_arg list \<Rightarrow> (u32 \<times> va_arg list) res" where
  "va_word (Va_word w # as) = Inr (w, as)"
| "va_word _ = Inl Bad_vararg"

fun va_str :: "va_arg list \<Rightarrow> (u8 list \<times> va_arg list) res" where
  "va_str (Va_str t # as) = Inr (t, as)"
| "va_str _ = Inl Bad_vararg"

text \<open>The copy loop of \<^verbatim>\<open>case 's'\<close>.\<close>

primrec str_loop :: "u8 list \<Rightarrow> nat \<Rightarrow> u8 list \<Rightarrow> (nat \<times> u8 list) res" where
  "str_loop [] str b = Inl Out_of_bounds"
| "str_loop (t # ts) str b =
     (if t = 0 then Inr (str, b) else res_bind (wr b str t) (str_loop ts (str + 1)))"

text \<open>One directive: the character behind \<^verbatim>\<open>%\<close>. An unknown one prints nothing.\<close>

definition directive ::
    "u8 \<Rightarrow> nat \<Rightarrow> va_arg list \<Rightarrow> u8 list \<Rightarrow> (nat \<times> va_arg list \<times> u8 list) res" where
  "directive k str as b =
     (if k = of_char (CHR ''c'') then
        res_bind (va_word as) (\<lambda>(w, as1). res_bind (wr b str (ucast (w AND 0xff))) (\<lambda>b1. Inr (str + 1, as1, b1)))
      else if k = of_char (CHR ''d'') then
        res_bind (va_word as) (\<lambda>(w, as1). res_bind (int_to_str str w b) (\<lambda>(str1, b1). Inr (str1, as1, b1)))
      else if k = of_char (CHR ''x'') then
        res_bind (va_word as) (\<lambda>(w, as1). res_bind (int_to_hexstr str w b) (\<lambda>(str1, b1). Inr (str1, as1, b1)))
      else if k = of_char (CHR ''s'') then
        res_bind (va_str as) (\<lambda>(t, as1). res_bind (str_loop t str b) (\<lambda>(str1, b1). Inr (str1, as1, b1)))
      else Inr (str, as, b))"

text \<open>
  The loop over the format. After a \<^verbatim>\<open>%\<close> the pointer steps to the next character and, when the
  directive is done, over it, whatever it is: a NUL there does not end the loop.
\<close>

fun vs_loop :: "u8 list \<Rightarrow> nat \<Rightarrow> va_arg list \<Rightarrow> u8 list \<Rightarrow> u8 list res" where
  "vs_loop [] str as b = Inl Out_of_bounds"
| "vs_loop (c # fmt) str as b =
     (if c = 0 then wr b str 0
      else if c \<noteq> of_char (CHR ''%'') then res_bind (wr b str c) (vs_loop fmt (str + 1) as)
      else case fmt of
        [] \<Rightarrow> Inl Out_of_bounds
      | k # fmt1 \<Rightarrow> res_bind (directive k str as b) (\<lambda>(str1, as1, b1). vs_loop fmt1 str1 as1 b1))"

definition vsprintf :: "u8 list \<Rightarrow> u8 list \<Rightarrow> va_arg list \<Rightarrow> u8 list res" where
  "vsprintf buf fmt as = vs_loop fmt 0 as buf"

section \<open>The text of a number\<close>

text \<open>The digits of a number, the last first, and the number that digits stand for.\<close>

fun rdigits :: "nat \<Rightarrow> nat \<Rightarrow> nat list" where
  "rdigits base n = (if n = 0 \<or> base < 2 then [] else n mod base # rdigits base (n div base))"

declare rdigits.simps [simp del]

definition digit_value :: "nat \<Rightarrow> nat list \<Rightarrow> nat" where
  "digit_value base ds = foldl (\<lambda>a d. a * base + d) 0 ds"

definition number :: "nat \<Rightarrow> nat \<Rightarrow> nat list" where
  "number base n = (if n = 0 then [0] else rev (rdigits base n))"

lemma rdigits_0 [simp]: "rdigits base 0 = []" by (simp add: rdigits.simps)

lemma rdigits_step: "0 < n \<Longrightarrow> 1 < base \<Longrightarrow> rdigits base n = n mod base # rdigits base (n div base)"
  by (subst rdigits.simps) simp

lemma digit_value_snoc [simp]: "digit_value base (ds @ [d]) = digit_value base ds * base + d"
  by (simp add: digit_value_def)

lemma number_value: "1 < base \<Longrightarrow> digit_value base (number base n) = n"
proof -
  assume b: "1 < base"
  have "digit_value base (rev (rdigits base n)) = n" for n
  proof (induction n rule: less_induct)
    case (less n)
    show ?case
    proof (cases "n = 0")
      case True
      then show ?thesis by (simp add: digit_value_def)
    next
      case False
      then have "n div base < n" using b by simp
      with less False b show ?thesis by (simp add: rdigits_step)
    qed
  qed
  then show ?thesis by (simp add: number_def digit_value_def)
qed

lemma number_digits: "1 < base \<Longrightarrow> d \<in> set (number base n) \<Longrightarrow> d < base"
proof -
  assume b: "1 < base"
  have "\<forall>d \<in> set (rdigits base n). d < base" for n
  proof (induction n rule: less_induct)
    case (less n)
    show ?case
    proof (cases "n = 0")
      case False
      then have "n div base < n" using b by simp
      then have "\<forall>d \<in> set (rdigits base (n div base)). d < base" by (rule less.IH)
      moreover have "n mod base < base" using b by simp
      moreover have "rdigits base n = n mod base # rdigits base (n div base)"
        using False b by (intro rdigits_step) simp_all
      ultimately show ?thesis by (metis set_ConsD)
    qed simp
  qed
  from this [of n] b have "\<forall>d \<in> set (number base n). d < base" by (simp add: number_def)
  then show "d \<in> set (number base n) \<Longrightarrow> d < base" by blast
qed

lemma number_leading: "1 < base \<Longrightarrow> 0 < n \<Longrightarrow> hd (number base n) \<noteq> 0"
proof -
  assume b: "1 < base"
  have "0 < n \<longrightarrow> rdigits base n \<noteq> [] \<and> last (rdigits base n) \<noteq> 0" for n
  proof (induction n rule: less_induct)
    case (less n)
    show ?case
    proof (cases "n div base = 0")
      case True
      then show ?thesis using b by (auto simp: rdigits_step div_eq_0_iff)
    next
      case False
      then have n: "0 < n" by (auto intro: gr0I)
      then have "n div base < n" using b by (simp add: div_less_dividend)
      from less.IH [OF this] False n b show ?thesis by (simp add: rdigits_step)
    qed
  qed
  moreover assume "0 < n"
  ultimately show ?thesis by (simp add: number_def hd_rev)
qed

text \<open>The bytes of the digits.\<close>

definition dec_bytes :: "u32 \<Rightarrow> u8 list" where
  "dec_bytes d = map (\<lambda>k. atoi (of_nat k)) (number 10 (unat d))"

definition hex_bytes :: "u32 \<Rightarrow> u8 list" where
  "hex_bytes d = map (\<lambda>k. atoihex (of_nat k)) (number 16 (unat d))"

section \<open>What the loops leave\<close>

text \<open>
  The loops write behind a prefix \<open>pre\<close> of the buffer, byte by byte, and fault when they come to its end.
\<close>

definition put_bytes :: "u8 list \<Rightarrow> u8 list \<Rightarrow> u8 list \<Rightarrow> (nat \<times> u8 list) res" where
  "put_bytes pre out post =
     (if length out \<le> length post then Inr (length pre + length out, pre @ out @ drop (length out) post)
      else Inl Out_of_bounds)"

lemma wr_put: "wr (pre @ post) (length pre) v = (case post of [] \<Rightarrow> Inl Out_of_bounds | _ # p \<Rightarrow> Inr (pre @ v # p))"
  by (cases post) (auto simp: wr_middle)

lemma dec_loop_put:
  "dec_loop (length pre) (length acc) d (pre @ acc @ post) =
     (let out = map (\<lambda>k. atoi (of_nat k)) (rdigits 10 (unat d)) in
      if length out \<le> length post then Inr (length acc + length out, pre @ acc @ out @ drop (length out) post)
      else Inl Out_of_bounds)"
proof (induction "unat d" arbitrary: d acc post rule: less_induct)
  case less
  show ?case
  proof (cases "d = 0")
    case True
    then show ?thesis by (subst dec_loop.simps) simp
  next
    case False
    then have pos: "0 < unat d" by (simp add: unat_gt_0)
    then have lt: "unat (d div 10) < unat d" by (simp add: unat_div)
    have out: "map (\<lambda>k. atoi (of_nat k)) (rdigits 10 (unat d)) =
        atoi (d mod 10) # map (\<lambda>k. atoi (of_nat k)) (rdigits 10 (unat (d div 10)))"
      using pos by (simp add: rdigits_step unat_div word_arith_nat_mod [of d 10])
    show ?thesis
    proof (cases post)
      case Nil
      with False pos out show ?thesis by (subst dec_loop.simps) (simp add: word_le_nat_alt)
    next
      case (Cons p ps)
      have "dec_loop (length pre) (length acc) d (pre @ acc @ post) =
          dec_loop (length pre) (length (acc @ [atoi (d mod 10)])) (d div 10) (pre @ (acc @ [atoi (d mod 10)]) @ ps)"
        using False pos wr_middle [of "pre @ acc" "length pre + length acc" p ps "atoi (d mod 10)"] Cons
        by (subst dec_loop.simps) (simp add: word_le_nat_alt)
      with less [OF lt, of "acc @ [atoi (d mod 10)]" ps] out Cons show ?thesis by (simp add: Let_def)
    qed
  qed
qed

lemma hex_loop_put:
  "hex_loop (length pre) (length acc) d (pre @ acc @ post) =
     (let out = map (\<lambda>k. atoihex (of_nat k)) (rdigits 16 (unat d)) in
      if length out \<le> length post then Inr (length acc + length out, pre @ acc @ out @ drop (length out) post)
      else Inl Out_of_bounds)"
proof (induction "unat d" arbitrary: d acc post rule: less_induct)
  case less
  show ?case
  proof (cases "d = 0")
    case True
    then show ?thesis by (subst hex_loop.simps) simp
  next
    case False
    then have pos: "0 < unat d" by (simp add: unat_gt_0)
    have dv: "drop_bit 4 d = d div 16" by (simp add: drop_bit_eq_div)
    have md: "d AND 0xf = d mod 16" using mask_eq_exp_minus_1 [of 4, where 'a = "32 word"] take_bit_eq_mask [of 4 d] by (simp add: take_bit_eq_mod)
    from pos have lt: "unat (d div 16) < unat d" by (simp add: unat_div)
    have out: "map (\<lambda>k. atoihex (of_nat k)) (rdigits 16 (unat d)) =
        atoihex (d mod 16) # map (\<lambda>k. atoihex (of_nat k)) (rdigits 16 (unat (d div 16)))"
      using pos by (simp add: rdigits_step unat_div word_arith_nat_mod [of d 16])
    show ?thesis
    proof (cases post)
      case Nil
      with False pos out show ?thesis by (subst hex_loop.simps) (simp add: word_le_nat_alt)
    next
      case (Cons p ps)
      have "hex_loop (length pre) (length acc) d (pre @ acc @ post) =
          hex_loop (length pre) (length (acc @ [atoihex (d mod 16)])) (d div 16) (pre @ (acc @ [atoihex (d mod 16)]) @ ps)"
        using False pos wr_middle [of "pre @ acc" "length pre + length acc" p ps "atoihex (d mod 16)"] Cons
        by (subst hex_loop.simps) (simp add: word_le_nat_alt dv md)
      with less [OF lt, of "acc @ [atoihex (d mod 16)]" ps] out Cons show ?thesis by (simp add: Let_def)
    qed
  qed
qed

text \<open>After \<open>j\<close> rounds the outer \<open>j\<close> bytes of each side are in place and the inner ones as they were.\<close>

lemma rev_loop_inner:
  assumes "length as = j" "length cs = j" "as @ ms @ cs \<noteq> []" "i = length (as @ ms @ cs) - 1"
  shows "rev_loop (length pre) i j (pre @ as @ ms @ cs @ post) = Inr (pre @ as @ rev ms @ cs @ post)"
  using assms
proof (induction "length ms" arbitrary: j as ms cs rule: less_induct)
  case less
  consider "ms = []" | x where "ms = [x]" | x ns y where "ms = x # ns @ [y]"
    by (metis append_butlast_last_id list.exhaust)
  then show ?case
  proof cases
    case 1
    with less.prems have "\<not> j \<le> i div 2" by (cases j) auto
    with 1 show ?thesis by (subst rev_loop.simps) simp
  next
    case 2
    with less.prems have i: "i = 2 * j" "i - j = j" "\<not> Suc j \<le> i div 2" "j \<le> i div 2" by auto
    have "rd (pre @ as @ x # cs @ post) (length pre + j) = Inr x"
      using rd_middle [of "pre @ as" "length pre + j" x "cs @ post"] less.prems(1) by simp
    moreover have "wr (pre @ as @ x # cs @ post) (length pre + j) x = Inr (pre @ as @ x # cs @ post)"
      using wr_middle [of "pre @ as" "length pre + j" x "cs @ post" x] less.prems(1) by simp
    ultimately have "rev_loop (length pre) i j (pre @ as @ ms @ cs @ post) =
        rev_loop (length pre) i (Suc j) (pre @ as @ ms @ cs @ post)"
      using 2 i by (subst rev_loop.simps) simp
    with 2 i show ?thesis by (subst (asm) rev_loop.simps [of _ _ "Suc j"]) simp
  next
    case 3
    let ?b = "pre @ as @ x # ns @ y # cs @ post"
    have i: "i - j = j + Suc (length ns)" "j \<le> i div 2" using 3 less.prems by auto
    have rds: "rd ?b (length pre + j) = Inr x" "rd ?b (length pre + (i - j)) = Inr y"
      using rd_middle [of "pre @ as" "length pre + j" x "ns @ y # cs @ post"]
        rd_middle [of "pre @ as @ x # ns" "length pre + (i - j)" y "cs @ post"] less.prems(1) i by simp_all
    have w1: "wr ?b (length pre + (i - j)) x = Inr (pre @ as @ x # ns @ x # cs @ post)"
      using wr_middle [of "pre @ as @ x # ns" "length pre + (i - j)" y "cs @ post" x] less.prems(1) i by simp
    have w2: "wr (pre @ as @ x # ns @ x # cs @ post) (length pre + j) y = Inr (pre @ (as @ [y]) @ ns @ (x # cs) @ post)"
      using wr_middle [of "pre @ as" "length pre + j" x "ns @ x # cs @ post" y] less.prems(1) by simp
    have "rev_loop (length pre) i j ?b = rev_loop (length pre) i (Suc j) (pre @ (as @ [y]) @ ns @ (x # cs) @ post)"
      using i(2) rds w1 w2 by (subst rev_loop.simps) simp
    also have "\<dots> = Inr (pre @ (as @ [y]) @ rev ns @ (x # cs) @ post)"
      using 3 less.prems by (intro less.hyps) auto
    finally show ?thesis using 3 by simp
  qed
qed

lemma rev_loop_rev:
  "xs \<noteq> [] \<Longrightarrow> rev_loop (length pre) (length xs - 1) 0 (pre @ xs @ post) = Inr (pre @ rev xs @ post)"
  using rev_loop_inner [of "[]" 0 "[]" xs "length xs - 1" pre post] by simp

text \<open>
  A number is written in one piece; the zero also writes a NUL behind it, which the next character
  or the end of the text covers.
\<close>

lemma number_bytes:
  "0 < n \<Longrightarrow> map f (number base n) = rev (map f (rdigits base n))"
  by (simp add: number_def rev_map)

lemma zero_put:
  "res_bind (wr (pre @ post) (length pre) 48) (\<lambda>b1. res_bind (wr b1 (length pre + 1) 0) (\<lambda>b2. Inr (length pre + 1, b2)))
   = (if 2 \<le> length post then Inr (length pre + 1, pre @ 48 # 0 # drop 2 post) else Inl Out_of_bounds)"
proof (cases post)
  case (Cons p ps)
  have "wr (pre @ 48 # ps) (length pre + 1) 0 = (case ps of [] \<Rightarrow> Inl Out_of_bounds | _ # qs \<Rightarrow> Inr (pre @ 48 # 0 # qs))"
    using wr_put [of "pre @ [48]" ps 0] by (simp split: list.splits)
  with Cons show ?thesis by (cases ps) (simp_all add: wr_put)
qed simp

lemma int_to_str_nonzero:
  assumes "d \<noteq> 0" "r \<noteq> []"
    and "dec_loop (length pre) 0 d (pre @ post) =
      (if length r \<le> length post then Inr (length r, pre @ r @ drop (length r) post) else Inl Out_of_bounds)"
  shows "int_to_str (length pre) d (pre @ post) = put_bytes pre (rev r) post"
proof (cases "length r \<le> length post")
  case True
  have "length pre + (length r - 1) + 1 = length pre + length r" using assms(2) by (cases r) auto
  moreover have "dec_loop (length pre) 0 d (pre @ post) = Inr (length r, pre @ r @ drop (length r) post)"
    using True assms(3) by simp
  ultimately show ?thesis
    using True assms(1) rev_loop_rev [OF assms(2), of pre "drop (length r) post"]
    unfolding put_bytes_def int_to_str_def by (simp only: if_False res_bind_Inr prod.case Let_def length_rev if_True)
next
  case False
  then have "dec_loop (length pre) 0 d (pre @ post) = Inl Out_of_bounds" using assms(3) by simp
  then show ?thesis using False assms(1) unfolding put_bytes_def int_to_str_def by simp
qed

lemma int_to_str_put:
  "int_to_str (length pre) d (pre @ post) =
     (if d = 0 then if 2 \<le> length post then Inr (length pre + 1, pre @ 48 # 0 # drop 2 post) else Inl Out_of_bounds
      else put_bytes pre (dec_bytes d) post)"
proof (cases "d = 0")
  case True
  then show ?thesis by (simp only: int_to_str_def zero_put simp_thms if_True)
next
  case False
  let ?r = "map (\<lambda>k. atoi (of_nat k)) (rdigits 10 (unat d))"
  have pos: "0 < unat d" using False by (simp add: unat_gt_0)
  then have "?r \<noteq> []" "rev ?r = dec_bytes d"
    by (simp add: rdigits_step) (simp add: dec_bytes_def number_bytes pos)
  moreover have "dec_loop (length pre) 0 d (pre @ post) =
      (if length ?r \<le> length post then Inr (length ?r, pre @ ?r @ drop (length ?r) post) else Inl Out_of_bounds)"
    using dec_loop_put [of pre "[]" d post] by (simp add: Let_def)
  ultimately have "int_to_str (length pre) d (pre @ post) = put_bytes pre (rev ?r) post"
    by (intro int_to_str_nonzero [OF False])
  with False \<open>rev ?r = _\<close> show ?thesis by simp
qed

lemma int_to_hexstr_nonzero:
  assumes "d \<noteq> 0" "r \<noteq> []"
    and "hex_loop (length pre) 0 d (pre @ post) =
      (if length r \<le> length post then Inr (length r, pre @ r @ drop (length r) post) else Inl Out_of_bounds)"
  shows "int_to_hexstr (length pre) d (pre @ post) = put_bytes pre (rev r) post"
proof (cases "length r \<le> length post")
  case True
  have "length pre + (length r - 1) + 1 = length pre + length r" using assms(2) by (cases r) auto
  moreover have "hex_loop (length pre) 0 d (pre @ post) = Inr (length r, pre @ r @ drop (length r) post)"
    using True assms(3) by simp
  ultimately show ?thesis
    using True assms(1) rev_loop_rev [OF assms(2), of pre "drop (length r) post"]
    unfolding put_bytes_def int_to_hexstr_def by (simp only: if_False res_bind_Inr prod.case Let_def length_rev if_True)
next
  case False
  then have "hex_loop (length pre) 0 d (pre @ post) = Inl Out_of_bounds" using assms(3) by simp
  then show ?thesis using False assms(1) unfolding put_bytes_def int_to_hexstr_def by simp
qed

lemma int_to_hexstr_put:
  "int_to_hexstr (length pre) d (pre @ post) =
     (if d = 0 then if 2 \<le> length post then Inr (length pre + 1, pre @ 48 # 0 # drop 2 post) else Inl Out_of_bounds
      else put_bytes pre (hex_bytes d) post)"
proof (cases "d = 0")
  case True
  then show ?thesis by (simp only: int_to_hexstr_def zero_put simp_thms if_True)
next
  case False
  let ?r = "map (\<lambda>k. atoihex (of_nat k)) (rdigits 16 (unat d))"
  have pos: "0 < unat d" using False by (simp add: unat_gt_0)
  then have "?r \<noteq> []" "rev ?r = hex_bytes d"
    by (simp add: rdigits_step) (simp add: hex_bytes_def number_bytes pos)
  moreover have "hex_loop (length pre) 0 d (pre @ post) =
      (if length ?r \<le> length post then Inr (length ?r, pre @ ?r @ drop (length ?r) post) else Inl Out_of_bounds)"
    using hex_loop_put [of pre "[]" d post] by (simp add: Let_def)
  ultimately have "int_to_hexstr (length pre) d (pre @ post) = put_bytes pre (rev ?r) post"
    by (intro int_to_hexstr_nonzero [OF False])
  with False \<open>rev ?r = _\<close> show ?thesis by simp
qed

lemma str_loop_put:
  "cstring t = Inr x \<Longrightarrow> str_loop t (length pre) (pre @ post) = put_bytes pre x post"
proof (induction t arbitrary: x pre post)
  case Nil
  then show ?case by simp
next
  case (Cons c cs)
  show ?case
  proof (cases "c = 0")
    case True
    with Cons.prems show ?thesis by (simp add: put_bytes_def)
  next
    case False
    then obtain y where y: "cstring cs = Inr y" "x = c # y" using Cons.prems by (auto simp: res_bind_eq_Inr)
    with False Cons.IH [OF y(1), of "pre @ [c]" "tl post"] show ?thesis
      by (cases post) (auto simp: put_bytes_def wr_put)
  qed
qed

section \<open>What a format stands for\<close>

text \<open>
  The text of a format without its NUL; none when it ends within a directive or an argument has the
  wrong type.
\<close>

definition item :: "u8 \<Rightarrow> va_arg list \<Rightarrow> (u8 list \<times> va_arg list) option" where
  "item k as =
     (if k = of_char (CHR ''c'') then (case as of Va_word w # as1 \<Rightarrow> Some ([ucast w], as1) | _ \<Rightarrow> None)
      else if k = of_char (CHR ''d'') then (case as of Va_word w # as1 \<Rightarrow> Some (dec_bytes w, as1) | _ \<Rightarrow> None)
      else if k = of_char (CHR ''x'') then (case as of Va_word w # as1 \<Rightarrow> Some (hex_bytes w, as1) | _ \<Rightarrow> None)
      else if k = of_char (CHR ''s'') then
        (case as of Va_str t # as1 \<Rightarrow> (case cstring t of Inr x \<Rightarrow> Some (x, as1) | Inl _ \<Rightarrow> None) | _ \<Rightarrow> None)
      else Some ([], as))"

fun render :: "u8 list \<Rightarrow> va_arg list \<Rightarrow> u8 list option" where
  "render [] as = Some []"
| "render (c # fmt) as =
     (if c \<noteq> of_char (CHR ''%'') then map_option (Cons c) (render fmt as)
      else case fmt of [] \<Rightarrow> None
      | k # fmt1 \<Rightarrow> (case item k as of None \<Rightarrow> None
          | Some (out, as1) \<Rightarrow> map_option (append out) (render fmt1 as1)))"

text \<open>
  What is left of the buffer behind a directive's text: as it was, but for the NUL that a zero puts
  into its next byte.
\<close>

definition after :: "u8 list \<Rightarrow> u8 list \<Rightarrow> u8 list \<Rightarrow> bool" where
  "after out post rest \<longleftrightarrow> length rest = length post - length out \<and> drop 1 rest = drop (Suc (length out)) post"

lemma byte_of_word: "(ucast (w AND 0xff) :: u8) = ucast (w :: u32)"
proof -
  have m: "(0xff :: u32) = mask 8" by (simp add: mask_eq_exp_minus_1)
  show ?thesis unfolding m by (intro bit_word_eqI) (simp add: bit_simps)
qed

lemma dec_bytes_0 [simp]: "dec_bytes 0 = [48]" by (simp add: dec_bytes_def number_def atoi_def)
lemma hex_bytes_0 [simp]: "hex_bytes 0 = [48]" by (simp add: hex_bytes_def number_def atoihex_def)

lemma after_put: "length out \<le> length post \<Longrightarrow> after out post (drop (length out) post)"
  by (simp add: after_def)

text \<open>A step that writes a text at \<open>str\<close>; at the very end of the buffer it may fault or not.\<close>

definition writes :: "(nat \<Rightarrow> u8 list \<Rightarrow> (nat \<times> 'a \<times> u8 list) res) \<Rightarrow> u8 list \<Rightarrow> 'a \<Rightarrow> bool" where
  "writes f out a \<longleftrightarrow> (\<forall>pre post.
     (length out < length post \<longrightarrow> (\<exists>rest. f (length pre) (pre @ post) = Inr (length pre + length out, a, pre @ out @ rest)
        \<and> after out post rest))
     \<and> (length post \<le> length out \<longrightarrow> f (length pre) (pre @ post) = Inl Out_of_bounds
        \<or> length post = length out \<and> f (length pre) (pre @ post) = Inr (length pre + length out, a, pre @ out)))"

lemma writes_put:
  assumes "\<And>pre post. f (length pre) (pre @ post) = put_bytes pre out post"
  shows "writes (\<lambda>str b. res_bind (f str b) (\<lambda>(str1, b1). Inr (str1, a, b1))) out a"
  unfolding writes_def assms by (auto simp: put_bytes_def after_put)

lemma writes_zero:
  assumes "\<And>pre post. f (length pre) (pre @ post) =
    (if 2 \<le> length post then Inr (length pre + 1, pre @ 48 # 0 # drop 2 post) else Inl Out_of_bounds)"
  shows "writes (\<lambda>str b. res_bind (f str b) (\<lambda>(str1, b1). Inr (str1, a, b1))) [48] a"
proof -
  have "after [48] post (0 # drop 2 post)" if "2 \<le> length post" for post
    using that by (cases post) (auto simp: after_def numeral_2_eq_2)
  then show ?thesis unfolding writes_def assms by auto
qed

lemma writes_dec: "writes (\<lambda>str b. res_bind (int_to_str str w b) (\<lambda>(str1, b1). Inr (str1, a, b1))) (dec_bytes w) a"
proof (cases "w = 0")
  case True
  then show ?thesis unfolding True dec_bytes_0 by (intro writes_zero) (simp add: int_to_str_put)
next
  case False
  then show ?thesis by (intro writes_put) (simp add: int_to_str_put)
qed

lemma writes_hex: "writes (\<lambda>str b. res_bind (int_to_hexstr str w b) (\<lambda>(str1, b1). Inr (str1, a, b1))) (hex_bytes w) a"
proof (cases "w = 0")
  case True
  then show ?thesis unfolding True hex_bytes_0 by (intro writes_zero) (simp add: int_to_hexstr_put)
next
  case False
  then show ?thesis by (intro writes_put) (simp add: int_to_hexstr_put)
qed

lemma writes_char: "writes (\<lambda>str b. res_bind (wr b str v) (\<lambda>b1. Inr (str + 1, a, b1))) [v] a"
  unfolding writes_def wr_put by (auto simp: after_def split: list.splits)

lemma writes_directive:
  assumes "item k as = Some (out, as1)"
  shows "writes (\<lambda>str b. directive k str as b) out as1"
proof -
  consider (c) w where "k = of_char (CHR ''c'')" "as = Va_word w # as1" "out = [ucast w]"
    | (d) w where "k = of_char (CHR ''d'')" "as = Va_word w # as1" "out = dec_bytes w"
    | (x) w where "k = of_char (CHR ''x'')" "as = Va_word w # as1" "out = hex_bytes w"
    | (s) t where "k = of_char (CHR ''s'')" "as = Va_str t # as1" "cstring t = Inr out"
    | (n) "k \<notin> {of_char (CHR ''c''), of_char (CHR ''d''), of_char (CHR ''x''), of_char (CHR ''s'')}" "out = []" "as1 = as"
    using assms by (auto simp: item_def split: if_splits list.splits va_arg.splits sum.splits)
  then show ?thesis
  proof cases
    case c
    then show ?thesis using writes_char [of "ucast w" as1] by (simp add: directive_def byte_of_word)
  next
    case d
    then show ?thesis using writes_dec [of w as1] by (simp add: directive_def)
  next
    case x
    then show ?thesis using writes_hex [of w as1] by (simp add: directive_def)
  next
    case s
    then show ?thesis using writes_put [of "str_loop t" out as1] by (simp add: directive_def str_loop_put)
  next
    case n
    then show ?thesis by (simp add: directive_def writes_def after_def)
  qed
qed

lemma wr_end: "length post = 0 \<Longrightarrow> wr (pre @ post) (length pre) v = Inl Out_of_bounds"
  by simp

lemma vs_loop_full:
  "render fmt as = Some out \<Longrightarrow> 0 \<notin> set fmt \<Longrightarrow> vs_loop (fmt @ 0 # r) (length b) as b = Inl Out_of_bounds"
proof (induction fmt as arbitrary: out b rule: render.induct)
  case (1 as)
  then show ?case by simp
next
  case (2 c fmt as)
  show ?case
  proof (cases "c = of_char (CHR ''%'')")
    case False
    with 2 show ?thesis by simp
  next
    case True
    then obtain k fmt1 out1 as1 out2 where fmt: "fmt = k # fmt1" and it: "item k as = Some (out1, as1)"
      and r: "render fmt1 as1 = Some out2"
      using 2(3) by (auto split: list.splits option.splits)
    have "directive k (length b) as b = Inl Out_of_bounds \<or> directive k (length b) as b = Inr (length b, as1, b)"
      using writes_directive [OF it, unfolded writes_def, THEN spec, of b, THEN spec, of "[]"] by auto
    moreover have "vs_loop (fmt1 @ 0 # r) (length b) as1 b = Inl Out_of_bounds"
      using 2(2) [of k fmt1 "(out1, as1)" out1 as1] True fmt it r 2(4) by simp
    ultimately show ?thesis using True fmt 2(4) by auto
  qed
qed

lemma vs_loop_renders:
  "render fmt as = Some out \<Longrightarrow> 0 \<notin> set fmt \<Longrightarrow>
   vs_loop (fmt @ 0 # r) (length pre) as (pre @ post) =
     (if length out < length post then Inr (pre @ out @ 0 # drop (Suc (length out)) post) else Inl Out_of_bounds)"
proof (induction fmt as arbitrary: out pre post rule: render.induct)
  case (1 as)
  then show ?case by (cases post) (auto simp: wr_put)
next
  case (2 c fmt as)
  show ?case
  proof (cases "c = of_char (CHR ''%'')")
    case False
    then obtain out1 where o: "out = c # out1" "render fmt as = Some out1" using 2(3) by auto
    show ?thesis
    proof (cases post)
      case Nil
      with False 2(4) show ?thesis by simp
    next
      case (Cons p ps)
      with 2(1) [OF False o(2), of "pre @ [c]" ps] False 2(4) o(1) show ?thesis by (simp add: wr_put)
    qed
  next
    case True
    then obtain k fmt1 out1 as1 out2 where fmt: "fmt = k # fmt1" and it: "item k as = Some (out1, as1)"
      and r: "render fmt1 as1 = Some out2" and out: "out = out1 @ out2"
      using 2(3) by (auto split: list.splits option.splits)
    have step: "vs_loop ((c # fmt) @ 0 # r) (length pre) as (pre @ post) =
        res_bind (directive k (length pre) as (pre @ post)) (\<lambda>(str1, as1, b1). vs_loop (fmt1 @ 0 # r) str1 as1 b1)"
      using True fmt by simp
    have w: "writes (\<lambda>str b. directive k str as b) out1 as1" using it by (rule writes_directive)
    show ?thesis
    proof (cases "length out1 < length post")
      case True
      then obtain rest where d: "directive k (length pre) as (pre @ post) = Inr (length pre + length out1, as1, pre @ out1 @ rest)"
        and a: "after out1 post rest"
        using w unfolding writes_def by blast
      have "vs_loop (fmt1 @ 0 # r) (length (pre @ out1)) as1 ((pre @ out1) @ rest) =
          (if length out2 < length rest then Inr ((pre @ out1) @ out2 @ 0 # drop (Suc (length out2)) rest) else Inl Out_of_bounds)"
        using 2(2) [of k fmt1 "(out1, as1)" out1 as1 out2 "pre @ out1" rest] \<open>c = _\<close> fmt it r 2(4) by simp
      moreover have "drop (Suc (length out2)) rest = drop (Suc (length out)) post"
        using a out drop_drop [of "length out2" 1 rest] drop_drop [of "length out2" "Suc (length out1)" post]
        by (simp add: after_def add.commute)
      moreover have "length out2 < length rest \<longleftrightarrow> length out < length post"
        using a out True by (auto simp: after_def)
      ultimately show ?thesis using step d out by simp
    next
      case False
      then have "directive k (length pre) as (pre @ post) = Inl Out_of_bounds \<or> length post = length out1 \<and>
          directive k (length pre) as (pre @ post) = Inr (length (pre @ out1), as1, pre @ out1)"
        using w unfolding writes_def by auto
      moreover have "vs_loop (fmt1 @ 0 # r) (length (pre @ out1)) as1 (pre @ out1) = Inl Out_of_bounds"
        using 2(4) fmt by (intro vs_loop_full [OF r]) simp
      ultimately show ?thesis using step out False by auto
    qed
  qed
qed

lemma vs_loop_trailing:
  "render fmt as = Some out \<Longrightarrow> 0 \<notin> set fmt \<Longrightarrow>
   vs_loop (fmt @ [of_char (CHR ''%''), 0]) (length pre) as (pre @ post) = Inl Out_of_bounds"
proof (induction fmt as arbitrary: out pre post rule: render.induct)
  case (1 as)
  then show ?case by (simp add: directive_def)
next
  case (2 c fmt as)
  show ?case
  proof (cases "c = of_char (CHR ''%'')")
    case False
    then obtain out1 where o: "render fmt as = Some out1" using 2(3) by auto
    with 2(1) [OF False o, of "pre @ [c]"] False 2(4) show ?thesis by (cases post) (simp_all add: wr_put)
  next
    case True
    then obtain k fmt1 out1 as1 out2 where fmt: "fmt = k # fmt1" and it: "item k as = Some (out1, as1)"
      and r: "render fmt1 as1 = Some out2"
      using 2(3) by (auto split: list.splits option.splits)
    have "directive k (length pre) as (pre @ post) = Inl Out_of_bounds \<or>
        (\<exists>rest. directive k (length pre) as (pre @ post) = Inr (length (pre @ out1), as1, (pre @ out1) @ rest))"
      using writes_directive [OF it, unfolded writes_def, THEN spec, of pre, THEN spec, of post]
      by (cases "length out1 < length post") auto
    moreover have "vs_loop (fmt1 @ [of_char (CHR ''%''), 0]) (length (pre @ out1)) as1 ((pre @ out1) @ rest) = Inl Out_of_bounds"
      for rest
      using 2(2) [of k fmt1 "(out1, as1)" out1 as1 out2 "pre @ out1" rest] True fmt it r 2(4) by simp
    ultimately show ?thesis using True fmt by auto
  qed
qed

lemma number_length: "2 \<le> base \<Longrightarrow> n < base ^ k \<Longrightarrow> 0 < k \<Longrightarrow> length (number base n) \<le> k"
proof -
  have "2 \<le> base \<Longrightarrow> n < base ^ k \<Longrightarrow> length (rdigits base n) \<le> k" for n k
  proof (induction k arbitrary: n)
    case 0
    then show ?case by simp
  next
    case (Suc k)
    then have "length (rdigits base (n div base)) \<le> k"
      by (intro Suc.IH) (simp_all add: less_mult_imp_div_less mult.commute)
    then show ?case using Suc.prems by (cases "n = 0") (simp_all add: rdigits_step)
  qed
  then show "2 \<le> base \<Longrightarrow> n < base ^ k \<Longrightarrow> 0 < k \<Longrightarrow> length (number base n) \<le> k" by (simp add: number_def)
qed

lemma dec_bytes_length: "length (dec_bytes w) \<le> 10"
proof -
  have "unat w < 2 ^ 32" using unsigned_less [of w] by simp
  then have "unat w < 10 ^ 10" by simp
  then show ?thesis unfolding dec_bytes_def length_map by (intro number_length) simp_all
qed

lemma hex_bytes_length: "length (hex_bytes w) \<le> 8"
proof -
  have "unat w < 2 ^ 32" using unsigned_less [of w] by simp
  then have "unat w < 16 ^ 8" by simp
  then show ?thesis unfolding hex_bytes_def length_map by (intro number_length) simp_all
qed

text \<open>
  Property C24: \<open>vsprintf\<close> writes exactly the text that the format stands for, and a NUL, and leaves
  the rest of the buffer alone; it has no bound, so that a text which does not fit with its NUL runs
  over the end of the buffer.
\<close>

theorem vsprintf_renders:
  assumes "render fmt as = Some out" "0 \<notin> set fmt"
  shows "vsprintf buf (fmt @ 0 # r) as =
    (if length out < length buf then Inr (out @ 0 # drop (Suc (length out)) buf) else Inl Out_of_bounds)"
  using vs_loop_renders [OF assms, of r "[]" buf] by (simp add: vsprintf_def)

text \<open>A format and its bytes.\<close>

definition bytes :: "string \<Rightarrow> u8 list" where
  "bytes = map of_char"

theorem vsprintf_renders_witness:
  "vsprintf (replicate 7 0) (bytes ''%d=%x'' @ 0 # []) [Va_word 255, Va_word 255] = Inr (bytes ''255=ff'' @ [0])"
proof -
  have "dec_bytes 255 = bytes ''255''" "hex_bytes 255 = bytes ''ff''"
    by (simp_all add: dec_bytes_def hex_bytes_def number_def rdigits_step atoi_def atoihex_def bytes_def of_char_def)
  then have "render (bytes ''%d=%x'') [Va_word 255, Va_word 255] = Some (bytes ''255=ff'')"
    by (simp add: bytes_def item_def of_char_def)
  moreover have "0 \<notin> set (bytes ''%d=%x'')" by (simp add: bytes_def of_char_def)
  ultimately have "vsprintf (replicate 7 0) (bytes ''%d=%x'' @ 0 # []) [Va_word 255, Va_word 255]
      = (if length (bytes ''255=ff'') < length (replicate 7 (0 :: u8))
         then Inr (bytes ''255=ff'' @ 0 # drop (Suc (length (bytes ''255=ff''))) (replicate 7 0)) else Inl Out_of_bounds)"
    by (rule vsprintf_renders)
  then show ?thesis by (simp add: bytes_def)
qed

text \<open>
  The decimal text of any number fits into ten bytes, is a positional numeral without
  leading zeros, and reading it back gives the number.
\<close>

theorem int_to_str_roundtrip:
  "\<exists>ds b'. int_to_str 0 d (replicate 10 0) = Inr (length ds, b') \<and> take (length ds) b' = map (\<lambda>k. 48 + of_nat k) ds
     \<and> list_all (\<lambda>k. k < 10) ds \<and> digit_value 10 ds = unat d \<and> (0 < hd ds \<or> ds = [0])"
proof -
  let ?ds = "number 10 (unat d)"
  have "unat d < 2 ^ 32" using unsigned_less [of d] by simp
  then have "unat d < 10 ^ 10" by simp
  then have len: "length ?ds \<le> 10" by (intro number_length) simp_all
  have dec: "dec_bytes d = map (\<lambda>k. 48 + of_nat k) ?ds"
    unfolding dec_bytes_def
  proof (intro map_cong refl)
    fix k
    assume "k \<in> set ?ds"
    then have "k < 10" using number_digits [of 10 k "unat d"] by simp
    then have "k = 0 \<or> k = 1 \<or> k = 2 \<or> k = 3 \<or> k = 4 \<or> k = 5 \<or> k = 6 \<or> k = 7 \<or> k = 8 \<or> k = 9" by presburger
    then show "atoi (of_nat k) = 48 + of_nat k" by (elim disjE) (simp_all add: atoi_def)
  qed
  have "\<exists>b'. int_to_str 0 d (replicate 10 0) = Inr (length ?ds, b') \<and> take (length ?ds) b' = map (\<lambda>k. 48 + of_nat k) ?ds"
  proof (cases "d = 0")
    case True
    then show ?thesis using int_to_str_put [of "[]" 0 "replicate 10 0"] by (simp add: number_def)
  next
    case False
    have "length (dec_bytes d) = length ?ds" by (simp add: dec_bytes_def)
    then show ?thesis using int_to_str_put [of "[]" d "replicate 10 0"] False len
      by (intro exI [of _ "dec_bytes d @ drop (length ?ds) (replicate 10 0)"]) (simp add: put_bytes_def dec)
  qed
  moreover have "list_all (\<lambda>k. k < 10) ?ds" using number_digits [of 10] by (simp add: list_all_iff)
  moreover have "digit_value 10 ?ds = unat d" by (simp add: number_value)
  moreover have "0 < hd ?ds \<or> ?ds = [0]" using number_leading [of 10 "unat d"] by (cases "unat d = 0") (auto simp: number_def)
  ultimately show ?thesis by blast
qed

text \<open>
  a format that ends in \<^verbatim>\<open>%\<close> is read past its end: the NUL behind it is taken for a directive.
\<close>

theorem vsprintf_trailing_percent:
  assumes "render fmt as = Some out" "0 \<notin> set fmt"
  shows "vsprintf buf (fmt @ [of_char (CHR ''%''), 0]) as = Inl Out_of_bounds"
  using vs_loop_trailing [OF assms, of "[]" buf] by (simp add: vsprintf_def)

theorem vsprintf_trailing_percent_witness:
  "vsprintf (replicate 9 0) (bytes ''50'' @ [of_char (CHR ''%''), 0]) [] = Inl Out_of_bounds"
  by (rule vsprintf_trailing_percent [of _ _ "bytes ''50''"]) (simp_all add: bytes_def of_char_def)

end
