(* ===== verification/Console.thy ===== *)
theory Console
  imports Copies Vsprintf Sched_Props
begin

text \<open>
  The screen: \<^verbatim>\<open>ker/console.c\<close>. Text is two bytes a cell in the video memory at 0xb8000, 25 rows of 80.
  The first half is the code; the second half is a terminal as its user sees it, a grid of cells and a
  cursor, and shows that the code is one.
\<close>

section \<open>The code\<close>

definition STACK_SIZE :: nat where "STACK_SIZE = 100"
definition SYS_COLOR :: u8 where "SYS_COLOR = 0x7"
definition UDV_BASE :: u16 where "UDV_BASE = 0x3d4"

record console =
  c_start :: u32
  c_org :: u32
  c_limit :: u32
  c_cur :: u32
  c_row :: int
  c_col :: int

text \<open>The bytes sent to the ports of the video controller, the last first, are in \<open>crt_out\<close>.\<close>

record kcons = kstate +
  cons :: console
  crt_out :: "(u16 \<times> u8) list"

definition scr_init :: "'a kcons_scheme \<Rightarrow> 'a kcons_scheme" where
  "scr_init s = s\<lparr>cons := (cons s)\<lparr>c_col := 0, c_row := 0, c_start := 0xb8000, c_org := 0xb8000\<rparr>\<rparr>"

definition scroll_screen :: "console \<Rightarrow> 'a kcons_scheme \<Rightarrow> 'a kcons_scheme" where
  "scroll_screen con s =
     (let m = memcpy (c_org con + 80 * 2) (c_org con) (80 * 24 * 2) (ram s)
      in s\<lparr>ram := rep_stosb (80 * 2) 0 (c_org con + 80 * 24 * 2) m\<rparr>)"

definition char_out :: "console \<Rightarrow> u8 \<Rightarrow> u8 \<Rightarrow> 'a kcons_scheme \<Rightarrow> 'a kcons_scheme" where
  "char_out con c color s =
     (let a = c_org con + of_int (160 * c_row con) + of_int (c_col con * 2)
      in s\<lparr>ram := (ram s)(a := c, a + 1 := color)\<rparr>)"

definition outb_crt :: "u16 \<Rightarrow> u8 \<Rightarrow> 'a kcons_scheme \<Rightarrow> 'a kcons_scheme" where
  "outb_crt port v s = s\<lparr>crt_out := (port, v) # crt_out s\<rparr>"

definition set_cur :: "u32 \<Rightarrow> 'a kcons_scheme \<Rightarrow> 'a kcons_scheme" where
  "set_cur cur s =
     outb_crt (UDV_BASE + 1) (ucast (cur AND 0xff))
    (outb_crt UDV_BASE 15
    (outb_crt (UDV_BASE + 1) (ucast (drop_bit 8 cur AND 0xff))
    (outb_crt UDV_BASE 14 s)))"

definition scroll_check :: "'a kcons_scheme \<Rightarrow> 'a kcons_scheme" where
  "scroll_check s =
     (let s1 = (if 80 \<le> c_col (cons s) then s\<lparr>cons := (cons s)\<lparr>c_row := c_row (cons s) + 1, c_col := 0\<rparr>\<rparr> else s)
      in if 25 \<le> c_row (cons s1) then
           let s2 = scroll_screen (cons s1) s1 in s2\<lparr>cons := (cons s2)\<lparr>c_row := 24, c_col := 0\<rparr>\<rparr>
         else s1)"

fun cons_loop :: "u8 list \<Rightarrow> 'a kcons_scheme \<Rightarrow> 'a kcons_scheme res" where
  "cons_loop [] s = Inl Out_of_bounds"
| "cons_loop (c # str) s =
     (if c = 0 then Inr s
      else if c = 10 then
        cons_loop str (scroll_check (s\<lparr>cons := (cons s)\<lparr>c_row := c_row (cons s) + 1, c_col := 0\<rparr>\<rparr>))
      else
        let s1 = char_out (cons s) c SYS_COLOR s;
            s2 = s1\<lparr>cons := (cons s1)\<lparr>c_cur := of_int (c_row (cons s1) * 80 + c_col (cons s1))\<rparr>\<rparr>;
            s3 = set_cur (c_cur (cons s2)) s2;
            s4 = s3\<lparr>cons := (cons s3)\<lparr>c_col := c_col (cons s3) + 1\<rparr>\<rparr>
        in cons_loop str (scroll_check s4))"

definition cons_echo :: "u8 list option \<Rightarrow> 'a kcons_scheme \<Rightarrow> 'a kcons_scheme res" where
  "cons_echo str s =
     (case str of None \<Rightarrow> Inr s
      | Some t \<Rightarrow> (let (fl, s1) = lock_irq_save s in
          res_bind (cons_loop t s1) (\<lambda>s2. Inr (unlock_irq_restore fl s2))))"

text \<open>
  \<open>stk\<close> is what the array on the stack holds before \<open>vsprintf\<close> writes into it.
\<close>

definition printk :: "u8 list \<Rightarrow> u8 list \<Rightarrow> va_arg list \<Rightarrow> 'a kcons_scheme \<Rightarrow> 'a kcons_scheme res" where
  "printk stk fmt as s = res_bind (vsprintf stk fmt as) (\<lambda>buf. cons_echo (Some buf) s)"

fun text_loop :: "u8 list \<Rightarrow> u8 \<Rightarrow> console \<Rightarrow> 'a kcons_scheme \<Rightarrow> 'a kcons_scheme res" where
  "text_loop [] color con s = Inl Out_of_bounds"
| "text_loop (c # str) color con s =
     (if c = 0 then Inr s
      else text_loop str color (con\<lparr>c_col := c_col con + 1\<rparr>) (char_out con c color s))"

definition text_out ::
    "u8 list \<Rightarrow> int \<Rightarrow> int \<Rightarrow> u8 \<Rightarrow> u8 list \<Rightarrow> va_arg list \<Rightarrow> 'a kcons_scheme \<Rightarrow> 'a kcons_scheme res" where
  "text_out stk row col color fmt as s =
     (let con = \<lparr>c_start = 0xb8000, c_org = 0xb8000, c_limit = 0, c_cur = 0, c_row = row, c_col = col\<rparr>
      in res_bind (vsprintf stk fmt as) (\<lambda>buf. text_loop buf color con s))"

text \<open>\<^verbatim>\<open>ker/panic.c\<close>: the message, then an endless loop.\<close>

definition panic :: "u8 list \<Rightarrow> string \<Rightarrow> 'a kcons_scheme \<Rightarrow> 'a kcons_scheme res" where
  "panic stk msg s =
     res_bind (printk stk (bytes ''Kernel panic:%s'' @ [10, 0]) [Va_str (bytes msg @ [0])] s) (\<lambda>_. Inl (Panic msg))"

section \<open>The terminal\<close>

record terminal =
  t_cells :: "(u8 \<times> u8) list"
  t_row :: nat
  t_col :: nat

definition term_scroll :: "(u8 \<times> u8) list \<Rightarrow> (u8 \<times> u8) list" where
  "term_scroll cells = drop 80 cells @ replicate 80 (0, 0)"

definition term_fit :: "terminal \<Rightarrow> terminal" where
  "term_fit t =
     (let t1 = (if t_col t < 80 then t else t\<lparr>t_row := t_row t + 1, t_col := 0\<rparr>)
      in if t_row t1 < 25 then t1 else t1\<lparr>t_cells := term_scroll (t_cells t1), t_row := 24, t_col := 0\<rparr>)"

definition term_put :: "u8 \<Rightarrow> terminal \<Rightarrow> terminal" where
  "term_put c t = term_fit
     (if c = 10 then t\<lparr>t_row := t_row t + 1, t_col := 0\<rparr>
      else t\<lparr>t_cells := (t_cells t)[80 * t_row t + t_col t := (c, SYS_COLOR)], t_col := t_col t + 1\<rparr>)"

text \<open>What the screen shows, and the terminal of a kernel state.\<close>

definition screen_base :: u32 where "screen_base = 0xb8000"

definition screen :: "memory \<Rightarrow> (u8 \<times> u8) list" where
  "screen m = map (\<lambda>k. (m (screen_base + of_nat (2 * k)), m (screen_base + of_nat (2 * k + 1)))) [0..<2000]"

definition terminal_of :: "'a kcons_scheme \<Rightarrow> terminal" where
  "terminal_of s = \<lparr>t_cells = screen (ram s), t_row = nat (c_row (cons s)), t_col = nat (c_col (cons s))\<rparr>"

definition cons_ok :: "'a kcons_scheme \<Rightarrow> bool" where
  "cons_ok s \<longleftrightarrow> c_org (cons s) = screen_base
     \<and> 0 \<le> c_row (cons s) \<and> c_row (cons s) < 25 \<and> 0 \<le> c_col (cons s) \<and> c_col (cons s) < 80"

text \<open>An operation that changes nothing but the console, the video memory and the video ports.\<close>

definition on_screen :: "'a kcons_scheme \<Rightarrow> 'a kcons_scheme \<Rightarrow> bool" where
  "on_screen s s' \<longleftrightarrow> (\<exists>m con out. s' = s\<lparr>ram := m, cons := con, crt_out := out\<rparr>
     \<and> (\<forall>a. unat a < unat screen_base \<or> unat screen_base + 4000 \<le> unat a \<longrightarrow> m a = ram s a))"

lemma length_screen [simp]: "length (screen m) = 2000" by (simp add: screen_def)

lemma screen_blocks: "screen m = map (\<lambda>k. (block_at m screen_base 4000 ! (2 * k), block_at m screen_base 4000 ! (2 * k + 1))) [0..<2000]"
  unfolding screen_def by (intro map_cong refl) (auto simp del: of_nat_add of_nat_mult of_nat_Suc)

lemma unat_screen_base: "unat screen_base = 753664" by (simp add: screen_base_def)

lemma screen_upd:
  assumes "j < 2000"
  shows "screen (m(screen_base + of_nat (2 * j) := c, screen_base + of_nat (2 * j + 1) := k)) = (screen m)[j := (c, k)]"
proof (rule nth_equalityI)
  fix i
  assume "i < length (screen (m(screen_base + of_nat (2 * j) := c, screen_base + of_nat (2 * j + 1) := k)))"
  then have i: "i < 2000" by simp
  have eq: "(of_nat a :: u32) = of_nat b \<longleftrightarrow> a = b" if "a < 4000" "b < 4000" for a b
    using that by (intro of_nat_eq_u32) simp_all
  have "(of_nat (2 * i) :: u32) = of_nat (2 * j) \<longleftrightarrow> 2 * i = 2 * j"
    "(of_nat (2 * i + 1) :: u32) = of_nat (2 * j + 1) \<longleftrightarrow> 2 * i + 1 = 2 * j + 1"
    "(of_nat (2 * i + 1) :: u32) = of_nat (2 * j) \<longleftrightarrow> 2 * i + 1 = 2 * j"
    "(of_nat (2 * i) :: u32) = of_nat (2 * j + 1) \<longleftrightarrow> 2 * i = 2 * j + 1"
    by (rule eq; use i assms in linarith)+
  moreover have "2 * i + 1 \<noteq> 2 * j" "2 * i \<noteq> 2 * j + 1" by presburger+
  ultimately show "screen (m(screen_base + of_nat (2 * j) := c, screen_base + of_nat (2 * j + 1) := k)) ! i
      = (screen m)[j := (c, k)] ! i"
    using i by (simp add: screen_def nth_list_update del: of_nat_add of_nat_mult of_nat_Suc)
qed simp

lemma screen_scroll:
  "screen (ram (scroll_screen con s)) = term_scroll (screen (ram s))" if "c_org con = screen_base"
proof -
  let ?m = "memcpy (screen_base + 80 * 2) screen_base (80 * 24 * 2) (ram s)"
  have m: "?m = rep_movsb 3840 (screen_base + 160) screen_base (ram s)" by (simp add: memcpy_def)
  have a: "block_at ?m screen_base 3840 = block_at (ram s) (screen_base + 160) 3840"
    unfolding m by (intro block_at_movsb_down) (simp_all add: screen_base_def)
  let ?n = "rep_stosb 160 0 (screen_base + 3840) ?m"
  have n: "ram (scroll_screen con s) = ?n" using that by (simp add: scroll_screen_def)
  have "block_at ?n screen_base 3840 = block_at ?m screen_base 3840"
    by (intro block_at_stosb_outside) (simp_all add: screen_base_def)
  moreover have "block_at ?n (screen_base + 3840) 160 = replicate 160 0"
    by (intro block_at_stosb) (simp add: screen_base_def)
  ultimately have "block_at ?n screen_base 4000 = drop 160 (block_at (ram s) screen_base 4000) @ replicate 160 0"
    using a block_at_add [of ?n screen_base 3840 160] block_at_add [of "ram s" screen_base 160 3840] by simp
  then show ?thesis unfolding n screen_blocks [of ?n] term_scroll_def
    by (intro nth_equalityI) (auto simp: screen_blocks nth_append simp del: nth_block_at)
qed

section \<open>The code is a terminal\<close>

lemma on_screen_refl: "on_screen s s"
  unfolding on_screen_def by (intro exI [of _ "ram s"] exI [of _ "cons s"] exI [of _ "crt_out s"]) simp

lemma on_screen_trans: "on_screen s t \<Longrightarrow> on_screen t u \<Longrightarrow> on_screen s u"
  unfolding on_screen_def by (elim exE conjE) (intro exI conjI; simp)

lemma on_screen_ief: "on_screen s s' \<Longrightarrow> ief s' = ief s"
  by (auto simp: on_screen_def)

lemma on_screen_ram: "on_screen s s' \<Longrightarrow> unat a < unat screen_base \<or> unat screen_base + 4000 \<le> unat a \<Longrightarrow> ram s' a = ram s a"
  by (auto simp: on_screen_def)

lemma on_screen_cons: "on_screen s (s\<lparr>cons := con\<rparr>)"
  unfolding on_screen_def by (intro exI [of _ "ram s"] exI [of _ con] exI [of _ "crt_out s"]) simp

lemma on_screen_crt: "on_screen s (s\<lparr>crt_out := p\<rparr>)"
  unfolding on_screen_def by (intro exI [of _ "ram s"] exI [of _ "cons s"] exI [of _ p]) simp

lemma on_screen_memory:
  assumes "\<And>a. unat a < unat screen_base \<or> unat screen_base + 4000 \<le> unat a \<Longrightarrow> m a = ram s a"
  shows "on_screen s (s\<lparr>ram := m\<rparr>)"
  unfolding on_screen_def using assms by (intro exI [of _ m] exI [of _ "cons s"] exI [of _ "crt_out s"]) simp

lemma cell_addr:
  assumes "c_org con = screen_base" "0 \<le> c_row con" "0 \<le> c_col con"
  shows "c_org con + of_int (160 * c_row con) + of_int (c_col con * 2)
    = screen_base + of_nat (2 * (80 * nat (c_row con) + nat (c_col con)))"
proof -
  have "(of_nat (nat (c_row con)) :: u32) = of_int (c_row con)" "(of_nat (nat (c_col con)) :: u32) = of_int (c_col con)"
    using assms by simp_all
  then show ?thesis using assms(1) by (simp add: algebra_simps)
qed

lemma char_out_cell:
  assumes "c_org con = screen_base" "0 \<le> c_row con" "0 \<le> c_col con" "80 * nat (c_row con) + nat (c_col con) < 2000"
  shows "screen (ram (char_out con c k s)) = (screen (ram s))[80 * nat (c_row con) + nat (c_col con) := (c, k)]"
    and "on_screen s (char_out con c k s)"
proof -
  let ?j = "80 * nat (c_row con) + nat (c_col con)"
  have j: "?j < 2000" using assms by linarith
  have r: "char_out con c k s = s\<lparr>ram := (ram s)(screen_base + of_nat (2 * ?j) := c, screen_base + of_nat (2 * ?j + 1) := k)\<rparr>"
    unfolding char_out_def Let_def cell_addr [OF assms(1-3)] by (simp add: add.assoc add.commute [of 1])
  show "screen (ram (char_out con c k s)) = (screen (ram s))[?j := (c, k)]"
  proof -
    have "ram (char_out con c k s) = (ram s)(screen_base + of_nat (2 * ?j) := c, screen_base + of_nat (2 * ?j + 1) := k)"
      unfolding r by simp
    then show ?thesis using screen_upd [OF j, of "ram s" c k] by (simp only:)
  qed
  have ad: "unat (screen_base + of_nat n) = unat screen_base + n" if "n < 4000" for n
    using that by (intro unat_add_small) (simp add: unat_screen_base)
  have "unat (screen_base + of_nat (2 * i)) = unat screen_base + 2 * i \<and>
      unat (screen_base + of_nat (2 * i + 1)) = unat screen_base + (2 * i + 1)" if "i < 2000" for i
    using that by (intro conjI ad) linarith+
  from this [OF j] show "on_screen s (char_out con c k s)" unfolding r using j by (intro on_screen_memory) auto
qed

lemma char_out_spec:
  assumes "c_org con = screen_base" "0 \<le> c_row con" "c_row con < 25" "0 \<le> c_col con" "c_col con < 80"
  shows "screen (ram (char_out con c k s)) = (screen (ram s))[80 * nat (c_row con) + nat (c_col con) := (c, k)]"
    and "on_screen s (char_out con c k s)"
proof -
  have "80 * nat (c_row con) + nat (c_col con) < 2000" using assms by linarith
  from char_out_cell [OF assms(1,2,4) this]
  show "screen (ram (char_out con c k s)) = (screen (ram s))[80 * nat (c_row con) + nat (c_col con) := (c, k)]"
    "on_screen s (char_out con c k s)" by blast+
qed

text \<open>\<open>text_out\<close> writes its text over the cells from its position on; it neither wraps nor scrolls.\<close>

definition put_text :: "nat \<Rightarrow> u8 \<Rightarrow> u8 list \<Rightarrow> (u8 \<times> u8) list \<Rightarrow> (u8 \<times> u8) list" where
  "put_text j color out cells = take j cells @ map (\<lambda>c. (c, color)) out @ drop (j + length out) cells"

lemma put_text_Cons: "j < length cells \<Longrightarrow> put_text j k (c # out) cells = put_text (j + 1) k out (cells[j := (c, k)])"
  by (simp add: put_text_def take_Suc_conv_app_nth)

lemma text_loop_cells:
  assumes "0 \<notin> set out" "c_org con = screen_base" "0 \<le> c_row con" "0 \<le> c_col con"
    "80 * nat (c_row con) + nat (c_col con) + length out \<le> 2000"
  shows "\<exists>s'. text_loop (out @ 0 # r) color con s = Inr s' \<and> on_screen s s'
    \<and> screen (ram s') = put_text (80 * nat (c_row con) + nat (c_col con)) color out (screen (ram s))
    \<and> (\<exists>m. s' = s\<lparr>ram := m\<rparr>)"
  using assms
proof (induction out arbitrary: con s)
  case Nil
  have "\<exists>m. s = s\<lparr>ram := m\<rparr>" by (rule exI [of _ "ram s"]) simp
  then show ?case by (intro exI [of _ s]) (simp add: put_text_def on_screen_refl)
next
  case (Cons c out)
  let ?j = "80 * nat (c_row con) + nat (c_col con)"
  let ?con = "con\<lparr>c_col := c_col con + 1\<rparr>" and ?s = "char_out con c color s"
  have j: "?j < 2000" using Cons.prems(5) by simp
  have jj: "80 * nat (c_row ?con) + nat (c_col ?con) = ?j + 1" using Cons.prems(4) by (simp add: nat_add_distrib)
  note out = char_out_cell [OF Cons.prems(2-4) j, where c = c and k = color and s = s]
  have prems: "0 \<notin> set out" "c_org ?con = screen_base" "0 \<le> c_row ?con" "0 \<le> c_col ?con"
    "80 * nat (c_row ?con) + nat (c_col ?con) + length out \<le> 2000"
    using Cons.prems unfolding jj by simp_all
  obtain s' m where s': "text_loop (out @ 0 # r) color ?con ?s = Inr s'" "on_screen ?s s'"
    "screen (ram s') = put_text (?j + 1) color out (screen (ram ?s))" "s' = ?s\<lparr>ram := m\<rparr>"
    using Cons.IH [OF prems, of ?s] unfolding jj by blast
  have "text_loop ((c # out) @ 0 # r) color con s = Inr s'" using Cons.prems(1) s'(1) by simp
  moreover have "screen (ram s') = put_text ?j color (c # out) (screen (ram s))"
    using s'(3) out(1) j by (simp add: put_text_Cons)
  moreover have "s' = s\<lparr>ram := m\<rparr>" using s'(4) by (simp add: char_out_def Let_def)
  ultimately show ?case using on_screen_trans [OF out(2) s'(2)] by blast
qed

lemma text_out_cells:
  assumes "render fmt as = Some out" "0 \<notin> set fmt" "0 \<notin> set out" "length out < length stk" "80 * row + col + length out \<le> 2000"
  shows "\<exists>s'. text_out stk (int row) (int col) color (fmt @ [0]) as s = Inr s' \<and> on_screen s s'
    \<and> screen (ram s') = put_text (80 * row + col) color out (screen (ram s)) \<and> (\<exists>m. s' = s\<lparr>ram := m\<rparr>)"
proof -
  have v: "vsprintf stk (fmt @ 0 # []) as = Inr (out @ 0 # drop (Suc (length out)) stk)"
    using vs_loop_renders [OF assms(1,2), of "[]" "[]" stk] assms(4) by (simp add: vsprintf_def)
  let ?con = "\<lparr>c_start = 0xb8000, c_org = 0xb8000, c_limit = 0, c_cur = 0, c_row = int row, c_col = int col\<rparr>"
  have "c_org ?con = screen_base" by (simp add: screen_base_def)
  from text_loop_cells [OF assms(3) this, of "drop (Suc (length out)) stk" color s] show ?thesis
    using assms(5) v by (simp add: text_out_def)
qed

lemma scroll_screen_frame:
  assumes "c_org con = screen_base"
  shows "on_screen s (scroll_screen con s)"
proof -
  have "ram (scroll_screen con s) a = ram s a" if "unat a < unat screen_base \<or> unat screen_base + 4000 \<le> unat a" for a
  proof -
    have "rep_stosb 160 0 (screen_base + 3840) m a = m a" for m
      using that by (intro rep_stosb_outside) (auto simp: screen_base_def)
    moreover have "rep_movsb 3840 (screen_base + 160) screen_base (ram s) a = ram s a"
      using that by (intro rep_movsb_outside) (auto simp: screen_base_def)
    ultimately show ?thesis using assms by (simp add: scroll_screen_def memcpy_def)
  qed
  moreover have "scroll_screen con s = s\<lparr>ram := ram (scroll_screen con s)\<rparr>" by (simp add: scroll_screen_def Let_def)
  ultimately show ?thesis using on_screen_memory by metis
qed

lemma scroll_check_spec:
  assumes "c_org (cons s) = screen_base" "0 \<le> c_row (cons s)" "c_row (cons s) \<le> 25"
    "0 \<le> c_col (cons s)" "c_col (cons s) \<le> 80" "c_col (cons s) = 0 \<or> c_row (cons s) < 25"
  shows "cons_ok (scroll_check s) \<and> terminal_of (scroll_check s) = term_fit (terminal_of s) \<and> on_screen s (scroll_check s)"
proof -
  let ?s1 = "if 80 \<le> c_col (cons s) then s\<lparr>cons := (cons s)\<lparr>c_row := c_row (cons s) + 1, c_col := 0\<rparr>\<rparr> else s"
  let ?t1 = "if t_col (terminal_of s) < 80 then terminal_of s else (terminal_of s)\<lparr>t_row := t_row (terminal_of s) + 1, t_col := 0\<rparr>"
  have s1: "terminal_of ?s1 = ?t1" "on_screen s ?s1" "c_org (cons ?s1) = screen_base"
    "0 \<le> c_row (cons ?s1)" "c_row (cons ?s1) \<le> 25" "0 \<le> c_col (cons ?s1)" "c_col (cons ?s1) < 80"
    using assms by (auto simp: terminal_of_def nat_add_distrib on_screen_cons on_screen_refl)
  show ?thesis
  proof (cases "25 \<le> c_row (cons ?s1)")
    case False
    then have "scroll_check s = ?s1" by (simp add: scroll_check_def Let_def)
    moreover have "term_fit (terminal_of s) = ?t1"
      using False s1(1) by (auto simp: term_fit_def Let_def terminal_of_def split: if_splits)
    ultimately show ?thesis using s1 False by (simp add: cons_ok_def)
  next
    case True
    let ?s2 = "scroll_screen (cons ?s1) ?s1"
    have sc: "scroll_check s = ?s2\<lparr>cons := (cons ?s2)\<lparr>c_row := 24, c_col := 0\<rparr>\<rparr>"
      unfolding scroll_check_def Let_def using True by (simp only: if_True)
    have c2: "cons ?s2 = cons ?s1" by (simp add: scroll_screen_def Let_def)
    have "on_screen s (?s2\<lparr>cons := (cons ?s2)\<lparr>c_row := 24, c_col := 0\<rparr>\<rparr>)"
      using on_screen_trans [OF s1(2) on_screen_trans [OF scroll_screen_frame [OF s1(3)] on_screen_cons]] .
    moreover have "t_cells ?t1 = screen (ram ?s1)" using s1(1) by (simp add: terminal_of_def split: if_splits)
    moreover have "t_row ?t1 = 25" using s1(1,5) True by (auto simp: terminal_of_def split: if_splits)
    ultimately show ?thesis
      unfolding sc term_fit_def Let_def
      using screen_scroll [OF s1(3), of ?s1] c2 s1(3) by (auto simp: terminal_of_def cons_ok_def)
  qed
qed

lemma cons_char_out [simp]: "cons (char_out con c k s) = cons s"
  by (simp add: char_out_def Let_def)

lemma cons_set_cur [simp]: "cons (set_cur n s) = cons s"
  by (simp add: set_cur_def outb_crt_def)

lemma cons_loop_terminal:
  assumes "cstring str = Inr x" "cons_ok s"
  shows "\<exists>s'. cons_loop str s = Inr s' \<and> cons_ok s' \<and> terminal_of s' = fold term_put x (terminal_of s) \<and> on_screen s s'"
  using assms
proof (induction str arbitrary: x s)
  case Nil
  then show ?case by simp
next
  case (Cons c cs)
  show ?case
  proof (cases "c = 0")
    case True
    with Cons.prems show ?thesis by (auto simp: on_screen_refl)
  next
    case False
    then obtain y where y: "cstring cs = Inr y" "x = c # y" using Cons.prems(1) by (auto simp: res_bind_eq_Inr)
    have "\<exists>t. cons_loop (c # cs) s = cons_loop cs t \<and> cons_ok t \<and> terminal_of t = term_put c (terminal_of s) \<and> on_screen s t"
    proof (cases "c = 10")
      case True
      let ?s1 = "s\<lparr>cons := (cons s)\<lparr>c_row := c_row (cons s) + 1, c_col := 0\<rparr>\<rparr>"
      have "cons_ok (scroll_check ?s1) \<and> terminal_of (scroll_check ?s1) = term_fit (terminal_of ?s1) \<and> on_screen ?s1 (scroll_check ?s1)"
        using Cons.prems(2) by (intro scroll_check_spec) (auto simp: cons_ok_def)
      moreover have "terminal_of ?s1 = (terminal_of s)\<lparr>t_row := t_row (terminal_of s) + 1, t_col := 0\<rparr>"
        using Cons.prems(2) by (simp add: terminal_of_def cons_ok_def nat_add_distrib)
      moreover from calculation(1) have "on_screen s (scroll_check ?s1)"
        using on_screen_trans [OF on_screen_cons] by blast
      ultimately show ?thesis using True
        by (intro exI [of _ "scroll_check ?s1"]) (simp add: term_put_def)
    next
      case nl: False
      let ?s1 = "char_out (cons s) c SYS_COLOR s"
      let ?s2 = "?s1\<lparr>cons := (cons ?s1)\<lparr>c_cur := of_int (c_row (cons ?s1) * 80 + c_col (cons ?s1))\<rparr>\<rparr>"
      let ?s3 = "set_cur (c_cur (cons ?s2)) ?s2"
      let ?s4 = "?s3\<lparr>cons := (cons ?s3)\<lparr>c_col := c_col (cons ?s3) + 1\<rparr>\<rparr>"
      have ok: "c_org (cons s) = screen_base" "0 \<le> c_row (cons s)" "c_row (cons s) < 25" "0 \<le> c_col (cons s)" "c_col (cons s) < 80"
        using Cons.prems(2) by (simp_all add: cons_ok_def)
      obtain p where p: "?s3 = ?s2\<lparr>crt_out := p\<rparr>"
        by (auto simp: set_cur_def outb_crt_def)
      have os: "on_screen s ?s4" unfolding p
        by (rule on_screen_trans [OF char_out_spec(2) [OF ok, where c = c and k = SYS_COLOR and s = s]
             on_screen_trans [OF on_screen_cons on_screen_trans [OF on_screen_crt on_screen_cons]]])
      have c4: "cons ?s4 = (cons s)\<lparr>c_cur := of_int (c_row (cons s) * 80 + c_col (cons s)), c_col := c_col (cons s) + 1\<rparr>"
        by simp
      have t4: "terminal_of ?s4 = (terminal_of s)\<lparr>t_cells := (t_cells (terminal_of s))
          [80 * t_row (terminal_of s) + t_col (terminal_of s) := (c, SYS_COLOR)], t_col := t_col (terminal_of s) + 1\<rparr>"
        using char_out_spec(1) [OF ok, where c = c and k = SYS_COLOR and s = s] ok unfolding p by (simp add: terminal_of_def nat_add_distrib)
      have "cons_ok (scroll_check ?s4) \<and> terminal_of (scroll_check ?s4) = term_fit (terminal_of ?s4) \<and> on_screen ?s4 (scroll_check ?s4)"
        by (rule scroll_check_spec) (use ok in \<open>simp_all\<close>)
      moreover have "cons_loop (c # cs) s = cons_loop cs (scroll_check ?s4)"
        using False nl by (simp add: Let_def)
      moreover have "term_fit (terminal_of ?s4) = term_put c (terminal_of s)"
        unfolding t4 term_put_def using nl by simp
      ultimately show ?thesis using on_screen_trans [OF os] by metis
    qed
    then obtain t where t: "cons_loop (c # cs) s = cons_loop cs t" "cons_ok t" "terminal_of t = term_put c (terminal_of s)" "on_screen s t"
      by blast
    with Cons.IH [OF y(1) t(2)] y(2) show ?thesis by (auto intro: on_screen_trans)
  qed
qed

lemma cons_echo_terminal:
  assumes "cstring str = Inr x" "cons_ok s"
  shows "\<exists>s'. cons_echo (Some str) s = Inr s' \<and> cons_ok s' \<and> terminal_of s' = fold term_put x (terminal_of s) \<and> on_screen s s'"
proof -
  have "cons_ok (s\<lparr>ief := False\<rparr>)" using assms(2) by (simp add: cons_ok_def)
  then obtain s1 where s1: "cons_loop str (s\<lparr>ief := False\<rparr>) = Inr s1" "cons_ok s1"
    "terminal_of s1 = fold term_put x (terminal_of (s\<lparr>ief := False\<rparr>))" "on_screen (s\<lparr>ief := False\<rparr>) s1"
    using cons_loop_terminal [OF assms(1)] by blast
  then obtain m con p where m: "s1 = s\<lparr>ief := False, ram := m, cons := con, crt_out := p\<rparr>"
    "\<forall>a. unat a < unat screen_base \<or> unat screen_base + 4000 \<le> unat a \<longrightarrow> m a = ram s a"
    unfolding on_screen_def by auto
  have e: "cons_echo (Some str) s = Inr (s1\<lparr>ief := ief s\<rparr>)"
    using s1(1) by (simp add: cons_echo_def lock_irq_save_def unlock_irq_restore_def)
  have "s1\<lparr>ief := ief s\<rparr> = s\<lparr>ram := m, cons := con, crt_out := p\<rparr>" unfolding m(1) by simp
  then have "on_screen s (s1\<lparr>ief := ief s\<rparr>)" unfolding on_screen_def using m(2) by blast
  with e s1(2,3) show ?thesis by (intro exI [of _ "s1\<lparr>ief := ief s\<rparr>"]) (simp add: cons_ok_def terminal_of_def)
qed

text \<open>
  Property C25: \<open>cons_echo\<close> is the terminal: it prints the characters of its string one after the
  other, with line feeds, wrapping at column 80 and scrolling at row 25. The cursor stays on the
  screen, nothing outside the video memory is written, and the interrupt flag is as before.
\<close>

theorem cons_echo_prints:
  assumes "cons_ok s" "cstring str = Inr x"
  shows "\<exists>s'. cons_echo (Some str) s = Inr s' \<and> cons_ok s' \<and> terminal_of s' = fold term_put x (terminal_of s) \<and> on_screen s s'"
  using cons_echo_terminal [OF assms(2,1)] .

lemma cstring_takeWhile: "cstring (out @ 0 # r) = Inr (takeWhile (\<lambda>c. c \<noteq> 0) out)"
  by (induction out) auto

lemma printk_terminal:
  assumes "render fmt as = Some out" "0 \<notin> set fmt" "length out < length stk" "cons_ok s"
  shows "\<exists>s'. printk stk (fmt @ [0]) as s = Inr s' \<and> on_screen s s' \<and> cons_ok s'
      \<and> terminal_of s' = fold term_put (takeWhile (\<lambda>c. c \<noteq> 0) out) (terminal_of s)"
proof -
  have "vsprintf stk (fmt @ 0 # []) as = Inr (out @ 0 # drop (Suc (length out)) stk)"
    using vs_loop_renders [OF assms(1,2), of "[]" "[]" stk] assms(3) by (simp add: vsprintf_def)
  then show ?thesis
    using cons_echo_terminal [OF cstring_takeWhile assms(4)] by (auto simp: printk_def)
qed

text \<open>What \<open>%x\<close> prints has no NUL in it; such a text is printed whole.\<close>

lemma hex_bytes_nonzero: "0 \<notin> set (hex_bytes w)"
proof
  assume "0 \<in> set (hex_bytes w)"
  then obtain k where k: "k \<in> set (number 16 (unat w))" "atoihex (of_nat k) = 0" by (auto simp: hex_bytes_def)
  have "k < 16" using number_digits [of 16 k "unat w"] k(1) by simp
  moreover have "\<forall>k \<in> set [0..<16]. atoihex (of_nat k) \<noteq> 0" by code_simp
  ultimately show False using k(2) by simp
qed

lemma takeWhile_text: "0 \<notin> set (out :: u8 list) \<Longrightarrow> takeWhile (\<lambda>c. c \<noteq> 0) out = out"
  by (intro takeWhile_eq_all_conv [THEN iffD2]) auto

text \<open>A message without directives.\<close>

lemma render_plain: "of_char (CHR ''%'') \<notin> set fmt \<Longrightarrow> render fmt as = Some fmt"
  by (induction fmt) auto

text \<open>
  Property C39: \<open>printk\<close> prints the text that its format stands for, up to a NUL in it, when that is
  shorter than the 100 bytes of its buffer; a longer one is written over the stack behind the buffer.
\<close>

theorem printk_prints:
  assumes "render fmt as = Some out" "0 \<notin> set fmt" "length stk = STACK_SIZE" "cons_ok s"
  shows "if length out < STACK_SIZE
    then \<exists>s'. printk stk (fmt @ [0]) as s = Inr s' \<and> on_screen s s' \<and> cons_ok s'
      \<and> terminal_of s' = fold term_put (takeWhile (\<lambda>c. c \<noteq> 0) out) (terminal_of s)
    else printk stk (fmt @ [0]) as s = Inl Out_of_bounds"
proof -
  have "vsprintf stk (fmt @ 0 # []) as =
      (if length out < length stk then Inr (out @ 0 # drop (Suc (length out)) stk) else Inl Out_of_bounds)"
    using vs_loop_renders [OF assms(1,2), of "[]" "[]" stk] by (simp add: vsprintf_def)
  then show ?thesis
    using printk_terminal [OF assms(1,2) _ assms(4), of stk] assms(3) by (auto simp: printk_def)
qed

text \<open>A screen with the cursor in its last cell.\<close>

definition last_cell :: kcons where
  "last_cell = kstate.extend boot_state \<lparr>cons = \<lparr>c_start = screen_base, c_org = screen_base, c_limit = 0, c_cur = 0,
     c_row = 24, c_col = 79\<rparr>, crt_out = []\<rparr>"

lemma last_cell_ok: "cons_ok last_cell" "t_row (terminal_of last_cell) = 24" "t_col (terminal_of last_cell) = 79"
  by (simp_all add: cons_ok_def terminal_of_def last_cell_def kstate.extend_def)

theorem cons_echo_prints_witness:
  "\<exists>s'. cons_echo (Some [72, 73, 0]) last_cell = Inr s' \<and> t_row (terminal_of s') = 24 \<and> t_col (terminal_of s') = 1"
proof -
  have "cstring [72, 73, 0 :: u8] = Inr [72, 73]" by simp
  from cons_echo_prints [OF last_cell_ok(1) this] show ?thesis
    using last_cell_ok(2,3) by (auto simp: term_put_def term_fit_def Let_def)
qed

theorem printk_prints_witness:
  "\<exists>s'. printk (replicate 100 0) (bytes ''%d'' @ [0]) [Va_word 7] last_cell = Inr s'
     \<and> t_row (terminal_of s') = 24 \<and> t_col (terminal_of s') = 0"
proof -
  have "dec_bytes 7 = [55]" by (simp add: dec_bytes_def number_def rdigits_step atoi_def)
  then have "render (bytes ''%d'') [Va_word 7] = Some [55]" by (simp add: bytes_def item_def of_char_def)
  moreover have "0 \<notin> set (bytes ''%d'')" by (simp add: bytes_def of_char_def)
  moreover have "length (replicate 100 (0 :: u8)) = STACK_SIZE" by (simp add: STACK_SIZE_def)
  ultimately show ?thesis
    using printk_prints [of "bytes ''%d''" "[Va_word 7]" "[55]" "replicate 100 0" last_cell] last_cell_ok
    by (auto simp: STACK_SIZE_def term_put_def term_fit_def Let_def)
qed

end
