(* ===== verification/Irq.thy ===== *)
theory Irq
  imports Boot Console
begin

text \<open>
  The interrupt controllers and the interrupt handlers: \<^verbatim>\<open>ker/irq.c\<close>. The two 8259A controllers are
  modelled as far as the code drives them, from the data sheet: the initialisation words in their
  order, the mask register behind the data port, and the end-of-interrupt command.
\<close>

section \<open>The controllers\<close>

record i8259 =
  pic_base :: u8
  pic_cascade :: u8
  pic_imr :: u8
  pic_expect :: nat
  pic_eoi :: nat

definition pic_ready :: nat where "pic_ready = 0"

text \<open>The command port: bit 4 starts an initialisation, 0x20 is the non-specific end of interrupt.\<close>

definition pic_command :: "u8 \<Rightarrow> i8259 \<Rightarrow> i8259" where
  "pic_command v p =
     (if bit v 4 then p\<lparr>pic_expect := 2, pic_imr := 0\<rparr>
      else if v = 0x20 then p\<lparr>pic_eoi := pic_eoi p + 1\<rparr> else p)"

text \<open>The data port: the second to fourth initialisation words, then the mask.\<close>

definition pic_data :: "u8 \<Rightarrow> i8259 \<Rightarrow> i8259" where
  "pic_data v p =
     (if pic_expect p = 2 then p\<lparr>pic_base := v AND 0xF8, pic_expect := 3\<rparr>
      else if pic_expect p = 3 then p\<lparr>pic_cascade := v, pic_expect := 4\<rparr>
      else if pic_expect p = 4 then p\<lparr>pic_expect := pic_ready\<rparr>
      else p\<lparr>pic_imr := v\<rparr>)"

section \<open>The state\<close>

datatype irq_handler = Nothing_irq | Clock_handler | Kbd_int | Hd_handlerp | Hd_handlers

record kirq = kcons +
  pic1 :: i8259
  pic2 :: i8259
  irq_table :: "irq_handler list"

definition INT_CTL :: u16 where "INT_CTL = 0x20"
definition INT_CTLMASK :: u16 where "INT_CTLMASK = 0x21"
definition INT2_CTL :: u16 where "INT2_CTL = 0xa0"
definition INT2_CTLMASK :: u16 where "INT2_CTLMASK = 0xa1"
definition I8259_ENABLE :: u32 where "I8259_ENABLE = 0x20"
definition ICW1 :: u32 where "ICW1 = 0x11"
definition ICW4 :: u32 where "ICW4 = 0x01"
definition CASCADE_IRQ :: nat where "CASCADE_IRQ = 2"

lemmas pic_consts = INT_CTL_def INT_CTLMASK_def INT2_CTL_def INT2_CTLMASK_def I8259_ENABLE_def
  ICW1_def ICW4_def CASCADE_IRQ_def

text \<open>The ports of the two controllers; the value is passed as \<^verbatim>\<open>unsigned char\<close>.\<close>

definition imm_outb :: "u16 \<Rightarrow> u32 \<Rightarrow> 'a kirq_scheme \<Rightarrow> 'a kirq_scheme" where
  "imm_outb port v s =
     (let b = ucast v :: u8 in
      if port = INT_CTL then s\<lparr>pic1 := pic_command b (pic1 s)\<rparr>
      else if port = INT_CTLMASK then s\<lparr>pic1 := pic_data b (pic1 s)\<rparr>
      else if port = INT2_CTL then s\<lparr>pic2 := pic_command b (pic2 s)\<rparr>
      else if port = INT2_CTLMASK then s\<lparr>pic2 := pic_data b (pic2 s)\<rparr>
      else s)"

definition imm_inb :: "u16 \<Rightarrow> 'a kirq_scheme \<Rightarrow> u32" where
  "imm_inb port s =
     (if port = INT_CTLMASK then ucast (pic_imr (pic1 s))
      else if port = INT2_CTLMASK then ucast (pic_imr (pic2 s)) else 0)"

section \<open>The code\<close>

definition put_irq_handler :: "nat \<Rightarrow> irq_handler \<Rightarrow> 'a kirq_scheme \<Rightarrow> 'a kirq_scheme res" where
  "put_irq_handler irq handler s =
     (let (fl, s1) = lock_irq_save s in
      res_bind (wr (irq_table s1) irq handler) (\<lambda>tab.
      Inr (unlock_irq_restore fl (s1\<lparr>irq_table := tab\<rparr>))))"

definition enable_irq :: "nat \<Rightarrow> 'a kirq_scheme \<Rightarrow> 'a kirq_scheme" where
  "enable_irq irq s =
     (let (fl, s1) = lock_irq_save s;
          s2 = (if irq < 8 then imm_outb INT_CTLMASK (imm_inb INT_CTLMASK s1 AND NOT (push_bit irq 1)) s1
                else imm_outb INT2_CTLMASK (imm_inb INT2_CTLMASK s1 AND NOT (push_bit (irq mod 8) 1)) s1)
      in unlock_irq_restore fl s2)"

definition disable_irq :: "nat \<Rightarrow> 'a kirq_scheme \<Rightarrow> 'a kirq_scheme" where
  "disable_irq irq s =
     (let (fl, s1) = lock_irq_save s;
          s2 = (if irq < 8 then imm_outb INT_CTLMASK (imm_inb INT_CTLMASK s1 OR push_bit irq 1) s1
                else imm_outb INT2_CTLMASK (imm_inb INT2_CTLMASK s1 OR push_bit irq 1) s1)
      in unlock_irq_restore fl s2)"

definition intr_init :: "'a kirq_scheme \<Rightarrow> 'a kirq_scheme res" where
  "intr_init s =
     (let s0 = lock s;
          s1 = imm_outb INT_CTL ICW1 s0;
          s2 = imm_outb INT_CTLMASK (of_nat IRQ0_VECTOR) s1;
          s3 = imm_outb INT_CTLMASK (push_bit CASCADE_IRQ 1) s2;
          s4 = imm_outb INT_CTLMASK ICW4 s3;
          s5 = imm_outb INT_CTLMASK 0xfb s4;
          s6 = imm_outb INT2_CTL ICW1 s5;
          s7 = imm_outb INT2_CTLMASK (of_nat IRQ8_VECTOR) s6;
          s8 = imm_outb INT2_CTLMASK (of_nat CASCADE_IRQ) s7;
          s9 = imm_outb INT2_CTLMASK ICW4 s8;
          s10 = imm_outb INT2_CTLMASK 0xff s9
      in do_calls (map (\<lambda>i t. res_bind (wr (irq_table t) i Nothing_irq) (\<lambda>tab. Inr (t\<lparr>irq_table := tab\<rparr>))) [0..<16]) s10)"

text \<open>The handler of a line that no driver has taken.\<close>

definition nothing_irq :: "u8 list \<Rightarrow> nat \<Rightarrow> 'a kirq_scheme \<Rightarrow> (int \<times> 'a kirq_scheme) res" where
  "nothing_irq stk irq s =
     res_bind (printk stk (bytes ''irq %d occur!'' @ [10, 0]) [Va_word (of_nat irq)] s) (\<lambda>s1. Inr (int irq, s1))"

text \<open>\<open>run_handler h irq\<close> is the call of a handler through the table.\<close>

definition do_IRQ ::
    "(irq_handler \<Rightarrow> nat \<Rightarrow> 'a kirq_scheme \<Rightarrow> (int \<times> 'a kirq_scheme) exec) \<Rightarrow> nat \<Rightarrow> 'a kirq_scheme \<Rightarrow> 'a kirq_scheme exec" where
  "do_IRQ run_handler irq s =
     (if irq < 8 then
        let s1 = imm_outb INT_CTLMASK (imm_inb INT_CTLMASK s OR push_bit irq 1) s;
            s2 = imm_outb INT_CTL I8259_ENABLE s1;
            s3 = unlock s2
        in exec_bind (Some (rd (irq_table s3) irq)) (\<lambda>h.
           exec_bind (run_handler h irq s3) (\<lambda>(r, t).
           let s4 = lock t
           in Some (Inr (imm_outb INT_CTLMASK (imm_inb INT_CTLMASK s4 AND NOT (push_bit irq 1)) s4))))
      else
        let s1 = imm_outb INT2_CTLMASK (imm_inb INT2_CTLMASK s OR push_bit (irq - 8) 1) s;
            s2 = imm_outb INT_CTL I8259_ENABLE s1;
            s3 = imm_outb INT2_CTL I8259_ENABLE s2;
            s4 = unlock s3
        in exec_bind (Some (rd (irq_table s4) irq)) (\<lambda>h.
           exec_bind (run_handler h irq s4) (\<lambda>(r, t).
           let s5 = lock t
           in Some (Inr (imm_outb INT2_CTLMASK (imm_inb INT2_CTLMASK s5 AND NOT (push_bit (irq - 8) 1)) s5)))))"

section \<open>Masks\<close>

text \<open>The mask bit of an interrupt line.\<close>

definition masked :: "'a kirq_scheme \<Rightarrow> nat \<Rightarrow> bool" where
  "masked s irq = (if irq < 8 then bit (pic_imr (pic1 s)) irq else bit (pic_imr (pic2 s)) (irq - 8))"

definition pics_ready :: "'a kirq_scheme \<Rightarrow> bool" where
  "pics_ready s \<longleftrightarrow> pic_expect (pic1 s) = pic_ready \<and> pic_expect (pic2 s) = pic_ready"

lemma ucast_mask_bits:
  "bit (ucast ((ucast (m :: u8) :: u32) AND NOT (2 ^ k)) :: u8) n \<longleftrightarrow> bit m n \<and> n \<noteq> k"
  "bit (ucast ((ucast (m :: u8) :: u32) OR 2 ^ k) :: u8) n \<longleftrightarrow> bit m n \<or> n < 8 \<and> n = k"
proof -
  have "bit m n \<Longrightarrow> n < 8" using bit_imp_le_length [of m n] by simp
  then show "bit (ucast ((ucast (m :: u8) :: u32) AND NOT (2 ^ k)) :: u8) n \<longleftrightarrow> bit m n \<and> n \<noteq> k"
    "bit (ucast ((ucast (m :: u8) :: u32) OR 2 ^ k) :: u8) n \<longleftrightarrow> bit m n \<or> n < 8 \<and> n = k"
    by (auto simp: bit_simps)
qed

lemma imm_outb_mask [simp]:
  "pics_ready s \<Longrightarrow> imm_outb INT_CTLMASK v s = s\<lparr>pic1 := (pic1 s)\<lparr>pic_imr := ucast v\<rparr>\<rparr>"
  "pics_ready s \<Longrightarrow> imm_outb INT2_CTLMASK v s = s\<lparr>pic2 := (pic2 s)\<lparr>pic_imr := ucast v\<rparr>\<rparr>"
  by (simp_all add: imm_outb_def pic_consts pic_data_def pics_ready_def pic_ready_def)

lemma imm_outb_eoi [simp]:
  "imm_outb INT_CTL I8259_ENABLE s = s\<lparr>pic1 := (pic1 s)\<lparr>pic_eoi := pic_eoi (pic1 s) + 1\<rparr>\<rparr>"
  "imm_outb INT2_CTL I8259_ENABLE s = s\<lparr>pic2 := (pic2 s)\<lparr>pic_eoi := pic_eoi (pic2 s) + 1\<rparr>\<rparr>"
  by (simp_all add: imm_outb_def pic_consts pic_command_def)

lemma imm_inb_mask [simp]:
  "imm_inb INT_CTLMASK s = ucast (pic_imr (pic1 s))" "imm_inb INT2_CTLMASK s = ucast (pic_imr (pic2 s))"
  by (simp_all add: imm_inb_def pic_consts)

lemma pics_ready_simps [simp]:
  "pics_ready (s\<lparr>ief := b\<rparr>) = pics_ready s"
  "pics_ready (s\<lparr>pic1 := (pic1 s)\<lparr>pic_imr := v\<rparr>\<rparr>) = pics_ready s"
  "pics_ready (s\<lparr>pic2 := (pic2 s)\<lparr>pic_imr := v\<rparr>\<rparr>) = pics_ready s"
  by (simp_all add: pics_ready_def)

lemma masked_enable: "pics_ready s \<Longrightarrow> irq < 16 \<Longrightarrow> j < 16 \<Longrightarrow>
    masked (enable_irq irq s) j \<longleftrightarrow> masked s j \<and> j \<noteq> irq"
  by (auto simp: enable_irq_def masked_def irq_defs Let_def ucast_mask_bits le_mod_geq)

lemma masked_disable: "pics_ready s \<Longrightarrow> irq < 8 \<Longrightarrow> j < 16 \<Longrightarrow>
    masked (disable_irq irq s) j \<longleftrightarrow> masked s j \<or> j = irq"
  by (auto simp: disable_irq_def masked_def irq_defs Let_def ucast_mask_bits)

section \<open>Properties\<close>

text \<open>
  \<open>enable_irq\<close> unmasks exactly its line, \<open>disable_irq\<close> of a line of the first
  controller masks exactly its line; both keep the interrupt flag. \<open>disable_irq\<close> of a line of the
  second controller changes nothing: the shifted bit is lost when the mask is cut to a byte.
\<close>

theorem irq_masks:
  assumes "pics_ready s" "irq < 16" "j < 16"
  shows "(masked (enable_irq irq s) j \<longleftrightarrow> masked s j \<and> j \<noteq> irq)
    \<and> (masked (disable_irq irq s) j \<longleftrightarrow> masked s j \<or> j = irq \<and> irq < 8)
    \<and> ief (enable_irq irq s) = ief s \<and> ief (disable_irq irq s) = ief s"
proof -
  have "masked (disable_irq irq s) j \<longleftrightarrow> masked s j \<or> j = irq \<and> irq < 8"
    using assms by (auto simp: disable_irq_def masked_def irq_defs Let_def ucast_mask_bits)
  then show ?thesis
    using masked_enable [OF assms] by (simp add: enable_irq_def disable_irq_def irq_defs Let_def)
qed

definition idle_pic :: i8259 where
  "idle_pic = \<lparr>pic_base = 0, pic_cascade = 0, pic_imr = 0, pic_expect = 0, pic_eoi = 0\<rparr>"

definition irq_state :: kirq where
  "irq_state = kcons.extend last_cell \<lparr>pic1 = idle_pic, pic2 = idle_pic, irq_table = replicate 16 Nothing_irq\<rparr>"

lemma irq_state_sel [simp]:
  "pic1 irq_state = idle_pic" "pic2 irq_state = idle_pic" "irq_table irq_state = replicate 16 Nothing_irq"
  by (simp_all add: irq_state_def kcons.extend_def)

lemma irq_state_ready: "pics_ready irq_state"
  by (simp add: pics_ready_def idle_pic_def pic_ready_def)

theorem irq_masks_witness: "\<not> masked (disable_irq 12 irq_state) 12 \<and> masked (disable_irq 3 irq_state) 3"
  using irq_masks [OF irq_state_ready, of 12 12] irq_masks [OF irq_state_ready, of 3 3]
  by (simp add: masked_def idle_pic_def)

lemma fill_table:
  assumes "n \<le> length (irq_table s)"
  shows "do_calls (map (\<lambda>i t. res_bind (wr (irq_table t) i Nothing_irq) (\<lambda>tab. Inr (t\<lparr>irq_table := tab\<rparr>))) [0..<n]) s
    = Inr (s\<lparr>irq_table := replicate n Nothing_irq @ drop n (irq_table s)\<rparr>)"
  using assms
proof (induction n)
  case 0
  then show ?case by simp
next
  case (Suc n)
  then have "drop n (irq_table s) = irq_table s ! n # drop (Suc n) (irq_table s)"
    by (simp add: Cons_nth_drop_Suc)
  moreover have "wr (replicate n Nothing_irq @ irq_table s ! n # drop (Suc n) (irq_table s)) n Nothing_irq
      = Inr (replicate n Nothing_irq @ Nothing_irq # drop (Suc n) (irq_table s))"
    by (rule wr_middle) simp
  ultimately show ?case
    using Suc by (simp add: do_calls_append) (simp add: replicate_app_Cons_same)
qed

text \<open>The state that \<open>intr_init\<close> leaves.\<close>

definition pics_set :: "'a kirq_scheme \<Rightarrow> 'a kirq_scheme" where
  "pics_set s = s\<lparr>ief := False,
     pic1 := (pic1 s)\<lparr>pic_base := 0x28, pic_cascade := 4, pic_expect := 0, pic_imr := 0xfb\<rparr>,
     pic2 := (pic2 s)\<lparr>pic_base := 0x30, pic_cascade := 2, pic_expect := 0, pic_imr := 0xff\<rparr>,
     irq_table := replicate 16 Nothing_irq\<rparr>"

lemma intr_init_runs:
  assumes "length (irq_table s) = 16"
  shows "intr_init s = Inr (pics_set s)"
proof -
  let ?p1 = "(pic1 s)\<lparr>pic_base := 0x28, pic_cascade := 4, pic_expect := 0, pic_imr := 0xfb\<rparr>"
  let ?p2 = "(pic2 s)\<lparr>pic_base := 0x30, pic_cascade := 2, pic_expect := 0, pic_imr := 0xff\<rparr>"
  let ?s = "s\<lparr>ief := False, pic1 := ?p1, pic2 := ?p2\<rparr>"
  have "intr_init s = do_calls (map (\<lambda>i t. res_bind (wr (irq_table t) i Nothing_irq)
      (\<lambda>tab. Inr (t\<lparr>irq_table := tab\<rparr>))) [0..<16]) ?s"
    by (simp add: intr_init_def lock_def imm_outb_def pic_consts pic_data_def pic_command_def pic_ready_def
        vector_consts Let_def)
  also have "\<dots> = Inr (?s\<lparr>irq_table := replicate 16 Nothing_irq\<rparr>)" using assms by (subst fill_table) simp_all
  finally show ?thesis by (simp add: pics_set_def)
qed

lemma pics_set_masks:
  assumes "irq < 16"
  shows "masked (pics_set s) irq \<longleftrightarrow> irq \<noteq> CASCADE_IRQ"
proof -
  have "irq \<in> set [0, 1, 2, 3, 4, 5, 6, 7, 8, 9, 10, 11, 12, 13, 14, 15]" using assms by (simp, arith)
  then show ?thesis by (auto simp: pics_set_def masked_def CASCADE_IRQ_def)
qed

text \<open>
  \<open>intr_init\<close> takes the controllers through all four initialisation words each: the lines
  raise the vectors that \<open>trap_init\<close> has gates for, the second controller is cascaded on line 2, every
  line but the cascade is masked, interrupts are off and every line has the default handler.
\<close>

theorem intr_init_programs:
  assumes "length (irq_table s) = 16"
  shows "\<exists>s'. intr_init s = Inr s' \<and> pics_ready s' \<and> \<not> ief s'
    \<and> pic_cascade (pic1 s') = 4 \<and> pic_cascade (pic2 s') = 2
    \<and> (\<forall>irq < 16. VECTOR irq = unat (pic_base (if irq < 8 then pic1 s' else pic2 s')) + irq mod 8)
    \<and> (\<forall>irq < 16. masked s' irq \<longleftrightarrow> irq \<noteq> CASCADE_IRQ)
    \<and> irq_table s' = replicate 16 Nothing_irq"
proof -
  have "VECTOR irq = unat (pic_base (if irq < 8 then pic1 (pics_set s) else pic2 (pics_set s))) + irq mod 8" for irq
    by (simp add: pics_set_def VECTOR_def vector_consts)
  then show ?thesis
    using intr_init_runs [OF assms] pics_set_masks [of _ s]
    by (intro exI [of _ "pics_set s"]) (simp add: pics_ready_def pic_ready_def pics_set_def)
qed

theorem intr_init_programs_witness:
  "\<exists>s'. intr_init irq_state = Inr s' \<and> unat (pic_base (pic2 s')) + 1 = VECTOR 9 \<and> masked s' 9"
  using intr_init_programs [of irq_state]
  by (fastforce simp: CASCADE_IRQ_def)

text \<open>What \<open>do_IRQ\<close> does after the handler, and the state in which it calls it.\<close>

definition irq_return :: "nat \<Rightarrow> 'a kirq_scheme \<Rightarrow> 'a kirq_scheme" where
  "irq_return irq h =
     (if irq < 8 then imm_outb INT_CTLMASK (imm_inb INT_CTLMASK (lock h) AND NOT (push_bit irq 1)) (lock h)
      else imm_outb INT2_CTLMASK (imm_inb INT2_CTLMASK (lock h) AND NOT (push_bit (irq - 8) 1)) (lock h))"

lemma do_IRQ_runs:
  assumes "pics_ready s" "irq < 16" "length (irq_table s) = 16"
  shows "\<exists>t. masked t irq \<and> ief t \<and> pics_ready t
    \<and> pic_eoi (pic1 t) = pic_eoi (pic1 s) + 1 \<and> pic_eoi (pic2 t) = pic_eoi (pic2 s) + (if irq < 8 then 0 else 1)
    \<and> t = s\<lparr>ief := True, pic1 := pic1 t, pic2 := pic2 t\<rparr>
    \<and> do_IRQ run_handler irq s = exec_bind (run_handler (irq_table s ! irq) irq t) (\<lambda>(r, h).
        Some (Inr (irq_return irq h)))"
proof (cases "irq < 8")
  case True
  let ?t = "s\<lparr>pic1 := (pic1 s)\<lparr>pic_imr := ucast ((ucast (pic_imr (pic1 s)) :: u32) OR 2 ^ irq),
      pic_eoi := pic_eoi (pic1 s) + 1\<rparr>, ief := True\<rparr>"
  have "masked ?t irq" "pics_ready ?t" using True assms(1) by (simp_all add: masked_def ucast_mask_bits pics_ready_def)
  then show ?thesis
    using assms True by (intro exI [of _ ?t]) (simp add: do_IRQ_def irq_return_def Let_def irq_defs)
next
  case False
  let ?t = "s\<lparr>pic1 := (pic1 s)\<lparr>pic_eoi := pic_eoi (pic1 s) + 1\<rparr>,
      pic2 := (pic2 s)\<lparr>pic_imr := ucast ((ucast (pic_imr (pic2 s)) :: u32) OR 2 ^ (irq - 8)),
      pic_eoi := pic_eoi (pic2 s) + 1\<rparr>, ief := True\<rparr>"
  have "irq - 8 < 8" using False assms(2) by linarith
  then have "masked ?t irq" "pics_ready ?t" using False assms(1) by (simp_all add: masked_def ucast_mask_bits pics_ready_def)
  then show ?thesis
    using assms False by (intro exI [of _ ?t]) (simp add: do_IRQ_def irq_return_def Let_def irq_defs)
qed

lemma do_IRQ_unmasks:
  assumes "pics_ready h" "irq < 16" "j < 16"
  shows "(masked (irq_return irq h) j \<longleftrightarrow> masked h j \<and> j \<noteq> irq) \<and> \<not> ief (irq_return irq h)"
  using assms by (auto simp: irq_return_def masked_def ucast_mask_bits irq_defs)

text \<open>
  \<open>do_IRQ\<close> acknowledges an interrupt once at each controller it came through, runs the
  line's handler with the line masked and the interrupts enabled, and returns with the line unmasked
  and the interrupts disabled; the other lines have the masks that the handler leaves. When the handler
  does not return, neither does \<open>do_IRQ\<close>.
\<close>

theorem do_IRQ_serves:
  assumes "pics_ready s" "irq < 16" "length (irq_table s) = 16"
    and "\<And>h t r t'. pics_ready t \<Longrightarrow> run_handler h irq t = Some (Inr (r, t')) \<Longrightarrow> pics_ready t'"
  shows "\<exists>t. masked t irq \<and> ief t
    \<and> pic_eoi (pic1 t) = pic_eoi (pic1 s) + 1 \<and> pic_eoi (pic2 t) = pic_eoi (pic2 s) + (if irq < 8 then 0 else 1)
    \<and> (case run_handler (irq_table s ! irq) irq t of
         None \<Rightarrow> do_IRQ run_handler irq s = None
       | Some (Inl e) \<Rightarrow> do_IRQ run_handler irq s = Some (Inl e)
       | Some (Inr (r, h)) \<Rightarrow> \<exists>s'. do_IRQ run_handler irq s = Some (Inr s') \<and> \<not> ief s'
           \<and> (\<forall>j < 16. masked s' j \<longleftrightarrow> masked h j \<and> j \<noteq> irq))"
proof -
  obtain t where t: "masked t irq" "ief t" "pics_ready t" "pic_eoi (pic1 t) = pic_eoi (pic1 s) + 1"
    "pic_eoi (pic2 t) = pic_eoi (pic2 s) + (if irq < 8 then 0 else 1)"
    and run: "do_IRQ run_handler irq s = exec_bind (run_handler (irq_table s ! irq) irq t) (\<lambda>(r, h).
        Some (Inr (irq_return irq h)))"
    using do_IRQ_runs [OF assms(1-3), of run_handler] by blast
  have "case run_handler (irq_table s ! irq) irq t of
         None \<Rightarrow> do_IRQ run_handler irq s = None
       | Some (Inl e) \<Rightarrow> do_IRQ run_handler irq s = Some (Inl e)
       | Some (Inr (r, h)) \<Rightarrow> \<exists>s'. do_IRQ run_handler irq s = Some (Inr s') \<and> \<not> ief s'
           \<and> (\<forall>j < 16. masked s' j \<longleftrightarrow> masked h j \<and> j \<noteq> irq)"
  proof (cases "run_handler (irq_table s ! irq) irq t")
    case (Some x)
    show ?thesis
    proof (cases x)
      case (Inr p)
      obtain r h where p: "p = (r, h)" by (cases p)
      then have "pics_ready h" using assms(4) [OF t(3)] Some Inr by blast
      then show ?thesis using run Some Inr p do_IRQ_unmasks [of h irq] assms(2) by simp
    qed (use run Some in simp)
  qed (use run in simp)
  then show ?thesis using t by blast
qed

theorem do_IRQ_serves_witness:
  "\<exists>s'. do_IRQ (\<lambda>h irq t. Some (Inr (1, t))) 9 irq_state = Some (Inr s') \<and> \<not> masked s' 9 \<and> \<not> ief s'"
  using do_IRQ_serves [OF irq_state_ready, of 9 "\<lambda>h irq t. Some (Inr (1, t))"] by fastforce

end
