(* ===== verification/Kb.thy ===== *)
theory Kb
  imports Irq
begin

text \<open>
  The keyboard driver: \<^verbatim>\<open>ker/kb.c\<close>, \<^verbatim>\<open>include/kb.h\<close> and the table of \<^verbatim>\<open>include/keymap.h\<close>. Scan codes
  go from the interrupt handler to the readers through a ring of 32 bytes. What the controller
  answers is arbitrary: the values that successive reads of its two ports return are functions of
  the state.
\<close>

section \<open>The controller\<close>

text \<open>
  \<open>kp_status n\<close> and \<open>kp_data n\<close> are the values of the \<open>n\<close>-th read of the status and the data port;
  \<open>kp_out\<close> is the list of bytes written, the last one first.
\<close>

record kbd_port =
  kp_status :: "nat \<Rightarrow> u8"
  kp_data :: "nat \<Rightarrow> u8"
  kp_nstatus :: nat
  kp_ndata :: nat
  kp_out :: "(u16 \<times> u8) list"

definition KBD_STATUS_REG :: u16 where "KBD_STATUS_REG = 0x64"
definition KBD_CNTL_REG :: u16 where "KBD_CNTL_REG = 0x64"
definition KBD_DATA_REG :: u16 where "KBD_DATA_REG = 0x60"
definition KBD_WRITE_MODE :: u8 where "KBD_WRITE_MODE = 0x60"
definition KBD_SELF_TEST :: u8 where "KBD_SELF_TEST = 0xAA"
definition KBD_SELF_TEST2 :: u8 where "KBD_SELF_TEST2 = 0xAB"
definition KBD_CNTL_ENABLE :: u8 where "KBD_CNTL_ENABLE = 0xAE"
definition KBD_CNTL_DISABLE :: u8 where "KBD_CNTL_DISABLE = 0xAD"
definition LED_CODE :: u8 where "LED_CODE = 0xED"
definition KBD_ENABLE :: u8 where "KBD_ENABLE = 0xF4"
definition KBD_DISABLE :: u8 where "KBD_DISABLE = 0xF5"
definition KBD_RESET :: u8 where "KBD_RESET = 0xFF"
definition KBD_ACK :: int where "KBD_ACK = 0xFA"
definition KBD_POR :: int where "KBD_POR = 0xAA"
definition KBD_OBF :: u8 where "KBD_OBF = 0x01"
definition KBD_IBF :: u8 where "KBD_IBF = 0x02"
definition KBD_GTO :: u8 where "KBD_GTO = 0x40"
definition KBD_PERR :: u8 where "KBD_PERR = 0x80"
definition KBD_EKI :: u8 where "KBD_EKI = 0x01"
definition KBD_SYS :: u8 where "KBD_SYS = 0x04"
definition KBD_DMS :: u8 where "KBD_DMS = 0x20"
definition KBD_KCC :: u8 where "KBD_KCC = 0x40"
definition TIMEOUT_CONST :: nat where "TIMEOUT_CONST = 500000"
definition KB_BUF_SIZE :: nat where "KB_BUF_SIZE = 32"
definition NUMLOCK :: u8 where "NUMLOCK = 0x45"
definition SCROLLLOCK :: u8 where "SCROLLLOCK = 0x46"
definition CAPSLOCK :: u8 where "CAPSLOCK = 0x3A"

section \<open>The state\<close>

text \<open>\<^verbatim>\<open>struct kb_buf_t\<close>, with the two pointers as indices into \<open>kb_buf\<close>.\<close>

record kb_buf_t =
  kb_head :: nat
  kb_tail :: nat
  kb_count :: nat
  kb_buf :: "u8 list"

record kkb = kirq +
  kbd :: kbd_port
  kb_line :: kb_buf_t
  shift :: u8
  capslock :: u8
  scrolllock :: u8
  numlock :: u8

section \<open>Talking to the controller\<close>

definition inb_status :: "'a kkb_scheme \<Rightarrow> u8 \<times> 'a kkb_scheme" where
  "inb_status s = (kp_status (kbd s) (kp_nstatus (kbd s)),
     s\<lparr>kbd := (kbd s)\<lparr>kp_nstatus := kp_nstatus (kbd s) + 1\<rparr>\<rparr>)"

definition inb_data :: "'a kkb_scheme \<Rightarrow> u8 \<times> 'a kkb_scheme" where
  "inb_data s = (kp_data (kbd s) (kp_ndata (kbd s)),
     s\<lparr>kbd := (kbd s)\<lparr>kp_ndata := kp_ndata (kbd s) + 1\<rparr>\<rparr>)"

definition outb_kbd :: "u16 \<Rightarrow> u8 \<Rightarrow> 'a kkb_scheme \<Rightarrow> 'a kkb_scheme" where
  "outb_kbd port v s = s\<lparr>kbd := (kbd s)\<lparr>kp_out := (port, v) # kp_out (kbd s)\<rparr>\<rparr>"

text \<open>The \<open>continue\<close> statements of the loop go to its condition, so that each round counts.\<close>

primrec kbd_wait_loop :: "nat \<Rightarrow> 'a kkb_scheme \<Rightarrow> int \<times> 'a kkb_scheme" where
  "kbd_wait_loop 0 s = (- 1, s)"
| "kbd_wait_loop (Suc n) s =
     (let (st, s1) = inb_status s in
      if st AND KBD_OBF = 0 then kbd_wait_loop n s1
      else let (d, s2) = inb_data s1 in
        if st AND (KBD_GTO OR KBD_PERR) \<noteq> 0 then kbd_wait_loop n s2
        else (uint d, s2))"

definition kbd_wait_for_input :: "'a kkb_scheme \<Rightarrow> int \<times> 'a kkb_scheme" where
  "kbd_wait_for_input = kbd_wait_loop TIMEOUT_CONST"

partial_function (option) kbd_write_loop :: "'a kkb_scheme \<Rightarrow> 'a kkb_scheme option" where
  "kbd_write_loop s =
     (let (st, s1) = inb_status s in if st AND KBD_IBF \<noteq> 0 then kbd_write_loop s1 else Some s1)"

definition kbd_write :: "u16 \<Rightarrow> u8 \<Rightarrow> 'a kkb_scheme \<Rightarrow> 'a kkb_scheme option" where
  "kbd_write address data s = map_option (outb_kbd address data) (kbd_write_loop s)"

primrec kb_wait_loop :: "nat \<Rightarrow> 'a kkb_scheme \<Rightarrow> 'a kkb_scheme" where
  "kb_wait_loop 0 s = s"
| "kb_wait_loop (Suc n) s =
     (let (st, s1) = inb_status s in if st AND KBD_IBF = 0 then s1 else kb_wait_loop n s1)"

definition send_cmd :: "u8 \<Rightarrow> 'a kkb_scheme \<Rightarrow> 'a kkb_scheme" where
  "send_cmd c s = outb_kbd KBD_CNTL_REG c (kb_wait_loop TIMEOUT_CONST s)"

definition set_leds :: "'a kkb_scheme \<Rightarrow> 'a kkb_scheme option" where
  "set_leds s =
     (let leds = (scrolllock s OR push_bit 1 (numlock s)) OR push_bit 2 (capslock s)
      in Option.bind (kbd_write KBD_DATA_REG LED_CODE s) (kbd_write KBD_DATA_REG leds))"

definition status_process :: "u8 \<Rightarrow> 'a kkb_scheme \<Rightarrow> 'a kkb_scheme option" where
  "status_process code s =
     (let st = (if code AND 0x80 \<noteq> 0 then 0 else 1); c = code AND NOT 0x80 in
      if c = CAPSLOCK then set_leds (s\<lparr>capslock := 1 - capslock s\<rparr>)
      else if c = NUMLOCK then set_leds (s\<lparr>numlock := 1 - numlock s\<rparr>)
      else if c = SCROLLLOCK then set_leds (s\<lparr>scrolllock := 1 - scrolllock s\<rparr>)
      else if c = 0x2a then Some (s\<lparr>shift := st\<rparr>)
      else if c = 0x36 then Some (s\<lparr>shift := st\<rparr>)
      else Some s)"

section \<open>The ring\<close>

definition kb_put :: "u8 \<Rightarrow> kb_buf_t \<Rightarrow> kb_buf_t res" where
  "kb_put code kb =
     (if kb_count kb < KB_BUF_SIZE then
        res_bind (wr (kb_buf kb) (kb_head kb) code) (\<lambda>b.
        let h = kb_head kb + 1 in
        Inr (kb\<lparr>kb_buf := b, kb_head := (if h = KB_BUF_SIZE then 0 else h), kb_count := kb_count kb + 1\<rparr>))
      else Inr kb)"

definition kb_get :: "kb_buf_t \<Rightarrow> (u8 \<times> kb_buf_t) res" where
  "kb_get kb =
     res_bind (rd (kb_buf kb) (kb_tail kb)) (\<lambda>code.
     let t = kb_tail kb + 1 in
     Inr (code, kb\<lparr>kb_tail := (if t = KB_BUF_SIZE then 0 else t), kb_count := kb_count kb - 1\<rparr>))"

section \<open>The interrupt handler\<close>

text \<open>The loop reads the data port until the controller has no more; the last code read is kept.\<close>

partial_function (option) read_codes :: "'a kkb_scheme \<Rightarrow> (u8 \<times> 'a kkb_scheme) option" where
  "read_codes s =
     (let (code, s1) = inb_data s; (st, s2) = inb_status s1
      in if st AND KBD_OBF \<noteq> 0 then read_codes s2 else Some (code, s2))"

definition is_lock_release :: "u8 \<Rightarrow> bool" where
  "is_lock_release code =
     (code AND 0x80 \<noteq> 0 \<and> (let km = code AND NOT 0x80 in km = CAPSLOCK \<or> km = SCROLLLOCK \<or> km = NUMLOCK))"

definition kbd_int :: "nat \<Rightarrow> 'a kkb_scheme \<Rightarrow> (int \<times> 'a kkb_scheme) exec" where
  "kbd_int irq s =
     (let s1 = send_cmd KBD_CNTL_DISABLE s;
          (st, s2) = inb_status s1
      in case read_codes s2 of
           None \<Rightarrow> None
         | Some (code, s3) \<Rightarrow>
             if is_lock_release code then Some (Inr (1, send_cmd KBD_CNTL_ENABLE s3))
             else
               exec_bind (Some (kb_put code (kb_line s3))) (\<lambda>kb.
               exec_bind (wake_up (Some Kb_wait) (s3\<lparr>kb_line := kb\<rparr>)) (\<lambda>s4.
               Some (Inr (1, send_cmd KBD_CNTL_ENABLE s4)))))"

section \<open>The reader\<close>

definition key :: "char \<Rightarrow> char \<Rightarrow> u16 list" where
  "key c d = [of_char c, of_char d, 0, 0, 0]"

definition no_key :: "u16 list" where
  "no_key = [0, 0, 0, 0, 0]"

definition keymap :: "u16 list list" where
  "keymap = [
    no_key, no_key, key (CHR ''1'') (CHR ''!''), key (CHR ''2'') (CHR ''@''),
    key (CHR ''3'') (CHR ''#''), key (CHR ''4'') (CHR ''$''), key (CHR ''5'') (CHR ''%''),
    key (CHR ''6'') (CHR ''^''), key (CHR ''7'') (CHR ''&''), key (CHR ''8'') (CHR ''*''),
    key (CHR ''9'') (CHR ''(''), key (CHR ''0'') (CHR '')''), key (CHR ''-'') (CHR ''_''),
    key (CHR ''='') (CHR ''+''), no_key, no_key, key (CHR ''q'') (CHR ''Q''),
    key (CHR ''w'') (CHR ''W''), key (CHR ''e'') (CHR ''E''), key (CHR ''r'') (CHR ''R''),
    key (CHR ''t'') (CHR ''T''), key (CHR ''y'') (CHR ''Y''), key (CHR ''u'') (CHR ''U''),
    key (CHR ''i'') (CHR ''I''), key (CHR ''o'') (CHR ''O''), key (CHR ''p'') (CHR ''P''),
    key (CHR ''['') (CHR ''{''), key (CHR '']'') (CHR ''}''), no_key, no_key,
    key (CHR ''a'') (CHR ''A''), key (CHR ''s'') (CHR ''S''), key (CHR ''d'') (CHR ''D''),
    key (CHR ''f'') (CHR ''F''), key (CHR ''g'') (CHR ''G''), key (CHR ''h'') (CHR ''H''),
    key (CHR ''j'') (CHR ''J''), key (CHR ''k'') (CHR ''K''), key (CHR ''l'') (CHR ''L''),
    key (CHR '';'') (CHR '':''), key (CHR 0x27) (CHR 0x22), key (CHR 0x60) (CHR ''~''), no_key,
    key (CHR 0x5C) (CHR ''|''), key (CHR ''z'') (CHR ''Z''), key (CHR ''x'') (CHR ''X''),
    key (CHR ''c'') (CHR ''C''), key (CHR ''v'') (CHR ''V''), key (CHR ''b'') (CHR ''B''),
    key (CHR ''n'') (CHR ''N''), key (CHR ''m'') (CHR ''M''), key (CHR '','') (CHR ''<''),
    key (CHR ''.'') (CHR ''>''), key (CHR ''/'') (CHR ''?''), no_key, no_key, no_key,
    key (CHR '' '') (CHR '' ''), no_key, no_key, no_key, no_key, no_key, no_key, no_key, no_key, no_key,
    no_key, no_key, no_key, no_key, no_key, no_key, no_key, no_key, no_key, no_key, no_key, no_key,
    no_key, no_key, no_key, no_key, no_key, no_key, no_key, no_key, no_key, no_key, no_key, no_key,
    no_key, no_key, no_key]"

definition map_key :: "u8 \<Rightarrow> 'a kkb_scheme \<Rightarrow> u16 res" where
  "map_key scode s =
     res_bind (rd keymap (unat scode)) (\<lambda>row.
     if shift s XOR capslock s \<noteq> 0 then rd row 1 else rd row 0)"

text \<open>
  \<open>kb_read\<close> from where a code is there: \<open>fl\<close> is the saved interrupt flag. \<open>kb_read\<close> itself sleeps
  while the ring is empty; the model returns no value then, and goes on with \<open>kb_read_resume\<close> when
  the process runs again.
\<close>

definition kb_read_take :: "bool \<Rightarrow> 'a kkb_scheme \<Rightarrow> (int option \<times> 'a kkb_scheme) exec" where
  "kb_read_take fl s =
     exec_bind (Some (kb_get (kb_line s))) (\<lambda>(code, kb).
     case status_process code (unlock_irq_restore fl (s\<lparr>kb_line := kb\<rparr>)) of
       None \<Rightarrow> None
     | Some s1 \<Rightarrow>
         if code AND 0x80 = 0 then
           exec_bind (Some (map_key (code AND NOT 0x80) s1)) (\<lambda>c.
           Some (Inr (Some (uint (ucast c :: u8)), s1)))
         else Some (Inr (Some 0, s1)))"

definition kb_read_loop :: "symbols \<Rightarrow> bool \<Rightarrow> 'a kkb_scheme \<Rightarrow> (int option \<times> 'a kkb_scheme) exec" where
  "kb_read_loop sy fl s =
     (if 0 < kb_count (kb_line s) then kb_read_take fl s
      else exec_bind (sleep_on_enter sy Kb_wait s) (\<lambda>s1. Some (Inr (None, s1))))"

definition kb_read :: "symbols \<Rightarrow> 'a kkb_scheme \<Rightarrow> (int option \<times> 'a kkb_scheme) exec" where
  "kb_read sy s = (let (fl, s1) = lock_irq_save s in kb_read_loop sy fl s1)"

definition kb_read_resume ::
    "symbols \<Rightarrow> bool \<Rightarrow> nat \<Rightarrow> 'a kkb_scheme \<Rightarrow> (int option \<times> 'a kkb_scheme) exec" where
  "kb_read_resume sy fl p s = exec_bind (Some (sleep_on_leave Kb_wait p s)) (kb_read_loop sy fl)"

section \<open>Initialisation\<close>

text \<open>A byte written to the controller, and an answer that is compared with the one expected.\<close>

definition kbd_tell :: "u16 \<Rightarrow> u8 \<Rightarrow> 'a kkb_scheme \<Rightarrow> 'a kkb_scheme exec" where
  "kbd_tell address data s = map_option Inr (kbd_write address data s)"

definition kbd_expect :: "u8 list \<Rightarrow> int \<Rightarrow> u8 list \<Rightarrow> 'a kkb_scheme \<Rightarrow> 'a kkb_scheme exec" where
  "kbd_expect stk answer msg s =
     (let (r, s1) = kbd_wait_for_input s in if r \<noteq> answer then Some (printk stk (msg @ [0]) [] s1) else Some (Inr s1))"

definition kb_init :: "u8 list \<Rightarrow> 'a kkb_scheme \<Rightarrow> 'a kkb_scheme exec" where
  "kb_init stk s =
     (let s1 = s\<lparr>kb_line := (kb_line s)\<lparr>kb_head := 0, kb_tail := 0, kb_count := 0\<rparr>,
                 capslock := 0, scrolllock := 0, numlock := 0, shift := 0\<rparr>
      in exec_bind (Some (put_irq_handler 1 Kbd_int s1)) (\<lambda>s2.
         exec_bind (Some (printk stk (bytes ''keyboard check'' @ [10, 0]) [] s2)) (\<lambda>s3.
         exec_bind (kbd_tell KBD_CNTL_REG KBD_SELF_TEST s3) (\<lambda>s4.
         exec_bind (kbd_expect stk 0x55 (bytes ''keyboard failed self test.'') s4) (\<lambda>s5.
         exec_bind (kbd_tell KBD_CNTL_REG KBD_SELF_TEST2 s5) (\<lambda>s6.
         exec_bind (kbd_expect stk 0 (bytes ''keyboard failed self test 2.'') s6) (\<lambda>s7.
         exec_bind (kbd_tell KBD_CNTL_REG KBD_CNTL_ENABLE s7) (\<lambda>s8.
         exec_bind (kbd_tell KBD_DATA_REG KBD_RESET s8) (\<lambda>s9.
         exec_bind (kbd_expect stk KBD_ACK (bytes ''reset kbd failed, no ACK.'') s9) (\<lambda>s10.
         exec_bind (kbd_expect stk KBD_POR (bytes ''reset kbd failed, not POR.'') s10) (\<lambda>s11.
         exec_bind (kbd_tell KBD_DATA_REG KBD_DISABLE s11) (\<lambda>s12.
         exec_bind (kbd_expect stk KBD_ACK (bytes ''disable kbd failed, no ACK.'' @ [10]) s12) (\<lambda>s13.
         exec_bind (kbd_tell KBD_CNTL_REG KBD_WRITE_MODE s13) (\<lambda>s14.
         exec_bind (kbd_tell KBD_DATA_REG (((KBD_EKI OR KBD_SYS) OR KBD_DMS) OR KBD_KCC) s14) (\<lambda>s15.
         exec_bind (kbd_tell KBD_DATA_REG KBD_ENABLE s15) (\<lambda>s16.
         exec_bind (kbd_expect stk KBD_ACK (bytes ''keyboard enable failed.'' @ [10]) s16) (\<lambda>s17.
         Some (Inr (enable_irq 1 s17)))))))))))))))))))"

end
