(* ===== verification/Kb_Props.thy ===== *)
theory Kb_Props
  imports Kb
begin

text \<open>
  The keyboard ring as a bounded first-in first-out buffer, and the properties of the keyboard
  driver (\<^verbatim>\<open>ker/kb.c\<close>).
\<close>

section \<open>The contract of a bounded buffer that drops what does not fit\<close>

fun run_puts :: "('x \<Rightarrow> 's \<Rightarrow> 's res) \<Rightarrow> 'x list \<Rightarrow> 's \<Rightarrow> 's res" where
  "run_puts f [] s = Inr s"
| "run_puts f (x # xs) s = res_bind (f x s) (run_puts f xs)"

fun run_gets :: "('s \<Rightarrow> ('x \<times> 's) res) \<Rightarrow> nat \<Rightarrow> 's \<Rightarrow> ('x list \<times> 's) res" where
  "run_gets g 0 s = Inr ([], s)"
| "run_gets g (Suc n) s =
     res_bind (g s) (\<lambda>(x, s1). res_bind (run_gets g n s1) (\<lambda>(xs, s2). Inr (x # xs, s2)))"

locale bounded_fifo =
  fixes put :: "'x \<Rightarrow> 's \<Rightarrow> 's res"
    and get :: "'s \<Rightarrow> ('x \<times> 's) res"
    and rep :: "'s \<Rightarrow> 'x list \<Rightarrow> bool"
    and cap :: nat
  assumes rep_bounded: "rep s q \<Longrightarrow> length q \<le> cap"
    and put_fits: "rep s q \<Longrightarrow> length q < cap \<Longrightarrow> \<exists>s'. put x s = Inr s' \<and> rep s' (q @ [x])"
    and put_full: "rep s q \<Longrightarrow> length q = cap \<Longrightarrow> put x s = Inr s"
    and get_front: "rep s (x # q) \<Longrightarrow> \<exists>s'. get s = Inr (x, s') \<and> rep s' q"
begin

lemma puts: "rep s q \<Longrightarrow> \<exists>s'. run_puts put xs s = Inr s' \<and> rep s' (take cap (q @ xs))"
proof (induction xs arbitrary: s q)
  case Nil
  then show ?case using rep_bounded [OF Nil] by simp
next
  case (Cons x xs)
  show ?case
  proof (cases "length q < cap")
    case True
    then obtain s1 where s1: "put x s = Inr s1" "rep s1 (q @ [x])" using put_fits Cons.prems by blast
    with Cons.IH [OF s1(2)] show ?thesis by auto
  next
    case False
    then have l: "length q = cap" using rep_bounded [OF Cons.prems] by simp
    then have "run_puts put (x # xs) s = run_puts put xs s" using put_full [OF Cons.prems] by simp
    with Cons.IH [OF Cons.prems] l show ?thesis by simp
  qed
qed

lemma gets: "rep s (xs @ q) \<Longrightarrow> \<exists>s'. run_gets get (length xs) s = Inr (xs, s') \<and> rep s' q"
proof (induction xs arbitrary: s)
  case Nil
  then show ?case by simp
next
  case (Cons x xs)
  then obtain s1 where s1: "get s = Inr (x, s1)" "rep s1 (xs @ q)" using get_front by fastforce
  with Cons.IH [OF s1(2)] show ?case by auto
qed

text \<open>What was put comes out in order, as far as it fitted.\<close>

lemma puts_gets:
  assumes "rep s []"
  shows "\<exists>s1 s2. run_puts put xs s = Inr s1
    \<and> run_gets get (min cap (length xs)) s1 = Inr (take cap xs, s2) \<and> rep s2 []"
proof -
  obtain s1 where s1: "run_puts put xs s = Inr s1" "rep s1 (take cap xs @ [])"
    using puts [OF assms, of xs] by auto
  have "length (take cap xs) = min cap (length xs)" by (simp add: min.commute)
  with gets [OF s1(2)] s1(1) show ?thesis by auto
qed

end

section \<open>The keyboard ring\<close>

definition ring_rep :: "kb_buf_t \<Rightarrow> u8 list \<Rightarrow> bool" where
  "ring_rep kb q \<longleftrightarrow> length (kb_buf kb) = KB_BUF_SIZE \<and> kb_tail kb < KB_BUF_SIZE
     \<and> kb_count kb = length q \<and> length q \<le> KB_BUF_SIZE
     \<and> kb_head kb = (kb_tail kb + length q) mod KB_BUF_SIZE
     \<and> (\<forall>i < length q. kb_buf kb ! ((kb_tail kb + i) mod KB_BUF_SIZE) = q ! i)"

lemma wrap_mod: "a < (n :: nat) \<Longrightarrow> (if a + 1 = n then 0 else a + 1) = (a + 1) mod n"
  by (simp add: mod_Suc)

lemma mod_index_neq:
  assumes "t < (n :: nat)" "i < j" "j < n"
  shows "(t + i) mod n \<noteq> (t + j) mod n"
proof
  assume "(t + i) mod n = (t + j) mod n"
  then have "n dvd (t + j) - (t + i)" using assms by (metis mod_eq_dvd_iff_nat nat_add_left_cancel_le less_imp_le)
  then show False using assms by (simp add: nat_dvd_not_less)
qed

lemma kb_put_rep:
  assumes r: "ring_rep kb q" and l: "length q < KB_BUF_SIZE"
  shows "\<exists>kb'. kb_put x kb = Inr kb' \<and> ring_rep kb' (q @ [x])"
proof -
  let ?n = KB_BUF_SIZE
  have n: "0 < ?n" by (simp add: KB_BUF_SIZE_def)
  have h: "kb_head kb = (kb_tail kb + length q) mod ?n" "kb_head kb < ?n" using r n by (auto simp: ring_rep_def)
  let ?k = "kb\<lparr>kb_buf := (kb_buf kb)[kb_head kb := x], kb_head := (kb_head kb + 1) mod ?n, kb_count := kb_count kb + 1\<rparr>"
  have "kb_put x kb = Inr ?k"
    unfolding kb_put_def Let_def wrap_mod [OF h(2)] using r l h(2) by (simp add: ring_rep_def)
  moreover have "kb_buf ?k ! ((kb_tail kb + i) mod ?n) = (q @ [x]) ! i" if "i < length (q @ [x])" for i
  proof (cases "i = length q")
    case True
    then show ?thesis using r h by (simp add: ring_rep_def nth_append)
  next
    case False
    then have i: "i < length q" using that by simp
    have "(kb_tail kb + i) mod ?n \<noteq> kb_head kb"
      using mod_index_neq [of "kb_tail kb" ?n i "length q"] r i l h(1) by (simp add: ring_rep_def)
    then show ?thesis using r i by (simp add: ring_rep_def nth_append)
  qed
  moreover have "(kb_head kb + 1) mod ?n = (kb_tail kb + length (q @ [x])) mod ?n"
    using h(1) by (simp add: mod_simps)
  ultimately show ?thesis using r l by (intro exI [of _ ?k]) (auto simp: ring_rep_def)
qed

lemma kb_get_rep:
  assumes r: "ring_rep kb (x # q)"
  shows "\<exists>kb'. kb_get kb = Inr (x, kb') \<and> ring_rep kb' q"
proof -
  let ?n = KB_BUF_SIZE
  have t: "kb_tail kb < ?n" using r by (simp add: ring_rep_def)
  have x: "kb_buf kb ! kb_tail kb = x"
    using r t by (auto simp: ring_rep_def dest: spec [of _ 0])
  let ?k = "kb\<lparr>kb_tail := (kb_tail kb + 1) mod ?n, kb_count := kb_count kb - 1\<rparr>"
  have "kb_get kb = Inr (x, ?k)"
    unfolding kb_get_def Let_def wrap_mod [OF t] using r t x by (simp add: ring_rep_def)
  moreover have "kb_buf kb ! (((kb_tail kb + 1) mod ?n + i) mod ?n) = q ! i" if "i < length q" for i
  proof -
    have "kb_buf kb ! ((kb_tail kb + Suc i) mod ?n) = (x # q) ! Suc i"
      using r that unfolding ring_rep_def by (metis Suc_less_eq length_Cons)
    then show ?thesis by (simp add: mod_simps)
  qed
  ultimately show ?thesis
    using r by (intro exI [of _ ?k]) (auto simp: ring_rep_def mod_simps KB_BUF_SIZE_def)
qed

interpretation kb_fifo: bounded_fifo kb_put kb_get ring_rep KB_BUF_SIZE
proof
  fix s :: kb_buf_t and q x
  show "ring_rep s q \<Longrightarrow> length q \<le> KB_BUF_SIZE" by (simp add: ring_rep_def)
  show "ring_rep s q \<Longrightarrow> length q < KB_BUF_SIZE \<Longrightarrow> \<exists>s'. kb_put x s = Inr s' \<and> ring_rep s' (q @ [x])"
    by (rule kb_put_rep)
  show "ring_rep s q \<Longrightarrow> length q = KB_BUF_SIZE \<Longrightarrow> kb_put x s = Inr s"
    by (simp add: ring_rep_def kb_put_def)
  show "ring_rep s (x # q) \<Longrightarrow> \<exists>s'. kb_get s = Inr (x, s') \<and> ring_rep s' q"
    by (rule kb_get_rep)
qed

text \<open>
  the keyboard ring is a first-in first-out buffer of 32 codes. Whatever position its
  two pointers have when it is empty, the codes put into it come out in their order; those that do
  not fit are dropped, never an older one, and no access is outside the array.
\<close>

theorem kb_ring_fifo:
  assumes "ring_rep kb []"
  shows "\<exists>k1 k2. run_puts kb_put codes kb = Inr k1
    \<and> run_gets kb_get (min KB_BUF_SIZE (length codes)) k1 = Inr (take KB_BUF_SIZE codes, k2) \<and> ring_rep k2 []"
  using assms by (rule kb_fifo.puts_gets)

definition empty_ring :: kb_buf_t where
  "empty_ring = \<lparr>kb_head = 30, kb_tail = 30, kb_count = 0, kb_buf = replicate 32 0\<rparr>"

theorem kb_ring_fifo_witness:
  "\<exists>k1 k2. run_puts kb_put [1, 2, 3] empty_ring = Inr k1 \<and> run_gets kb_get 3 k1 = Inr ([1, 2, 3], k2)"
proof -
  have "ring_rep empty_ring []" by (simp add: ring_rep_def empty_ring_def KB_BUF_SIZE_def)
  moreover have "min KB_BUF_SIZE (length [1, 2, 3 :: u8]) = 3" "take KB_BUF_SIZE [1, 2, 3 :: u8] = [1, 2, 3]"
    by (simp_all add: KB_BUF_SIZE_def)
  ultimately show ?thesis using kb_ring_fifo [of empty_ring "[1, 2, 3]"] by metis
qed

section \<open>The reader\<close>

text \<open>The character of a key, by the state of shift and caps lock.\<close>

definition key_char :: "u8 \<Rightarrow> bool \<Rightarrow> int" where
  "key_char code upper = uint (ucast (keymap ! unat code ! (if upper then 1 else 0)) :: u8)"

lemma keymap_rows: "\<forall>row \<in> set keymap. length row = 5"
  by (simp add: keymap_def key_def no_key_def)

lemma length_keymap: "length keymap = 94"
  by (simp add: keymap_def)

lemma map_key_in:
  assumes "unat c < 94"
  shows "map_key c s = Inr (keymap ! unat c ! (if shift s XOR capslock s \<noteq> 0 then 1 else 0))"
proof -
  have "unat c < length keymap" using assms by (simp only: length_keymap)
  then have "length (keymap ! unat c) = 5" "rd keymap (unat c) = Inr (keymap ! unat c)"
    using keymap_rows by simp_all
  then show ?thesis by (simp add: map_key_def)
qed

lemma map_key_out: "94 \<le> unat c \<Longrightarrow> map_key c s = Inl Out_of_bounds"
  by (simp add: map_key_def length_keymap)

lemma press_code: "c AND 0x80 = 0 \<Longrightarrow> c AND NOT 0x80 = (c :: u8)"
  by (rule bit_word_eqI) (metis (no_types, opaque_lifting) bit.conj_cancel_right bit.conj_disj_distrib bit_0 bit_and_iff bit_not_iff bit_or_iff disj.comm_neutral bit.disj_cancel_right bit.conj_one_right)

text \<open>
  What a scan code does to the keyboard's state: a shift key sets shift as long as it is down, and each code of a
  lock key turns the lock over. The lights show the three locks in their bits.
\<close>

definition key_state :: "u8 \<Rightarrow> 'a kkb_scheme \<Rightarrow> 'a kkb_scheme" where
  "key_state c s = (let k = c AND NOT 0x80 in s\<lparr>
     shift := (if k = 0x2a \<or> k = 0x36 then (if c AND 0x80 = 0 then 1 else 0) else shift s),
     capslock := (if k = CAPSLOCK then 1 - capslock s else capslock s),
     scrolllock := (if k = SCROLLLOCK then 1 - scrolllock s else scrolllock s),
     numlock := (if k = NUMLOCK then 1 - numlock s else numlock s)\<rparr>)"

definition lock_key :: "u8 \<Rightarrow> bool" where
  "lock_key c \<longleftrightarrow> c AND NOT 0x80 \<in> {CAPSLOCK, NUMLOCK, SCROLLLOCK}"

definition lights :: "'a kkb_scheme \<Rightarrow> u8" where
  "lights s = (scrolllock s OR push_bit 1 (numlock s)) OR push_bit 2 (capslock s)"

text \<open>A controller that is, again and again, ready for a byte.\<close>

definition takes_bytes :: "'a kkb_scheme \<Rightarrow> bool" where
  "takes_bytes s \<longleftrightarrow> (\<forall>k. \<exists>n. kp_status (kbd s) (k + n) AND KBD_IBF = 0)"

lemma kbd_write_loop_ends:
  assumes "kp_status (kbd s) (kp_nstatus (kbd s) + n) AND KBD_IBF = 0"
  shows "\<exists>m. kbd_write_loop s = Some (s\<lparr>kbd := (kbd s)\<lparr>kp_nstatus := m\<rparr>\<rparr>)"
  using assms
proof (induction n arbitrary: s)
  case 0
  then show ?case by (subst kbd_write_loop.simps) (auto simp: inb_status_def)
next
  case (Suc n)
  let ?s = "s\<lparr>kbd := (kbd s)\<lparr>kp_nstatus := kp_nstatus (kbd s) + 1\<rparr>\<rparr>"
  from Suc.IH [of ?s] Suc.prems have "\<exists>m. kbd_write_loop ?s = Some (s\<lparr>kbd := (kbd s)\<lparr>kp_nstatus := m\<rparr>\<rparr>)" by simp
  then show ?case by (subst kbd_write_loop.simps) (auto simp: inb_status_def)
qed

lemma kbd_write_spec:
  assumes "takes_bytes s"
  shows "\<exists>p. kbd_write a d s = Some (s\<lparr>kbd := p\<rparr>) \<and> kp_out p = (a, d) # kp_out (kbd s) \<and> kp_status p = kp_status (kbd s)"
proof -
  obtain n where "kp_status (kbd s) (kp_nstatus (kbd s) + n) AND KBD_IBF = 0" using assms by (auto simp: takes_bytes_def)
  from kbd_write_loop_ends [OF this] show ?thesis by (auto simp: kbd_write_def outb_kbd_def)
qed

lemma set_leds_spec:
  assumes "takes_bytes s"
  shows "\<exists>p. set_leds s = Some (s\<lparr>kbd := p\<rparr>) \<and> kp_out p = (KBD_DATA_REG, lights s) # (KBD_DATA_REG, LED_CODE) # kp_out (kbd s)"
proof -
  obtain p where p: "kbd_write KBD_DATA_REG LED_CODE s = Some (s\<lparr>kbd := p\<rparr>)" "kp_out p = (KBD_DATA_REG, LED_CODE) # kp_out (kbd s)"
    "kp_status p = kp_status (kbd s)" using kbd_write_spec [OF assms] by blast
  have "takes_bytes (s\<lparr>kbd := p\<rparr>)" using assms p(3) by (simp add: takes_bytes_def)
  from kbd_write_spec [OF this, of KBD_DATA_REG "lights s"] p(1,2) show ?thesis by (auto simp: set_leds_def lights_def)
qed

lemma status_process_spec:
  assumes "lock_key c \<Longrightarrow> takes_bytes s"
  shows "\<exists>p. status_process c s = Some ((key_state c s)\<lparr>kbd := p\<rparr>)
    \<and> kp_out p = (if lock_key c then (KBD_DATA_REG, lights (key_state c s)) # (KBD_DATA_REG, LED_CODE) # kp_out (kbd s) else kp_out (kbd s))"
proof (cases "lock_key c")
  case True
  have t: "takes_bytes (key_state c s)" using assms [OF True] by (simp add: takes_bytes_def key_state_def Let_def)
  have "status_process c s = set_leds (key_state c s)"
    using True by (auto simp: status_process_def key_state_def lock_key_def Let_def CAPSLOCK_def NUMLOCK_def SCROLLLOCK_def)
  with set_leds_spec [OF t] True show ?thesis by (simp add: key_state_def Let_def)
next
  case False
  then have "status_process c s = Some ((key_state c s)\<lparr>kbd := kbd s\<rparr>)"
    by (auto simp: status_process_def key_state_def lock_key_def Let_def)
  then show ?thesis using False by auto
qed

text \<open>
  Property C29: with a code in the ring, \<open>kb_read\<close> takes the oldest one, whatever it is, and restores the interrupt
  flag. A code of a shift key sets or clears shift, and one of a lock key turns the lock over and sends the lights of
  the three locks to the keyboard. The release of a key returns 0. The press of a key returns the key's character, the upper
  one when exactly one of shift and caps lock is on then; but a press with a scan code from 94 on, which the controller
  can send, is looked up outside the table.
\<close>

theorem kb_read_returns:
  assumes "ring_rep (kb_line s) (c # q)" "lock_key c \<Longrightarrow> takes_bytes s" "t = key_state c s"
  shows "if c AND 0x80 = 0 \<and> 94 \<le> unat c then kb_read sy s = Some (Inl Out_of_bounds)
    else \<exists>p kb. kb_read sy s = Some (Inr (Some (if c AND 0x80 = 0 then key_char c (shift t XOR capslock t \<noteq> 0) else 0),
        t\<lparr>kb_line := kb, kbd := p\<rparr>))
      \<and> ring_rep kb q
      \<and> kp_out p = (if lock_key c then (KBD_DATA_REG, lights t) # (KBD_DATA_REG, LED_CODE) # kp_out (kbd s) else kp_out (kbd s))"
proof -
  obtain kb where kb: "kb_get (kb_line s) = Inr (c, kb)" "ring_rep kb q" using kb_get_rep [OF assms(1)] by blast
  let ?s2 = "s\<lparr>kb_line := kb\<rparr>"
  have t2: "key_state c ?s2 = t\<lparr>kb_line := kb\<rparr>" "lights (t\<lparr>kb_line := kb\<rparr>) = lights t" "kbd ?s2 = kbd s"
    by (simp_all add: assms(3) key_state_def lights_def Let_def)
  have u: "unlock_irq_restore (ief s) (s\<lparr>ief := False, kb_line := kb\<rparr>) = ?s2" by (simp add: irq_defs)
  have "lock_key c \<Longrightarrow> takes_bytes ?s2" using assms(2) by (simp add: takes_bytes_def)
  then obtain p where p: "status_process c ?s2 = Some (t\<lparr>kb_line := kb, kbd := p\<rparr>)"
    "kp_out p = (if lock_key c then (KBD_DATA_REG, lights t) # (KBD_DATA_REG, LED_CODE) # kp_out (kbd s) else kp_out (kbd s))"
    using status_process_spec [of c ?s2] unfolding t2 by blast
  let ?t = "t\<lparr>kb_line := kb, kbd := p\<rparr>"
  have "0 < kb_count (kb_line s)" using assms(1) by (simp add: ring_rep_def)
  then have run: "kb_read sy s = (if c AND 0x80 = 0 then exec_bind (Some (map_key (c AND NOT 0x80) ?t)) (\<lambda>v. Some (Inr (Some (uint (ucast v :: u8)), ?t)))
      else Some (Inr (Some 0, ?t)))"
    using kb(1) u p(1) by (simp add: kb_read_def kb_read_loop_def kb_read_take_def lock_irq_save_def)
  show ?thesis
  proof (cases "c AND 0x80 = 0")
    case press: True
    have r: "kb_read sy s = exec_bind (Some (map_key c ?t)) (\<lambda>v. Some (Inr (Some (uint (ucast v :: u8)), ?t)))"
      unfolding run using press press_code [OF press] by simp
    show ?thesis
    proof (cases "94 \<le> unat c")
      case True
      then show ?thesis using r map_key_out [of c ?t] press by simp
    next
      case False
      then have "kb_read sy s = Some (Inr (Some (key_char c (shift t XOR capslock t \<noteq> 0)), ?t))"
        unfolding r by (simp add: map_key_in key_char_def)
      moreover have n: "\<not> (c AND 0x80 = 0 \<and> 94 \<le> unat c)" using False by simp
      ultimately show ?thesis unfolding if_not_P [OF n] if_P [OF press] using kb(2) p(2) by blast
    qed
  next
    case False
    then have "kb_read sy s = Some (Inr (Some 0, ?t))" unfolding run by simp
    moreover have n: "\<not> (c AND 0x80 = 0 \<and> 94 \<le> unat c)" using False by simp
    ultimately show ?thesis unfolding if_not_P [OF n] if_not_P [OF False] using kb(2) p(2) by blast
  qed
qed

definition kb_state :: kkb where
  "kb_state = kirq.extend irq_state \<lparr>kbd = \<lparr>kp_status = (\<lambda>_. 0), kp_data = (\<lambda>_. 0x1e), kp_nstatus = 0, kp_ndata = 0, kp_out = []\<rparr>,
     kb_line = \<lparr>kb_head = 1, kb_tail = 0, kb_count = 1, kb_buf = 0x1e # replicate 31 0\<rparr>,
     shift = 1, capslock = 0, scrolllock = 0, numlock = 0\<rparr>"

text \<open>The same keyboard with the press of caps lock.\<close>

definition caps_state :: kkb where
  "caps_state = kb_state\<lparr>kb_line := \<lparr>kb_head = 1, kb_tail = 0, kb_count = 1, kb_buf = CAPSLOCK # replicate 31 0\<rparr>\<rparr>"

theorem kb_read_returns_witness:
  "(\<exists>s'. kb_read no_symbols kb_state = Some (Inr (Some (of_char (CHR ''A'')), s')))
   \<and> (\<exists>s'. kb_read no_symbols caps_state = Some (Inr (Some 0, s')) \<and> capslock s' = 1 \<and> kp_out (kbd s') = [(0x60, 4), (0x60, 0xED)])"
proof
  have "ring_rep (kb_line kb_state) [0x1e]"
    by (simp add: ring_rep_def kb_state_def kirq.extend_def KB_BUF_SIZE_def)
  moreover have "\<not> lock_key 0x1e" by (simp add: lock_key_def CAPSLOCK_def NUMLOCK_def SCROLLLOCK_def)
  moreover have "shift (key_state 0x1e kb_state) = 1" "capslock (key_state 0x1e kb_state) = 0"
    by (simp_all add: key_state_def kb_state_def kirq.extend_def CAPSLOCK_def)
  moreover have "key_char 0x1e True = of_char (CHR ''A'')" by (simp add: key_char_def keymap_def key_def of_char_def)
  ultimately show "\<exists>s'. kb_read no_symbols kb_state = Some (Inr (Some (of_char (CHR ''A'')), s'))"
    using kb_read_returns [of kb_state "0x1e" "[]" "key_state 0x1e kb_state" no_symbols] by auto
  have "ring_rep (kb_line caps_state) [CAPSLOCK]" "takes_bytes caps_state" "lock_key CAPSLOCK" "CAPSLOCK AND 0x80 = 0" "unat CAPSLOCK < 94"
    by (simp_all add: caps_state_def ring_rep_def kb_state_def kirq.extend_def KB_BUF_SIZE_def takes_bytes_def lock_key_def CAPSLOCK_def)
  moreover have "capslock (key_state CAPSLOCK caps_state) = 1" "lights (key_state CAPSLOCK caps_state) = 4" "kp_out (kbd caps_state) = []"
    by (simp_all add: key_state_def lights_def caps_state_def kb_state_def kirq.extend_def CAPSLOCK_def SCROLLLOCK_def NUMLOCK_def)
  moreover have "key_char CAPSLOCK b = 0" for b by (simp add: key_char_def keymap_def no_key_def CAPSLOCK_def)
  ultimately show "\<exists>s'. kb_read no_symbols caps_state = Some (Inr (Some 0, s')) \<and> capslock s' = 1 \<and> kp_out (kbd s') = [(0x60, 4), (0x60, 0xED)]"
    using kb_read_returns [of caps_state CAPSLOCK "[]" "key_state CAPSLOCK caps_state" no_symbols]
    by (auto simp: KBD_DATA_REG_def LED_CODE_def)
qed

section \<open>The interrupt\<close>

lemma kb_wait_frame: "\<exists>k. kb_wait_loop n s = s\<lparr>kbd := k\<rparr>"
proof (induction n arbitrary: s)
  case 0
  then show ?case by (auto intro: exI [of _ "kbd s"])
next
  case (Suc n)
  from Suc [of "snd (inb_status s)"] show ?case by (auto simp: inb_status_def Let_def)
qed

lemma send_cmd_frame: "\<exists>k. send_cmd c s = s\<lparr>kbd := k\<rparr>"
  using kb_wait_frame [of TIMEOUT_CONST s] by (auto simp: send_cmd_def outb_kbd_def)

lemma read_codes_spec:
  assumes "\<forall>i < n. kp_status (kbd s) (kp_nstatus (kbd s) + i) AND KBD_OBF \<noteq> 0"
    and "kp_status (kbd s) (kp_nstatus (kbd s) + n) AND KBD_OBF = 0"
  shows "\<exists>k. read_codes s = Some (kp_data (kbd s) (kp_ndata (kbd s) + n), s\<lparr>kbd := k\<rparr>)"
  using assms
proof (induction n arbitrary: s)
  case 0
  let ?k = "(kbd s)\<lparr>kp_nstatus := kp_nstatus (kbd s) + 1, kp_ndata := kp_ndata (kbd s) + 1\<rparr>"
  have "kp_status (kbd s) (kp_nstatus (kbd s)) AND KBD_OBF = 0" using "0.prems"(2) by simp
  then have "read_codes s = Some (kp_data (kbd s) (kp_ndata (kbd s) + 0), s\<lparr>kbd := ?k\<rparr>)"
    by (subst read_codes.simps) (simp add: inb_data_def inb_status_def)
  then show ?case by (rule exI)
next
  case (Suc n)
  let ?s = "s\<lparr>kbd := (kbd s)\<lparr>kp_ndata := kp_ndata (kbd s) + 1, kp_nstatus := kp_nstatus (kbd s) + 1\<rparr>\<rparr>"
  have "\<forall>i < n. kp_status (kbd ?s) (kp_nstatus (kbd ?s) + i) AND KBD_OBF \<noteq> 0"
  proof (intro allI impI)
    fix i
    assume "i < n"
    then have "Suc i < Suc n" by simp
    with Suc.prems(1) have "kp_status (kbd s) (kp_nstatus (kbd s) + Suc i) AND KBD_OBF \<noteq> 0" by blast
    then show "kp_status (kbd ?s) (kp_nstatus (kbd ?s) + i) AND KBD_OBF \<noteq> 0" by simp
  qed
  moreover have "kp_status (kbd ?s) (kp_nstatus (kbd ?s) + n) AND KBD_OBF = 0" using Suc.prems(2) by simp
  ultimately obtain k where "read_codes ?s = Some (kp_data (kbd ?s) (kp_ndata (kbd ?s) + n), ?s\<lparr>kbd := k\<rparr>)"
    using Suc.IH by blast
  moreover have "read_codes s = read_codes ?s"
  proof -
    have "kp_status (kbd s) (kp_nstatus (kbd s) + 0) AND KBD_OBF \<noteq> 0" using Suc.prems(1) by blast
    then show ?thesis by (subst read_codes.simps) (simp add: inb_data_def inb_status_def)
  qed
  ultimately show ?case by (intro exI [of _ k]) simp
qed

text \<open>The keyboard after the handler has disabled it and read the status once.\<close>

definition at_codes :: "'a kkb_scheme \<Rightarrow> kbd_port" where
  "at_codes s = kbd (snd (inb_status (send_cmd KBD_CNTL_DISABLE s)))"

text \<open>
  Property C28: the keyboard interrupt stores one code and wakes every reader. When the controller
  holds \<open>n\<close> more codes, the loop reads all \<open>n + 1\<close> and stores the last, if it is not the release of a lock
  key, which is skipped: the others are lost, although the ring has room.
\<close>

theorem kbd_int_stores_last:
  assumes "\<forall>i < n. kp_status (at_codes s) (kp_nstatus (at_codes s) + i) AND KBD_OBF \<noteq> 0"
    and "kp_status (at_codes s) (kp_nstatus (at_codes s) + n) AND KBD_OBF = 0"
    and "\<not> is_lock_release (kp_data (at_codes s) (kp_ndata (at_codes s) + n))"
    and "ring_rep (kb_line s) q" "length q < KB_BUF_SIZE"
    and "ready_rep s L" "ring (wait_links s) Kb_wait (map Waiter ps)" "distinct (L @ ps)" "list_all user_task ps"
  shows "\<exists>s'. kbd_int irq s = Some (Inr (1, s'))
    \<and> ring_rep (kb_line s') (q @ [kp_data (at_codes s) (kp_ndata (at_codes s) + n)])
    \<and> ready_rep s' (L @ ps)"
proof -
  let ?c = "kp_data (at_codes s) (kp_ndata (at_codes s) + n)"
  obtain k1 where k1: "send_cmd KBD_CNTL_DISABLE s = s\<lparr>kbd := k1\<rparr>" using send_cmd_frame by blast
  have i: "inb_status (s\<lparr>kbd := k1\<rparr>) = (kp_status k1 (kp_nstatus k1), s\<lparr>kbd := at_codes s\<rparr>)"
    by (simp add: at_codes_def k1 inb_status_def)
  obtain k3 where k3: "read_codes (s\<lparr>kbd := at_codes s\<rparr>) = Some (?c, s\<lparr>kbd := k3\<rparr>)"
    using read_codes_spec [of n "s\<lparr>kbd := at_codes s\<rparr>"] assms(1,2) by auto
  obtain kb where kb: "kb_put ?c (kb_line s) = Inr kb" "ring_rep kb (q @ [?c])"
    using kb_put_rep [OF assms(4,5)] by blast
  let ?s3 = "s\<lparr>kbd := k3, kb_line := kb\<rparr>"
  have "ready_rep ?s3 L" using assms(6) by (simp add: ready_rep_def next_of_def)
  moreover have "ring (wait_links ?s3) Kb_wait (map Waiter ps)" using assms(7) by simp
  moreover have "Kb_wait \<notin> range Waiter" by auto
  ultimately obtain s4 where s4: "wake_up (Some Kb_wait) ?s3 = Some (Inr s4)" "ready_rep s4 (L @ ps)" "woke ?s3 s4"
    using wake_up_spec assms(8,9) by blast
  obtain k5 where k5: "send_cmd KBD_CNTL_ENABLE s4 = s4\<lparr>kbd := k5\<rparr>" using send_cmd_frame by blast
  have "kb_line s4 = kb"
  proof -
    have "kstate.more s4 = kstate.more ?s3" using s4(3) by (simp add: woke_def same_rest_def)
    then show ?thesis by (cases s4; cases s) simp
  qed
  moreover have "ready_rep (s4\<lparr>kbd := k5\<rparr>) (L @ ps)" using s4(2) by (simp add: ready_rep_def next_of_def)
  ultimately show ?thesis
    using assms(3) k1 i k3 kb s4(1) k5
    by (intro exI [of _ "s4\<lparr>kbd := k5\<rparr>"]) (simp add: kbd_int_def)
qed

text \<open>The controller holds the codes of two presses, 0x1e and 0x30.\<close>

definition two_codes :: kkb where
  "two_codes = kb_state\<lparr>kbd := \<lparr>kp_status = (\<lambda>n. if n = 2 then 1 else 0), kp_data = (\<lambda>n. if n = 0 then 0x1e else 0x30),
     kp_nstatus = 0, kp_ndata = 0, kp_out = []\<rparr>, kb_line := empty_ring\<rparr>"

theorem kbd_int_stores_last_witness:
  "\<exists>s'. kbd_int 1 two_codes = Some (Inr (1, s')) \<and> ring_rep (kb_line s') [0x30]"
proof -
  have T: "TIMEOUT_CONST = Suc 499999" by (simp add: TIMEOUT_CONST_def)
  have "kb_wait_loop TIMEOUT_CONST two_codes = snd (inb_status two_codes)"
    unfolding T kb_wait_loop.simps by (simp add: inb_status_def two_codes_def)
  then have c: "kp_nstatus (at_codes two_codes) = 2" "kp_ndata (at_codes two_codes) = 0"
    "kp_status (at_codes two_codes) = (\<lambda>n. if n = 2 then 1 else 0)"
    "kp_data (at_codes two_codes) = (\<lambda>n. if n = 0 then 0x1e else 0x30)"
    by (simp_all add: at_codes_def send_cmd_def outb_kbd_def inb_status_def two_codes_def)
  have "ring_rep (kb_line two_codes) []"
    by (simp add: two_codes_def ring_rep_def empty_ring_def KB_BUF_SIZE_def)
  moreover have "ready_rep two_codes []" "ring (wait_links two_codes) Kb_wait (map Waiter [])"
    by (simp_all add: two_codes_def kb_state_def kirq.extend_def irq_state_def kcons.extend_def last_cell_def kstate.extend_def
        boot_state_def ready_rep_def ring_empty)
  moreover have "\<not> is_lock_release 0x30" by (simp add: is_lock_release_def)
  ultimately have "\<exists>s'. kbd_int 1 two_codes = Some (Inr (1, s')) \<and> ring_rep (kb_line s') [0x30] \<and> ready_rep s' []"
    using kbd_int_stores_last [of 1 two_codes "[]" "[]" "[]" 1] c
    by (simp add: KBD_OBF_def KB_BUF_SIZE_def)
  then show ?thesis by blast
qed

end
