(* ===== verification/Clock.thy ===== *)
theory Clock
  imports Kb
begin

text \<open>
  The timer, the real time clock and the speaker: \<^verbatim>\<open>ker/clock.c\<close> with the constants of \<^verbatim>\<open>include/time.h\<close>
  and \<^verbatim>\<open>include/cmos.h\<close>. The registers of the clock chip are an argument: \<open>cmos_in n r\<close> is what its
  \<open>n\<close>-th read returns when register \<open>r\<close> is selected. Port 0x61 reads back what was written to it.
\<close>

section \<open>The state\<close>

record cmos_time =
  ct_sec :: u32
  ct_min :: u32
  ct_hour :: u32
  ct_day :: u32
  ct_mon :: u32
  ct_year :: u32
  ct_cen :: u32

record kclk = kkb +
  clocktick :: u32
  clocktime :: cmos_time
  cmos_in :: "nat \<Rightarrow> u8 \<Rightarrow> u8"
  cmos_n :: nat
  cmos_index :: u8
  port61 :: u8
  timer_out :: "(u16 \<times> u8) list"

definition TIMER_MODE :: u16 where "TIMER_MODE = 0x43"
definition TIMER0 :: u16 where "TIMER0 = 0x40"
definition TIMER2 :: u16 where "TIMER2 = 0x42"
definition HZ :: nat where "HZ = 60"
definition CLOCK_TICK_RATE :: nat where "CLOCK_TICK_RATE = 1193182"
definition TIMER_COUNT :: nat where "TIMER_COUNT = CLOCK_TICK_RATE div HZ"
definition SQUARE_WAVE :: u8 where "SQUARE_WAVE = 0x34"
definition BEEP_FREQ :: nat where "BEEP_FREQ = 0x533"
definition RTC_SECONDS :: u8 where "RTC_SECONDS = 0"
definition RTC_MINUTES :: u8 where "RTC_MINUTES = 2"
definition RTC_HOURS :: u8 where "RTC_HOURS = 4"
definition RTC_DAY_OF_MONTH :: u8 where "RTC_DAY_OF_MONTH = 7"
definition RTC_MONTH :: u8 where "RTC_MONTH = 8"
definition RTC_YEAR :: u8 where "RTC_YEAR = 9"
definition RTC_CENTURY :: u8 where "RTC_CENTURY = 0x32"

lemmas timer_consts = TIMER_MODE_def TIMER0_def TIMER2_def HZ_def CLOCK_TICK_RATE_def TIMER_COUNT_def SQUARE_WAVE_def BEEP_FREQ_def
lemmas rtc_consts = RTC_SECONDS_def RTC_MINUTES_def RTC_HOURS_def RTC_DAY_OF_MONTH_def RTC_MONTH_def RTC_YEAR_def RTC_CENTURY_def

section \<open>The speaker\<close>

definition outb_timer :: "u16 \<Rightarrow> u8 \<Rightarrow> 'a kclk_scheme \<Rightarrow> 'a kclk_scheme" where
  "outb_timer port v s = s\<lparr>timer_out := (port, v) # timer_out s\<rparr>"

definition beep :: "'a kclk_scheme \<Rightarrow> 'a kclk_scheme" where
  "beep s =
     outb_timer TIMER2 (of_nat (BEEP_FREQ div 256))
    (outb_timer TIMER2 (of_nat BEEP_FREQ)
    (outb_timer TIMER_MODE 0xB6
    (s\<lparr>port61 := port61 s OR 3\<rparr>)))"

definition unbeep :: "'a kclk_scheme \<Rightarrow> 'a kclk_scheme" where
  "unbeep s = s\<lparr>port61 := port61 s OR NOT 3\<rparr>"

section \<open>Ticks\<close>

definition show_time :: "u8 list \<Rightarrow> 'a kclk_scheme \<Rightarrow> 'a kclk_scheme res" where
  "show_time stk s =
     (let t = clocktime s in
      res_bind (text_out stk 0 40 0x1e (bytes ''  T:%d s %d:%d:%d'' @ [0])
        [Va_word (clocktick s), Va_word (ct_hour t), Va_word (ct_min t), Va_word (ct_sec t)] s) (\<lambda>s1.
      let t1 = clocktime s1 in
      if sint (ct_cen t1) < 10 then
        text_out stk 1 40 0x1e (bytes ''  %d0%d/%d/%d'' @ [0])
          [Va_word (ct_cen t1), Va_word (ct_year t1), Va_word (ct_mon t1), Va_word (ct_day t1)] s1
      else
        text_out stk 1 40 0x1e (bytes ''  %d%d/%d/%d'' @ [0])
          [Va_word (ct_cen t1), Va_word (ct_year t1), Va_word (ct_mon t1), Va_word (ct_day t1)] s1))"

definition clock_handler :: "u8 list \<Rightarrow> nat \<Rightarrow> 'a kclk_scheme \<Rightarrow> (int \<times> 'a kclk_scheme) res" where
  "clock_handler stk irq s =
     (let s1 = lock s;
          s2 = s1\<lparr>clocktick := clocktick s1 + 1\<rparr>;
          s3 = bill_process_time s2;
          s4 = unlock s3
      in res_bind (show_time stk s4) (\<lambda>s5. Inr (1, s5)))"

section \<open>The time of day\<close>

definition CMOS_READ :: "u8 \<Rightarrow> 'a kclk_scheme \<Rightarrow> u32 \<times> 'a kclk_scheme" where
  "CMOS_READ addr s =
     (let s1 = s\<lparr>cmos_index := addr OR 0x80\<rparr>
      in (ucast (cmos_in s1 (cmos_n s1) (cmos_index s1 AND 0x7F)), s1\<lparr>cmos_n := cmos_n s1 + 1\<rparr>))"

definition BCD_TO_BIN :: "u32 \<Rightarrow> u32" where
  "BCD_TO_BIN val = (val AND 15) + drop_bit 4 val * 10"

definition get_cmos_time :: "'a kclk_scheme \<Rightarrow> 'a kclk_scheme" where
  "get_cmos_time s =
     (let (sec, s1) = CMOS_READ RTC_SECONDS s;
          (mi, s2) = CMOS_READ RTC_MINUTES s1;
          (hour, s3) = CMOS_READ RTC_HOURS s2;
          (day, s4) = CMOS_READ RTC_DAY_OF_MONTH s3;
          (mon, s5) = CMOS_READ RTC_MONTH s4;
          (year, s6) = CMOS_READ RTC_YEAR s5;
          (cen, s7) = CMOS_READ RTC_CENTURY s6
      in s7\<lparr>clocktime := \<lparr>ct_sec = BCD_TO_BIN sec, ct_min = BCD_TO_BIN mi, ct_hour = BCD_TO_BIN hour,
           ct_day = BCD_TO_BIN day, ct_mon = BCD_TO_BIN mon, ct_year = BCD_TO_BIN year, ct_cen = BCD_TO_BIN cen\<rparr>\<rparr>)"

definition clock_init :: "'a kclk_scheme \<Rightarrow> 'a kclk_scheme res" where
  "clock_init s =
     (let s1 = outb_timer TIMER_MODE SQUARE_WAVE s;
          s2 = outb_timer TIMER0 (of_nat TIMER_COUNT) s1;
          s3 = outb_timer TIMER0 (of_nat (TIMER_COUNT div 256)) s2;
          s4 = get_cmos_time (s3\<lparr>clocktick := 0\<rparr>)
      in res_bind (put_irq_handler 0 Clock_handler s4) (\<lambda>s5. Inr (enable_irq 0 s5)))"

section \<open>What they do\<close>

text \<open>A machine with an idle keyboard and a clock.\<close>

definition clock_at :: "cmos_time \<Rightarrow> (nat \<Rightarrow> u8 \<Rightarrow> u8) \<Rightarrow> kirq \<Rightarrow> kclk" where
  "clock_at t c k = kkb.extend (kirq.extend k \<lparr>kbd = \<lparr>kp_status = (\<lambda>_. 0), kp_data = (\<lambda>_. 0), kp_nstatus = 0, kp_ndata = 0, kp_out = []\<rparr>,
       kb_line = \<lparr>kb_head = 0, kb_tail = 0, kb_count = 0, kb_buf = replicate 32 0\<rparr>, shift = 0, capslock = 0, scrolllock = 0, numlock = 0\<rparr>)
     \<lparr>clocktick = 41, clocktime = t, cmos_in = c, cmos_n = 0, cmos_index = 0, port61 = 0, timer_out = []\<rparr>"

text \<open>A number below 100 in binary coded decimal.\<close>

definition bcd :: "nat \<Rightarrow> u8" where
  "bcd d = of_nat (16 * (d div 10) + d mod 10)"

lemma BCD_TO_BIN_bcd:
  assumes "d < 100"
  shows "BCD_TO_BIN (ucast (bcd d)) = of_nat d"
proof -
  have "\<forall>d \<in> set [0..<100]. BCD_TO_BIN (ucast (bcd d)) = of_nat d" by code_simp
  then show ?thesis using assms by simp
qed

text \<open>The time registers in the order in which they are read, and a time as the seven values read.\<close>

definition rtc_order :: "u8 list" where
  "rtc_order = [RTC_SECONDS, RTC_MINUTES, RTC_HOURS, RTC_DAY_OF_MONTH, RTC_MONTH, RTC_YEAR, RTC_CENTURY]"

definition time_of :: "nat list \<Rightarrow> cmos_time" where
  "time_of d = \<lparr>ct_sec = of_nat (d ! 0), ct_min = of_nat (d ! 1), ct_hour = of_nat (d ! 2), ct_day = of_nat (d ! 3),
     ct_mon = of_nat (d ! 4), ct_year = of_nat (d ! 5), ct_cen = of_nat (d ! 6)\<rparr>"

lemma get_cmos_time_reads:
  assumes "\<And>k. k < 7 \<Longrightarrow> cmos_in s (cmos_n s + k) (rtc_order ! k) = bcd (d k) \<and> d k < 100"
  shows "get_cmos_time s = s\<lparr>cmos_index := RTC_CENTURY OR 0x80, cmos_n := cmos_n s + 7, clocktime := time_of (map d [0..<7])\<rparr>"
proof -
  have u: "map d [0..<7] = [d 0, d 1, d 2, d 3, d 4, d 5, d 6]" by (simp add: upt_rec numeral_eq_Suc)
  have "\<forall>r \<in> set rtc_order. (r OR 0x80) AND 0x7F = r" by code_simp
  then have m: "(RTC_SECONDS OR 0x80) AND 0x7F = RTC_SECONDS" "(RTC_MINUTES OR 0x80) AND 0x7F = RTC_MINUTES"
    "(RTC_HOURS OR 0x80) AND 0x7F = RTC_HOURS" "(RTC_DAY_OF_MONTH OR 0x80) AND 0x7F = RTC_DAY_OF_MONTH"
    "(RTC_MONTH OR 0x80) AND 0x7F = RTC_MONTH" "(RTC_YEAR OR 0x80) AND 0x7F = RTC_YEAR"
    "(RTC_CENTURY OR 0x80) AND 0x7F = RTC_CENTURY"
    by (simp_all add: rtc_order_def)
  have o: "rtc_order ! 0 = RTC_SECONDS" "rtc_order ! 1 = RTC_MINUTES" "rtc_order ! 2 = RTC_HOURS" "rtc_order ! 3 = RTC_DAY_OF_MONTH"
    "rtc_order ! 4 = RTC_MONTH" "rtc_order ! 5 = RTC_YEAR" "rtc_order ! 6 = RTC_CENTURY"
    by (simp_all add: rtc_order_def)
  have r: "cmos_in s (cmos_n s + 0) RTC_SECONDS = bcd (d 0)" "cmos_in s (cmos_n s + 1) RTC_MINUTES = bcd (d 1)"
    "cmos_in s (cmos_n s + 2) RTC_HOURS = bcd (d 2)" "cmos_in s (cmos_n s + 3) RTC_DAY_OF_MONTH = bcd (d 3)"
    "cmos_in s (cmos_n s + 4) RTC_MONTH = bcd (d 4)" "cmos_in s (cmos_n s + 5) RTC_YEAR = bcd (d 5)"
    "cmos_in s (cmos_n s + 6) RTC_CENTURY = bcd (d 6)"
    using assms [of 0] assms [of 1] assms [of 2] assms [of 3] assms [of 4] assms [of 5] assms [of 6] unfolding o by simp_all
  have b: "k < 7 \<Longrightarrow> BCD_TO_BIN (ucast (bcd (d k))) = of_nat (d k)" for k using assms by (intro BCD_TO_BIN_bcd) blast
  have n: "Suc (Suc n) = n + 2" for n :: nat by simp
  show ?thesis
    unfolding get_cmos_time_def CMOS_READ_def Let_def u time_of_def
    using r b [of 0] b [of 1] b [of 2] b [of 3] b [of 4] b [of 5] b [of 6] by (simp add: m eval_nat_numeral)
qed

text \<open>The divisor that the 8254 takes for its counter 0 from a control word for it and two bytes, low byte first.\<close>

definition pit_divisor :: "(u16 \<times> u8) list \<Rightarrow> nat option" where
  "pit_divisor outs = (case outs of (p2, h) # (p1, l) # (p0, c) # _ \<Rightarrow>
      if p0 = 0x43 \<and> c AND 0xF0 = 0x30 \<and> p1 = 0x40 \<and> p2 = 0x40 then Some (unat l + 256 * unat h) else None
    | _ \<Rightarrow> None)"

text \<open>What a tick puts on the screen.\<close>

definition time_text :: "u32 \<Rightarrow> cmos_time \<Rightarrow> u8 list" where
  "time_text n t = bytes ''  T:'' @ dec_bytes n @ bytes '' s '' @ dec_bytes (ct_hour t) @ bytes '':'' @ dec_bytes (ct_min t)
     @ bytes '':'' @ dec_bytes (ct_sec t)"

definition date_text :: "cmos_time \<Rightarrow> u8 list" where
  "date_text t = bytes ''  '' @ dec_bytes (ct_cen t) @ (if sint (ct_cen t) < 10 then bytes ''0'' else []) @ dec_bytes (ct_year t)
     @ bytes ''/'' @ dec_bytes (ct_mon t) @ bytes ''/'' @ dec_bytes (ct_day t)"

lemma dec_bytes_nonzero: "0 \<notin> set (dec_bytes w)"
proof
  assume "0 \<in> set (dec_bytes w)"
  then obtain k where k: "k \<in> set (number 10 (unat w))" "atoi (of_nat k) = 0" by (auto simp: dec_bytes_def)
  have "k < 10" using number_digits [of 10 k "unat w"] k(1) by simp
  moreover have "\<forall>k \<in> set [0..<10]. atoi (of_nat k) \<noteq> 0" by code_simp
  ultimately show False using k(2) by simp
qed

lemma text_lengths: "length (time_text n t) \<le> 49" "length (date_text t) \<le> 45"
  using dec_bytes_length [of n] dec_bytes_length [of "ct_hour t"] dec_bytes_length [of "ct_min t"] dec_bytes_length [of "ct_sec t"]
    dec_bytes_length [of "ct_cen t"] dec_bytes_length [of "ct_year t"] dec_bytes_length [of "ct_mon t"] dec_bytes_length [of "ct_day t"]
  by (simp_all add: time_text_def date_text_def bytes_def)

lemma text_nonzero: "0 \<notin> set (time_text n t)" "0 \<notin> set (date_text t)"
  by (auto simp: time_text_def date_text_def dec_bytes_nonzero bytes_def of_char_def)

lemma time_renders:
  "render (bytes ''  T:%d s %d:%d:%d'') [Va_word n, Va_word (ct_hour t), Va_word (ct_min t), Va_word (ct_sec t)] = Some (time_text n t)"
  by (simp add: bytes_def item_def of_char_def time_text_def)

lemma date_renders:
  "render (if sint (ct_cen t) < 10 then bytes ''  %d0%d/%d/%d'' else bytes ''  %d%d/%d/%d'')
     [Va_word (ct_cen t), Va_word (ct_year t), Va_word (ct_mon t), Va_word (ct_day t)] = Some (date_text t)"
  by (simp add: bytes_def item_def of_char_def date_text_def)

lemma show_time_shows:
  assumes "length stk = STACK_SIZE"
  shows "\<exists>m. show_time stk s = Inr (s\<lparr>ram := m\<rparr>) \<and> on_screen s (s\<lparr>ram := m\<rparr>)
    \<and> screen m = put_text 120 0x1e (date_text (clocktime s)) (put_text 40 0x1e (time_text (clocktick s) (clocktime s)) (screen (ram s)))"
proof -
  let ?t = "clocktime s"
  let ?fmt = "if sint (ct_cen ?t) < 10 then bytes ''  %d0%d/%d/%d'' else bytes ''  %d%d/%d/%d''"
  have nz: "0 \<notin> set (bytes ''  T:%d s %d:%d:%d'')" "0 \<notin> set ?fmt" by (auto simp: bytes_def of_char_def)
  have len: "length (time_text (clocktick s) ?t) < length stk" "length (date_text ?t) < length stk"
    using text_lengths(1) [of "clocktick s" ?t] text_lengths(2) [of ?t] assms by (simp_all add: STACK_SIZE_def)
  obtain m1 where s1: "text_out stk (int 0) (int 40) 0x1e (bytes ''  T:%d s %d:%d:%d'' @ [0])
      [Va_word (clocktick s), Va_word (ct_hour ?t), Va_word (ct_min ?t), Va_word (ct_sec ?t)] s = Inr (s\<lparr>ram := m1\<rparr>)"
    "on_screen s (s\<lparr>ram := m1\<rparr>)" "screen m1 = put_text 40 0x1e (time_text (clocktick s) ?t) (screen (ram s))"
    using text_out_cells [OF time_renders nz(1) text_nonzero(1) len(1), where row = 0 and col = 40 and color = "0x1e" and s = s] text_lengths(1) [of "clocktick s" ?t] by auto
  obtain m2 where s2: "text_out stk (int 1) (int 40) 0x1e (?fmt @ [0])
      [Va_word (ct_cen ?t), Va_word (ct_year ?t), Va_word (ct_mon ?t), Va_word (ct_day ?t)] (s\<lparr>ram := m1\<rparr>) = Inr (s\<lparr>ram := m2\<rparr>)"
    "on_screen (s\<lparr>ram := m1\<rparr>) (s\<lparr>ram := m2\<rparr>)" "screen m2 = put_text 120 0x1e (date_text ?t) (screen m1)"
    using text_out_cells [OF date_renders nz(2) text_nonzero(2) len(2), where row = 1 and col = 40 and color = "0x1e" and s = "s\<lparr>ram := m1\<rparr>"] text_lengths(2) [of ?t] by auto
  have "show_time stk s = Inr (s\<lparr>ram := m2\<rparr>)"
    using s1(1) s2(1) by (cases "sint (ct_cen ?t) < 10") (simp_all add: show_time_def Let_def)
  then show ?thesis using on_screen_trans [OF s1(2) s2(2)] s1(3) s2(3) by auto
qed

section \<open>Properties\<close>

text \<open>The state that \<open>clock_init\<close> leaves when the chip tells the numbers \<open>d\<close>.\<close>

definition clock_set :: "(nat \<Rightarrow> nat) \<Rightarrow> 'a kclk_scheme \<Rightarrow> 'a kclk_scheme" where
  "clock_set d s = enable_irq 0 (s\<lparr>
     timer_out := (TIMER0, of_nat (TIMER_COUNT div 256)) # (TIMER0, of_nat TIMER_COUNT) # (TIMER_MODE, SQUARE_WAVE) # timer_out s,
     clocktick := 0, cmos_index := RTC_CENTURY OR 0x80, cmos_n := cmos_n s + 7, clocktime := time_of (map d [0..<7]),
     irq_table := (irq_table s)[0 := Clock_handler]\<rparr>)"

lemma clock_init_runs:
  assumes "\<And>k. k < 7 \<Longrightarrow> cmos_in s (cmos_n s + k) (rtc_order ! k) = bcd (d k) \<and> d k < 100" and "irq_table s \<noteq> []"
  shows "clock_init s = Inr (clock_set d s)"
proof -
  let ?outs = "(TIMER0, of_nat (TIMER_COUNT div 256)) # (TIMER0, of_nat TIMER_COUNT) # (TIMER_MODE, SQUARE_WAVE) # timer_out s"
  let ?t = "s\<lparr>timer_out := ?outs, clocktick := 0, cmos_index := RTC_CENTURY OR 0x80, cmos_n := cmos_n s + 7,
    clocktime := time_of (map d [0..<7])\<rparr>"
  have g: "get_cmos_time (s\<lparr>timer_out := ?outs, clocktick := 0\<rparr>) = ?t"
    using get_cmos_time_reads [of "s\<lparr>timer_out := ?outs, clocktick := 0\<rparr>" d] assms(1) by simp
  have "put_irq_handler 0 Clock_handler ?t = Inr (?t\<lparr>irq_table := (irq_table s)[0 := Clock_handler]\<rparr>)"
    using assms(2) by (simp add: put_irq_handler_def irq_defs Let_def)
  then show ?thesis using g by (simp add: clock_init_def clock_set_def outb_timer_def Let_def)
qed

lemma clock_set_spec:
  assumes "pics_ready s"
  shows "\<exists>p t i n. clock_set d s = s\<lparr>timer_out := t, clocktick := 0, cmos_index := i, cmos_n := n,
      clocktime := time_of (map d [0..<7]), irq_table := (irq_table s)[0 := Clock_handler], pic1 := p\<rparr>
    \<and> pit_divisor t = Some (1193182 div 60)"
    and "pics_ready (clock_set d s)" "j < 16 \<Longrightarrow> masked (clock_set d s) j \<longleftrightarrow> masked s j \<and> j \<noteq> 0"
proof -
  let ?outs = "(TIMER0, of_nat (TIMER_COUNT div 256)) # (TIMER0, of_nat TIMER_COUNT) # (TIMER_MODE, SQUARE_WAVE) # timer_out s"
  let ?u = "s\<lparr>timer_out := ?outs, clocktick := 0, cmos_index := RTC_CENTURY OR 0x80, cmos_n := cmos_n s + 7,
    clocktime := time_of (map d [0..<7]), irq_table := (irq_table s)[0 := Clock_handler]\<rparr>"
  have r: "pics_ready ?u" using assms by (simp add: pics_ready_def)
  obtain p where e: "enable_irq 0 ?u = ?u\<lparr>pic1 := p\<rparr>" "pic_expect p = pic_expect (pic1 s)"
    using r by (simp add: enable_irq_def irq_defs Let_def)
  have "pit_divisor ?outs = Some (1193182 div 60)" by (simp add: pit_divisor_def timer_consts)
  then show "\<exists>p t i n. clock_set d s = s\<lparr>timer_out := t, clocktick := 0, cmos_index := i, cmos_n := n,
      clocktime := time_of (map d [0..<7]), irq_table := (irq_table s)[0 := Clock_handler], pic1 := p\<rparr>
    \<and> pit_divisor t = Some (1193182 div 60)"
    using e(1) unfolding clock_set_def by blast
  show "pics_ready (clock_set d s)" using e assms by (simp add: clock_set_def pics_ready_def)
  show "masked (clock_set d s) j \<longleftrightarrow> masked s j \<and> j \<noteq> 0" if "j < 16"
    using masked_enable [OF r, of 0 j] that by (simp add: clock_set_def masked_def)
qed

text \<open>
  \<open>clock_init\<close> sets the timer to 60 interrupts in a second, reads the time of day from the
  clock chip and turns it from binary coded decimal to binary, starts counting at 0, and makes
  \<open>clock_handler\<close> the handler of line 0, which it unmasks; the other lines stay as they are.
\<close>

theorem clock_init_starts:
  assumes "\<And>k. k < 7 \<Longrightarrow> cmos_in s (cmos_n s + k) (rtc_order ! k) = bcd (d k) \<and> d k < 100"
    and "irq_table s \<noteq> []" "pics_ready s"
  shows "\<exists>s'. clock_init s = Inr s' \<and> clocktime s' = time_of (map d [0..<7]) \<and> clocktick s' = 0
    \<and> pit_divisor (timer_out s') = Some (1193182 div 60) \<and> irq_table s' = (irq_table s)[0 := Clock_handler]
    \<and> (\<forall>j < 16. masked s' j \<longleftrightarrow> masked s j \<and> j \<noteq> 0) \<and> ief s' = ief s"
proof -
  obtain p t i n where "clock_set d s = s\<lparr>timer_out := t, clocktick := 0, cmos_index := i, cmos_n := n,
      clocktime := time_of (map d [0..<7]), irq_table := (irq_table s)[0 := Clock_handler], pic1 := p\<rparr>"
    "pit_divisor t = Some (1193182 div 60)"
    using clock_set_spec(1) [OF assms(3)] by blast
  then show ?thesis
    using clock_init_runs [of s d] assms(1,2) clock_set_spec(3) [OF assms(3), of _ d]
    by (intro exI [of _ "clock_set d s"]) simp
qed

lemma clock_handler_runs:
  assumes "length stk = STACK_SIZE"
  shows "\<exists>m. clock_handler stk irq s = Inr (1, (bill_process_time s)\<lparr>clocktick := clocktick s + 1, ief := True, ram := m\<rparr>)
    \<and> screen m = put_text 120 0x1e (date_text (clocktime s)) (put_text 40 0x1e (time_text (clocktick s + 1) (clocktime s)) (screen (ram s)))
    \<and> (\<forall>a. unat a < unat screen_base \<or> unat screen_base + 4000 \<le> unat a \<longrightarrow> m a = ram s a)"
proof -
  let ?s = "(bill_process_time s)\<lparr>clocktick := clocktick s + 1, ief := True\<rparr>"
  have s: "unlock (bill_process_time ((lock s)\<lparr>clocktick := clocktick (lock s) + 1\<rparr>)) = ?s"
    by (simp add: bill_process_time_def upd_proc_def irq_defs Let_def)
  have sel: "clocktime ?s = clocktime s" "clocktick ?s = clocktick s + 1" "ram ?s = ram s"
    by (simp_all add: bill_process_time_def upd_proc_def Let_def)
  obtain m where m: "show_time stk ?s = Inr (?s\<lparr>ram := m\<rparr>)" "on_screen ?s (?s\<lparr>ram := m\<rparr>)"
    "screen m = put_text 120 0x1e (date_text (clocktime s)) (put_text 40 0x1e (time_text (clocktick s + 1) (clocktime s)) (screen (ram s)))"
    using show_time_shows [OF assms, of ?s] unfolding sel by blast
  have "clock_handler stk irq s = Inr (1, ?s\<lparr>ram := m\<rparr>)" using m(1) s by (simp add: clock_handler_def Let_def)
  then show ?thesis using m(3) on_screen_ram [OF m(2)] sel(3) by auto
qed

text \<open>
  A timer interrupt counts one tick, bills the running process, leaves the interrupts
  enabled and shows the tick count, the time and the date in the first two rows, from column 40 on. A
  zero is put in front of the year when the century is below 10, not when the year is.
\<close>

theorem clock_handler_ticks:
  assumes "length stk = STACK_SIZE"
  shows "\<exists>m. clock_handler stk irq s = Inr (1, (bill_process_time s)\<lparr>clocktick := clocktick s + 1, ief := True, ram := m\<rparr>)
    \<and> screen m = put_text 120 0x1e (date_text (clocktime s)) (put_text 40 0x1e (time_text (clocktick s + 1) (clocktime s)) (screen (ram s)))
    \<and> (\<forall>a. unat a < unat screen_base \<or> unat screen_base + 4000 \<le> unat a \<longrightarrow> m a = ram s a)"
  using clock_handler_runs [OF assms] .

text \<open>The 29th of March 2005, at seven minutes past noon.\<close>

definition clock_state :: kclk where
  "clock_state = clock_at (time_of [0, 7, 12, 29, 3, 5, 20]) (\<lambda>k r. bcd ([0, 7, 12, 29, 3, 5, 20] ! k)) irq_state"

lemmas clock_extend = clock_state_def clock_at_def kkb.extend_def kirq.extend_def

theorem clock_init_starts_witness:
  "\<exists>s'. clock_init clock_state = Inr s' \<and> clocktime s' = time_of [0, 7, 12, 29, 3, 5, 20] \<and> \<not> masked s' 0"
proof -
  have r: "cmos_in clock_state (cmos_n clock_state + k) (rtc_order ! k) = bcd ([0, 7, 12, 29, 3, 5, 20] ! k) \<and> [0, 7, 12, 29, 3, 5, 20] ! k < (100 :: nat)" if "k < 7" for k
  proof -
    have "k \<in> set [0, 1, 2, 3, 4, 5, 6]" using that by (simp, arith)
    then show ?thesis by (auto simp: clock_extend)
  qed
  have d: "map ((!) [0, 7, 12, 29, 3, 5, 20]) [0..<7] = [0, 7, 12, 29, 3, 5, 20 :: nat]" by (simp add: upt_rec)
  have "pics_ready clock_state" "irq_table clock_state \<noteq> []"
    using irq_state_ready by (simp_all add: pics_ready_def clock_extend)
  then show ?thesis using clock_init_starts [OF r] unfolding d by fastforce
qed

theorem clock_handler_ticks_witness:
  "\<exists>s'. clock_handler (replicate 100 0) 0 clock_state = Inr (1, s') \<and> clocktick s' = 42
     \<and> map fst (take 10 (drop 120 (screen (ram s')))) = bytes ''  205/3/29''"
proof -
  let ?t = "time_of [0, 7, 12, 29, 3, 5, 20]"
  have c: "clocktime clock_state = ?t" "clocktick clock_state = 41" by (simp_all add: clock_extend)
  have date: "date_text ?t = bytes ''  205/3/29''" by code_simp
  have "length (put_text 40 0x1e (time_text (41 + 1) ?t) (screen (ram clock_state))) = 2000"
    using text_lengths(1) [of "41 + 1" ?t] by (simp add: put_text_def)
  then have "map fst (take 10 (drop 120 (put_text 120 0x1e (date_text ?t) (put_text 40 0x1e (time_text (41 + 1) ?t) (screen (ram clock_state)))))) = date_text ?t"
    unfolding put_text_def [of 120] date by (simp add: bytes_def comp_def)
  then show ?thesis
    using clock_handler_ticks [of "replicate 100 0" 0 clock_state] unfolding c date [symmetric] by (auto simp: STACK_SIZE_def)
qed

text \<open>The speaker: \<open>unbeep\<close> sets the bits that it is meant to clear.\<close>

lemma unbeep_keeps_beeping: "port61 (unbeep (beep s)) = 0xFF"
proof -
  have "3 OR NOT 3 = (0xFF :: u8)" by simp
  then show ?thesis by (simp add: unbeep_def beep_def outb_timer_def or.assoc)
qed

end
