(* ===== verification/Pci.thy ===== *)
theory Pci
  imports Clock
begin

text \<open>
  The PCI bus: \<^verbatim>\<open>ker/pci.c\<close> with the constants of \<^verbatim>\<open>include/pci.h\<close>. Configuration mechanism 1 is modelled
  from its specification: the address register at 0xCF8 selects a double word, which the ports from
  0xCFC on read and write. What the devices answer is an argument: \<open>pci_cfg\<close> holds what each double
  word reads, and \<open>pci_wr a v\<close> is what it reads after \<open>v\<close> has been written.
\<close>

section \<open>The state\<close>

record interval =
  iv_base :: u32
  iv_size :: u32
  iv_type :: u8

record pci_dev =
  pd_bus :: u8
  pd_device :: u8
  pd_func :: u8
  pd_deviceid :: u16
  pd_vendor :: u16
  pd_class :: u32
  pd_header_type :: u8
  pd_irq :: u8
  pd_interval :: "interval list"

record kpci = kclk +
  pcidev :: "pci_dev list"
  pcidev_pool :: slots
  pci_addr :: u32
  pci_cfg :: "u32 \<Rightarrow> u32"
  pci_wr :: "u32 \<Rightarrow> u32 \<Rightarrow> u32"

definition SLOT_SIZE :: nat where "SLOT_SIZE = 18"
definition PCI_VENDOR_ID :: u32 where "PCI_VENDOR_ID = 0x00"
definition PCI_CLASS :: u32 where "PCI_CLASS = 0x08"
definition PCI_HEADER :: u32 where "PCI_HEADER = 0x0e"
definition PCI_BASE0 :: u32 where "PCI_BASE0 = 0x10"
definition PCI_DEVICE_NORMAL :: u8 where "PCI_DEVICE_NORMAL = 0"
definition PCI_DEVICE_BRIDGE :: u8 where "PCI_DEVICE_BRIDGE = 1"
definition PCI_INT_LINE :: u32 where "PCI_INT_LINE = 0x3c"
definition PCI_INT_PIN :: u32 where "PCI_INT_PIN = 0x3d"
definition PCI_CLASS_BRIDGE_PCI :: u32 where "PCI_CLASS_BRIDGE_PCI = 0x0604"

lemmas pci_consts = SLOT_SIZE_def PCI_VENDOR_ID_def PCI_CLASS_def PCI_HEADER_def PCI_BASE0_def PCI_DEVICE_NORMAL_def
  PCI_DEVICE_BRIDGE_def PCI_INT_LINE_def PCI_INT_PIN_def PCI_CLASS_BRIDGE_PCI_def

section \<open>Configuration space\<close>

definition cfg_addr :: "pci_dev \<Rightarrow> u32 \<Rightarrow> u32" where
  "cfg_addr dev regaddr =
     (((0x80000000 OR push_bit 16 (ucast (pd_bus dev))) OR push_bit 11 (ucast (pd_device dev))) OR push_bit 8 (ucast (pd_func dev)))
       OR regaddr"

text \<open>The ports: the address register, and the double word it selects.\<close>

definition out_cf8 :: "u32 \<Rightarrow> 'a kpci_scheme \<Rightarrow> 'a kpci_scheme" where
  "out_cf8 v s = s\<lparr>pci_addr := v\<rparr>"

definition in_cfc :: "'a kpci_scheme \<Rightarrow> u32" where
  "in_cfc s = pci_cfg s (pci_addr s AND NOT 3)"

definition out_cfc :: "u32 \<Rightarrow> 'a kpci_scheme \<Rightarrow> 'a kpci_scheme" where
  "out_cfc v s = (let a = pci_addr s AND NOT 3 in s\<lparr>pci_cfg := (pci_cfg s)(a := pci_wr s a v)\<rparr>)"

definition pci_in_byte :: "pci_dev \<Rightarrow> u32 \<Rightarrow> 'a kpci_scheme \<Rightarrow> u8 \<times> 'a kpci_scheme" where
  "pci_in_byte dev regaddr s =
     (let s1 = out_cf8 (cfg_addr dev regaddr) s in (ucast (drop_bit (8 * unat (regaddr AND 3)) (in_cfc s1)), s1))"

definition pci_in_word :: "pci_dev \<Rightarrow> u32 \<Rightarrow> 'a kpci_scheme \<Rightarrow> u16 \<times> 'a kpci_scheme" where
  "pci_in_word dev regaddr s =
     (let s1 = out_cf8 (cfg_addr dev regaddr) s in (ucast (drop_bit (8 * unat (regaddr AND 2)) (in_cfc s1)), s1))"

definition pci_in_dword :: "pci_dev \<Rightarrow> u32 \<Rightarrow> 'a kpci_scheme \<Rightarrow> u32 \<times> 'a kpci_scheme" where
  "pci_in_dword dev regaddr s = (let s1 = out_cf8 (cfg_addr dev regaddr) s in (in_cfc s1, s1))"

definition pci_out_dword :: "pci_dev \<Rightarrow> u32 \<Rightarrow> u32 \<Rightarrow> 'a kpci_scheme \<Rightarrow> 'a kpci_scheme" where
  "pci_out_dword dev regaddr v s = out_cfc v (out_cf8 (cfg_addr dev regaddr) s)"

section \<open>Looking for a bus\<close>

text \<open>The two loops over the devices and functions of bus 0, as one over their pairs.\<close>

definition bus_funcs :: "(nat \<times> nat) list" where
  "bus_funcs = concat (map (\<lambda>i. map (\<lambda>j. (i, j)) [0..<8]) [0..<32])"

fun check_loop :: "u8 list \<Rightarrow> pci_dev \<Rightarrow> (nat \<times> nat) list \<Rightarrow> 'a kpci_scheme \<Rightarrow> (int \<times> 'a kpci_scheme) res" where
  "check_loop stk dev [] s = Inr (0, s)"
| "check_loop stk dev ((i, j) # ps) s =
     (let dev1 = dev\<lparr>pd_device := of_nat i, pd_func := of_nat j\<rparr>;
          (c, s1) = pci_in_word dev1 PCI_CLASS s;
          (x, s2) = pci_in_word dev1 PCI_VENDOR_ID s1
      in if x = 0x8086 \<or> x = 0x0e11 \<or> c = 0x0600 \<or> c = 0x0300 then
           res_bind (printk stk (bytes ''PCI: Using configuration type 1'' @ [10, 0]) [] s2) (\<lambda>s3. Inr (1, s3))
         else check_loop stk dev1 ps s2)"

text \<open>\<open>junk\<close> is what the structure on the stack holds.\<close>

definition pci_check_main :: "u8 list \<Rightarrow> pci_dev \<Rightarrow> 'a kpci_scheme \<Rightarrow> (int \<times> 'a kpci_scheme) res" where
  "pci_check_main stk junk s = check_loop stk (junk\<lparr>pd_bus := 0\<rparr>) bus_funcs s"

section \<open>Setting up a device\<close>

definition upd_dev :: "nat \<Rightarrow> (pci_dev \<Rightarrow> pci_dev) \<Rightarrow> 'a kpci_scheme \<Rightarrow> 'a kpci_scheme res" where
  "upd_dev d f s = res_bind (rd (pcidev s) d) (\<lambda>dev. Inr (s\<lparr>pcidev := (pcidev s)[d := f dev]\<rparr>))"

definition pci_dev_setup_irq :: "nat \<Rightarrow> 'a kpci_scheme \<Rightarrow> 'a kpci_scheme res" where
  "pci_dev_setup_irq d s =
     res_bind (rd (pcidev s) d) (\<lambda>dev.
     let (irq, s1) = pci_in_byte dev PCI_INT_PIN s;
         (irq1, s2) = (if irq \<noteq> 0 then pci_in_byte dev PCI_INT_LINE s1 else (irq, s1))
     in upd_dev d (pd_irq_update (\<lambda>_. irq1)) s2)"

definition pci_intervalsize :: "u32 \<Rightarrow> u32 \<Rightarrow> u32" where
  "pci_intervalsize sz m = (let w = sz AND m in w AND NOT (w - 1))"

definition setup_interval :: "nat \<Rightarrow> nat \<Rightarrow> 'a kpci_scheme \<Rightarrow> 'a kpci_scheme res" where
  "setup_interval d i s =
     res_bind (rd (pcidev s) d) (\<lambda>dev.
     let reg = PCI_BASE0 + of_nat (i * 4);
         (base, s1) = pci_in_dword dev reg s;
         s2 = pci_out_dword dev reg 0xffffffff s1;
         (sz, s3) = pci_in_dword dev reg s2;
         s4 = pci_out_dword dev reg base s3
     in if sz = 0 \<or> sz = 0xffffffff then Inr s4
        else
          let (b, n) = (if base AND 0x01 = 0 then (base AND NOT 0xf, pci_intervalsize sz (NOT 0xf))
                        else (base AND NOT 0x3, pci_intervalsize sz 0xfffc))
          in res_bind (wr (pd_interval dev) i \<lparr>iv_base = b, iv_size = n, iv_type = ucast (base AND 0x01)\<rparr>) (\<lambda>ivs.
             upd_dev d (pd_interval_update (\<lambda>_. ivs)) s4))"

definition pci_dev_setup_interval :: "nat \<Rightarrow> nat \<Rightarrow> 'a kpci_scheme \<Rightarrow> 'a kpci_scheme res" where
  "pci_dev_setup_interval d count s = do_calls (map (setup_interval d) [0..<count]) s"

section \<open>The scan\<close>

text \<open>
  A function that answers gets a copy of the structure \<open>temp\<close>. The copy takes the free list link of
  \<open>temp\<close> along; that of a device in use is not read.
\<close>

definition bad_header :: "u8 list \<Rightarrow> u32 \<Rightarrow> pci_dev \<Rightarrow> 'a kpci_scheme \<Rightarrow> 'a kpci_scheme res" where
  "bad_header stk cls dev s =
     printk stk (bytes ''PCI:class %x dose not match header type %x'' @ [10, 0]) [Va_word cls, Va_word (ucast (pd_header_type dev))] s"

definition setup_device :: "u8 list \<Rightarrow> nat \<Rightarrow> pci_dev \<Rightarrow> u32 \<Rightarrow> 'a kpci_scheme \<Rightarrow> 'a kpci_scheme res" where
  "setup_device stk d dev cls s =
     res_bind (printk stk (bytes ''PCI:found [0x%x/0x%x] b%d d%d f%d %x %x'' @ [10, 0])
       [Va_word (ucast (pd_vendor dev)), Va_word (ucast (pd_deviceid dev)), Va_word (ucast (pd_bus dev)),
        Va_word (ucast (pd_device dev)), Va_word (ucast (pd_func dev)), Va_word cls, Va_word (ucast (pd_header_type dev))] s) (\<lambda>s1.
     if pd_header_type dev = PCI_DEVICE_NORMAL then
       (if cls = PCI_CLASS_BRIDGE_PCI then bad_header stk cls dev s1
        else res_bind (pci_dev_setup_irq d s1) (pci_dev_setup_interval d 6))
     else if pd_header_type dev = PCI_DEVICE_BRIDGE then
       (if cls \<noteq> PCI_CLASS_BRIDGE_PCI then bad_header stk cls dev s1
        else res_bind (pci_dev_setup_interval d 2 s1) (printk stk (bytes ''PCI:pci-pci bridge'' @ [10, 0]) []))
     else printk stk (bytes ''PCI:unknown header type 0x%x'' @ [10, 0]) [Va_word (ucast (pd_header_type dev))] s1)"

definition pci_scan_device :: "u8 list \<Rightarrow> pci_dev \<Rightarrow> 'a kpci_scheme \<Rightarrow> 'a kpci_scheme res" where
  "pci_scan_device stk temp s =
     (let (i, s1) = pci_in_dword temp PCI_VENDOR_ID s in
      if i = 0x00000000 \<or> i = 0xFFFFFFFF \<or> i = 0x0000FFFF \<or> i = 0xFFFF0000 then Inr s1
      else
        case alloc_slot (pcidev_pool s1) of
          (None, p) \<Rightarrow> printk stk (bytes ''PCI:no spaces'' @ [10, 0]) [] (s1\<lparr>pcidev_pool := p\<rparr>)
        | (Some d, p) \<Rightarrow>
            let s2 = s1\<lparr>pcidev_pool := p\<rparr>;
                (cls, s3) = pci_in_dword temp PCI_CLASS s2;
                (ty, s4) = pci_in_byte temp PCI_HEADER s3;
                cls1 = drop_bit 8 cls;
                cls2 = drop_bit 8 cls1;
                dev = temp\<lparr>pd_vendor := ucast (i AND 0xFFFF), pd_deviceid := ucast (drop_bit 16 i AND 0xFFFF),
                           pd_class := cls1, pd_header_type := ty AND 0x7F\<rparr>
            in res_bind (upd_dev d (\<lambda>_. dev) s4) (setup_device stk d dev cls2))"

definition pci_scan_slot :: "u8 list \<Rightarrow> pci_dev \<Rightarrow> 'a kpci_scheme \<Rightarrow> 'a kpci_scheme res" where
  "pci_scan_slot stk temp s = do_calls (map (\<lambda>i. pci_scan_device stk (temp\<lparr>pd_func := of_nat i\<rparr>)) [0..<8]) s"

definition pci_scan_bus :: "u8 list \<Rightarrow> pci_dev \<Rightarrow> 'a kpci_scheme \<Rightarrow> 'a kpci_scheme res" where
  "pci_scan_bus stk junk s =
     do_calls (map (\<lambda>i. pci_scan_slot stk (junk\<lparr>pd_bus := 0, pd_device := of_nat i\<rparr>)) [0..<32]) s"

definition pci_init :: "u8 list \<Rightarrow> pci_dev \<Rightarrow> pci_dev \<Rightarrow> 'a kpci_scheme \<Rightarrow> 'a kpci_scheme res" where
  "pci_init stk junk junk' s =
     res_bind (pci_check_main stk junk (s\<lparr>pcidev_pool := init_slot SLOT_SIZE (pcidev_pool s)\<rparr>)) (\<lambda>(r, s1).
     if r \<noteq> 0 then pci_scan_bus stk junk' s1
     else printk stk (bytes ''PCI: not detected'' @ [10, 0]) [] s1)"

text \<open>A machine with a bus and empty device records.\<close>

definition no_device :: pci_dev where
  "no_device = \<lparr>pd_bus = 0, pd_device = 0, pd_func = 0, pd_deviceid = 0, pd_vendor = 0, pd_class = 0, pd_header_type = 0, pd_irq = 0,
     pd_interval = replicate 6 \<lparr>iv_base = 0, iv_size = 0, iv_type = 0\<rparr>\<rparr>"

definition pci_with :: "(u32 \<Rightarrow> u32) \<Rightarrow> (u32 \<Rightarrow> u32 \<Rightarrow> u32) \<Rightarrow> kirq \<Rightarrow> kpci" where
  "pci_with cfg w k = kclk.extend (clock_at \<lparr>ct_sec = 0, ct_min = 0, ct_hour = 0, ct_day = 0, ct_mon = 0, ct_year = 0, ct_cen = 0\<rparr> (\<lambda>_ _. 0) k)
     \<lparr>pcidev = replicate SLOT_SIZE no_device, pcidev_pool = init_slot SLOT_SIZE \<lparr>free_next = (\<lambda>_. None), free_head = None\<rparr>,
       pci_addr = 0, pci_cfg = cfg, pci_wr = w\<rparr>"

end
