(* ===== verification/Pci_Props.thy ===== *)
theory Pci_Props
  imports Pci
begin

text \<open>
  What the PCI scan finds: which functions of bus 0 get a device record, and what the sizes of their
  address ranges are.
\<close>

section \<open>The lowest bit\<close>

lemma lowest_bit:
  assumes "bit (w :: u32) k" "\<And>j. j < k \<Longrightarrow> \<not> bit w j"
  shows "w AND NOT (w - 1) = 2 ^ k"
proof -
  have k: "k < 32" using bit_imp_le_length [OF assms(1)] by simp
  define h where "h = w AND NOT (mask (k + 1))"
  have h: "bit h n \<longleftrightarrow> bit w n \<and> k < n" for n
    using bit_imp_le_length [of w n] by (auto simp: h_def bit_simps)
  have w: "w = h OR 2 ^ k"
  proof (rule bit_word_eqI)
    fix n
    assume n: "n < LENGTH(32)"
    show "bit w n \<longleftrightarrow> bit (h OR 2 ^ k) n"
      using assms n h [of n] by (cases n k rule: linorder_cases) (auto simp: bit_simps)
  qed
  have "bit h n \<Longrightarrow> \<not> bit (2 ^ k :: u32) n" for n using h [of n] by (auto simp: bit_simps)
  then have "w = h + 2 ^ k" using w by (simp add: disjunctive_add)
  then have "w - 1 = h + (2 ^ k - 1)" by simp
  also have "\<dots> = h OR mask k"
    unfolding mask_eq_exp_minus_1 [symmetric] using h by (intro disjunctive_add) (auto simp: bit_simps)
  finally have m: "w - 1 = h OR mask k" .
  show ?thesis unfolding m
  proof (rule bit_word_eqI)
    fix n
    assume n: "n < LENGTH(32)"
    show "bit (w AND NOT (h OR mask k)) n \<longleftrightarrow> bit (2 ^ k :: u32) n"
      using assms n h [of n] by (cases n k rule: linorder_cases) (auto simp: bit_simps)
  qed
qed

text \<open>What a range of \<open>2 ^ k\<close> bytes reads after all ones have been written: its low bits are fixed.\<close>

definition range_mask :: "nat \<Rightarrow> u32 \<Rightarrow> u32" where
  "range_mask k kind = NOT (mask k) OR kind"

lemma intervalsize_range:
  assumes "\<And>n. bit m n \<Longrightarrow> \<not> bit kind n" "bit m k" "k < 32" "\<And>n. bit kind n \<Longrightarrow> n < k"
  shows "pci_intervalsize (range_mask k kind) m = 2 ^ k"
proof -
  have "bit (range_mask k kind AND m) k" using assms by (auto simp: range_mask_def bit_simps)
  moreover have "\<not> bit (range_mask k kind AND m) j" if "j < k" for j
    using that assms by (auto simp: range_mask_def bit_simps)
  ultimately show ?thesis unfolding pci_intervalsize_def Let_def by (rule lowest_bit)
qed

section \<open>Addresses\<close>

lemma low_clear:
  assumes "x AND mask 8 = 0" "bit (x :: u32) n"
  shows "8 \<le> n"
proof (rule ccontr)
  assume "\<not> 8 \<le> n"
  then have "bit (x AND mask 8) n" using assms(2) by (simp add: bit_and_iff bit_mask_iff)
  then show False using assms(1) by simp
qed

lemma cfg_addr_low:
  shows "cfg_addr dev reg AND 0xFC = reg AND 0xFC" "(cfg_addr dev reg AND NOT 3) AND 0xFF = reg AND 0xFC"
proof -
  have m: "(0xFF :: u32) = mask 8" "(3 :: u32) = mask 2" "(0xFC :: u32) = mask 8 AND NOT (mask 2)"
    by (simp_all add: mask_eq_exp_minus_1)
  let ?x = "((0x80000000 OR push_bit 16 (ucast (pd_bus dev))) OR push_bit 11 (ucast (pd_device dev))) OR push_bit 8 (ucast (pd_func dev)) :: u32"
  have p: "push_bit k y AND mask 8 = 0" if "8 \<le> k" for k and y :: u32
    using that by (intro bit_word_eqI) (auto simp: bit_simps)
  have "(0x80000000 :: u32) AND mask 8 = 0" by (simp add: mask_eq_exp_minus_1)
  then have x: "?x AND mask 8 = 0"
    using p [of 16] p [of 11] p [of 8] by (simp only: bit.conj_disj_distrib2) (simp del: push_bit_of_1)
  have "bit ?x n \<Longrightarrow> 8 \<le> n" for n by (rule low_clear [OF x])
  then have b: "bit (cfg_addr dev reg) n \<longleftrightarrow> bit reg n" if "n < 8" for n
    using that unfolding cfg_addr_def bit_or_iff [of ?x reg] by (meson not_le)
  show "cfg_addr dev reg AND 0xFC = reg AND 0xFC" unfolding m
  proof (rule bit_word_eqI)
    fix n
    show "bit (cfg_addr dev reg AND (mask 8 AND NOT (mask 2))) n \<longleftrightarrow> bit (reg AND (mask 8 AND NOT (mask 2))) n"
      using b [of n] by (auto simp: bit_and_iff bit_mask_iff bit_not_iff)
  qed
  show "(cfg_addr dev reg AND NOT 3) AND 0xFF = reg AND 0xFC" unfolding m
  proof (rule bit_word_eqI)
    fix n
    show "bit ((cfg_addr dev reg AND NOT (mask 2)) AND mask 8) n \<longleftrightarrow> bit (reg AND (mask 8 AND NOT (mask 2))) n"
      using b [of n] by (auto simp: bit_and_iff bit_mask_iff bit_not_iff)
  qed
qed

text \<open>The double words that hold the identification of a function: those at offset 0.\<close>

definition same_ids :: "(u32 \<Rightarrow> u32) \<Rightarrow> (u32 \<Rightarrow> u32) \<Rightarrow> bool" where
  "same_ids f g \<longleftrightarrow> (\<forall>a. a AND 0xFF = 0 \<longrightarrow> f a = g a)"

lemma base_reg_addr:
  assumes "i < 6"
  shows "(cfg_addr dev (PCI_BASE0 + of_nat (i * 4)) AND NOT 3) AND 0xFF \<noteq> 0"
proof -
  have "i \<in> set [0, 1, 2, 3, 4, 5]" using assms by (simp, arith)
  then have r: "PCI_BASE0 + of_nat (i * 4) \<in> set [0x10, 0x14, 0x18, 0x1c, 0x20, 0x24]" by (auto simp: PCI_BASE0_def)
  have "\<forall>r \<in> set [0x10, 0x14, 0x18, 0x1c, 0x20, 0x24 :: u32].  r AND 0xFC \<noteq> 0" by code_simp
  then have "(PCI_BASE0 + of_nat (i * 4)) AND 0xFC \<noteq> 0" using r by blast
  then show ?thesis using cfg_addr_low(2) [of dev "PCI_BASE0 + of_nat (i * 4)"] by (simp only: not_False_eq_True)
qed

lemma vendor_addr: "(cfg_addr dev PCI_VENDOR_ID AND NOT 3) AND 0xFF = 0"
  using cfg_addr_low(2) [of dev PCI_VENDOR_ID] by (simp add: PCI_VENDOR_ID_def)

section \<open>What the scan changes\<close>

definition dev_id :: "pci_dev \<Rightarrow> u8 \<times> u8 \<times> u8 \<times> u16 \<times> u16" where
  "dev_id d = (pd_bus d, pd_device d, pd_func d, pd_vendor d, pd_deviceid d)"

definition pci_frame :: "'a kpci_scheme \<Rightarrow> 'a kpci_scheme \<Rightarrow> bool" where
  "pci_frame s s' \<longleftrightarrow> (\<exists>m con crt devs p addr cfg.
     s' = s\<lparr>ram := m, cons := con, crt_out := crt, pcidev := devs, pcidev_pool := p, pci_addr := addr, pci_cfg := cfg\<rparr>
     \<and> same_ids cfg (pci_cfg s) \<and> (cons_ok s \<longrightarrow> cons_ok s')
     \<and> (\<forall>a. unat a < unat screen_base \<or> unat screen_base + 4000 \<le> unat a \<longrightarrow> m a = ram s a))"

definition dev_kept :: "'a kpci_scheme \<Rightarrow> 'a kpci_scheme \<Rightarrow> bool" where
  "dev_kept s s' \<longleftrightarrow> pci_frame s s' \<and> pcidev_pool s' = pcidev_pool s \<and> map dev_id (pcidev s') = map dev_id (pcidev s)
     \<and> map (length \<circ> pd_interval) (pcidev s') = map (length \<circ> pd_interval) (pcidev s)"

lemma pci_frame_regs:
  assumes "same_ids cfg (pci_cfg s)"
  shows "pci_frame s (s\<lparr>pcidev := devs, pcidev_pool := p, pci_addr := addr, pci_cfg := cfg\<rparr>)"
  unfolding pci_frame_def using assms
  by (intro exI [of _ "ram s"] exI [of _ "cons s"] exI [of _ "crt_out s"] exI [of _ devs] exI [of _ p] exI [of _ addr] exI [of _ cfg])
    (simp add: cons_ok_def)

lemma same_ids_refl [simp]: "same_ids f f" by (simp add: same_ids_def)

lemma pci_frame_refl: "pci_frame s s"
  using pci_frame_regs [where s = s and cfg = "pci_cfg s" and devs = "pcidev s" and p = "pcidev_pool s" and addr = "pci_addr s"] by simp

lemma pci_frame_trans:
  assumes "pci_frame s t" "pci_frame t u"
  shows "pci_frame s u"
proof -
  obtain m con crt devs p addr cfg where t:
    "t = s\<lparr>ram := m, cons := con, crt_out := crt, pcidev := devs, pcidev_pool := p, pci_addr := addr, pci_cfg := cfg\<rparr>"
    "same_ids cfg (pci_cfg s)" "cons_ok s \<longrightarrow> cons_ok t"
    "\<forall>a. unat a < unat screen_base \<or> unat screen_base + 4000 \<le> unat a \<longrightarrow> m a = ram s a"
    using assms(1) unfolding pci_frame_def by blast
  obtain m2 con2 crt2 devs2 p2 addr2 cfg2 where u:
    "u = t\<lparr>ram := m2, cons := con2, crt_out := crt2, pcidev := devs2, pcidev_pool := p2, pci_addr := addr2, pci_cfg := cfg2\<rparr>"
    "same_ids cfg2 (pci_cfg t)" "cons_ok t \<longrightarrow> cons_ok u"
    "\<forall>a. unat a < unat screen_base \<or> unat screen_base + 4000 \<le> unat a \<longrightarrow> m2 a = ram t a"
    using assms(2) unfolding pci_frame_def by blast
  have "u = s\<lparr>ram := m2, cons := con2, crt_out := crt2, pcidev := devs2, pcidev_pool := p2, pci_addr := addr2, pci_cfg := cfg2\<rparr>"
    using u(1) unfolding t(1) by simp
  moreover have "same_ids cfg2 (pci_cfg s)" using u(2) t(2) unfolding t(1) same_ids_def by simp
  moreover have "\<forall>a. unat a < unat screen_base \<or> unat screen_base + 4000 \<le> unat a \<longrightarrow> m2 a = ram s a"
    using u(4) t(4) unfolding t(1) by simp
  ultimately show ?thesis unfolding pci_frame_def using t(3) u(3) by blast
qed

lemma pci_frame_sel:
  assumes "pci_frame s s'"
  shows "same_ids (pci_cfg s') (pci_cfg s)" "cons_ok s \<Longrightarrow> cons_ok s'" "pci_wr s' = pci_wr s"
  using assms by (auto simp: pci_frame_def)

lemma dev_kept_refl: "dev_kept s s" by (simp add: dev_kept_def pci_frame_refl)

lemma dev_kept_trans: "dev_kept s t \<Longrightarrow> dev_kept t u \<Longrightarrow> dev_kept s u"
  using pci_frame_trans by (auto simp: dev_kept_def)

lemma dev_kept_screen:
  assumes "on_screen s s'" "cons_ok s'"
  shows "dev_kept s s'"
proof -
  obtain m con crt where s': "s' = s\<lparr>ram := m, cons := con, crt_out := crt\<rparr>"
    "\<forall>a. unat a < unat screen_base \<or> unat screen_base + 4000 \<le> unat a \<longrightarrow> m a = ram s a"
    using assms(1) unfolding on_screen_def by blast
  have "s' = s\<lparr>ram := m, cons := con, crt_out := crt, pcidev := pcidev s, pcidev_pool := pcidev_pool s, pci_addr := pci_addr s, pci_cfg := pci_cfg s\<rparr>"
    unfolding s'(1) by simp
  then have "pci_frame s s'" unfolding pci_frame_def using s'(2) assms(2) same_ids_refl by blast
  then show ?thesis unfolding dev_kept_def s'(1) by simp
qed

text \<open>A message.\<close>

lemma pci_message:
  assumes "render fmt as = Some out" "0 \<notin> set fmt" "length out < 100" "length stk = STACK_SIZE" "cons_ok s"
  shows "\<exists>s'. printk stk (fmt @ [0]) as s = Inr s' \<and> dev_kept s s' \<and> cons_ok s'"
  using printk_terminal [OF assms(1,2) _ assms(5), of stk] assms(3,4) dev_kept_screen
  by (fastforce simp: STACK_SIZE_def)

section \<open>Setting up a device\<close>

text \<open>A change of one record that leaves its identity, and registers at other offsets.\<close>

lemma dev_kept_update:
  assumes "same_ids cfg (pci_cfg s)" "d < length (pcidev s)" "dev_id (f (pcidev s ! d)) = dev_id (pcidev s ! d)"
    "length (pd_interval (f (pcidev s ! d))) = length (pd_interval (pcidev s ! d))"
  shows "dev_kept s (s\<lparr>pci_addr := addr, pci_cfg := cfg, pcidev := (pcidev s)[d := f (pcidev s ! d)]\<rparr>)"
proof -
  have "s\<lparr>pci_addr := addr, pci_cfg := cfg, pcidev := (pcidev s)[d := f (pcidev s ! d)]\<rparr>
      = s\<lparr>pcidev := (pcidev s)[d := f (pcidev s ! d)], pcidev_pool := pcidev_pool s, pci_addr := addr, pci_cfg := cfg\<rparr>" by simp
  then have "pci_frame s (s\<lparr>pci_addr := addr, pci_cfg := cfg, pcidev := (pcidev s)[d := f (pcidev s ! d)]\<rparr>)"
    using pci_frame_regs [OF assms(1)] by (simp only:)
  then show ?thesis using assms(2-4) by (simp add: dev_kept_def map_update list_update_same_conv)
qed

lemma setup_interval_kept:
  assumes "i < 6" "d < length (pcidev s)" "length (pd_interval (pcidev s ! d)) = 6"
  shows "\<exists>s'. setup_interval d i s = Inr s' \<and> dev_kept s s'"
proof -
  let ?dev = "pcidev s ! d"
  let ?addr = "cfg_addr ?dev (PCI_BASE0 + of_nat (i * 4))"
  let ?a = "?addr AND NOT 3"
  define cfg where "cfg = (pci_cfg s)(?a := pci_wr s ?a (pci_cfg s ?a))"
  have same: "same_ids cfg (pci_cfg s)" using base_reg_addr [OF assms(1), of ?dev] by (auto simp: same_ids_def cfg_def)
  let ?s = "s\<lparr>pci_addr := ?addr, pci_cfg := cfg\<rparr>"
  have "dev_kept s (s\<lparr>pci_addr := ?addr, pci_cfg := cfg, pcidev := (pcidev s)[d := ?dev]\<rparr>)"
    using dev_kept_update [OF same assms(2), of "\<lambda>x. x" ?addr] by simp
  then have k0: "dev_kept s ?s" by simp
  have k: "dev_kept s (s\<lparr>pci_addr := ?addr, pci_cfg := cfg, pcidev := (pcidev s)[d := ?dev\<lparr>pd_interval := (pd_interval ?dev)[i := v]\<rparr>]\<rparr>)" for v
    using dev_kept_update [OF same assms(2), of "pd_interval_update (\<lambda>_. (pd_interval ?dev)[i := v])" ?addr] by (simp add: dev_id_def)
  show ?thesis
    unfolding setup_interval_def Let_def pci_in_dword_def pci_out_dword_def out_cf8_def in_cfc_def out_cfc_def upd_dev_def
    using assms k k0 by (auto simp: cfg_def)
qed

lemma setup_irq_kept:
  assumes "d < length (pcidev s)"
  shows "\<exists>s'. pci_dev_setup_irq d s = Inr s' \<and> dev_kept s s'"
proof -
  let ?dev = "pcidev s ! d"
  have k: "dev_kept s (s\<lparr>pci_addr := a, pcidev := (pcidev s)[d := ?dev\<lparr>pd_irq := v\<rparr>]\<rparr>)" for a v
    using dev_kept_update [OF same_ids_refl assms, of "pd_irq_update (\<lambda>_. v)" a] by (simp add: dev_id_def)
  show ?thesis
    unfolding pci_dev_setup_irq_def Let_def pci_in_byte_def out_cf8_def in_cfc_def upd_dev_def
    using assms k by (auto simp: )
qed

text \<open>Calls in a row that all keep an invariant and stand in a relation.\<close>

lemma do_calls_kept:
  assumes "\<And>f s. f \<in> set fs \<Longrightarrow> P s \<Longrightarrow> \<exists>s'. f s = Inr s' \<and> dev_kept s s'" "\<And>s s'. P s \<Longrightarrow> dev_kept s s' \<Longrightarrow> P s'" "P s"
  shows "\<exists>s'. do_calls fs s = Inr s' \<and> dev_kept s s'"
  using assms(1,3)
proof (induction fs arbitrary: s)
  case Nil
  then show ?case using dev_kept_refl by auto
next
  case (Cons f fs)
  obtain t where t: "f s = Inr t" "dev_kept s t" using Cons.prems(1) [of f s] Cons.prems(2) by auto
  then obtain u where "do_calls fs t = Inr u" "dev_kept t u" using Cons.IH [of t] Cons.prems assms(2) by auto
  then show ?case using t dev_kept_trans by auto
qed

definition devs_ok :: "'a kpci_scheme \<Rightarrow> bool" where
  "devs_ok s \<longleftrightarrow> cons_ok s \<and> length (pcidev s) = SLOT_SIZE \<and> (\<forall>d < SLOT_SIZE. length (pd_interval (pcidev s ! d)) = 6)"

lemma devs_ok_kept:
  assumes "devs_ok s" "dev_kept s s'"
  shows "devs_ok s'"
proof -
  have l: "map (length \<circ> pd_interval) (pcidev s') = map (length \<circ> pd_interval) (pcidev s)" "cons_ok s'"
    using assms pci_frame_sel(2) by (auto simp: dev_kept_def devs_ok_def)
  then have n: "length (pcidev s') = length (pcidev s)" by (metis length_map)
  have "length (pd_interval (pcidev s' ! d)) = length (pd_interval (pcidev s ! d))" if "d < SLOT_SIZE" for d
    using arg_cong [OF l(1), of "\<lambda>xs. xs ! d"] that n assms(1) by (simp add: devs_ok_def)
  then show ?thesis using assms(1) n l(2) by (simp add: devs_ok_def)
qed

lemma setup_intervals_kept:
  assumes "devs_ok s" "d < SLOT_SIZE" "n \<le> 6"
  shows "\<exists>s'. pci_dev_setup_interval d n s = Inr s' \<and> dev_kept s s'"
  unfolding pci_dev_setup_interval_def
proof (rule do_calls_kept [where P = devs_ok])
  show "\<exists>s'. f s = Inr s' \<and> dev_kept s s'" if "f \<in> set (map (setup_interval d) [0..<n])" "devs_ok s" for f and s :: "'a kpci_scheme"
    using that assms(2,3) setup_interval_kept [of _ d s] by (auto simp: devs_ok_def)
qed (use assms devs_ok_kept in auto)

lemma setup_device_kept:
  assumes "devs_ok s" "d < SLOT_SIZE" "length stk = STACK_SIZE"
  shows "\<exists>s'. setup_device stk d dev cls s = Inr s' \<and> dev_kept s s'"
proof -
  have hl: "length (hex_bytes w) \<le> 8" "length (dec_bytes w) \<le> 10" for w by (rule hex_bytes_length dec_bytes_length)+
  have msg: "\<exists>t. printk stk (fmt @ [10, 0]) as s = Inr t \<and> dev_kept s t"
    if "render (fmt @ [10]) as = Some out" "0 \<notin> set fmt" "length out < 100" "devs_ok s" for fmt as out and s :: "'a kpci_scheme"
    using pci_message [OF that(1) _ that(3) assms(3), of s] that(2,4) by (auto simp: devs_ok_def)
  let ?v = "pd_vendor dev" and ?i = "pd_deviceid dev" and ?b = "pd_bus dev" and ?d = "pd_device dev" and ?f = "pd_func dev" and ?h = "pd_header_type dev"
  have r1: "render (bytes ''PCI:found [0x%x/0x%x] b%d d%d f%d %x %x'' @ [10]) [Va_word (ucast ?v), Va_word (ucast ?i), Va_word (ucast ?b),
       Va_word (ucast ?d), Va_word (ucast ?f), Va_word cls, Va_word (ucast ?h)]
     = Some (bytes ''PCI:found [0x'' @ hex_bytes (ucast ?v) @ bytes ''/0x'' @ hex_bytes (ucast ?i) @ bytes ''] b'' @ dec_bytes (ucast ?b)
         @ bytes '' d'' @ dec_bytes (ucast ?d) @ bytes '' f'' @ dec_bytes (ucast ?f) @ bytes '' '' @ hex_bytes cls @ bytes '' '' @ hex_bytes (ucast ?h) @ [10])"
    by (simp add: bytes_def item_def of_char_def)
  obtain t where t: "printk stk (bytes ''PCI:found [0x%x/0x%x] b%d d%d f%d %x %x'' @ [10, 0]) [Va_word (ucast ?v), Va_word (ucast ?i), Va_word (ucast ?b),
       Va_word (ucast ?d), Va_word (ucast ?f), Va_word cls, Va_word (ucast ?h)] s = Inr t" "dev_kept s t"
    using msg [OF r1 _ _ assms(1)] hl(1) [of "ucast ?v"] hl(1) [of "ucast ?i"] hl(2) [of "ucast ?b"] hl(2) [of "ucast ?d"] hl(2) [of "ucast ?f"]
      hl(1) [of cls] hl(1) [of "ucast ?h"] by (auto simp: bytes_def of_char_def)
  have ok: "devs_ok t" using devs_ok_kept [OF assms(1) t(2)] .
  have r2: "render (bytes ''PCI:class %x dose not match header type %x'' @ [10]) [Va_word cls, Va_word (ucast ?h)]
      = Some (bytes ''PCI:class '' @ hex_bytes cls @ bytes '' dose not match header type '' @ hex_bytes (ucast ?h) @ [10])"
    by (simp add: bytes_def item_def of_char_def)
  have bad: "\<exists>u. bad_header stk cls dev t = Inr u \<and> dev_kept t u"
    unfolding bad_header_def using msg [OF r2 _ _ ok] hl(1) [of cls] hl(1) [of "ucast ?h"] by (auto simp: bytes_def of_char_def)
  have r3: "render (bytes ''PCI:unknown header type 0x%x'' @ [10]) [Va_word (ucast ?h)] = Some (bytes ''PCI:unknown header type 0x'' @ hex_bytes (ucast ?h) @ [10])"
    by (simp add: bytes_def item_def of_char_def)
  have unknown: "\<exists>u. printk stk (bytes ''PCI:unknown header type 0x%x'' @ [10, 0]) [Va_word (ucast ?h)] t = Inr u \<and> dev_kept t u"
    using msg [OF r3 _ _ ok] hl(1) [of "ucast ?h"] by (auto simp: bytes_def of_char_def)
  have r4: "render (bytes ''PCI:pci-pci bridge'' @ [10]) [] = Some (bytes ''PCI:pci-pci bridge'' @ [10])"
    by (simp add: bytes_def of_char_def)
  have bridge: "\<exists>u. res_bind (pci_dev_setup_interval d 2 t) (printk stk (bytes ''PCI:pci-pci bridge'' @ [10, 0]) []) = Inr u \<and> dev_kept t u"
  proof -
    obtain t2 where t2: "pci_dev_setup_interval d 2 t = Inr t2" "dev_kept t t2" using setup_intervals_kept [OF ok assms(2), of 2] by auto
    from msg [OF r4 _ _ devs_ok_kept [OF ok t2(2)]] t2 dev_kept_trans [OF t2(2)] show ?thesis by (auto simp: bytes_def of_char_def)
  qed
  have normal: "\<exists>u. res_bind (pci_dev_setup_irq d t) (pci_dev_setup_interval d 6) = Inr u \<and> dev_kept t u"
  proof -
    obtain t2 where t2: "pci_dev_setup_irq d t = Inr t2" "dev_kept t t2" using setup_irq_kept [of d t] ok assms(2) by (auto simp: devs_ok_def)
    from setup_intervals_kept [OF devs_ok_kept [OF ok t2(2)] assms(2), of 6] t2 dev_kept_trans [OF t2(2)] show ?thesis by auto
  qed
  show ?thesis
    unfolding setup_device_def t(1) res_bind_Inr using bad unknown bridge normal dev_kept_trans [OF t(2)]
    by (auto split: if_split)
qed

section \<open>The scan\<close>

text \<open>The functions that answer, and what is known of them afterwards.\<close>

definition vendor_word :: "(u32 \<Rightarrow> u32) \<Rightarrow> pci_dev \<Rightarrow> u32" where
  "vendor_word cfg temp = cfg (cfg_addr temp PCI_VENDOR_ID AND NOT 3)"

definition answers :: "(u32 \<Rightarrow> u32) \<Rightarrow> pci_dev \<Rightarrow> bool" where
  "answers cfg temp \<longleftrightarrow> vendor_word cfg temp \<notin> {0x00000000, 0xFFFFFFFF, 0x0000FFFF, 0xFFFF0000}"

definition found_ids :: "(u32 \<Rightarrow> u32) \<Rightarrow> pci_dev list \<Rightarrow> (u8 \<times> u8 \<times> u8 \<times> u16 \<times> u16) list" where
  "found_ids cfg temps = map (\<lambda>t. (pd_bus t, pd_device t, pd_func t, ucast (vendor_word cfg t AND 0xFFFF),
      ucast (drop_bit 16 (vendor_word cfg t) AND 0xFFFF))) (filter (answers cfg) temps)"

text \<open>The first \<open>length L\<close> records are in use and have the identities \<open>L\<close>.\<close>

definition scanned :: "(u8 \<times> u8 \<times> u8 \<times> u16 \<times> u16) list \<Rightarrow> 'a kpci_scheme \<Rightarrow> bool" where
  "scanned L s \<longleftrightarrow> devs_ok s \<and> length L \<le> SLOT_SIZE \<and> free_slots (pcidev_pool s) [length L..<SLOT_SIZE]
     \<and> take (length L) (map dev_id (pcidev s)) = L"

lemma scanned_kept: "scanned L s \<Longrightarrow> dev_kept s s' \<Longrightarrow> scanned L s'"
  using devs_ok_kept by (auto simp: scanned_def dev_kept_def)

lemma found_ids_cong: "same_ids cfg cfg' \<Longrightarrow> found_ids cfg temps = found_ids cfg' temps"
proof -
  assume "same_ids cfg cfg'"
  then have "vendor_word cfg = vendor_word cfg'" using vendor_addr by (auto simp: same_ids_def vendor_word_def)
  moreover from this have "answers cfg = answers cfg'" by (simp add: answers_def fun_eq_iff)
  ultimately show ?thesis by (simp add: found_ids_def)
qed

lemma scan_new_device:
  assumes "scanned L s" "length stk = STACK_SIZE" "length (pd_interval temp) = 6" "answers (pci_cfg s) temp" "length L < SLOT_SIZE"
  shows "\<exists>s'. pci_scan_device stk temp s = Inr s' \<and> pci_frame s s' \<and> scanned (L @ found_ids (pci_cfg s) [temp]) s'"
proof -
  let ?n = "length L"
  let ?v = "vendor_word (pci_cfg s) temp"
  have ok: "devs_ok s" "length (pcidev s) = SLOT_SIZE" using assms(1) by (simp_all add: scanned_def devs_ok_def)
  have "[?n..<SLOT_SIZE] = ?n # [?n + 1..<SLOT_SIZE]" using assms(5) by (simp add: upt_conv_Cons)
  then obtain p where p: "alloc_slot (pcidev_pool s) = (Some ?n, p)" "free_slots p [?n + 1..<SLOT_SIZE]"
    using slot.alloc_cons [of "pcidev_pool s" ?n "[?n + 1..<SLOT_SIZE]"] assms(1) by (auto simp: scanned_def)
  define addr where "addr = cfg_addr temp PCI_HEADER"
  define cls where "cls = drop_bit 8 (drop_bit 8 (pci_cfg s (cfg_addr temp PCI_CLASS AND NOT 3)))"
  define dev where "dev = temp\<lparr>pd_vendor := ucast (?v AND 0xFFFF), pd_deviceid := ucast (drop_bit 16 ?v AND 0xFFFF),
     pd_class := drop_bit 8 (pci_cfg s (cfg_addr temp PCI_CLASS AND NOT 3)),
     pd_header_type := ucast (drop_bit (8 * unat (PCI_HEADER AND 3)) (pci_cfg s (addr AND NOT 3))) AND 0x7F\<rparr>"
  let ?s5 = "s\<lparr>pcidev_pool := p, pci_addr := addr, pcidev := (pcidev s)[?n := dev]\<rparr>"
  have run: "pci_scan_device stk temp s = setup_device stk ?n dev cls ?s5"
    using assms(4,5) ok(2) p(1)
    by (simp add: pci_scan_device_def pci_in_dword_def pci_in_byte_def out_cf8_def in_cfc_def upd_dev_def answers_def vendor_word_def
        addr_def cls_def dev_def Let_def)
  have id: "dev_id dev = hd (found_ids (pci_cfg s) [temp])" "length (found_ids (pci_cfg s) [temp]) = 1"
    using assms(4) by (simp_all add: dev_id_def dev_def found_ids_def)
  have "?s5 = s\<lparr>pcidev := (pcidev s)[?n := dev], pcidev_pool := p, pci_addr := addr, pci_cfg := pci_cfg s\<rparr>" by simp
  then have f5: "pci_frame s ?s5" using pci_frame_regs [OF same_ids_refl] by (simp only:)
  have ok5: "devs_ok ?s5" using ok assms(3,5) by (auto simp: devs_ok_def cons_ok_def dev_def nth_list_update)
  have L1: "L @ found_ids (pci_cfg s) [temp] = L @ [dev_id dev]"
    using id by (cases "found_ids (pci_cfg s) [temp]") auto
  have "take (?n + 1) ((map dev_id (pcidev s))[?n := dev_id dev]) = L @ [dev_id dev]"
    using assms(1,5) ok(2) by (simp add: scanned_def take_Suc_conv_app_nth)
  then have sc: "scanned (L @ found_ids (pci_cfg s) [temp]) ?s5"
    unfolding L1 scanned_def using ok5 p(2) assms(5) by (simp add: map_update)
  obtain s' where s': "setup_device stk ?n dev cls ?s5 = Inr s'" "dev_kept ?s5 s'"
    using setup_device_kept [OF ok5 assms(5,2)] by blast
  then show ?thesis using run scanned_kept [OF sc s'(2)] pci_frame_trans [OF f5] by (auto simp: dev_kept_def)
qed

lemma scan_device:
  assumes "scanned L s" "length stk = STACK_SIZE" "length (pd_interval temp) = 6"
  shows "\<exists>s'. pci_scan_device stk temp s = Inr s' \<and> pci_frame s s' \<and> scanned (take SLOT_SIZE (L @ found_ids (pci_cfg s) [temp])) s'"
proof (cases "answers (pci_cfg s) temp")
  case False
  let ?s = "s\<lparr>pci_addr := cfg_addr temp PCI_VENDOR_ID\<rparr>"
  have "pci_scan_device stk temp s = Inr ?s"
    using False by (auto simp: pci_scan_device_def pci_in_dword_def out_cf8_def in_cfc_def answers_def vendor_word_def Let_def)
  moreover have "?s = s\<lparr>pcidev := pcidev s, pcidev_pool := pcidev_pool s, pci_addr := cfg_addr temp PCI_VENDOR_ID, pci_cfg := pci_cfg s\<rparr>" by simp
  then have "pci_frame s ?s" using pci_frame_regs [OF same_ids_refl] by (simp only:)
  moreover have "scanned L ?s" using assms(1) by (simp add: scanned_def devs_ok_def cons_ok_def)
  ultimately show ?thesis using False assms(1) by (auto simp: found_ids_def scanned_def)
next
  case True
  show ?thesis
  proof (cases "length L < SLOT_SIZE")
    case less: True
    have "length (L @ found_ids (pci_cfg s) [temp]) \<le> SLOT_SIZE" using less by (simp add: found_ids_def)
    then show ?thesis using scan_new_device [OF assms True less] by simp
  next
    case False
    let ?s = "s\<lparr>pci_addr := cfg_addr temp PCI_VENDOR_ID\<rparr>"
    have full: "length L = SLOT_SIZE" using False assms(1) by (simp add: scanned_def)
    then have "alloc_slot (pcidev_pool s) = (None, pcidev_pool s)" using assms(1) slot.alloc_nil by (simp add: scanned_def)
    then have run: "pci_scan_device stk temp s = printk stk (bytes ''PCI:no spaces'' @ [10, 0]) [] ?s"
      using True by (simp add: pci_scan_device_def pci_in_dword_def out_cf8_def in_cfc_def answers_def vendor_word_def Let_def)
    have "?s = s\<lparr>pcidev := pcidev s, pcidev_pool := pcidev_pool s, pci_addr := cfg_addr temp PCI_VENDOR_ID, pci_cfg := pci_cfg s\<rparr>" by simp
    then have f: "pci_frame s ?s" using pci_frame_regs [OF same_ids_refl] by (simp only:)
    have sc: "scanned L ?s" using assms(1) by (simp add: scanned_def devs_ok_def cons_ok_def)
    have r: "render (bytes ''PCI:no spaces'' @ [10]) [] = Some (bytes ''PCI:no spaces'' @ [10])" by (simp add: bytes_def of_char_def)
    obtain s' where "printk stk (bytes ''PCI:no spaces'' @ [10, 0]) [] ?s = Inr s'" "dev_kept ?s s'"
      using pci_message [OF r _ _ assms(2), of ?s] sc by (auto simp: bytes_def of_char_def scanned_def devs_ok_def)
    then show ?thesis using run scanned_kept [OF sc] pci_frame_trans [OF f] full by (auto simp: dev_kept_def)
  qed
qed

lemma scan_devices:
  assumes "scanned L s" "length stk = STACK_SIZE" "\<forall>t \<in> set temps. length (pd_interval t) = 6"
  shows "\<exists>s'. do_calls (map (pci_scan_device stk) temps) s = Inr s' \<and> pci_frame s s'
    \<and> scanned (take SLOT_SIZE (L @ found_ids (pci_cfg s) temps)) s'"
  using assms(1,3)
proof (induction temps arbitrary: L s)
  case Nil
  then show ?case using pci_frame_refl by (auto simp: found_ids_def scanned_def)
next
  case (Cons t temps)
  obtain s1 where s1: "pci_scan_device stk t s = Inr s1" "pci_frame s s1" "scanned (take SLOT_SIZE (L @ found_ids (pci_cfg s) [t])) s1"
    using scan_device [OF Cons.prems(1) assms(2), of t] Cons.prems(2) by auto
  obtain s2 where s2: "do_calls (map (pci_scan_device stk) temps) s1 = Inr s2" "pci_frame s1 s2"
    "scanned (take SLOT_SIZE (take SLOT_SIZE (L @ found_ids (pci_cfg s) [t]) @ found_ids (pci_cfg s1) temps)) s2"
    using Cons.IH [OF s1(3)] Cons.prems(2) by auto
  have "found_ids (pci_cfg s1) temps = found_ids (pci_cfg s) temps" by (rule found_ids_cong [OF pci_frame_sel(1) [OF s1(2)]])
  moreover have "found_ids (pci_cfg s) (t # temps) = found_ids (pci_cfg s) [t] @ found_ids (pci_cfg s) temps" by (simp add: found_ids_def)
  moreover have "take SLOT_SIZE (take SLOT_SIZE xs @ ys) = take SLOT_SIZE (xs @ ys)" for xs ys :: "(u8 \<times> u8 \<times> u8 \<times> u16 \<times> u16) list"
    by (cases "length xs \<le> SLOT_SIZE") simp_all
  ultimately have "scanned (take SLOT_SIZE (L @ found_ids (pci_cfg s) (t # temps))) s2" using s2(3) by (simp only: append_assoc)
  then show ?case using s1(1) s2(1) pci_frame_trans [OF s1(2) s2(2)] by auto
qed

lemma do_calls_concat: "do_calls (map do_calls fss) s = do_calls (concat fss) s"
proof (induction fss arbitrary: s)
  case (Cons fs fss)
  show ?case using Cons by (cases "do_calls fs s") (simp_all add: do_calls_append)
qed simp

section \<open>Properties\<close>

text \<open>All functions of bus 0, in the order of the scan.\<close>

definition bus_temps :: "pci_dev \<Rightarrow> pci_dev list" where
  "bus_temps junk = map (\<lambda>(i, j). junk\<lparr>pd_bus := 0, pd_device := of_nat i, pd_func := of_nat j\<rparr>) bus_funcs"

lemma pci_scan_bus_flat: "pci_scan_bus stk junk s = do_calls (map (pci_scan_device stk) (bus_temps junk)) s"
proof -
  let ?fss = "map (\<lambda>i. map (\<lambda>j. pci_scan_device stk (junk\<lparr>pd_bus := 0, pd_device := of_nat i, pd_func := of_nat j\<rparr>)) [0..<8]) [0..<32]"
  have "pci_scan_bus stk junk s = do_calls (map do_calls ?fss) s"
    by (simp add: pci_scan_bus_def pci_scan_slot_def [abs_def] comp_def)
  also have "\<dots> = do_calls (concat ?fss) s" by (rule do_calls_concat)
  also have "concat ?fss = map (pci_scan_device stk) (bus_temps junk)"
    by (simp add: bus_temps_def bus_funcs_def map_concat comp_def)
  finally show ?thesis .
qed

text \<open>
  Property C30: the scan of the bus always returns. The functions of bus 0 that answer, in the order of
  their numbers, are in the device records, with their vendor and device numbers, the first eighteen of
  them; the rest are left out. Besides the records it changes only the screen, and the
  configuration registers that it writes are never those of an identification.
\<close>

theorem pci_scan_finds:
  assumes "devs_ok s" "free_slots (pcidev_pool s) [0..<SLOT_SIZE]" "length stk = STACK_SIZE" "length (pd_interval junk) = 6"
  shows "\<exists>s'. pci_scan_bus stk junk s = Inr s' \<and> pci_frame s s'
    \<and> (let L = take SLOT_SIZE (found_ids (pci_cfg s) (bus_temps junk))
       in take (length L) (map dev_id (pcidev s')) = L \<and> free_slots (pcidev_pool s') [length L..<SLOT_SIZE])"
proof -
  have "scanned [] s" using assms(1,2) by (simp add: scanned_def)
  moreover have "\<forall>t \<in> set (bus_temps junk). length (pd_interval t) = 6" using assms(4) by (auto simp: bus_temps_def)
  ultimately obtain s' where "do_calls (map (pci_scan_device stk) (bus_temps junk)) s = Inr s'" "pci_frame s s'"
    "scanned (take SLOT_SIZE (found_ids (pci_cfg s) (bus_temps junk))) s'"
    using scan_devices [OF _ assms(3), of "[]" s "bus_temps junk"] by auto
  then show ?thesis unfolding pci_scan_bus_flat scanned_def Let_def by blast
qed

text \<open>
  The size that \<open>pci_dev_setup_interval\<close> records for an address range of \<open>2 ^ k\<close> bytes is
  \<open>2 ^ k\<close>, for memory and for io ports, with the range's address and kind, and the register reads
  what it read before.
\<close>

theorem setup_interval_sizes:
  assumes "d < length (pcidev s)" "i < length (pd_interval (pcidev s ! d))"
    and "a = cfg_addr (pcidev s ! d) (PCI_BASE0 + of_nat (i * 4))" "base = pci_cfg s (a AND NOT 3)"
    and "io = (base AND 1 \<noteq> 0)" "kind = (if io then 1 else base AND 0xE)" "io \<longrightarrow> base AND 3 = 1"
    and "if io then 2 \<le> k \<and> k < 16 else 4 \<le> k \<and> k < 32"
    and "pci_wr s (a AND NOT 3) 0xffffffff = range_mask k kind" "pci_wr s (a AND NOT 3) base = base"
  shows "setup_interval d i s = Inr (s\<lparr>pci_addr := a, pcidev := (pcidev s)[d := (pcidev s ! d)\<lparr>pd_interval := (pd_interval (pcidev s ! d))
      [i := \<lparr>iv_base = base AND NOT (if io then 3 else 0xF), iv_size = 2 ^ k, iv_type = (if io then 1 else 0)\<rparr>]\<rparr>]\<rparr>)"
proof -
  let ?m = "if io then 0xfffc else NOT 0xf :: u32" and ?r = "range_mask k kind"
  have lit: "(0xF :: u32) = mask 4" "(0xfffc :: u32) = mask 16 AND NOT (mask 2)" "(0xE :: u32) = mask 4 AND NOT (mask 1)" "(1 :: u32) = mask 1"
    by (simp_all add: mask_eq_exp_minus_1)
  have kb: "bit kind n \<Longrightarrow> n < (if io then 1 else 4) \<and> (\<not> io \<longrightarrow> n \<noteq> 0)" for n
    unfolding assms(6) lit by (auto simp: bit_simps split: if_splits)
  have mb: "bit ?m n \<longleftrightarrow> (if io then 2 \<le> n \<and> n < 16 else 4 \<le> n \<and> n < 32)" for n
    unfolding lit by (auto simp: bit_simps)
  have k: "k < 32" "bit ?m k" "bit ?m n \<Longrightarrow> \<not> bit kind n" "bit kind n \<Longrightarrow> n < k" for n
    using assms(8) mb [of k] mb [of n] kb [of n] by (auto split: if_splits)
  have size: "pci_intervalsize ?r ?m = 2 ^ k" by (intro intervalsize_range k)
  have rb: "bit ?r n \<longleftrightarrow> n < 32 \<and> k \<le> n \<or> bit kind n" for n
    using bit_imp_le_length [of kind n] by (auto simp: range_mask_def bit_simps)
  have "bit ?r k" using rb [of k] k(1) by simp
  then have "?r \<noteq> 0" by auto
  have "\<not> bit ?r (if io then 1 else 0)" using rb [of "if io then 1 else 0"] kb [of "if io then 1 else 0"] assms(8) by (auto split: if_splits)
  moreover have "bit (0xffffffff :: u32) n" if "n < 32" for n
  proof -
    have "(0xffffffff :: u32) = mask 32" by (simp add: mask_eq_exp_minus_1)
    then show ?thesis using that by (simp only: bit_mask_iff) simp
  qed
  ultimately have "?r \<noteq> 0xffffffff" by (metis (full_types) one_less_numeral_iff semiring_norm(76) zero_less_numeral)
  have ty: "ucast (base AND 1) = (if io then 1 else 0 :: u8)"
    using assms(5) and_one_eq [of base] by (auto simp: mod_2_eq_odd)
  show ?thesis
    unfolding setup_interval_def Let_def pci_in_dword_def pci_out_dword_def out_cf8_def in_cfc_def out_cfc_def upd_dev_def
    using assms(1-5,9,10) size \<open>?r \<noteq> 0\<close> \<open>?r \<noteq> 0xffffffff\<close> ty by (auto simp: )
qed

text \<open>A bus with a host bridge and an ISA bridge, and a range of 4 KB.\<close>

definition two_bridges :: "u32 \<Rightarrow> u32" where
  "two_bridges a = (if a = 0x80000000 then 0x12378086 else if a = 0x80000800 then 0x70008086 else if a = 0x80000010 then 0xE0000008 else 0xFFFFFFFF)"

definition bridges :: kpci where
  "bridges = pci_with two_bridges (\<lambda>a v. if v = 0xffffffff then range_mask 12 8 else v) irq_state"

lemma bridges_sel:
  "pcidev bridges = replicate SLOT_SIZE no_device" "pci_cfg bridges = two_bridges" "length (pd_interval no_device) = 6"
  "pcidev_pool bridges = init_slot SLOT_SIZE \<lparr>free_next = (\<lambda>_. None), free_head = None\<rparr>" "cons bridges = cons last_cell"
  "pci_wr bridges = (\<lambda>a v. if v = 0xffffffff then range_mask 12 8 else v)"
  by (simp_all add: bridges_def pci_with_def clock_at_def kclk.extend_def kkb.extend_def kirq.extend_def no_device_def irq_state_def
      kcons.extend_def)

lemma bridges_found: "found_ids two_bridges (bus_temps no_device) = [(0, 0, 0, 0x8086, 0x1237), (0, 1, 0, 0x8086, 0x7000)]"
  by code_simp

theorem pci_scan_finds_witness:
  "\<exists>s'. pci_scan_bus (replicate 100 0) no_device bridges = Inr s'
    \<and> take 2 (map dev_id (pcidev s')) = [(0, 0, 0, 0x8086, 0x1237), (0, 1, 0, 0x8086, 0x7000)]"
proof -
  have "devs_ok bridges" using last_cell_ok(1) by (simp add: devs_ok_def cons_ok_def bridges_sel)
  moreover have "free_slots (pcidev_pool bridges) [0..<SLOT_SIZE]"
    unfolding bridges_sel by (rule free_slots_init) (simp add: SLOT_SIZE_def)
  ultimately show ?thesis
    using pci_scan_finds [of bridges "replicate 100 0" no_device] bridges_found
    by (auto simp: STACK_SIZE_def bridges_sel SLOT_SIZE_def Let_def numeral_2_eq_2)
qed

theorem setup_interval_sizes_witness:
  "\<exists>s'. setup_interval 0 0 bridges = Inr s' \<and> pd_interval (pcidev s' ! 0) ! 0 = \<lparr>iv_base = 0xE0000000, iv_size = 0x1000, iv_type = 0\<rparr>"
proof -
  have a: "cfg_addr no_device (PCI_BASE0 + of_nat (0 * 4)) AND NOT 3 = 0x80000010" by code_simp
  have d: "pcidev bridges ! 0 = no_device" "0 < length (pcidev bridges)" by (simp_all add: bridges_sel SLOT_SIZE_def)
  have b: "pci_cfg bridges (cfg_addr no_device (PCI_BASE0 + of_nat (0 * 4)) AND NOT 3) = 0xE0000008"
    unfolding a bridges_sel by (simp add: two_bridges_def)
  have b2: "two_bridges (cfg_addr no_device PCI_BASE0 AND - 4) = 0xE0000008" by code_simp
  from setup_interval_sizes [of 0 bridges 0 _ "0xE0000008" False 8 12] show ?thesis
    unfolding d(1) b using d(2) bridges_sel(3) b2 by (simp add: bridges_sel SLOT_SIZE_def)
qed

end
