(* ===== verification/Cpuid.thy ===== *)
theory Cpuid
  imports Pci
begin

text \<open>
  The name of the processor: \<^verbatim>\<open>ker/cpu.c\<close>. The instruction \<^verbatim>\<open>cpuid\<close> is an argument: \<open>cpuid_of op\<close> are the
  registers EAX, EBX, ECX and EDX that it returns.
\<close>

section \<open>The state\<close>

text \<open>\<^verbatim>\<open>struct cpuinfo_x86\<close>, the fields that are used.\<close>

record cpuinfo_x86 =
  ci_family :: u8
  ci_model :: u8
  ci_vendor_id :: "u8 list"
  ci_model_id :: "u8 list"

record kcpu = kpci +
  cpuinfo :: cpuinfo_x86
  cpuid_of :: "u32 \<Rightarrow> u32 \<times> u32 \<times> u32 \<times> u32"

section \<open>The table of models\<close>

definition cpu_models :: "(u8 \<times> string option list) list" where
  "cpu_models =
     [(5, [Some ''Pentium 60/66 A-step'', Some ''Pentium 60/66'', Some ''Pentium 75 - 200'',
           Some ''OverDrive PODP5V83'', Some ''Pentium MMX'', None, None,
           Some ''Mobile Pentium 75 - 200'', Some ''Mobile Pentium MMX'', None, None, None,
           None, None, None, None]),
      (6, [Some ''Pentium Pro A-step'', Some ''Pentium Pro'', None, Some ''Pentium II (Klamath)'',
           None, Some ''Pentium II (Deschutes)'', Some ''Mobile Pentium II'',
           Some ''Pentium III (Katmai)'', Some ''Pentium III (Coppermine)'', None,
           Some ''Pentium III (Cascades)'', None, None, None, None, None])]"

fun search_models :: "(u8 \<times> string option list) list \<Rightarrow> cpuinfo_x86 \<Rightarrow> string option res" where
  "search_models [] c = Inr None"
| "search_models ((fam, names) # info) c = (if fam = ci_family c then rd names (unat (ci_model c)) else search_models info c)"

definition model_table_search :: "cpuinfo_x86 \<Rightarrow> string option res" where
  "model_table_search c = (if 16 \<le> ci_model c then Inr None else search_models cpu_models c)"

section \<open>The brand string\<close>

text \<open>Storing a register in memory, low byte first.\<close>

definition le_bytes :: "u32 \<Rightarrow> u8 list" where
  "le_bytes w = [ucast w, ucast (drop_bit 8 w), ucast (drop_bit 16 w), ucast (drop_bit 24 w)]"

definition reg_bytes :: "u32 \<times> u32 \<times> u32 \<times> u32 \<Rightarrow> u8 list" where
  "reg_bytes r = (case r of (a, b, c, d) \<Rightarrow> le_bytes a @ le_bytes b @ le_bytes c @ le_bytes d)"

text \<open>\<^verbatim>\<open>while ( *p == ' ' ) p++\<close>, \<^verbatim>\<open>while ( *p ) *q++ = *p++\<close> and \<^verbatim>\<open>while ( q <= &c->model_id[48] ) *q++ = 0\<close>.\<close>

function skip_blanks :: "u8 list \<Rightarrow> nat \<Rightarrow> nat res" where
  "skip_blanks m p = (if p < length m then (if m ! p = 32 then skip_blanks m (p + 1) else Inr p) else Inl Out_of_bounds)"
  by pat_completeness auto
termination by (relation "measure (\<lambda>(m, p). length m - p)") auto

function move_left :: "u8 list \<Rightarrow> nat \<Rightarrow> nat \<Rightarrow> (nat \<times> u8 list) res" where
  "move_left m p q =
     (if p < length m then
        (if m ! p \<noteq> 0 then
           (if q < length m then move_left (m[q := m ! p]) (p + 1) (q + 1) else Inl Out_of_bounds)
         else Inr (q, m))
      else Inl Out_of_bounds)"
  by pat_completeness auto
termination by (relation "measure (\<lambda>(m, p, q). length m - p)") auto

function zero_pad :: "u8 list \<Rightarrow> nat \<Rightarrow> u8 list res" where
  "zero_pad m q = (if q \<le> 48 then res_bind (wr m q 0) (\<lambda>m1. zero_pad m1 (q + 1)) else Inr m)"
  by pat_completeness auto
termination by (relation "measure (\<lambda>(m, q). 49 - q)") auto

declare skip_blanks.simps [simp del] move_left.simps [simp del] zero_pad.simps [simp del]

definition trim_brand :: "u8 list \<Rightarrow> u8 list res" where
  "trim_brand m =
     res_bind (skip_blanks m 0) (\<lambda>p.
     if p \<noteq> 0 then res_bind (move_left m p 0) (\<lambda>(q, m1). zero_pad m1 q) else Inr m)"

definition get_model_name :: "(u32 \<Rightarrow> u32 \<times> u32 \<times> u32 \<times> u32) \<Rightarrow> cpuinfo_x86 \<Rightarrow> cpuinfo_x86 res" where
  "get_model_name cpuid c =
     (if fst (cpuid 0x80000000) < 0x80000004 then
        let eax = fst (cpuid 1);
            c1 = c\<lparr>ci_family := ucast (drop_bit 8 eax AND 0xf), ci_model := ucast (drop_bit 4 eax AND 0xf)\<rparr>
        in res_bind (model_table_search c1) (\<lambda>n. case n of None \<Rightarrow> Inl Null_deref
           | Some name \<Rightarrow> res_bind (strcpy (ci_model_id c1) (bytes name @ [0])) (\<lambda>m. Inr (c1\<lparr>ci_model_id := m\<rparr>)))
      else
        let m = (reg_bytes (cpuid 0x80000002) @ reg_bytes (cpuid 0x80000003) @ reg_bytes (cpuid 0x80000004)) @ drop 48 (ci_model_id c)
        in res_bind (wr m 48 0) (\<lambda>m1. res_bind (trim_brand m1) (\<lambda>m2. Inr (c\<lparr>ci_model_id := m2\<rparr>))))"

definition intel_init :: "u8 list \<Rightarrow> 'a kcpu_scheme \<Rightarrow> 'a kcpu_scheme res" where
  "intel_init stk s =
     (let (maxvalue, v0, v1, v2) = cpuid_of s 0;
          c = cpuinfo s
      in res_bind (wr ((le_bytes v0 @ le_bytes v1 @ le_bytes v2) @ drop 12 (ci_vendor_id c)) 12 0) (\<lambda>v.
         res_bind (get_model_name (cpuid_of s) (c\<lparr>ci_vendor_id := v\<rparr>)) (\<lambda>c1.
         printk stk (bytes ''CPU %s:%s'' @ [10, 0]) [Va_str (ci_vendor_id c1), Va_str (ci_model_id c1)] (s\<lparr>cpuinfo := c1\<rparr>))))"

text \<open>A machine with a processor.\<close>

definition cpu_with :: "(u32 \<Rightarrow> u32 \<times> u32 \<times> u32 \<times> u32) \<Rightarrow> kpci \<Rightarrow> kcpu" where
  "cpu_with f k = kpci.extend k
     \<lparr>cpuinfo = \<lparr>ci_family = 0, ci_model = 0, ci_vendor_id = replicate 16 0, ci_model_id = replicate 50 0\<rparr>, cpuid_of = f\<rparr>"

lemmas device_extend = cpu_with_def pci_with_def clock_at_def kpci.extend_def kclk.extend_def kkb.extend_def kirq.extend_def
  kcons.extend_def kstate.extend_def

end
