(* ===== verification/Cpuid_Props.thy ===== *)
theory Cpuid_Props
  imports Cpuid
begin

text \<open>What \<open>intel_init\<close> prints: the vendor and the brand string without its leading blanks.\<close>

section \<open>The loops over the brand string\<close>

lemma skip_blanks_takeWhile:
  "\<exists>c \<in> set xs. c \<noteq> 32 \<Longrightarrow> skip_blanks (pre @ xs) (length pre) = Inr (length pre + length (takeWhile (\<lambda>c. c = 32) xs))"
proof (induction xs arbitrary: pre)
  case (Cons c xs)
  show ?case
  proof (cases "c = 32")
    case True
    then have "skip_blanks ((pre @ [c]) @ xs) (length (pre @ [c])) = Inr (length (pre @ [c]) + length (takeWhile (\<lambda>c. c = 32) xs))"
      using Cons by (intro Cons.IH) auto
    then show ?thesis using True by (subst skip_blanks.simps) simp
  next
    case False
    then show ?thesis by (subst skip_blanks.simps) simp
  qed
qed simp

lemma move_left_text:
  "drop p m = cs @ 0 # r \<Longrightarrow> 0 \<notin> set cs \<Longrightarrow> q \<le> p \<Longrightarrow> \<exists>m'. move_left m p q = Inr (q + length cs, m') \<and> length m' = length m
     \<and> take (q + length cs) m' = take q m @ cs \<and> drop (p + length cs) m' = drop (p + length cs) m"
proof (induction cs arbitrary: m p q)
  case Nil
  then have d: "drop p m = 0 # r" by simp
  then have "p < length m" by (cases "p < length m") simp_all
  moreover have "m ! p = 0" using d by (rule nth_via_drop)
  ultimately show ?case by (subst move_left.simps) simp
next
  case (Cons c cs)
  have p: "p < length m" using Cons.prems(1) by (metis append_Cons drop_eq_Nil list.distinct(1) not_le)
  have c: "m ! p = c" "c \<noteq> 0" using Cons.prems(1,2) by (auto dest: nth_via_drop)
  let ?m = "m[q := c]"
  have d: "drop (p + 1) ?m = cs @ 0 # r"
    using Cons.prems(1,3) p by (metis Suc_eq_plus1 append_Cons drop_Suc drop_update_cancel le_imp_less_Suc list.sel(3) tl_drop)
  obtain m' where m': "move_left ?m (p + 1) (q + 1) = Inr (q + 1 + length cs, m')" "length m' = length ?m"
    "take (q + 1 + length cs) m' = take (q + 1) ?m @ cs" "drop (p + 1 + length cs) m' = drop (p + 1 + length cs) ?m"
    using Cons.IH [OF d, of "q + 1"] Cons.prems(2,3) by auto
  have "move_left m p q = Inr (q + length (c # cs), m')"
    using p c Cons.prems(3) m'(1) by (subst move_left.simps) simp
  moreover have "take (q + 1) ?m = take q m @ [c]" using p Cons.prems(3) by (simp add: take_Suc_conv_app_nth)
  moreover have "drop (p + 1 + length cs) ?m = drop (p + 1 + length cs) m" using Cons.prems(3) by simp
  ultimately show ?case using m'(2-4) by simp
qed

lemma zero_pad_replicate:
  "q \<le> 49 \<Longrightarrow> 49 \<le> length m \<Longrightarrow> zero_pad m q = Inr (take q m @ replicate (49 - q) 0 @ drop 49 m)"
proof (induction "49 - q" arbitrary: m q)
  case 0
  then show ?case by (subst zero_pad.simps) simp
next
  case (Suc n)
  then have q: "q \<le> 48" "q < length m" by linarith+
  have "zero_pad (m[q := 0]) (q + 1) = Inr (take (q + 1) (m[q := 0]) @ replicate (49 - (q + 1)) 0 @ drop 49 (m[q := 0]))"
    using Suc by (intro Suc.hyps(1)) auto
  moreover have "take (q + 1) (m[q := 0]) = take q m @ [0]" using q by (simp add: take_Suc_conv_app_nth)
  moreover have "49 - q = Suc (49 - (q + 1))" using q by simp
  ultimately show ?case using q by (subst zero_pad.simps) simp
qed

lemma cstring_nonzero: "0 \<notin> set x \<Longrightarrow> cstring (x @ 0 # r) = Inr x"
  by (induction x) auto

lemma trim_brand_text:
  assumes "length b = 48"
  shows "\<exists>m'. trim_brand (b @ 0 # r) = Inr m' \<and> length m' = length (b @ 0 # r)
    \<and> cstring m' = Inr (takeWhile (\<lambda>c. c \<noteq> 0) (dropWhile (\<lambda>c. c = 32) b))"
proof -
  let ?m = "b @ 0 # r" and ?p = "length (takeWhile (\<lambda>c. c = 32) b)"
  let ?d = "dropWhile (\<lambda>c. c = 32) b" and ?t = "takeWhile (\<lambda>c. c \<noteq> 0) (dropWhile (\<lambda>c. c = 32) b)"
  have tw: "takeWhile (\<lambda>c. c = 32) ?m = takeWhile (\<lambda>c. c = 32) b"
    by (induction b) auto
  have skip: "skip_blanks ?m 0 = Inr ?p" using skip_blanks_takeWhile [of ?m "[]"] tw by simp
  show ?thesis
  proof (cases "?p = 0")
    case True
    then have "?d = b" by (cases b) auto
    then show ?thesis using skip True cstring_takeWhile [of b r] by (simp add: trim_brand_def)
  next
    case False
    have "drop ?p ?m = ?d @ 0 # r"
    proof -
      have "?p \<le> length b" by (rule length_takeWhile_le)
      then show ?thesis by (simp add: dropWhile_eq_drop)
    qed
    moreover obtain r' where "?d @ 0 # r = ?t @ 0 # r'"
    proof (cases "\<forall>c \<in> set ?d. c \<noteq> 0")
      case True
      then have "?t = ?d" by (simp only: takeWhile_eq_all_conv)
      then have "?d @ 0 # r = ?t @ 0 # r" by (simp only:)
      then show ?thesis by (rule that)
    next
      case False
      then have "dropWhile (\<lambda>c. c \<noteq> 0) ?d \<noteq> []" by simp
      moreover from this have "hd (dropWhile (\<lambda>c. c \<noteq> 0) ?d) = 0" using hd_dropWhile [of "\<lambda>c. c \<noteq> 0" ?d] by simp
      ultimately have "?d = ?t @ 0 # tl (dropWhile (\<lambda>c. c \<noteq> 0) ?d)"
        using takeWhile_dropWhile_id [of "\<lambda>c. c \<noteq> 0" ?d] by (metis list.collapse)
      then show ?thesis using that by (metis append_Cons append_assoc)
    qed
    ultimately have dm: "drop ?p ?m = ?t @ 0 # r'" by simp
    have t0: "0 \<notin> set ?t" by (auto dest: set_takeWhileD)
    obtain m1 where m1: "move_left ?m ?p 0 = Inr (length ?t, m1)" "length m1 = length ?m" "take (length ?t) m1 = ?t"
      using move_left_text [OF dm t0, of 0] by auto
    have "?p + length ?d = 48" using assms takeWhile_dropWhile_id [of "\<lambda>c. c = 32" b] by (metis length_append)
    then have lt: "length ?t \<le> 48" using length_takeWhile_le [of "\<lambda>c. c \<noteq> 0" ?d] by linarith
    have zp: "zero_pad m1 (length ?t) = Inr (?t @ replicate (49 - length ?t) 0 @ drop 49 m1)"
      using zero_pad_replicate [of "length ?t" m1] lt m1(2,3) assms by simp
    have "replicate (49 - length ?t) 0 = 0 # replicate (48 - length ?t) (0 :: u8)" using lt by (simp add: Suc_diff_le flip: replicate_Suc)
    then have "cstring (?t @ replicate (49 - length ?t) 0 @ drop 49 m1) = Inr ?t" using cstring_nonzero [OF t0] by simp
    moreover have "trim_brand ?m = Inr (?t @ replicate (49 - length ?t) 0 @ drop 49 m1)"
      unfolding trim_brand_def using skip False m1(1) zp by simp
    ultimately show ?thesis using m1(2) lt assms by (intro exI [of _ "?t @ replicate (49 - length ?t) 0 @ drop 49 m1"]) simp
  qed
qed

section \<open>Properties\<close>

text \<open>The brand string of 48 bytes, and the text that is made of it.\<close>

definition brand_bytes :: "(u32 \<Rightarrow> u32 \<times> u32 \<times> u32 \<times> u32) \<Rightarrow> u8 list" where
  "brand_bytes cpuid = reg_bytes (cpuid 0x80000002) @ reg_bytes (cpuid 0x80000003) @ reg_bytes (cpuid 0x80000004)"

definition brand_text :: "(u32 \<Rightarrow> u32 \<times> u32 \<times> u32 \<times> u32) \<Rightarrow> u8 list" where
  "brand_text cpuid = takeWhile (\<lambda>c. c \<noteq> 0) (dropWhile (\<lambda>c. c = 32) (brand_bytes cpuid))"

lemma length_brand [simp]: "length (brand_bytes cpuid) = 48"
  by (simp add: brand_bytes_def reg_bytes_def le_bytes_def split: prod.split)

lemma get_model_name_text:
  assumes "0x80000004 \<le> fst (cpuid 0x80000000)" "length (ci_model_id c) = 50"
  shows "\<exists>m. get_model_name cpuid c = Inr (c\<lparr>ci_model_id := m\<rparr>) \<and> length m = 50 \<and> cstring m = Inr (brand_text cpuid)"
proof -
  have l: "length (brand_bytes cpuid) = 48" by simp
  have "drop 48 (ci_model_id c) = ci_model_id c ! 48 # drop 49 (ci_model_id c)"
    using Cons_nth_drop_Suc [of 48 "ci_model_id c"] assms(2) by simp
  then have w: "wr (brand_bytes cpuid @ drop 48 (ci_model_id c)) 48 0 = Inr (brand_bytes cpuid @ 0 # drop 49 (ci_model_id c))"
    using wr_middle [OF l, of "ci_model_id c ! 48" "drop 49 (ci_model_id c)" 0] by simp
  obtain m where "trim_brand (brand_bytes cpuid @ 0 # drop 49 (ci_model_id c)) = Inr m"
    "length m = length (brand_bytes cpuid @ 0 # drop 49 (ci_model_id c))" "cstring m = Inr (brand_text cpuid)"
    using trim_brand_text [OF l, of "drop 49 (ci_model_id c)"] unfolding brand_text_def by blast
  moreover have "\<not> fst (cpuid 0x80000000) < 0x80000004" using assms(1) by (simp only: not_less)
  ultimately show ?thesis using assms(2) w
    by (intro exI [of _ m]) (simp add: get_model_name_def Let_def flip: brand_bytes_def)
qed

lemma intel_init_runs:
  assumes "0x80000004 \<le> fst (cpuid_of s 0x80000000)" "length (ci_model_id (cpuinfo s)) = 50" "length (ci_vendor_id (cpuinfo s)) = 16"
    and "cpuid_of s 0 = (a, b, c, d)" "vendor = takeWhile (\<lambda>c. c \<noteq> 0) (le_bytes b @ le_bytes c @ le_bytes d)"
    and "cons_ok s" "length stk = STACK_SIZE"
  shows "\<exists>s' t. intel_init stk s = Inr s' \<and> on_screen t s' \<and> cons_ok s' \<and> t = s\<lparr>cpuinfo := cpuinfo s'\<rparr>
    \<and> cstring (ci_vendor_id (cpuinfo s')) = Inr vendor \<and> cstring (ci_model_id (cpuinfo s')) = Inr (brand_text (cpuid_of s))
    \<and> terminal_of s' = fold term_put (bytes ''CPU '' @ vendor @ bytes '':'' @ brand_text (cpuid_of s) @ [10]) (terminal_of s)"
proof -
  let ?b = "le_bytes b @ le_bytes c @ le_bytes d" and ?c = "cpuinfo s"
  have l: "length ?b = 12" by (simp add: le_bytes_def)
  define v where "v = ?b @ 0 # drop 13 (ci_vendor_id ?c)"
  have "drop 12 (ci_vendor_id ?c) = ci_vendor_id ?c ! 12 # drop 13 (ci_vendor_id ?c)"
    using Cons_nth_drop_Suc [of 12 "ci_vendor_id ?c"] assms(3) by simp
  then have w: "wr (?b @ drop 12 (ci_vendor_id ?c)) 12 0 = Inr v"
    using wr_middle [OF l, of "ci_vendor_id ?c ! 12" "drop 13 (ci_vendor_id ?c)" 0] by (simp add: v_def)
  have cv: "cstring v = Inr vendor" unfolding v_def assms(5) by (rule cstring_takeWhile)
  obtain m where m: "get_model_name (cpuid_of s) (?c\<lparr>ci_vendor_id := v\<rparr>) = Inr (?c\<lparr>ci_vendor_id := v, ci_model_id := m\<rparr>)"
    "cstring m = Inr (brand_text (cpuid_of s))"
    using get_model_name_text [of "cpuid_of s" "?c\<lparr>ci_vendor_id := v\<rparr>"] assms(1,2) by auto
  let ?t = "s\<lparr>cpuinfo := ?c\<lparr>ci_vendor_id := v, ci_model_id := m\<rparr>\<rparr>"
  let ?out = "bytes ''CPU '' @ vendor @ bytes '':'' @ brand_text (cpuid_of s) @ [10]"
  have r: "render (bytes ''CPU %s:%s'' @ [10]) [Va_str v, Va_str m] = Some ?out"
    using cv m(2) by (simp add: bytes_def item_def of_char_def)
  have "length vendor \<le> 12" unfolding assms(5) using length_takeWhile_le [of "\<lambda>c. c \<noteq> 0" ?b] l by simp
  moreover have "length (brand_text (cpuid_of s)) \<le> 48"
    unfolding brand_text_def using length_takeWhile_le length_dropWhile_le length_brand by (metis le_trans)
  ultimately have len: "length ?out < length stk" using assms(7) by (simp add: bytes_def STACK_SIZE_def)
  have "cons_ok ?t" using assms(6) by (simp add: cons_ok_def)
  then obtain s' where s': "printk stk ((bytes ''CPU %s:%s'' @ [10]) @ [0]) [Va_str v, Va_str m] ?t = Inr s'" "on_screen ?t s'"
    "terminal_of s' = fold term_put (takeWhile (\<lambda>c. c \<noteq> 0) ?out) (terminal_of ?t)" "cons_ok s'"
    using printk_terminal [OF r _ len, of ?t] by (auto simp: bytes_def of_char_def)
  have "0 \<notin> set ?out" unfolding assms(5) brand_text_def by (auto simp: bytes_def of_char_def dest: set_takeWhileD)
  then have tw: "takeWhile (\<lambda>c. c \<noteq> 0) ?out = ?out" by (intro takeWhile_eq_all_conv [THEN iffD2]) auto
  have "terminal_of ?t = terminal_of s" by (simp add: terminal_of_def)
  moreover have "intel_init stk s = Inr s'"
    unfolding intel_init_def assms(4) using w m(1) s'(1) by simp
  moreover have "cpuinfo s' = ?c\<lparr>ci_vendor_id := v, ci_model_id := m\<rparr>" using s'(2) by (auto simp: on_screen_def)
  ultimately show ?thesis using s'(2-4) cv m(2) unfolding tw by (intro exI [of _ s'] exI [of _ ?t]) simp
qed

text \<open>
  Property C40: on a processor with a brand string \<open>intel_init\<close> prints one line with the vendor and the
  brand without the blanks in front of it, and keeps both. The vendor is made of EBX, ECX and EDX, in this
  order; the processor returns it in EBX, EDX and ECX.
\<close>

theorem intel_init_prints:
  assumes "0x80000004 \<le> fst (cpuid_of s 0x80000000)" "length (ci_model_id (cpuinfo s)) = 50" "length (ci_vendor_id (cpuinfo s)) = 16"
    and "cpuid_of s 0 = (a, b, c, d)" "vendor = takeWhile (\<lambda>c. c \<noteq> 0) (le_bytes b @ le_bytes c @ le_bytes d)"
    and "cons_ok s" "length stk = STACK_SIZE"
  shows "\<exists>s' t. intel_init stk s = Inr s' \<and> on_screen t s' \<and> t = s\<lparr>cpuinfo := cpuinfo s'\<rparr>
    \<and> cstring (ci_vendor_id (cpuinfo s')) = Inr vendor \<and> cstring (ci_model_id (cpuinfo s')) = Inr (brand_text (cpuid_of s))
    \<and> terminal_of s' = fold term_put (bytes ''CPU '' @ vendor @ bytes '':'' @ brand_text (cpuid_of s) @ [10]) (terminal_of s)"
  using intel_init_runs [OF assms] by blast

text \<open>A Pentium 4, and what it is said to be.\<close>

definition p4 :: "u32 \<Rightarrow> u32 \<times> u32 \<times> u32 \<times> u32" where
  "p4 op = (if op = 0 then (2, 0x756e6547, 0x6c65746e, 0x49656e69) else if op = 0x80000000 then (0x80000004, 0, 0, 0)
     else if op = 0x80000002 then (0x20202020, 0x34502020, 0, 0) else (0, 0, 0, 0))"

definition p4_state :: kcpu where
  "p4_state = cpu_with p4 (pci_with (\<lambda>_. 0) (\<lambda>_ _. 0) irq_state)"

theorem intel_init_prints_witness:
  "\<exists>s'. intel_init (replicate 100 0) p4_state = Inr s' \<and> cstring (ci_vendor_id (cpuinfo s')) = Inr (bytes ''GenuntelineI'')
    \<and> cstring (ci_model_id (cpuinfo s')) = Inr (bytes ''P4'')"
proof -
  have s: "cpuid_of p4_state = p4" "length (ci_model_id (cpuinfo p4_state)) = 50" "length (ci_vendor_id (cpuinfo p4_state)) = 16"
    "cons p4_state = cons last_cell"
    by (simp_all add: p4_state_def device_extend irq_state_def)
  have "cons_ok p4_state" using last_cell_ok(1) by (simp add: cons_ok_def s)
  moreover have "takeWhile (\<lambda>c. c \<noteq> 0) (le_bytes 0x756e6547 @ le_bytes 0x6c65746e @ le_bytes 0x49656e69) = bytes ''GenuntelineI''"
    "brand_text p4 = bytes ''P4''" "p4 0 = (2, 0x756e6547, 0x6c65746e, 0x49656e69)" "fst (p4 0x80000000) = 0x80000004"
    by code_simp+
  ultimately show ?thesis
    using intel_init_prints [of p4_state 2 "0x756e6547" "0x6c65746e" "0x49656e69" "bytes ''GenuntelineI''" "replicate 100 0"] s
    by (auto simp: STACK_SIZE_def)
qed

end
