(* ===== verification/Hd.thy ===== *)
theory Hd
  imports Cpuid
begin

text \<open>
  The IDE disk driver: \<^verbatim>\<open>ker/hd.c\<close> and \<^verbatim>\<open>include/hd.h\<close>, with the data register read of
  \<^verbatim>\<open>ker/system.c\<close>. What the controller answers is an argument of the model: the \<open>n\<close>-th byte read from
  each of its ports and the \<open>n\<close>-th word read from its data port; what the driver writes is a log. A
  pointer into \<open>req_buf\<close> or \<open>wini\<close> is the index of the element.
\<close>

section \<open>Constants\<close>

definition REG_BASE0 :: u32 where "REG_BASE0 = 0x1F0"
definition REG_BASE1 :: u32 where "REG_BASE1 = 0x170"
definition REG_DATA :: u32 where "REG_DATA = 0"
definition REG_ERROR :: u32 where "REG_ERROR = 1"
definition REG_COUNT :: u32 where "REG_COUNT = 2"
definition REG_SECTOR :: u32 where "REG_SECTOR = 3"
definition REG_CYL_LOW :: u32 where "REG_CYL_LOW = 4"
definition REG_CYL_HIGH :: u32 where "REG_CYL_HIGH = 5"
definition REG_LDH :: u32 where "REG_LDH = 6"
definition REG_STATUS :: u32 where "REG_STATUS = 7"
definition REG_COMMAND :: u32 where "REG_COMMAND = REG_STATUS"
definition REG_CONTROL :: u32 where "REG_CONTROL = 0x206"
definition STATUS_BUSY :: u8 where "STATUS_BUSY = 0x80"
definition STATUS_READY :: u8 where "STATUS_READY = 0x40"
definition STATUS_DTRQ :: u8 where "STATUS_DTRQ = 0x08"
definition STATUS_ERR :: u8 where "STATUS_ERR = 0x01"
definition CMD_WRITE :: u8 where "CMD_WRITE = 0x30"
definition CMD_MULTREAD :: u8 where "CMD_MULTREAD = 0xc4"
definition CMD_IDENTIFY :: u8 where "CMD_IDENTIFY = 0xEC"

definition READ :: u32 where "READ = 2"
definition WRITE :: u32 where "WRITE = 3"
definition BUF_SIZE :: nat where "BUF_SIZE = 5"

lemmas hd_regs = REG_BASE0_def REG_BASE1_def REG_DATA_def REG_ERROR_def REG_COUNT_def REG_SECTOR_def
  REG_CYL_LOW_def REG_CYL_HIGH_def REG_LDH_def REG_STATUS_def REG_COMMAND_def REG_CONTROL_def

section \<open>The state\<close>

record partition_entry =
  bootind :: u8
  start_head :: u8
  start_sec :: u8
  start_cyl :: u8
  sysind :: u8
  last_head :: u8
  last_sec :: u8
  last_cyl :: u8
  first_log :: u32
  part_size :: u32

datatype part_op = Partition_check

record ide_drive =
  ide_mainid :: u32
  ide_base :: u32
  ide_irq :: u32
  pcylinders :: u32
  pheads :: u32
  psectors :: u32
  capacity :: u32
  lcylinders :: u32
  lheads :: u32
  lsectors :: u32
  precomp :: u32
  ide_ctl :: u32
  max_multsect :: u8
  buf_size :: u32
  dword_io :: u32
  lba :: u32
  part_table :: "partition_entry list"
  part_ops :: "part_op option"

text \<open>A request; \<open>rq_buf\<close> is the address of the buffer, \<open>rq_dev\<close> the drive and \<open>rq_waiter\<close> the process.\<close>

record request =
  rq_block :: u32
  rq_count :: u32
  rq_buf :: u32
  rq_dev :: nat
  rq_waiter :: nat
  rq_type :: u32

text \<open>
  The controller: \<open>hd_in port n\<close> is the \<open>n\<close>-th byte read from a port and \<open>hd_word n\<close> the \<open>n\<close>-th word of
  the data port, with the numbers of reads so far; \<open>hd_out\<close> has the bytes written, the last first.
\<close>

record hd_port =
  hd_in :: "u16 \<Rightarrow> nat \<Rightarrow> u8"
  hd_nin :: "u16 \<Rightarrow> nat"
  hd_word :: "nat \<Rightarrow> u16"
  hd_nword :: nat
  hd_out :: "(u16 \<times> u8) list"

record khd = kcpu +
  wini :: "ide_drive list"
  current_dev :: nat
  req_buf :: "request list"
  req_head :: nat
  req_tail :: nat
  req_count :: int
  hdc :: hd_port

section \<open>Ports\<close>

definition inb_hd :: "u32 \<Rightarrow> 'a khd_scheme \<Rightarrow> u8 \<times> 'a khd_scheme" where
  "inb_hd port s =
     (let p = ucast port; k = hdc s
      in (hd_in k p (hd_nin k p), s\<lparr>hdc := k\<lparr>hd_nin := (hd_nin k)(p := hd_nin k p + 1)\<rparr>\<rparr>))"

definition outb_hd :: "u32 \<Rightarrow> u32 \<Rightarrow> 'a khd_scheme \<Rightarrow> 'a khd_scheme" where
  "outb_hd port v s = s\<lparr>hdc := (hdc s)\<lparr>hd_out := (ucast port, ucast v) # hd_out (hdc s)\<rparr>\<rparr>"

text \<open>\<^verbatim>\<open>rep; insw\<close>: \<open>n\<close> words from the data port to memory, low byte first.\<close>

primrec in_words :: "nat \<Rightarrow> u32 \<Rightarrow> 'a khd_scheme \<Rightarrow> 'a khd_scheme" where
  "in_words 0 buf s = s"
| "in_words (Suc n) buf s =
     (let k = hdc s; w = hd_word k (hd_nword k)
      in in_words n (buf + 2) (s\<lparr>hdc := k\<lparr>hd_nword := hd_nword k + 1\<rparr>,
           ram := (ram s)(buf := ucast w, buf + 1 := ucast (drop_bit 8 w))\<rparr>))"

definition getstate :: "ide_drive \<Rightarrow> u8 \<Rightarrow> u8 \<Rightarrow> 'a khd_scheme \<Rightarrow> bool \<times> 'a khd_scheme" where
  "getstate dev msk value s = (let (v, s1) = inb_hd (ide_base dev + REG_STATUS) s in (v AND msk = value, s1))"

text \<open>\<^verbatim>\<open>while(!getstate(wn,mask,value))\<close>.\<close>

partial_function (option) wait_state :: "ide_drive \<Rightarrow> u8 \<Rightarrow> u8 \<Rightarrow> 'a khd_scheme \<Rightarrow> 'a khd_scheme option" where
  "wait_state dev msk value s =
     (let (ok, s1) = getstate dev msk value s in if ok then Some s1 else wait_state dev msk value s1)"

section \<open>Requests\<close>

text \<open>
  \<^verbatim>\<open>while(!getstate(\<dots>))printk("controller not ready!\n")\<close>. The argument \<open>stk\<close> is what
  the array of \<open>printk\<close> holds before a message is written into it.
\<close>

partial_function (option) wait_ready :: "u8 list \<Rightarrow> ide_drive \<Rightarrow> 'a khd_scheme \<Rightarrow> 'a khd_scheme exec" where
  "wait_ready stk wn s =
     (let (ok, s1) = getstate wn (STATUS_BUSY OR STATUS_READY OR STATUS_ERR) STATUS_READY s in
      if ok then Some (Inr s1)
      else case printk stk (bytes ''controller not ready!'' @ [10, 0]) [] s1 of
          Inl e \<Rightarrow> Some (Inl e)
        | Inr s2 \<Rightarrow> wait_ready stk wn s2)"

definition do_readwrite :: "u8 list \<Rightarrow> request \<Rightarrow> 'a khd_scheme \<Rightarrow> 'a khd_scheme exec" where
  "do_readwrite stk rq s =
     exec_bind (Some (rd (wini s) (rq_dev rq))) (\<lambda>wn.
     exec_bind (wait_ready stk wn s) (\<lambda>s1.
         let b = ide_base wn;
             s2 = outb_hd (b + REG_CONTROL) (ide_ctl wn) s1;
             s3 = outb_hd (b + REG_COUNT) (rq_count rq) s2;
             s4 = outb_hd (b + REG_SECTOR) (rq_block rq AND 0xff) s3;
             s5 = outb_hd (b + REG_CYL_LOW) (drop_bit 8 (rq_block rq) AND 0xff) s4;
             s6 = outb_hd (b + REG_CYL_HIGH) (drop_bit 16 (rq_block rq) AND 0xff) s5;
             s7 = outb_hd (b + REG_LDH) (0xa0 OR push_bit 6 (lba wn) OR push_bit 4 (ide_mainid wn)
                    OR (drop_bit 24 (rq_block rq) AND 0xf)) s6
         in Some (Inr (if rq_type rq = READ then outb_hd (b + REG_COMMAND) (ucast CMD_MULTREAD) s7
                       else if rq_type rq = WRITE then outb_hd (b + REG_COMMAND) (ucast CMD_WRITE) s7
                       else s7))))"

definition do_request :: "u8 list \<Rightarrow> 'a khd_scheme \<Rightarrow> 'a khd_scheme exec" where
  "do_request stk s =
     (if 0 < req_count s then exec_bind (Some (rd (req_buf s) (req_head s))) (\<lambda>rq. do_readwrite stk rq s)
      else Some (Inr s))"

text \<open>The loop of the interrupt handler: at most 1000 reads of the status, until it asks for data.\<close>

primrec hd_poll :: "nat \<Rightarrow> ide_drive \<Rightarrow> 'a khd_scheme \<Rightarrow> bool \<times> 'a khd_scheme" where
  "hd_poll 0 dev s = (False, s)"
| "hd_poll (Suc retries) dev s =
     (let (state, s1) = inb_hd (ide_base dev + REG_STATUS) s in
      if state AND STATUS_BUSY = 0 \<and> state AND STATUS_DTRQ \<noteq> 0 then (True, s1) else hd_poll retries dev s1)"

definition hd_handlerp :: "u8 list \<Rightarrow> nat \<Rightarrow> 'a khd_scheme \<Rightarrow> (int \<times> 'a khd_scheme) exec" where
  "hd_handlerp stk irq s =
     exec_bind (Some (rd (wini s) (current_dev s))) (\<lambda>dev.
     let (ok, s1) = hd_poll 1000 dev s in
     if \<not> ok then
       let (v, s2) = inb_hd (ide_base dev + REG_ERROR) s1
       in exec_bind (Some (printk stk (bytes ''hd error code:0x%x'' @ [10, 0]) [Va_word (ucast v)] s2)) (\<lambda>s3. Some (Inr (1, s3)))
     else exec_bind (Some (rd (req_buf s1) (req_head s))) (\<lambda>rq.
       if rq_type rq = READ then
         let (fl, s2) = lock_irq_save s1;
             s3 = in_words (unat (push_bit 8 (rq_count rq))) (rq_buf rq) s2
         in exec_bind (Some (wake_up_process (rq_waiter rq) s3)) (\<lambda>s4.
            let s5 = s4\<lparr>req_count := req_count s4 - 1, req_head := req_head s4 + 1\<rparr>;
                s6 = (if req_head s5 = BUF_SIZE then s5\<lparr>req_head := 0\<rparr> else s5)
            in exec_bind (do_request stk s6) (\<lambda>s7. Some (Inr (1, unlock_irq_restore fl s7))))
       else Some (Inr (1, s1))))"

definition hd_handlers :: "nat \<Rightarrow> 'a khd_scheme \<Rightarrow> (int \<times> 'a khd_scheme) exec" where
  "hd_handlers irq s = Some (Inr (1, s))"

text \<open>
  \<open>do_read\<close> up to the switch to another process: the result -1 when the queue is full, otherwise none
  yet; and from where the process runs again, with the interrupt flag \<open>fl\<close> that it had saved.
\<close>

definition do_read :: "u8 list \<Rightarrow> symbols \<Rightarrow> u32 \<Rightarrow> u32 \<Rightarrow> u32 \<Rightarrow> u32 \<Rightarrow> 'a khd_scheme \<Rightarrow> (int option \<times> 'a khd_scheme) exec" where
  "do_read stk sy drv buf sz block s =
     (if int BUF_SIZE \<le> req_count s then Some (Inr (Some (- 1), s))
      else
        exec_bind (Some (rd (req_buf s) (req_tail s))) (\<lambda>r.
        exec_bind (Some (wr (req_buf s) (req_tail s) (r\<lparr>rq_block := block, rq_count := signed_drop_bit 9 sz, rq_buf := buf,
            rq_dev := 0, rq_type := READ, rq_waiter := current s\<rparr>))) (\<lambda>rs.
        let s1 = s\<lparr>req_buf := rs, req_tail := req_tail s + 1\<rparr>;
            (fl, s2) = lock_irq_save s1;
            s3 = s2\<lparr>req_count := req_count s2 + 1\<rparr>;
            s4 = (if req_tail s3 = BUF_SIZE then s3\<lparr>req_tail := 0\<rparr> else s3)
        in exec_bind (if req_count s4 = 1 then do_request stk s4 else Some (Inr s4)) (\<lambda>s5.
           exec_bind (sleep_on_enter sy Hd_wait s5) (\<lambda>s6. Some (Inr (None, s6)))))))"

definition do_read_resume :: "bool \<Rightarrow> nat \<Rightarrow> 'a khd_scheme \<Rightarrow> (int \<times> 'a khd_scheme) res" where
  "do_read_resume fl p s =
     res_bind (sleep_on_leave Hd_wait p s) (\<lambda>s1. Inr (1, unlock_irq_restore fl s1))"

definition bread :: "u8 list \<Rightarrow> symbols \<Rightarrow> u32 \<Rightarrow> u32 \<Rightarrow> u32 \<Rightarrow> 'a khd_scheme \<Rightarrow> (int option \<times> 'a khd_scheme) exec" where
  "bread stk sy buf sz block s =
     (if buf = 0 then Some (Inr (Some (- 1), s)) else do_read stk sy 0 buf sz block s)"

text \<open>\<open>ide_read\<close> returns 0, whatever \<open>do_read\<close> does.\<close>

definition ide_read :: "u8 list \<Rightarrow> symbols \<Rightarrow> u32 \<Rightarrow> u32 \<Rightarrow> u32 \<Rightarrow> 'a khd_scheme \<Rightarrow> (int option \<times> 'a khd_scheme) exec" where
  "ide_read stk sy buf sz block s =
     (if buf = 0 then Some (Inr (Some 0, s))
      else exec_bind (do_read stk sy 0 (umap (procs s (current s)) buf) sz block s) (\<lambda>(r, s1).
        Some (Inr (map_option (\<lambda>_. 0) r, s1))))"

section \<open>Identification\<close>

text \<open>
  The fields of \<^verbatim>\<open>struct deviceid\<close> that the driver uses, at their offsets. The structure is not packed:
  the compiler puts \<open>lcapacity\<close> on the next multiple of four, 116, and what follows it behind that.
\<close>

record deviceid =
  d_cylinders :: u16
  d_heads :: u16
  d_sectors :: u16
  d_buf_size :: u16
  d_model :: "u8 list"
  d_max_multsect :: u8
  d_dword_io :: u16
  d_method :: u8
  d_lcylinders :: u16
  d_lheads :: u16
  d_lsectors :: u16
  d_lba_capacity :: u32

definition deviceid_at :: "memory \<Rightarrow> u32 \<Rightarrow> deviceid" where
  "deviceid_at m a =
     \<lparr>d_cylinders = u16_at m (a + 2), d_heads = u16_at m (a + 6), d_sectors = u16_at m (a + 12),
      d_buf_size = u16_at m (a + 42), d_model = block_at m (a + 54) 40, d_max_multsect = m (a + 94),
      d_dword_io = u16_at m (a + 96), d_method = m (a + 99), d_lcylinders = u16_at m (a + 108),
      d_lheads = u16_at m (a + 110), d_lsectors = u16_at m (a + 112), d_lba_capacity = u32_at m (a + 124)\<rparr>"

definition chs_sectors :: "deviceid \<Rightarrow> u32" where
  "chs_sectors d = ucast (d_cylinders d) * ucast (d_heads d) * ucast (d_sectors d)"

definition lba_cap_ok :: "deviceid \<Rightarrow> bool" where
  "lba_cap_ok d =
     ((d_cylinders d = 16383 \<or> d_cylinders d = 4092 \<and> d_lcylinders d = 16383) \<and> d_sectors d = 63
        \<and> (d_heads d = 15 \<or> d_heads d = 16) \<and> 16383 * 63 * ucast (d_heads d) \<le> d_lba_capacity d
      \<or> d_lba_capacity d - chs_sectors d < chs_sectors d div 10)"

definition calc_capacity :: "deviceid \<Rightarrow> ide_drive \<Rightarrow> ide_drive" where
  "calc_capacity d wn =
     (let cap = (if d_method d AND 2 \<noteq> 0 \<and> lba_cap_ok d then d_lba_capacity d else chs_sectors d)
      in wn\<lparr>capacity := cap\<rparr>)"

text \<open>A command; the driver leaves \<open>count\<close>, \<open>sector\<close> and \<open>cylinder\<close> as they are on the stack.\<close>

record hd_command =
  cmd_command :: u8
  cmd_device :: u8
  cmd_count :: u8
  cmd_sector :: u8
  cmd_cylinder :: u16
  cmd_head :: u8

definition command :: "u8 list \<Rightarrow> ide_drive \<Rightarrow> hd_command \<Rightarrow> 'a khd_scheme \<Rightarrow> 'a khd_scheme res" where
  "command stk wn cmd s =
     (let (disk_status, s1) = getstate wn 0xFF 0xFF s;
          (ready, s2) = getstate wn (STATUS_BUSY OR STATUS_READY OR STATUS_ERR) STATUS_READY s1
      in res_bind (if ready then Inr s2
           else printk stk (bytes ''IDE disk controller not ready! %d'' @ [10, 0])
                  [Va_word (if disk_status then 1 else 0)] s2) (\<lambda>s2.
      let b = ide_base wn;
          s3 = outb_hd (b + REG_CONTROL) (ide_ctl wn) s2;
          s4 = outb_hd (b + REG_LDH) (0xa0 OR push_bit 4 (ucast (cmd_device cmd)) OR ucast (cmd_head cmd)) s3;
          s5 = outb_hd (b + REG_COUNT) (ucast (cmd_count cmd)) s4;
          s6 = outb_hd (b + REG_SECTOR) (ucast (cmd_sector cmd)) s5;
          s7 = outb_hd (b + REG_CYL_LOW) (ucast (cmd_cylinder cmd)) s6;
          s8 = outb_hd (b + REG_CYL_HIGH) (ucast (drop_bit 8 (cmd_cylinder cmd))) s7
      in Inr (outb_hd (b + REG_COMMAND) (ucast (cmd_command cmd)) s8)))"

text \<open>
  The model name of the drive as \<open>hd_specify\<close> prints it: the bytes of each word swapped, blanks as
  NULs, a NUL in the last byte.
\<close>

definition id_string :: "deviceid \<Rightarrow> u8 list" where
  "id_string d = (map (\<lambda>i. let c = d_model d ! (i XOR 1) in if c = of_char (CHR '' '') then 0 else c) [0..<40])[39 := 0]"

text \<open>What \<open>hd_specify\<close> takes over from the identification before it frees the buffer.\<close>

definition specified :: "deviceid \<Rightarrow> ide_drive \<Rightarrow> ide_drive" where
  "specified d wn =
     calc_capacity d (wn\<lparr>pcylinders := ucast (d_cylinders d), pheads := ucast (d_heads d),
        psectors := ucast (d_sectors d), lcylinders := ucast (d_lcylinders d), lheads := ucast (d_lheads d),
        lsectors := ucast (d_lsectors d), max_multsect := d_max_multsect d, dword_io := ucast (d_dword_io d),
        buf_size := ucast (d_buf_size d)\<rparr>)"

text \<open>\<open>hd_specify\<close> of the drive with index \<open>i\<close>; the method byte is read again after the buffer is freed.\<close>

definition hd_specify :: "u8 list \<Rightarrow> hd_command \<Rightarrow> nat \<Rightarrow> 'a khd_scheme \<Rightarrow> (int \<times> 'a khd_scheme) exec" where
  "hd_specify stk junk i s =
     exec_bind (Some (rd (wini s) i)) (\<lambda>wn.
     let (r, s1) = inb_hd (ide_base wn + REG_CYL_LOW) s;
         s2 = outb_hd (ide_base wn + REG_CYL_LOW) (NOT (ucast r)) s1;
         (r2, s3) = inb_hd (ide_base wn + REG_CYL_LOW) s2
     in if r2 = r then exec_bind (Some (panic stk (''port check error!'' @ [CHR 0x0A]) s3)) (\<lambda>s4. Some (Inr (0, s4)))
        else
          exec_bind (Some (command stk wn (junk\<lparr>cmd_device := 0, cmd_head := 0, cmd_command := CMD_IDENTIFY\<rparr>) s3)) (\<lambda>s4.
          case wait_state wn (STATUS_DTRQ OR STATUS_BUSY OR STATUS_ERR) STATUS_DTRQ s4 of
            None \<Rightarrow> None
          | Some s5 \<Rightarrow>
              exec_bind (Some (kmalloc 512 s5)) (\<lambda>(dmabuf, s6).
              if dmabuf = 0 then Some (Inr (0, s6))
              else
                let s7 = in_words 256 dmabuf s6;
                    d = deviceid_at (ram s7) dmabuf;
                    wn1 = specified d wn
                in
                exec_bind (Some (kfree dmabuf (s7\<lparr>wini := (wini s7)[i := wn1]\<rparr>))) (\<lambda>s8.
                exec_bind (Some (printk stk (bytes ''ide0:%s DWordIO:%d bufsize:%d'' @ [0])
                  [Va_str (id_string d), Va_word (dword_io wn1), Va_word (buf_size wn1)] s8)) (\<lambda>s9.
                let is_lba = ram s9 (dmabuf + 99) AND 2 \<noteq> 0;
                    wn2 = wn1\<lparr>lba := (if is_lba then 1 else 0)\<rparr>;
                    s10 = s9\<lparr>wini := (wini s9)[i := wn2]\<rparr>
                in
                exec_bind (Some (if is_lba then printk stk (bytes ''[LBA]'' @ [10, 0]) [] s10 else Inr s10)) (\<lambda>s11.
                exec_bind (Some (printk stk (bytes ''cy:%d head:%d sec:%d mult_sect:%d'' @ [10, 0])
                  [Va_word (pcylinders wn2), Va_word (pheads wn2), Va_word (psectors wn2), Va_word (ucast (max_multsect wn2))]
                  s11)) (\<lambda>s12.
                exec_bind (Some (printk stk (bytes ''lcy:%d lhead:%d lsec:%d comp:%d tot_sec:%d'' @ [10, 0])
                  [Va_word (lcylinders wn2), Va_word (lheads wn2), Va_word (lsectors wn2), Va_word (precomp wn2),
                   Va_word (capacity wn2)] s12)) (\<lambda>s13. Some (Inr (1, s13))))))))))"

text \<open>
  \<open>hd_init\<close>. The bytes that it takes for the BIOS drive table are those at the vector 0x41 itself.
\<close>

definition hd_init :: "u8 list \<Rightarrow> hd_command \<Rightarrow> 'a khd_scheme \<Rightarrow> (int \<times> 'a khd_scheme) exec" where
  "hd_init stk junk s =
     (let s1 = s\<lparr>current_dev := 0, req_head := 0, req_tail := 0, req_count := 0\<rparr>;
          bios = (\<lambda>k. (0x41 * 4 + k :: u32));
          m = ram s1
      in
      exec_bind (Some (rd (wini s1) 0)) (\<lambda>w0.
      exec_bind (Some (rd (wini s1) 1)) (\<lambda>w1.
      let w0' = w0\<lparr>ide_irq := 14, ide_base := REG_BASE0, lcylinders := ucast (u16_at m (bios 0)),
                lheads := ucast (m (bios 2)), precomp := ucast (u16_at m (bios 5)),
                lsectors := ucast (m (bios 14)), ide_ctl := 0x08, ide_mainid := 0\<rparr>;
          s2 = s1\<lparr>wini := (wini s1)[0 := w0', 1 := w1\<lparr>ide_irq := 15, ide_base := REG_BASE1\<rparr>]\<rparr>
      in
      exec_bind (Some (put_irq_handler 14 Hd_handlerp s2)) (\<lambda>s3.
      exec_bind (Some (put_irq_handler 15 Hd_handlers s3)) (\<lambda>s4.
      exec_bind (hd_specify stk junk 0 (enable_irq 14 s4)) (\<lambda>(r, s5).
      exec_bind (Some (rd (wini s5) 0)) (\<lambda>w.
      Some (Inr (r, s5\<lparr>wini := (wini s5)[0 := w\<lparr>part_ops := Some Partition_check\<rparr>]\<rparr>)))))))))"

end
