(* ===== verification/Hd_Props.thy ===== *)
theory Hd_Props
  imports Hd
begin

text \<open>
  The disk driver as a queue of requests: what \<open>do_read\<close> and the interrupt handler do to it, which
  commands the controller gets, and where its data goes.
\<close>

section \<open>The queue of requests\<close>

definition reqs :: "'a khd_scheme \<Rightarrow> request list" where
  "reqs s = map (\<lambda>k. req_buf s ! ((req_head s + k) mod BUF_SIZE)) [0..<nat (req_count s)]"

definition reqs_ok :: "'a khd_scheme \<Rightarrow> bool" where
  "reqs_ok s \<longleftrightarrow> length (req_buf s) = BUF_SIZE \<and> req_head s < BUF_SIZE \<and> 0 \<le> req_count s
     \<and> req_count s \<le> int BUF_SIZE \<and> req_tail s = (req_head s + nat (req_count s)) mod BUF_SIZE"

lemma length_reqs [simp]: "length (reqs s) = nat (req_count s)"
  by (simp add: reqs_def)

lemma reqs_head: "reqs_ok s \<Longrightarrow> 0 < req_count s \<Longrightarrow> reqs s = req_buf s ! req_head s # tl (reqs s)"
  by (auto simp: reqs_def reqs_ok_def upt_rec [of 0])

lemma mod5: "(n :: nat) < 10 \<Longrightarrow> n mod BUF_SIZE = (if n < 5 then n else n - 5)"
  by (simp add: BUF_SIZE_def mod_if)

lemma reqs_push:
  assumes "reqs_ok s" "req_count s < int BUF_SIZE"
    and "req_buf s' = (req_buf s)[req_tail s := r]" "req_head s' = req_head s" "req_count s' = req_count s + 1"
    and "req_tail s' = (if req_tail s + 1 = BUF_SIZE then 0 else req_tail s + 1)"
  shows "reqs_ok s' \<and> reqs s' = reqs s @ [r]"
proof -
  define c where "c = nat (req_count s)"
  have c: "c < 5" "req_count s = int c" "nat (req_count s + 1) = Suc c"
    using assms(1,2) by (auto simp: c_def reqs_ok_def BUF_SIZE_def)
  have h: "req_head s < 5" "length (req_buf s) = 5" and t: "req_tail s = (req_head s + c) mod BUF_SIZE"
    using assms(1) by (auto simp: c_def reqs_ok_def BUF_SIZE_def)
  have t2: "req_tail s = (if req_head s + c < 5 then req_head s + c else req_head s + c - 5)"
    unfolding t using h c by (intro mod5) simp
  have old: "(req_head s + k) mod BUF_SIZE \<noteq> req_tail s" if "k < c" for k
    using that h c unfolding t2 by (subst mod5) auto
  have "reqs_ok s'"
    using assms(3-6) h c t2 mod5 [of "req_head s + Suc c"] by (auto simp: reqs_ok_def BUF_SIZE_def)
  moreover have "reqs s' = reqs s @ [r]"
  proof -
    have "(req_buf s)[req_tail s := r] ! ((req_head s + k) mod BUF_SIZE) = req_buf s ! ((req_head s + k) mod BUF_SIZE)"
      if "k < c" for k using old [OF that] by simp
    moreover have "(req_buf s)[req_tail s := r] ! ((req_head s + c) mod BUF_SIZE) = r"
      unfolding t [symmetric] using h c t2 by simp
    ultimately show ?thesis unfolding reqs_def assms(3-5) c(3) c_def [symmetric] by simp
  qed
  ultimately show ?thesis by simp
qed

lemma reqs_pop:
  assumes "reqs_ok s" "0 < req_count s"
    and "req_buf s' = req_buf s" "req_tail s' = req_tail s" "req_count s' = req_count s - 1"
    and "req_head s' = (if req_head s + 1 = BUF_SIZE then 0 else req_head s + 1)"
  shows "reqs_ok s' \<and> reqs s' = tl (reqs s)"
proof -
  define c where "c = nat (req_count s - 1)"
  have c: "c < 5" "req_count s = int (Suc c)" "nat (req_count s) = Suc c"
    using assms(1,2) by (auto simp: c_def reqs_ok_def BUF_SIZE_def)
  have h: "req_head s < 5" "length (req_buf s) = 5" and t: "req_tail s = (req_head s + Suc c) mod BUF_SIZE"
    using assms(1) c by (auto simp: reqs_ok_def BUF_SIZE_def)
  have eq: "(req_head s' + k) mod BUF_SIZE = (req_head s + Suc k) mod BUF_SIZE" if "k \<le> c" for k
    using that h c assms(6) mod5 [of "req_head s' + k"] mod5 [of "req_head s + Suc k"]
    by (auto simp: BUF_SIZE_def split: if_splits)
  have "reqs_ok s'"
    using assms(3-6) h c t eq [of c] by (auto simp: reqs_ok_def BUF_SIZE_def)
  moreover have "reqs s' = tl (reqs s)"
    unfolding reqs_def assms(3,5) c(3) c_def [symmetric] using eq
    by (simp add: upt_conv_Cons map_Suc_upt [symmetric] del: upt_Suc)
  ultimately show ?thesis by simp
qed

section \<open>The controller\<close>

text \<open>
  Reading and writing the ports, with messages about it, changes nothing but the controller and the screen.
\<close>

definition off_screen :: "u32 \<Rightarrow> bool" where
  "off_screen a \<longleftrightarrow> unat a < unat screen_base \<or> unat screen_base + 4000 \<le> unat a"

definition io_only :: "'a khd_scheme \<Rightarrow> 'a khd_scheme \<Rightarrow> bool" where
  "io_only s s' \<longleftrightarrow> (\<exists>ni out m con crt.
     s' = s\<lparr>hdc := (hdc s)\<lparr>hd_nin := ni, hd_out := out\<rparr>, ram := m, cons := con, crt_out := crt\<rparr>
     \<and> (\<forall>p. hd_nin (hdc s) p \<le> ni p) \<and> (\<forall>a. off_screen a \<longrightarrow> m a = ram s a) \<and> (cons_ok s \<longrightarrow> cons_ok s'))"

lemma io_only_intro:
  assumes "s' = s\<lparr>hdc := (hdc s)\<lparr>hd_nin := ni, hd_out := out\<rparr>\<rparr>" "\<And>p. hd_nin (hdc s) p \<le> ni p"
  shows "io_only s s'"
  unfolding io_only_def assms(1) using assms(2)
  by (intro exI [of _ ni] exI [of _ out] exI [of _ "ram s"] exI [of _ "cons s"] exI [of _ "crt_out s"]) (simp add: cons_ok_def)

lemma io_only_refl [simp]: "io_only s s"
  by (rule io_only_intro [where ni = "hd_nin (hdc s)" and out = "hd_out (hdc s)"]) simp_all

lemma io_only_trans:
  assumes "io_only s t" "io_only t u"
  shows "io_only s u"
proof -
  obtain ni out m con crt where t: "t = s\<lparr>hdc := (hdc s)\<lparr>hd_nin := ni, hd_out := out\<rparr>, ram := m, cons := con, crt_out := crt\<rparr>"
    "\<And>p. hd_nin (hdc s) p \<le> ni p" "\<And>a. off_screen a \<Longrightarrow> m a = ram s a" "cons_ok s \<longrightarrow> cons_ok t"
    using assms(1) unfolding io_only_def by blast
  obtain ni2 out2 m2 con2 crt2 where u: "u = t\<lparr>hdc := (hdc t)\<lparr>hd_nin := ni2, hd_out := out2\<rparr>, ram := m2, cons := con2, crt_out := crt2\<rparr>"
    "\<And>p. hd_nin (hdc t) p \<le> ni2 p" "\<And>a. off_screen a \<Longrightarrow> m2 a = ram t a" "cons_ok t \<longrightarrow> cons_ok u"
    using assms(2) unfolding io_only_def by blast
  have "u = s\<lparr>hdc := (hdc s)\<lparr>hd_nin := ni2, hd_out := out2\<rparr>, ram := m2, cons := con2, crt_out := crt2\<rparr>"
    using u(1) unfolding t(1) by simp
  moreover have "hd_nin (hdc s) p \<le> ni2 p" for p using t(2) [of p] u(2) [of p] unfolding t(1) by simp
  moreover have "m2 a = ram s a" if "off_screen a" for a using t(3) u(3) that unfolding t(1) by simp
  ultimately show ?thesis unfolding io_only_def using t(4) u(4) by blast
qed

lemma io_only_outb: "io_only s s' \<Longrightarrow> io_only s (outb_hd p v s')"
  by (erule io_only_trans)
    (rule io_only_intro [where ni = "hd_nin (hdc s')" and out = "(ucast p, ucast v) # hd_out (hdc s')"], simp_all add: outb_hd_def)

lemma io_only_inb: "io_only s (snd (inb_hd p s))"
  by (rule io_only_intro [where ni = "(hd_nin (hdc s))(ucast p := hd_nin (hdc s) (ucast p) + 1)" and out = "hd_out (hdc s)"])
    (simp_all add: inb_hd_def Let_def)

lemma io_only_on_screen:
  assumes "on_screen s s'" "cons_ok s'"
  shows "io_only s s' \<and> hdc s' = hdc s"
proof -
  obtain m con crt where s': "s' = s\<lparr>ram := m, cons := con, crt_out := crt\<rparr>"
    "\<forall>a. unat a < unat screen_base \<or> unat screen_base + 4000 \<le> unat a \<longrightarrow> m a = ram s a"
    using assms(1) by (auto simp: on_screen_def)
  have "s' = s\<lparr>hdc := (hdc s)\<lparr>hd_nin := hd_nin (hdc s), hd_out := hd_out (hdc s)\<rparr>, ram := m, cons := con, crt_out := crt\<rparr>"
    unfolding s'(1) by simp
  moreover have "\<forall>a. off_screen a \<longrightarrow> m a = ram s a" using s'(2) by (simp add: off_screen_def)
  moreover have "hdc s' = hdc s" unfolding s'(1) by simp
  ultimately show ?thesis unfolding io_only_def using assms(2) by blast
qed

lemma inb_out [simp]: "hd_out (hdc (snd (inb_hd p s))) = hd_out (hdc s)"
  by (simp add: inb_hd_def Let_def)

lemma io_only_sel:
  assumes "io_only s s'"
  shows "wini s' = wini s" "current_dev s' = current_dev s" "req_buf s' = req_buf s" "req_head s' = req_head s"
    "req_tail s' = req_tail s" "req_count s' = req_count s" "procs s' = procs s" "current s' = current s"
    "ready_head s' = ready_head s" "ready_tail s' = ready_tail s" "ief s' = ief s" "wait_links s' = wait_links s"
    "hd_in (hdc s') = hd_in (hdc s)" "hd_word (hdc s') = hd_word (hdc s)" "hd_nword (hdc s') = hd_nword (hdc s)"
  using assms by (auto simp: io_only_def)

lemma io_only_ram: "io_only s s' \<Longrightarrow> off_screen a \<Longrightarrow> ram s' a = ram s a"
  by (auto simp: io_only_def)

lemma io_only_cons: "io_only s s' \<Longrightarrow> cons_ok s \<Longrightarrow> cons_ok s'"
  by (auto simp: io_only_def)

text \<open>The status that a drive shows at its \<open>n\<close>-th read from now.\<close>

definition status_at :: "ide_drive \<Rightarrow> 'a khd_scheme \<Rightarrow> nat \<Rightarrow> u8" where
  "status_at dev s n = (let p = ucast (ide_base dev + REG_STATUS) in hd_in (hdc s) p (hd_nin (hdc s) p + n))"

lemma getstate_eq:
  "getstate dev m v s = (status_at dev s 0 AND m = v, snd (inb_hd (ide_base dev + REG_STATUS) s))"
  by (simp add: getstate_def status_at_def inb_hd_def Let_def)

lemma status_at_step: "status_at dev (snd (inb_hd (ide_base dev + REG_STATUS) s)) n = status_at dev s (Suc n)"
  by (simp add: status_at_def inb_hd_def Let_def)

lemma wait_ready_ends:
  assumes "status_at dev s n AND (STATUS_BUSY OR STATUS_READY OR STATUS_ERR) = STATUS_READY"
    and "cons_ok s" "length stk = STACK_SIZE"
  shows "\<exists>s'. wait_ready stk dev s = Some (Inr s') \<and> io_only s s' \<and> hd_out (hdc s') = hd_out (hdc s)"
  using assms(1,2)
proof (induction n arbitrary: s)
  case 0
  then show ?case
    by (subst wait_ready.simps) (auto simp: getstate_eq io_only_inb)
next
  case (Suc n)
  let ?s1 = "snd (inb_hd (ide_base dev + REG_STATUS) s)"
  show ?case
  proof (cases "status_at dev s 0 AND (STATUS_BUSY OR STATUS_READY OR STATUS_ERR) = STATUS_READY")
    case True
    then show ?thesis by (subst wait_ready.simps) (auto simp: getstate_eq io_only_inb)
  next
    case False
    have c1: "cons_ok ?s1" using io_only_cons [OF io_only_inb Suc.prems(2)] .
    have r: "render (bytes ''controller not ready!'' @ [10]) [] = Some (bytes ''controller not ready!'' @ [10])"
      by (rule render_plain) (simp add: bytes_def of_char_def)
    obtain s2 where s2: "printk stk (bytes ''controller not ready!'' @ [10, 0]) [] ?s1 = Inr s2" "on_screen ?s1 s2" "cons_ok s2"
      using printk_terminal [OF r _ _ c1, of stk] assms(3) by (auto simp: bytes_def of_char_def STACK_SIZE_def)
    have io: "io_only ?s1 s2" "hdc s2 = hdc ?s1" using io_only_on_screen [OF s2(2,3)] by simp_all
    have "status_at dev s2 n = status_at dev ?s1 n" using io(2) by (simp add: status_at_def)
    then obtain s' where s': "wait_ready stk dev s2 = Some (Inr s')" "io_only s2 s'" "hd_out (hdc s') = hd_out (hdc s2)"
      using Suc.IH [of s2] Suc.prems(1) s2(3) by (auto simp: status_at_step)
    have "wait_ready stk dev s = wait_ready stk dev s2"
      using False s2(1) by (subst wait_ready.simps) (simp add: getstate_eq)
    then show ?thesis using s' io io_only_trans [OF io_only_inb io_only_trans [OF io(1) s'(2)]] by simp
  qed
qed

section \<open>The command that the controller gets\<close>

text \<open>
  What a drive reads from its registers, by the ATA standard: the sector number of 28 bits is in three
  registers and the low half of the device register, whose bit 6 selects LBA.
\<close>

definition port_value :: "(u16 \<times> u8) list \<Rightarrow> u32 \<Rightarrow> u8" where
  "port_value out p = (case find (\<lambda>(q, v). q = ucast p) out of Some (q, v) \<Rightarrow> v | None \<Rightarrow> 0)"

record ata_command =
  ata_code :: u8
  ata_count :: u8
  ata_sector :: u32
  ata_lba :: bool
  ata_device :: bool

definition ata_command_of :: "u32 \<Rightarrow> (u16 \<times> u8) list \<Rightarrow> ata_command" where
  "ata_command_of b out =
     (let ldh = port_value out (b + REG_LDH) in
      \<lparr>ata_code = port_value out (b + REG_COMMAND), ata_count = port_value out (b + REG_COUNT),
       ata_sector = ucast (port_value out (b + REG_SECTOR)) OR push_bit 8 (ucast (port_value out (b + REG_CYL_LOW)))
         OR push_bit 16 (ucast (port_value out (b + REG_CYL_HIGH))) OR push_bit 24 (ucast (ldh AND 0xf)),
       ata_lba = bit ldh 6, ata_device = bit ldh 4\<rparr>)"

definition drive_ok :: "ide_drive \<Rightarrow> bool" where
  "drive_ok wn \<longleftrightarrow> ide_base wn = REG_BASE0 \<and> (lba wn = 0 \<or> lba wn = 1) \<and> ide_mainid wn = 0"

lemma ldh_nibble:
  "(ucast (0xa0 OR push_bit 6 l OR push_bit 4 k OR (x AND 0xf) :: u32) :: u8) AND 0xf = ucast (x AND 0xf)"
proof (rule bit_word_eqI)
  fix n
  assume "n < LENGTH(8)"
  then have "n = 0 \<or> n = 1 \<or> n = 2 \<or> n = 3 \<or> n = 4 \<or> n = 5 \<or> n = 6 \<or> n = 7" by (simp; presburger)
  then show "bit ((ucast (0xa0 OR push_bit 6 l OR push_bit 4 k OR (x AND 0xf) :: u32) :: u8) AND 0xf) n
      = bit (ucast (x AND 0xf) :: u8) n"
    by (elim disjE) (simp_all add: bit_simps)
qed

lemma sector_bits:
  "(ucast (ucast (b AND mask 8 :: u32) :: u8) OR push_bit 8 (ucast (ucast (drop_bit 8 b AND mask 8) :: u8))
     OR push_bit 16 (ucast (ucast (drop_bit 16 b AND mask 8) :: u8))
     OR push_bit 24 (ucast (ucast (drop_bit 24 b AND mask 4) :: u8)) :: u32)
   = b AND mask 28" (is "?l = _")
proof (rule bit_word_eqI)
  fix n
  assume n: "n < LENGTH(32)"
  consider "n < 8" | "8 \<le> n" "n < 16" | "16 \<le> n" "n < 24" | "24 \<le> n" "n < 28" | "28 \<le> n" by linarith
  then show "bit ?l n = bit (b AND mask 28) n"
    by cases (use n in \<open>auto simp: bit_simps less_diff_conv2\<close>)
qed

lemma port_value_simps:
  "port_value [] p = 0"
  "port_value ((q, v) # out) p = (if q = ucast p then v else port_value out p)"
  by (simp_all add: port_value_def)

lemma do_readwrite_spec:
  assumes "rd (wini s) (rq_dev rq) = Inr wn" "drive_ok wn" "rq_type rq = READ"
    and "status_at wn s n AND (STATUS_BUSY OR STATUS_READY OR STATUS_ERR) = STATUS_READY"
    and "cons_ok s" "length stk = STACK_SIZE"
  shows "\<exists>s'. do_readwrite stk rq s = Some (Inr s') \<and> io_only s s' \<and> ata_command_of REG_BASE0 (hd_out (hdc s'))
    = \<lparr>ata_code = CMD_MULTREAD, ata_count = ucast (rq_count rq), ata_sector = rq_block rq AND mask 28,
       ata_lba = (lba wn = 1), ata_device = False\<rparr>"
proof -
  obtain s1 where s1: "wait_ready stk wn s = Some (Inr s1)" "io_only s s1"
    using wait_ready_ends [OF assms(4-6)] by blast
  have m: "(0xff :: u32) = mask 8" by (simp add: mask_eq_exp_minus_1)
  have m4: "(0xf :: u32) = mask 4" by (simp add: mask_eq_exp_minus_1)
  have wn: "ide_base wn = REG_BASE0" "ide_mainid wn = 0" "lba wn = 0 \<or> lba wn = 1"
    using assms(2) by (auto simp: drive_ok_def)
  let ?b = REG_BASE0
  define ldh :: u32 where "ldh = (0xa0 OR push_bit 6 (lba wn) OR push_bit 4 0 OR (drop_bit 24 (rq_block rq) AND 0xf))"
  define out where "out = (ucast (?b + REG_COMMAND), ucast (ucast CMD_MULTREAD :: u32)) #
     (ucast (?b + REG_LDH), ucast ldh) #
     (ucast (?b + REG_CYL_HIGH), ucast (drop_bit 16 (rq_block rq) AND 0xff)) #
     (ucast (?b + REG_CYL_LOW), ucast (drop_bit 8 (rq_block rq) AND 0xff)) #
     (ucast (?b + REG_SECTOR), ucast (rq_block rq AND 0xff)) #
     (ucast (?b + REG_COUNT), ucast (rq_count rq)) # (ucast (?b + REG_CONTROL), ucast (ide_ctl wn)) # hd_out (hdc s1)"
  let ?s' = "s1\<lparr>hdc := (hdc s1)\<lparr>hd_out := out\<rparr>\<rparr>"
  have run: "do_readwrite stk rq s = Some (Inr ?s')"
    using assms(1,3) s1(1) wn unfolding do_readwrite_def out_def ldh_def by (simp add: outb_hd_def Let_def)
  have "io_only s1 ?s'"
    by (rule io_only_intro [where ni = "hd_nin (hdc s1)" and out = out]) simp_all
  then have po: "io_only s ?s'" using s1(2) io_only_trans by blast
  have regs: "port_value out (?b + REG_LDH) = ucast ldh"
    "port_value out (?b + REG_COMMAND) = CMD_MULTREAD" "port_value out (?b + REG_COUNT) = ucast (rq_count rq)"
    "port_value out (?b + REG_SECTOR) = ucast (rq_block rq AND mask 8)"
    "port_value out (?b + REG_CYL_LOW) = ucast (drop_bit 8 (rq_block rq) AND mask 8)"
    "port_value out (?b + REG_CYL_HIGH) = ucast (drop_bit 16 (rq_block rq) AND mask 8)"
    unfolding out_def by (simp_all add: port_value_simps hd_regs CMD_MULTREAD_def m)
  have nib: "(ucast ldh :: u8) AND 0xf = ucast (drop_bit 24 (rq_block rq) AND mask 4)"
    unfolding ldh_def ldh_nibble by (simp only: m4)
  have bits: "bit (ucast ldh :: u8) 6 \<longleftrightarrow> lba wn = 1" "bit (ucast ldh :: u8) 4 \<longleftrightarrow> False"
    unfolding ldh_def using wn(3) by (auto simp: bit_simps)
  have "ata_command_of ?b out = \<lparr>ata_code = CMD_MULTREAD, ata_count = ucast (rq_count rq), ata_sector = rq_block rq AND mask 28,
       ata_lba = (lba wn = 1), ata_device = False\<rparr>"
    unfolding ata_command_of_def Let_def regs nib bits sector_bits by (rule refl)
  then show ?thesis using run po by (intro exI [of _ ?s']) simp
qed

section \<open>Reading\<close>

text \<open>What the scheduler leaves of the driver's state.\<close>

lemma same_more:
  fixes s s' :: "'a khd_scheme"
  assumes "kstate.more s' = kstate.more s"
  shows "req_buf s' = req_buf s" "req_head s' = req_head s" "req_tail s' = req_tail s" "req_count s' = req_count s"
    "hdc s' = hdc s" "wini s' = wini s" "current_dev s' = current_dev s" "cons s' = cons s"
  using assms by (cases s; cases s'; simp)+

lemma reqs_same:
  "req_buf s' = req_buf s \<Longrightarrow> req_head s' = req_head s \<Longrightarrow> req_count s' = req_count s \<Longrightarrow> reqs s' = reqs s"
  "req_buf s' = req_buf s \<Longrightarrow> req_head s' = req_head s \<Longrightarrow> req_tail s' = req_tail s \<Longrightarrow> req_count s' = req_count s
     \<Longrightarrow> reqs_ok s' = reqs_ok s"
  by (simp_all add: reqs_def reqs_ok_def)

text \<open>A request for \<open>sz\<close> bytes from sector \<open>block\<close>.\<close>

definition read_request :: "u32 \<Rightarrow> u32 \<Rightarrow> u32 \<Rightarrow> nat \<Rightarrow> request" where
  "read_request buf sz block p = \<lparr>rq_block = block, rq_count = signed_drop_bit 9 sz, rq_buf = buf, rq_dev = 0,
     rq_waiter = p, rq_type = READ\<rparr>"

text \<open>The controller has the command for a request.\<close>

definition issued :: "'a khd_scheme \<Rightarrow> request \<Rightarrow> bool" where
  "issued s rq \<longleftrightarrow> ata_command_of REG_BASE0 (hd_out (hdc s)) =
     \<lparr>ata_code = CMD_MULTREAD, ata_count = ucast (rq_count rq), ata_sector = rq_block rq AND mask 28,
      ata_lba = (lba (wini s ! rq_dev rq) = 1), ata_device = False\<rparr>"

text \<open>The driver at rest: drive 0 is there, and it shows, again and again, that it is ready.\<close>

definition hd_ready :: "'a khd_scheme \<Rightarrow> bool" where
  "hd_ready s \<longleftrightarrow> cons_ok s \<and> 0 < length (wini s) \<and> current_dev s = 0 \<and> drive_ok (wini s ! 0)
     \<and> (\<forall>k. \<exists>n. hd_in (hdc s) (ucast (REG_BASE0 + REG_STATUS)) (k + n) AND (STATUS_BUSY OR STATUS_READY OR STATUS_ERR) = STATUS_READY)"

lemma hd_ready_status:
  assumes "hd_ready s"
  shows "\<exists>n. status_at (wini s ! 0) s n AND (STATUS_BUSY OR STATUS_READY OR STATUS_ERR) = STATUS_READY"
  using assms by (auto simp: hd_ready_def status_at_def drive_ok_def Let_def)

lemma hd_ready_ports: "io_only s s' \<Longrightarrow> hd_ready s \<Longrightarrow> hd_ready s'"
  using io_only_sel [of s s'] io_only_cons [of s s'] by (simp add: hd_ready_def)

lemma do_request_spec:
  assumes "reqs_ok s" "hd_ready s" "length stk = STACK_SIZE" "list_all (\<lambda>r. rq_dev r = 0 \<and> rq_type r = READ) (reqs s)"
  shows "\<exists>s'. do_request stk s = Some (Inr s') \<and> io_only s s' \<and>
    (case reqs s of [] \<Rightarrow> s' = s | r # _ \<Rightarrow> issued s' r)"
proof (cases "0 < req_count s")
  case False
  then show ?thesis by (auto simp: do_request_def reqs_def)
next
  case True
  let ?r = "req_buf s ! req_head s"
  have r: "reqs s = ?r # tl (reqs s)" using reqs_head [OF assms(1) True] .
  then have "list_all (\<lambda>r. rq_dev r = 0 \<and> rq_type r = READ) (?r # tl (reqs s))" using assms(4) by simp
  then have "rq_dev ?r = 0" "rq_type ?r = READ" by simp_all
  moreover obtain n where "status_at (wini s ! 0) s n AND (STATUS_BUSY OR STATUS_READY OR STATUS_ERR) = STATUS_READY"
    using hd_ready_status [OF assms(2)] by blast
  moreover have "rd (wini s) 0 = Inr (wini s ! 0)" "drive_ok (wini s ! 0)" using assms(2) by (simp_all add: hd_ready_def)
  ultimately obtain s' where s': "do_readwrite stk ?r s = Some (Inr s')" "io_only s s'"
    "ata_command_of REG_BASE0 (hd_out (hdc s')) = \<lparr>ata_code = CMD_MULTREAD, ata_count = ucast (rq_count ?r),
       ata_sector = rq_block ?r AND mask 28, ata_lba = (lba (wini s ! 0) = 1), ata_device = False\<rparr>"
    using do_readwrite_spec [of s ?r "wini s ! 0", OF _ _ _ _ _ assms(3)] assms(2) unfolding hd_ready_def by metis
  have "req_head s < length (req_buf s)" using assms(1) by (simp add: reqs_ok_def)
  then have "do_request stk s = do_readwrite stk ?r s" using True by (simp add: do_request_def)
  moreover have "issued s' ?r" using s'(3) \<open>rq_dev ?r = 0\<close> io_only_sel(1) [OF s'(2)] by (simp add: issued_def)
  ultimately show ?thesis using s'(1,2) r by (metis list.simps(5))
qed

text \<open>What \<open>do_read\<close> has done when it goes to sleep.\<close>

lemma do_read_enters:
  assumes "reqs_ok s" "hd_ready s" "length stk = STACK_SIZE" "length (reqs s) \<noteq> BUF_SIZE"
    and "r = read_request buf sz block (current s)"
  shows "\<exists>b q t s'. do_read stk sy drv buf sz block s = exec_bind (sleep_on_enter sy Hd_wait s') (\<lambda>s6. Some (Inr (None, s6)))
    \<and> t = s\<lparr>req_buf := b, req_tail := q, ief := False, req_count := req_count s + 1\<rparr>
    \<and> reqs_ok t \<and> reqs t = reqs s @ [r] \<and> io_only t s' \<and> (if reqs s = [] then issued s' r else hdc s' = hdc s)"
proof -
  have c: "req_count s < int BUF_SIZE" "0 \<le> req_count s" "req_tail s < length (req_buf s)"
    using assms(1,4) by (auto simp: reqs_ok_def BUF_SIZE_def)
  let ?s3 = "s\<lparr>req_buf := (req_buf s)[req_tail s := r], req_tail := req_tail s + 1, ief := False, req_count := req_count s + 1\<rparr>"
  let ?s4 = "if req_tail s + 1 = BUF_SIZE then ?s3\<lparr>req_tail := 0\<rparr> else ?s3"
  have q4: "reqs_ok ?s4 \<and> reqs ?s4 = reqs s @ [r]"
    using c(1) by (intro reqs_push [OF assms(1)]) auto
  have cnt: "req_count ?s4 = 1 \<longleftrightarrow> reqs s = []" using c(2) by (auto simp flip: length_0_conv)
  have "(req_buf s ! req_tail s)\<lparr>rq_block := block, rq_count := signed_drop_bit 9 sz, rq_buf := buf, rq_dev := 0,
      rq_type := READ, rq_waiter := current s\<rparr> = r"
    by (cases "req_buf s ! req_tail s") (simp add: read_request_def assms(5))
  then have run: "do_read stk sy drv buf sz block s =
      exec_bind (if req_count ?s4 = 1 then do_request stk ?s4 else Some (Inr ?s4)) (\<lambda>s5.
      exec_bind (sleep_on_enter sy Hd_wait s5) (\<lambda>s6. Some (Inr (None, s6))))"
    using c unfolding do_read_def by (simp add: lock_irq_save_def Let_def)
  have "\<exists>s5. (if req_count ?s4 = 1 then do_request stk ?s4 else Some (Inr ?s4)) = Some (Inr s5) \<and> io_only ?s4 s5
      \<and> (if reqs s = [] then issued s5 r else hdc s5 = hdc s)"
  proof (cases "reqs s = []")
    case True
    have h: "hd_ready ?s4" using assms(2) by (auto simp: hd_ready_def cons_ok_def)
    have r: "reqs ?s4 = [r]" "list_all (\<lambda>r. rq_dev r = 0 \<and> rq_type r = READ) [r]"
      using q4 True by (simp_all add: read_request_def assms(5))
    obtain s5 where "do_request stk ?s4 = Some (Inr s5)" "io_only ?s4 s5" "issued s5 r"
      using do_request_spec [OF conjunct1 [OF q4] h assms(3), unfolded r(1), OF r(2)] unfolding list.case by blast
    then show ?thesis using True cnt by (intro exI [of _ s5]) simp
  next
    case False
    then show ?thesis using cnt by (intro exI [of _ ?s4]) simp
  qed
  then obtain s5 where s5: "(if req_count ?s4 = 1 then do_request stk ?s4 else Some (Inr ?s4)) = Some (Inr s5)" "io_only ?s4 s5"
    "if reqs s = [] then issued s5 r else hdc s5 = hdc s" by blast
  have "do_read stk sy drv buf sz block s = exec_bind (sleep_on_enter sy Hd_wait s5) (\<lambda>s6. Some (Inr (None, s6)))"
    unfolding run s5(1) by (simp only: exec_bind_simps)
  moreover have "?s4 = s\<lparr>req_buf := req_buf ?s4, req_tail := req_tail ?s4, ief := False, req_count := req_count s + 1\<rparr>" by simp
  ultimately show ?thesis using q4 s5(2,3) by blast
qed

text \<open>
  Property C26: \<open>do_read\<close> queues a request for the calling process behind the others, at most five; when
  it is the only one, the controller gets the command: the sector in the low 28 bits, the count, LBA.
  The process sleeps then, with the interrupts off; when the queue is full it gets -1 instead.
\<close>

theorem do_read_queues:
  assumes "reqs_ok s" "hd_ready s" "length stk = STACK_SIZE"
    and "ready_rep s L" "current s \<in> set L" "ring (wait_links s) Hd_wait xs" "Waiter (current s) \<notin> set (Hd_wait # xs)"
  shows "if length (reqs s) = BUF_SIZE then do_read stk sy drv buf sz block s = Some (Inr (Some (- 1), s))
    else \<exists>s'. do_read stk sy drv buf sz block s = Some (Inr (None, s')) \<and> reqs_ok s'
      \<and> reqs s' = reqs s @ [read_request buf sz block (current s)]
      \<and> (if reqs s = [] then issued s' (read_request buf sz block (current s)) else hdc s' = hdc s)
      \<and> ready_rep s' (policy (expired s) True (current s) L) \<and> (\<forall>a. off_screen a \<longrightarrow> ram s' a = ram s a)
      \<and> ring (wait_links s') Hd_wait (Waiter (current s) # xs) \<and> \<not> ief s'"
proof (cases "length (reqs s) = BUF_SIZE")
  case True
  then show ?thesis using assms(1) by (auto simp: do_read_def reqs_ok_def)
next
  case False
  let ?r = "read_request buf sz block (current s)"
  obtain b q t s5 where run: "do_read stk sy drv buf sz block s = exec_bind (sleep_on_enter sy Hd_wait s5) (\<lambda>s6. Some (Inr (None, s6)))"
    and t: "t = s\<lparr>req_buf := b, req_tail := q, ief := False, req_count := req_count s + 1\<rparr>"
    and s5: "reqs_ok t" "reqs t = reqs s @ [?r]" "io_only t s5" "if reqs s = [] then issued s5 ?r else hdc s5 = hdc s"
    using do_read_enters [OF assms(1-3) False refl] by blast
  have frame4: "ready_rep t L" "current t = current s" "wait_links t = wait_links s" "\<not> ief t" "ram t = ram s"
    "wini t = wini s" "expired t = expired s"
    using assms(4) by (simp_all add: t ready_rep_def next_of_def expired_def)
  note sel = io_only_sel [OF s5(3)]
  have f5: "ready_rep s5 L" "current s5 = current s" "wait_links s5 = wait_links s" "\<not> ief s5" "\<forall>a. off_screen a \<longrightarrow> ram s5 a = ram s a"
    "wini s5 = wini s" "expired s5 = expired s"
    using frame4 sel io_only_ram [OF s5(3)] by (simp_all add: ready_rep_def next_of_def expired_def)
  obtain s6 where s6: "sleep_on_enter sy Hd_wait s5 = Some (Inr s6)"
    "ready_rep s6 (policy (expired s) True (current s) L)" "ring (wait_links s6) Hd_wait (Waiter (current s) # xs)"
    "ief s6 = ief s5" "same_rest s5 s6"
    using sleep_on_spec [of s5 L Hd_wait xs sy] assms(5-7) f5 by auto
  have more: "kstate.more s6 = kstate.more s5" "ram s6 = ram s5" using s6(5) by (simp_all add: same_rest_def)
  note sm = same_more [OF more(1)]
  have "reqs_ok s6 \<and> reqs s6 = reqs s @ [?r]"
    using s5(1,2) reqs_same [of s6 t] sm sel by simp
  moreover have "issued s6 ?r = issued s5 ?r" using sm by (simp add: issued_def)
  then have "if reqs s = [] then issued s6 ?r else hdc s6 = hdc s" using s5(4) sm by simp
  moreover have "do_read stk sy drv buf sz block s = Some (Inr (None, s6))"
    unfolding run by (simp only: exec_bind_simps s6(1))
  ultimately have "do_read stk sy drv buf sz block s = Some (Inr (None, s6)) \<and> reqs_ok s6
      \<and> reqs s6 = reqs s @ [?r] \<and> (if reqs s = [] then issued s6 ?r else hdc s6 = hdc s)
      \<and> ready_rep s6 (policy (expired s) True (current s) L) \<and> (\<forall>a. off_screen a \<longrightarrow> ram s6 a = ram s a)
      \<and> ring (wait_links s6) Hd_wait (Waiter (current s) # xs) \<and> \<not> ief s6"
    using s6(2-4) f5(4,5) more(2) by simp
  then show ?thesis unfolding if_not_P [OF False] by blast
qed

section \<open>The interrupt\<close>

definition words_bytes :: "u16 list \<Rightarrow> u8 list" where
  "words_bytes ws = concat (map (\<lambda>w. [ucast w, ucast (drop_bit 8 w)]) ws)"

text \<open>The next \<open>n\<close> words of the data port.\<close>

definition next_words :: "'a khd_scheme \<Rightarrow> nat \<Rightarrow> u16 list" where
  "next_words s n = map (\<lambda>i. hd_word (hdc s) (hd_nword (hdc s) + i)) [0..<n]"

lemma words_bytes_simps [simp]: "words_bytes [] = []" "words_bytes (w # ws) = ucast w # ucast (drop_bit 8 w) # words_bytes ws"
  by (simp_all add: words_bytes_def)

lemma in_words_frame: "\<exists>m. in_words n buf s = s\<lparr>hdc := (hdc s)\<lparr>hd_nword := hd_nword (hdc s) + n\<rparr>, ram := m\<rparr>"
proof (induction n arbitrary: buf s)
  case 0
  show ?case by (intro exI [of _ "ram s"]) simp
next
  case (Suc n)
  let ?s1 = "s\<lparr>hdc := (hdc s)\<lparr>hd_nword := hd_nword (hdc s) + 1\<rparr>, ram := (ram s)(buf := ucast (hd_word (hdc s) (hd_nword (hdc s))),
       buf + 1 := ucast (drop_bit 8 (hd_word (hdc s) (hd_nword (hdc s)))))\<rparr>"
  from Suc [of "buf + 2" ?s1] obtain m where "in_words n (buf + 2) ?s1 =
      ?s1\<lparr>hdc := (hdc ?s1)\<lparr>hd_nword := hd_nword (hdc ?s1) + n\<rparr>, ram := m\<rparr>" by blast
  then show ?case by (intro exI [of _ m]) (simp add: Let_def)
qed

lemma in_words_ram:
  assumes "unat buf + 2 * n < 2 ^ 32"
  shows "block_at (ram (in_words n buf s)) buf (2 * n) = words_bytes (next_words s n)
    \<and> (\<forall>a. unat a < unat buf \<or> unat buf + 2 * n \<le> unat a \<longrightarrow> ram (in_words n buf s) a = ram s a)"
  using assms
proof (induction n arbitrary: buf s)
  case 0
  then show ?case by (simp add: next_words_def)
next
  case (Suc n)
  let ?w = "hd_word (hdc s) (hd_nword (hdc s))"
  let ?s1 = "s\<lparr>hdc := (hdc s)\<lparr>hd_nword := hd_nword (hdc s) + 1\<rparr>, ram := (ram s)(buf := ucast ?w, buf + 1 := ucast (drop_bit 8 ?w))\<rparr>"
  have b: "unat (buf + 1) = unat buf + 1" "unat (buf + 2) = unat buf + 2"
    using unat_add_small [of buf 1] unat_add_small [of buf 2] Suc.prems by simp_all
  have step: "in_words (Suc n) buf s = in_words n (buf + 2) ?s1" by (simp add: Let_def)
  note IH = Suc.IH [of "buf + 2" ?s1]
  have out: "ram (in_words (Suc n) buf s) a = ram ?s1 a" if "unat a < unat buf + 2 \<or> unat buf + 2 * Suc n \<le> unat a" for a
    unfolding step using IH that b Suc.prems by auto
  have "block_at (ram (in_words (Suc n) buf s)) buf (2 * Suc n) =
      block_at (ram (in_words (Suc n) buf s)) buf 2 @ block_at (ram (in_words (Suc n) buf s)) (buf + 2) (2 * n)"
    using block_at_add [of "ram (in_words (Suc n) buf s)" buf 2 "2 * n"] by simp
  moreover have "block_at (ram (in_words (Suc n) buf s)) buf 2 = [ucast ?w, ucast (drop_bit 8 ?w)]"
    using out [of buf] out [of "buf + 1"] b by (auto simp: block_at_def upt_rec numeral_2_eq_2)
  moreover have "block_at (ram (in_words (Suc n) buf s)) (buf + 2) (2 * n) = words_bytes (next_words ?s1 n)"
    unfolding step using IH b Suc.prems by simp
  moreover have "next_words s (Suc n) = ?w # next_words ?s1 n"
    by (simp add: next_words_def upt_conv_Cons map_Suc_upt [symmetric] del: upt_Suc)
  ultimately have "block_at (ram (in_words (Suc n) buf s)) buf (2 * Suc n) = words_bytes (next_words s (Suc n))" by simp
  moreover have "ram (in_words (Suc n) buf s) a = ram s a" if a: "unat a < unat buf \<or> unat buf + 2 * Suc n \<le> unat a" for a
  proof -
    have "a \<noteq> buf" "a \<noteq> buf + 1" using a b by auto
    then have s1: "ram ?s1 a = ram s a" by simp
    have "unat a < unat buf + 2 \<or> unat buf + 2 * Suc n \<le> unat a" using a by linarith
    from trans [OF out [OF this] s1] show ?thesis .
  qed
  ultimately show ?case by blast
qed

text \<open>A status with data to be read.\<close>

definition wants_data :: "u8 \<Rightarrow> bool" where
  "wants_data st \<longleftrightarrow> st AND STATUS_BUSY = 0 \<and> st AND STATUS_DTRQ \<noteq> 0"

lemma hd_poll_spec:
  "\<exists>s'. hd_poll k dev s = ((\<exists>n < k. wants_data (status_at dev s n)), s') \<and> io_only s s' \<and> hd_out (hdc s') = hd_out (hdc s)"
proof (induction k arbitrary: s)
  case 0
  then show ?case by simp
next
  case (Suc k)
  let ?s1 = "snd (inb_hd (ide_base dev + REG_STATUS) s)"
  have v: "fst (inb_hd (ide_base dev + REG_STATUS) s) = status_at dev s 0"
    by (simp add: status_at_def inb_hd_def Let_def)
  have step: "hd_poll (Suc k) dev s = (if wants_data (status_at dev s 0) then (True, ?s1) else hd_poll k dev ?s1)"
    by (simp add: split_beta v wants_data_def)
  have ex: "(\<exists>n < Suc k. wants_data (status_at dev s n)) \<longleftrightarrow>
      wants_data (status_at dev s 0) \<or> (\<exists>n < k. wants_data (status_at dev ?s1 n))"
    unfolding status_at_step by (auto simp: less_Suc_eq_0_disj)
  show ?case
  proof (cases "wants_data (status_at dev s 0)")
    case True
    then have "hd_poll (Suc k) dev s = (True, ?s1)" unfolding step by simp
    then show ?thesis using True ex io_only_inb by auto
  next
    case False
    then have "hd_poll (Suc k) dev s = hd_poll k dev ?s1" unfolding step by simp
    moreover obtain s' where "hd_poll k dev ?s1 = ((\<exists>n < k. wants_data (status_at dev ?s1 n)), s')"
      "io_only ?s1 s'" "hd_out (hdc s') = hd_out (hdc ?s1)" using Suc.IH by blast
    ultimately show ?thesis using False ex io_only_trans [OF io_only_inb] by auto
  qed
qed

text \<open>When no data comes, all that the polling has done is to read the status.\<close>

lemma hd_poll_fails:
  assumes "\<forall>n < k. \<not> wants_data (status_at dev s n)"
  shows "hd_poll k dev s = (False, s\<lparr>hdc := (hdc s)\<lparr>hd_nin := (hd_nin (hdc s))
    (ucast (ide_base dev + REG_STATUS) := hd_nin (hdc s) (ucast (ide_base dev + REG_STATUS)) + k)\<rparr>\<rparr>)"
  using assms
proof (induction k arbitrary: s)
  case 0
  then show ?case by (cases s) simp
next
  case (Suc k)
  let ?s1 = "snd (inb_hd (ide_base dev + REG_STATUS) s)"
  have v: "fst (inb_hd (ide_base dev + REG_STATUS) s) = status_at dev s 0"
    by (simp add: status_at_def inb_hd_def Let_def)
  have n: "\<not> wants_data (status_at dev s 0)" "\<forall>n < k. \<not> wants_data (status_at dev ?s1 n)"
    using Suc.prems by (auto simp: status_at_step)
  have "hd_poll (Suc k) dev s = (if wants_data (status_at dev s 0) then (True, ?s1) else hd_poll k dev ?s1)"
    by (simp add: split_beta v wants_data_def)
  then have "hd_poll (Suc k) dev s = hd_poll k dev ?s1" using n(1) by simp
  moreover let ?p = "ucast (ide_base dev + REG_STATUS) :: u16"
  have "?s1\<lparr>hdc := (hdc ?s1)\<lparr>hd_nin := (hd_nin (hdc ?s1))(?p := hd_nin (hdc ?s1) ?p + k)\<rparr>\<rparr>
      = s\<lparr>hdc := (hdc s)\<lparr>hd_nin := (hd_nin (hdc s))(?p := hd_nin (hdc s) ?p + Suc k)\<rparr>\<rparr>"
    by (cases s; cases "hdc s") (simp add: inb_hd_def Let_def)
  ultimately show ?case using Suc.IH [OF n(2)] by (simp only:)
qed

text \<open>The error register, and the message about it.\<close>

definition status_error :: "ide_drive \<Rightarrow> 'a khd_scheme \<Rightarrow> u8" where
  "status_error dev s = (let p = ucast (ide_base dev + REG_ERROR) in hd_in (hdc s) p (hd_nin (hdc s) p))"

definition hd_error_line :: "u8 \<Rightarrow> u8 list" where
  "hd_error_line v = bytes ''hd error code:0x'' @ hex_bytes (ucast v) @ [10]"

lemma error_message:
  assumes "cons_ok s" "length stk = STACK_SIZE"
  shows "\<exists>s'. printk stk (bytes ''hd error code:0x%x'' @ [10, 0]) [Va_word (ucast v)] s = Inr s' \<and> on_screen s s' \<and> cons_ok s'
    \<and> terminal_of s' = fold term_put (hd_error_line v) (terminal_of s)"
proof -
  let ?w = "ucast v :: u32"
  have r: "render (bytes ''hd error code:0x%x'' @ [10]) [Va_word ?w] = Some (hd_error_line v)"
    by (simp add: bytes_def item_def of_char_def hd_error_line_def)
  have "length (hex_bytes ?w) \<le> 8" by (rule hex_bytes_length)
  then have l: "length (hd_error_line v) < length stk" using assms(2) by (simp add: hd_error_line_def bytes_def STACK_SIZE_def)
  have nz: "0 \<notin> set (hd_error_line v)" "0 \<notin> set (bytes ''hd error code:0x%x'' @ [10])"
    using hex_bytes_nonzero [of ?w] by (simp_all add: hd_error_line_def bytes_def of_char_def)
  from printk_terminal [OF r nz(2) l assms(1)] show ?thesis unfolding takeWhile_text [OF nz(1)] by simp
qed

text \<open>The buffer of a request lies below the screen or behind it.\<close>

definition buffer_ok :: "request \<Rightarrow> bool" where
  "buffer_ok rq \<longleftrightarrow> unat (rq_buf rq) + 512 * unat (rq_count rq) \<le> unat screen_base \<or>
      unat screen_base + 4000 \<le> unat (rq_buf rq) \<and> unat (rq_buf rq) + 512 * unat (rq_count rq) < 2 ^ 32"

lemma buffer_small: "buffer_ok rq \<Longrightarrow> unat (rq_buf rq) + 512 * unat (rq_count rq) < 2 ^ 32"
  by (auto simp: buffer_ok_def unat_screen_base)

lemma buffer_same:
  assumes "buffer_ok rq" "\<And>a. off_screen a \<Longrightarrow> m' a = m a"
  shows "block_at m' (rq_buf rq) (512 * unat (rq_count rq)) = block_at m (rq_buf rq) (512 * unat (rq_count rq))"
proof (rule nth_equalityI)
  fix j
  assume "j < length (block_at m' (rq_buf rq) (512 * unat (rq_count rq)))"
  then have j: "j < 512 * unat (rq_count rq)" by simp
  then have "unat (rq_buf rq + of_nat j) = unat (rq_buf rq) + j"
    using buffer_small [OF assms(1)] by (intro unat_add_small) simp
  then have "off_screen (rq_buf rq + of_nat j)" using assms(1) j by (auto simp: buffer_ok_def off_screen_def)
  then show "block_at m' (rq_buf rq) (512 * unat (rq_count rq)) ! j = block_at m (rq_buf rq) (512 * unat (rq_count rq)) ! j"
    using j assms(2) by simp
qed simp

text \<open>The handler when no data comes.\<close>

lemma hd_handlerp_error:
  assumes "hd_ready s" "length stk = STACK_SIZE" "ready_rep s L"
    and "\<not> (\<exists>n < 1000. wants_data (status_at (wini s ! 0) s n))"
  shows "\<exists>s'. hd_handlerp stk irq s = Some (Inr (1, s')) \<and> reqs s' = reqs s \<and> ready_rep s' L
    \<and> hd_out (hdc s') = hd_out (hdc s)
    \<and> terminal_of s' = fold term_put (hd_error_line (status_error (wini s ! 0) s)) (terminal_of s) \<and> (\<forall>a. off_screen a \<longrightarrow> ram s' a = ram s a)"
proof -
  let ?dev = "wini s ! 0"
  have dev: "rd (wini s) (current_dev s) = Inr ?dev" "ide_base ?dev = REG_BASE0" using assms(1) by (simp_all add: hd_ready_def drive_ok_def)
  obtain s1 where s1: "hd_poll 1000 ?dev s = (False, s1)" "io_only s s1" "hd_out (hdc s1) = hd_out (hdc s)"
    using hd_poll_spec [of 1000 ?dev s] assms(4) by auto
  have e1: "status_error ?dev s1 = status_error ?dev s" "terminal_of s1 = terminal_of s"
  proof -
    have "s1 = snd (hd_poll 1000 ?dev s)" unfolding s1(1) by simp
    then have "s1 = s\<lparr>hdc := (hdc s)\<lparr>hd_nin := (hd_nin (hdc s))
        (ucast (ide_base ?dev + REG_STATUS) := hd_nin (hdc s) (ucast (ide_base ?dev + REG_STATUS)) + 1000)\<rparr>\<rparr>"
      using hd_poll_fails [of 1000 ?dev s] assms(4) by simp
    then show "status_error ?dev s1 = status_error ?dev s" "terminal_of s1 = terminal_of s"
      using dev(2) by (simp_all add: status_error_def terminal_of_def Let_def hd_regs)
  qed
  let ?v = "status_error ?dev s" and ?s2 = "snd (inb_hd (ide_base ?dev + REG_ERROR) s1)"
  have t2: "terminal_of ?s2 = terminal_of s" using e1(2) by (simp add: terminal_of_def inb_hd_def Let_def)
  have "cons_ok ?s2" using assms(1) io_only_cons [OF io_only_trans [OF s1(2) io_only_inb]] by (simp add: hd_ready_def)
  then obtain s3 where s3: "printk stk (bytes ''hd error code:0x%x'' @ [10, 0]) [Va_word (ucast ?v)] ?s2 = Inr s3"
    "on_screen ?s2 s3" "cons_ok s3" "terminal_of s3 = fold term_put (hd_error_line ?v) (terminal_of s)"
    using error_message [OF _ assms(2), of ?s2 ?v] unfolding t2 by blast
  note io = io_only_on_screen [OF s3(2,3)]
  have s13: "io_only s s3" using io_only_trans [OF s1(2) io_only_trans [OF io_only_inb]] io by blast
  have "fst (inb_hd (ide_base ?dev + REG_ERROR) s1) = ?v"
    using e1(1) by (simp add: inb_hd_def status_error_def Let_def)
  then have "hd_handlerp stk irq s = Some (Inr (1, s3))" using s1(1)
    unfolding hd_handlerp_def dev(1) by (simp only: exec_bind_simps split_beta fst_conv snd_conv) (simp add: split_beta s3(1))
  moreover note sel = io_only_sel [OF s13]
  have "ready_rep s3 L" using assms(3) sel by (simp add: ready_rep_def next_of_def)
  moreover have "reqs s3 = reqs s" using sel by (intro reqs_same) simp_all
  moreover have "hd_out (hdc s3) = hd_out (hdc s)" using io s1(3) by simp
  ultimately show ?thesis using io_only_ram [OF s13] s3(4) by blast
qed

text \<open>The sectors are read and the process is woken.\<close>

lemma transfer_spec:
  assumes "ready_rep s L" "user_task p" "p \<notin> set L" "unat buf + 2 * n < 2 ^ 32"
  shows "\<exists>s'. wake_up_process p (in_words n buf (s\<lparr>ief := False\<rparr>)) = Inr s' \<and> ready_rep s' (L @ [p])
    \<and> block_at (ram s') buf (2 * n) = words_bytes (next_words s n)
    \<and> (\<forall>a. unat a < unat buf \<or> unat buf + 2 * n \<le> unat a \<longrightarrow> ram s' a = ram s a)
    \<and> kstate.more s' = kstate.more (s\<lparr>hdc := (hdc s)\<lparr>hd_nword := hd_nword (hdc s) + n\<rparr>\<rparr>)"
proof -
  let ?s2 = "s\<lparr>ief := False\<rparr>"
  obtain m where m: "in_words n buf ?s2 = ?s2\<lparr>hdc := (hdc ?s2)\<lparr>hd_nword := hd_nword (hdc ?s2) + n\<rparr>, ram := m\<rparr>"
    using in_words_frame by blast
  have mem: "block_at m buf (2 * n) = words_bytes (next_words s n)
      \<and> (\<forall>a. unat a < unat buf \<or> unat buf + 2 * n \<le> unat a \<longrightarrow> m a = ram s a)"
    using in_words_ram [of buf n ?s2] assms(4) unfolding m by (simp add: next_words_def)
  have "ready_rep (in_words n buf ?s2) L" unfolding m using assms(1) by (simp add: ready_rep_def next_of_def)
  then obtain s4 where s4: "wake_up_process p (in_words n buf ?s2) = Inr s4" "ready_rep s4 (L @ [p])"
    "woke (in_words n buf ?s2) s4"
    using wake_up_process_spec(1) [OF _ assms(2,3)] by blast
  then have "kstate.more s4 = kstate.more (in_words n buf ?s2)" "ram s4 = m"
    unfolding m by (simp_all add: woke_def same_rest_def)
  moreover have "kstate.more (in_words n buf ?s2) = kstate.more (s\<lparr>hdc := (hdc s)\<lparr>hd_nword := hd_nword (hdc s) + n\<rparr>\<rparr>)"
    unfolding m by (cases s) simp
  ultimately show ?thesis using s4(1,2) mem by (intro exI [of _ s4]) simp
qed

text \<open>The first request is done, the next is issued.\<close>

lemma next_request_spec:
  assumes "reqs_ok s" "hd_ready s" "length stk = STACK_SIZE" "reqs s = rq # rest"
    and "list_all (\<lambda>r. rq_dev r = 0 \<and> rq_type r = READ) rest"
  shows "\<exists>s'. (let s5 = s\<lparr>req_count := req_count s - 1, req_head := req_head s + 1\<rparr>;
                  s6 = (if req_head s5 = BUF_SIZE then s5\<lparr>req_head := 0\<rparr> else s5) in do_request stk s6) = Some (Inr s')
    \<and> reqs_ok s' \<and> reqs s' = rest \<and> (\<forall>a. off_screen a \<longrightarrow> ram s' a = ram s a) \<and> (\<forall>L. ready_rep s L \<longrightarrow> ready_rep s' L)
    \<and> (case rest of [] \<Rightarrow> hdc s' = hdc s | r # _ \<Rightarrow> issued s' r)"
proof -
  let ?s5 = "s\<lparr>req_count := req_count s - 1, req_head := req_head s + 1\<rparr>"
  define s6 where "s6 = (if req_head ?s5 = BUF_SIZE then ?s5\<lparr>req_head := 0\<rparr> else ?s5)"
  have "0 < req_count s" using length_reqs [of s] assms(4) by simp
  then have q6: "reqs_ok s6 \<and> reqs s6 = tl (reqs s)"
    unfolding s6_def by (intro reqs_pop [OF assms(1)]) simp_all
  have f6: "hdc s6 = hdc s" "wini s6 = wini s" "ram s6 = ram s" "current_dev s6 = current_dev s" "cons s6 = cons s"
    "\<And>L. ready_rep s L \<Longrightarrow> ready_rep s6 L"
    by (simp_all add: s6_def ready_rep_def next_of_def)
  have "hd_ready s6" using assms(2) f6 by (simp add: hd_ready_def cons_ok_def)
  then obtain s7 where s7: "do_request stk s6 = Some (Inr s7)" "io_only s6 s7"
    "case reqs s6 of [] \<Rightarrow> s7 = s6 | r # _ \<Rightarrow> issued s7 r"
    using do_request_spec [of s6, OF _ _ assms(3)] q6 assms(4,5) by auto
  note sel = io_only_sel [OF s7(2)]
  have "reqs_ok s7" "reqs s7 = rest" using q6 reqs_same [of s7 s6] sel assms(4) by simp_all
  moreover have "ready_rep s7 L" if "ready_rep s L" for L
    using f6(6) [OF that] sel by (simp add: ready_rep_def next_of_def)
  moreover have "case rest of [] \<Rightarrow> hdc s7 = hdc s | r # _ \<Rightarrow> issued s7 r"
    using s7(3) q6 assms(4) f6(1) by (cases rest) auto
  moreover have "\<forall>a. off_screen a \<longrightarrow> ram s7 a = ram s a" using io_only_ram [OF s7(2)] f6(3) by simp
  ultimately show ?thesis using s7(1) unfolding Let_def s6_def by blast
qed

text \<open>What the handler does when data comes, in these two steps.\<close>

lemma hd_handlerp_steps:
  assumes "hd_poll 1000 wn s = (True, s1)" "rd (wini s) (current_dev s) = Inr wn"
    and "rd (req_buf s1) (req_head s) = Inr rq" "rq_type rq = READ"
    and "wake_up_process (rq_waiter rq) (in_words (unat (push_bit 8 (rq_count rq))) (rq_buf rq) (s1\<lparr>ief := False\<rparr>)) = Inr s4"
    and "(let s5 = s4\<lparr>req_count := req_count s4 - 1, req_head := req_head s4 + 1\<rparr>;
              s6 = (if req_head s5 = BUF_SIZE then s5\<lparr>req_head := 0\<rparr> else s5) in do_request stk s6) = Some (Inr s7)"
  shows "hd_handlerp stk irq s = Some (Inr (1, s7\<lparr>ief := ief s1\<rparr>))"
  using assms by (simp add: hd_handlerp_def lock_irq_save_def unlock_irq_restore_def Let_def)

lemma hd_handlerp_data:
  assumes "reqs_ok s" "hd_ready s" "length stk = STACK_SIZE" "reqs s = rq # rest"
    and "list_all (\<lambda>r. rq_dev r = 0 \<and> rq_type r = READ) (reqs s)"
    and "ready_rep s L" "user_task (rq_waiter rq)" "rq_waiter rq \<notin> set L" "buffer_ok rq"
    and "\<exists>n < 1000. wants_data (status_at (wini s ! 0) s n)"
  shows "\<exists>s'. hd_handlerp stk irq s = Some (Inr (1, s')) \<and> reqs_ok s' \<and> reqs s' = rest \<and> ready_rep s' (L @ [rq_waiter rq])
    \<and> block_at (ram s') (rq_buf rq) (512 * unat (rq_count rq)) = words_bytes (next_words s (256 * unat (rq_count rq)))
    \<and> (\<forall>a. off_screen a \<longrightarrow> unat a < unat (rq_buf rq) \<or> unat (rq_buf rq) + 512 * unat (rq_count rq) \<le> unat a
         \<longrightarrow> ram s' a = ram s a)
    \<and> (case rest of [] \<Rightarrow> hd_out (hdc s') = hd_out (hdc s) | r # _ \<Rightarrow> issued s' r)"
proof -
  let ?dev = "wini s ! 0" and ?n = "256 * unat (rq_count rq)"
  have cnt: "0 < req_count s" using length_reqs [of s] assms(4) by simp
  have rq: "req_buf s ! req_head s = rq" using reqs_head [OF assms(1) cnt] assms(4) by simp
  obtain s1 where s1: "hd_poll 1000 ?dev s = (True, s1)" "io_only s s1" "hd_out (hdc s1) = hd_out (hdc s)"
    using hd_poll_spec [of 1000 ?dev s] assms(10) by auto
  note sel = io_only_sel [OF s1(2)]
  have n: "unat (push_bit 8 (rq_count rq)) = ?n"
  proof -
    have "unat (rq_count rq) * 256 < 2 ^ LENGTH(32)" using buffer_small [OF assms(9)] by simp
    then show ?thesis by (simp add: push_bit_eq_mult unat_word_ariths mult.commute)
  qed
  have "ready_rep s1 L" using assms(6) sel by (simp add: ready_rep_def next_of_def)
  then obtain s4 where s4: "wake_up_process (rq_waiter rq) (in_words ?n (rq_buf rq) (s1\<lparr>ief := False\<rparr>)) = Inr s4"
    "ready_rep s4 (L @ [rq_waiter rq])" "block_at (ram s4) (rq_buf rq) (2 * ?n) = words_bytes (next_words s1 ?n)"
    "\<forall>a. unat a < unat (rq_buf rq) \<or> unat (rq_buf rq) + 2 * ?n \<le> unat a \<longrightarrow> ram s4 a = ram s1 a"
    "kstate.more s4 = kstate.more (s1\<lparr>hdc := (hdc s1)\<lparr>hd_nword := hd_nword (hdc s1) + ?n\<rparr>\<rparr>)"
    using transfer_spec [of s1 L "rq_waiter rq" "rq_buf rq" ?n] assms(7,8) buffer_small [OF assms(9)] by auto
  note sm = same_more [OF s4(5)]
  have "reqs_ok s4 = reqs_ok s" "reqs s4 = reqs s" using sm sel by (intro reqs_same; simp)+
  then have q4: "reqs_ok s4" "reqs s4 = rq # rest" using assms(1,4) by simp_all
  have h4: "hd_ready s4" using hd_ready_ports [OF s1(2) assms(2)] sm by (simp add: hd_ready_def cons_ok_def)
  obtain s7 where s7: "(let s5 = s4\<lparr>req_count := req_count s4 - 1, req_head := req_head s4 + 1\<rparr>;
              s6 = (if req_head s5 = BUF_SIZE then s5\<lparr>req_head := 0\<rparr> else s5) in do_request stk s6) = Some (Inr s7)"
    "reqs_ok s7" "reqs s7 = rest" "\<forall>a. off_screen a \<longrightarrow> ram s7 a = ram s4 a" "ready_rep s7 (L @ [rq_waiter rq])"
    "case rest of [] \<Rightarrow> hdc s7 = hdc s4 | r # _ \<Rightarrow> issued s7 r"
    using next_request_spec [OF q4(1) h4 assms(3) q4(2)] assms(4,5) s4(2) by auto
  have "rd (req_buf s1) (req_head s) = Inr rq" "rq_type rq = READ" "rd (wini s) (current_dev s) = Inr ?dev"
    using rq assms(1,2,4,5) sel by (simp_all add: reqs_ok_def hd_ready_def)
  then have run: "hd_handlerp stk irq s = Some (Inr (1, s7\<lparr>ief := ief s1\<rparr>))"
    using hd_handlerp_steps [OF s1(1)] s4(1) s7(1) n by simp
  let ?s8 = "s7\<lparr>ief := ief s1\<rparr>"
  have "reqs_ok ?s8 = reqs_ok s7" "reqs ?s8 = reqs s7" by (intro reqs_same; simp)+
  moreover have "ready_rep ?s8 (L @ [rq_waiter rq])" using s7(5) by (simp add: ready_rep_def next_of_def)
  moreover have "block_at (ram s7) (rq_buf rq) (512 * unat (rq_count rq)) = words_bytes (next_words s ?n)"
    using buffer_same [OF assms(9), of "ram s7" "ram s4"] s7(4) s4(3) sel by (simp add: next_words_def)
  moreover have "case rest of [] \<Rightarrow> hd_out (hdc ?s8) = hd_out (hdc s) | r # _ \<Rightarrow> issued ?s8 r"
    using s7(6) sm s1(3) by (cases rest) (simp_all add: issued_def)
  ultimately show ?thesis using run s7(2-4) s4(4) io_only_ram [OF s1(2)]
    by (intro exI [of _ ?s8]) simp
qed

text \<open>
  Property C7: the disk interrupt ends the first request when the controller has data within a
  thousand reads of its status: the sectors are in the request's buffer and nothing else in memory
  but the screen changes, the process is ready again, and the controller gets the command for the next request, if
  there is one. When no data comes the handler prints one line, with the value of the drive's error register in
  hexadecimal, and returns with the queue of requests and the ready queue as before: the request is still at the head
  and its process asleep.
\<close>

theorem hd_handlerp_serves:
  assumes "reqs_ok s" "hd_ready s" "length stk = STACK_SIZE" "reqs s = rq # rest"
    and "list_all (\<lambda>r. rq_dev r = 0 \<and> rq_type r = READ) (reqs s)"
    and "ready_rep s L" "user_task (rq_waiter rq)" "rq_waiter rq \<notin> set L" "buffer_ok rq"
  shows "\<exists>s'. hd_handlerp stk irq s = Some (Inr (1, s')) \<and>
    (if \<exists>n < 1000. wants_data (status_at (wini s ! 0) s n)
     then reqs_ok s' \<and> reqs s' = rest \<and> ready_rep s' (L @ [rq_waiter rq])
       \<and> block_at (ram s') (rq_buf rq) (512 * unat (rq_count rq)) = words_bytes (next_words s (256 * unat (rq_count rq)))
       \<and> (\<forall>a. off_screen a \<longrightarrow> unat a < unat (rq_buf rq) \<or> unat (rq_buf rq) + 512 * unat (rq_count rq) \<le> unat a
            \<longrightarrow> ram s' a = ram s a)
       \<and> (case rest of [] \<Rightarrow> hd_out (hdc s') = hd_out (hdc s) | r # _ \<Rightarrow> issued s' r)
     else reqs s' = reqs s \<and> ready_rep s' L \<and> hd_out (hdc s') = hd_out (hdc s)
       \<and> terminal_of s' = fold term_put (hd_error_line (status_error (wini s ! 0) s)) (terminal_of s)
       \<and> (\<forall>a. off_screen a \<longrightarrow> ram s' a = ram s a))"
proof (cases "\<exists>n < 1000. wants_data (status_at (wini s ! 0) s n)")
  case True
  from hd_handlerp_data [OF assms this] show ?thesis unfolding if_P [OF True] .
next
  case False
  from hd_handlerp_error [OF assms(2,3,6) this] show ?thesis unfolding if_not_P [OF False] .
qed

text \<open>Process 1 reads a sector on an idle disk, process 2 runs then; the data is the words 0, 1, 2, \<dots>\<close>

definition hd_drive :: ide_drive where
  "hd_drive = \<lparr>ide_mainid = 0, ide_base = REG_BASE0, ide_irq = 14, pcylinders = 0, pheads = 0, psectors = 0, capacity = 0,
     lcylinders = 0, lheads = 0, lsectors = 0, precomp = 0, ide_ctl = 8, max_multsect = 0, buf_size = 0, dword_io = 0,
     lba = 1, part_table = [], part_ops = None\<rparr>"

definition hd_state :: "request list \<Rightarrow> int \<Rightarrow> kstate \<Rightarrow> khd" where
  "hd_state rs n k = kcpu.extend (cpu_with (\<lambda>_. (0, 0, 0, 0)) (pci_with (\<lambda>_. 0) (\<lambda>_ _. 0)
       (kcons.extend (kstate.extend k \<lparr>cons = cons last_cell, crt_out = []\<rparr>)
         \<lparr>pic1 = idle_pic, pic2 = idle_pic, irq_table = replicate 16 Nothing_irq\<rparr>)))
     \<lparr>wini = [hd_drive], current_dev = 0, req_buf = rs, req_head = 0, req_tail = nat n mod BUF_SIZE, req_count = n,
      hdc = \<lparr>hd_in = (\<lambda>_ n. if even n then STATUS_READY else STATUS_DTRQ), hd_nin = (\<lambda>_. 0), hd_word = of_nat,
        hd_nword = 0, hd_out = []\<rparr>\<rparr>"

lemma hd_state_sel [simp]:
  "reqs_ok (hd_state (replicate BUF_SIZE r) 0 k)" "reqs (hd_state rs 0 k) = []"
  "reqs_ok (hd_state (r # replicate 4 r') 1 k)" "reqs (hd_state (r # rs) 1 k) = [r]"
  "wini (hd_state rs n k) ! 0 = hd_drive" "next_words (hd_state rs n k) j = map of_nat [0..<j]"
  "ready_rep (hd_state rs n k) L = ready_rep k L" "current (hd_state rs n k) = current k"
  "wait_links (hd_state rs n k) = wait_links k" "expired (hd_state rs n k) = expired k"
  by (simp_all add: hd_state_def kcpu.extend_def device_extend reqs_ok_def reqs_def BUF_SIZE_def
      ready_rep_def next_of_def expired_def next_words_def)

lemma hd_state_ready: "hd_ready (hd_state rs n k)"
  unfolding hd_ready_def
proof (intro conjI allI)
  fix i
  show "\<exists>n'. hd_in (hdc (hd_state rs n k)) (ucast (REG_BASE0 + REG_STATUS)) (i + n')
      AND (STATUS_BUSY OR STATUS_READY OR STATUS_ERR) = STATUS_READY"
    by (intro exI [of _ i])
      (simp add: hd_state_def kcpu.extend_def device_extend STATUS_BUSY_def STATUS_READY_def STATUS_ERR_def)
next
  show "cons_ok (hd_state rs n k)"
    using last_cell_ok(1) by (simp add: hd_state_def kcpu.extend_def device_extend cons_ok_def)
qed (simp_all add: hd_state_def kcpu.extend_def device_extend drive_ok_def hd_drive_def)

theorem do_read_queues_witness:
  "\<exists>s'. do_read (replicate 100 0) no_symbols 0 0x5000 512 77 (hd_state (replicate BUF_SIZE (read_request 0 0 0 0)) 0 two_ready) = Some (Inr (None, s'))
     \<and> issued s' (read_request 0x5000 512 77 1) \<and> ready_rep s' [2]"
proof -
  let ?s = "hd_state (replicate BUF_SIZE (read_request 0 0 0 0)) 0 two_ready"
  have two: "current two_ready = 1" "\<not> expired two_ready"
    by (simp_all add: two_ready_def boot_state_def expired_def zero_proc_def)
  have cur: "current ?s = 1" "\<not> expired ?s" "reqs ?s = []" using two by simp_all
  have "ready_rep ?s [1, 2]" "current ?s \<in> set [1, 2]" "ring (wait_links ?s) Hd_wait []" "Waiter (current ?s) \<notin> set [Hd_wait]"
    using two_ready_rep by (simp_all add: two_ready_def boot_state_def ring_empty)
  from do_read_queues [OF hd_state_sel(1) hd_state_ready _ this, where stk = "replicate 100 0" and sy = no_symbols and drv = 0 and buf = "0x5000" and sz = 512 and block = 77]
  show ?thesis using two unfolding cur by (auto simp: cur policy_def BUF_SIZE_def STACK_SIZE_def)
qed

theorem hd_handlerp_serves_witness:
  "\<exists>s'. hd_handlerp (replicate 100 0) 14 (hd_state (read_request 0x5000 512 77 1 # replicate 4 (read_request 0 0 0 0)) 1 boot_state) = Some (Inr (1, s'))
     \<and> ready_rep s' [1] \<and> ram s' 0x5002 = 1"
proof -
  let ?r = "read_request 0x5000 512 77 1"
  let ?s = "hd_state (?r # replicate 4 (read_request 0 0 0 0)) 1 boot_state"
  have r: "rq_waiter ?r = 1" "rq_buf ?r = 0x5000" "rq_count ?r = 1" "rq_dev ?r = 0" "rq_type ?r = READ"
    by (simp_all add: read_request_def)
  have "status_at hd_drive ?s 1 = STATUS_DTRQ"
    by (simp add: status_at_def hd_state_def kcpu.extend_def device_extend)
  then have data: "\<exists>n < 1000. wants_data (status_at (wini ?s ! 0) ?s n)"
    by (intro exI [of _ 1]) (simp add: wants_data_def STATUS_DTRQ_def STATUS_BUSY_def)
  have "user_task 1" by (simp add: user_task_def IDLE_TASK_def NR_TASK_def)
  then obtain s' where s': "hd_handlerp (replicate 100 0) 14 ?s = Some (Inr (1, s'))" "ready_rep s' [1]"
    "block_at (ram s') 0x5000 512 = words_bytes (map of_nat [0..<256])"
  proof -
    have h: "reqs_ok ?s" "hd_ready ?s" "reqs ?s = [?r]" "ready_rep ?s []"
      using hd_state_sel(3,4) hd_state_ready boot_rep by simp_all
    have "list_all (\<lambda>r. rq_dev r = 0 \<and> rq_type r = READ) (reqs ?s)" "user_task (rq_waiter ?r)" "rq_waiter ?r \<notin> set []"
      "buffer_ok ?r"
      "length (replicate 100 (0 :: u8)) = STACK_SIZE"
      using h(3) r by (simp_all add: user_task_def IDLE_TASK_def NR_TASK_def unat_screen_base STACK_SIZE_def buffer_ok_def)
    from hd_handlerp_serves [OF h(1,2) this(5) h(3) this(1) h(4) this(2-4), of 14]
    show ?thesis using that unfolding if_P [OF data] r by auto
  qed
  have "ram s' 0x5002 = block_at (ram s') 0x5000 512 ! 2" by (simp add: block_at_def)
  also have "words_bytes (map of_nat [0..<256]) ! 2 = 1" by (simp add: upt_conv_Cons [of 0] upt_conv_Cons [of "Suc 0"] numeral_2_eq_2)
  then have "block_at (ram s') 0x5000 512 ! 2 = 1" unfolding s'(3) .
  finally show ?thesis using s'(1,2) by blast
qed

end
