(* ===== verification/Fs.thy ===== *)
theory Fs
  imports Hd "HOL-Library.Signed_Division"
begin

text \<open>
  The FAT file system, read only: \<^verbatim>\<open>fs/block.c\<close>, \<^verbatim>\<open>fs/filedes.c\<close>, \<^verbatim>\<open>fs/inode.c\<close> and \<^verbatim>\<open>fs/read.c\<close>, with
  the structures of \<^verbatim>\<open>include/fs.h\<close> on the disk. The calls block in \<open>bread\<close> and \<open>sleep_on\<close>; here an
  argument \<open>rdb\<close> stands for \<open>bread\<close> from its call to its return, with what the other processes and the
  interrupts did in between, and \<open>slp\<close> for \<open>sleep_on\<close>.
\<close>

type_synonym 's reader = "u32 \<Rightarrow> u32 \<Rightarrow> u32 \<Rightarrow> 's \<Rightarrow> (int \<times> 's) exec"
type_synonym 's sleeper = "lnode \<Rightarrow> 's \<Rightarrow> 's exec"

definition NR_SUPER :: nat where "NR_SUPER = 2"
definition FILP_NR :: nat where "FILP_NR = 8"
definition INODE_NR :: nat where "INODE_NR = 20"

record kfs = khd +
  inodes :: "inode list"
  inode_pool :: slots
  filps :: "filp list"
  filp_pool :: slots

text \<open>Loops that end on a condition of the state, as least fixed points.\<close>

lemma exec_bind_mono [partial_function_mono]:
  fixes B :: "('a \<Rightarrow> 'b option) \<Rightarrow> 'c exec" and C :: "'c \<Rightarrow> ('a \<Rightarrow> 'b option) \<Rightarrow> 'd exec"
  assumes B: "mono_option B" and C: "\<And>y. mono_option (C y)"
  shows "mono_option (\<lambda>f. exec_bind (B f) (\<lambda>y. C y f))"
proof (rule monotoneI)
  fix f g :: "'a \<Rightarrow> 'b option"
  assume fg: "fun_ord option_ord f g"
  have "option_ord (B f) (B g)" using B fg by (rule monotoneD [of _ _ _ f g])
  moreover have "option_ord (C y f) (C y g)" for y using C fg by (rule monotoneD [of _ _ _ f g])
  ultimately show "option_ord (exec_bind (B f) (\<lambda>y. C y f)) (exec_bind (B g) (\<lambda>y. C y g))"
    unfolding flat_ord_def exec_bind_def by (cases "B g"; cases "the (B g)"; auto; metis)
qed

section \<open>Blocks\<close>

text \<open>Storing a double word, low byte first.\<close>

definition put_u32 :: "u32 \<Rightarrow> u32 \<Rightarrow> memory \<Rightarrow> memory" where
  "put_u32 a v m = m(a := ucast v, a + 1 := ucast (drop_bit 8 v), a + 2 := ucast (drop_bit 16 v), a + 3 := ucast (drop_bit 24 v))"

text \<open>
  \<^verbatim>\<open>struct buf\<close> is one pointer, at the address that \<open>get_block\<close> returns. The first \<open>kmalloc\<close> is checked
  only after its result has been used.
\<close>

definition get_block :: "u8 list \<Rightarrow> 'a kfs_scheme reader \<Rightarrow> u32 \<Rightarrow> u32 \<Rightarrow> 'a kfs_scheme \<Rightarrow> (u32 \<times> 'a kfs_scheme) exec" where
  "get_block stk rdb block sz s =
     exec_bind (Some (kmalloc 4 s)) (\<lambda>(bp, s1).
     exec_bind (Some (kmalloc sz s1)) (\<lambda>(data, s2).
     if bp = 0 then Some (Inl Null_deref)
     else
       let s3 = s2\<lparr>ram := put_u32 bp data (ram s2)\<rparr> in
       exec_bind (rdb (u32_at (ram s3) bp) sz block s3) (\<lambda>(r, s4).
       if r = - 1 then exec_bind (Some (panic stk ''bread Error'' s4)) (\<lambda>s5. Some (Inr (bp, s5)))
       else Some (Inr (bp, s4)))))"

definition buf_data :: "u32 \<Rightarrow> 'a kfs_scheme \<Rightarrow> u32" where
  "buf_data bp s = u32_at (ram s) bp"

definition put_block :: "u32 \<Rightarrow> 'a kfs_scheme \<Rightarrow> 'a kfs_scheme res" where
  "put_block bp s = res_bind (kfree (buf_data bp s) s) (kfree bp)"

section \<open>Open files and inodes\<close>

definition filp_init :: "'a kfs_scheme \<Rightarrow> 'a kfs_scheme" where
  "filp_init s = s\<lparr>filp_pool := init_slot FILP_NR (filp_pool s)\<rparr>"

definition get_filp :: "'a kfs_scheme \<Rightarrow> nat option \<times> 'a kfs_scheme" where
  "get_filp s = (let (f, p) = alloc_slot (filp_pool s) in (f, s\<lparr>filp_pool := p\<rparr>))"

definition put_filp :: "nat \<Rightarrow> 'a kfs_scheme \<Rightarrow> 'a kfs_scheme" where
  "put_filp i s = s\<lparr>filp_pool := free_slot i (filp_pool s)\<rparr>"

definition inode_init :: "'a kfs_scheme \<Rightarrow> 'a kfs_scheme" where
  "inode_init s = s\<lparr>inode_pool := init_slot INODE_NR (inode_pool s)\<rparr>"

definition get_inode :: "'a kfs_scheme \<Rightarrow> nat option \<times> 'a kfs_scheme" where
  "get_inode s = (let (f, p) = alloc_slot (inode_pool s) in (f, s\<lparr>inode_pool := p\<rparr>))"

definition put_inode :: "nat \<Rightarrow> 'a kfs_scheme \<Rightarrow> 'a kfs_scheme" where
  "put_inode i s = s\<lparr>inode_pool := free_slot i (inode_pool s)\<rparr>"

text \<open>The super block that an inode points to.\<close>

definition sb_of :: "nat \<Rightarrow> 'a kfs_scheme \<Rightarrow> super_block res" where
  "sb_of ip s = res_bind (rd (inodes s) ip) (\<lambda>n.
     case i_sb n of None \<Rightarrow> Inl Null_deref | Some k \<Rightarrow> rd (super_block s) k)"

section \<open>The file allocation table\<close>

text \<open>The cluster number is an int: \<^verbatim>\<open>n/2\<close> is a signed division.\<close>

definition FAToffset :: "super_block \<Rightarrow> u32 \<Rightarrow> u32" where
  "FAToffset bd n =
     (if sb_type bd = 1 then n + of_int (sint n sdiv 2)
      else if sb_type bd = 2 then n * 2
      else n * 4)"

definition eeof :: "super_block \<Rightarrow> u32 \<Rightarrow> bool" where
  "eeof bd val =
     (if sb_type bd = 1 then 0x0FF8 \<le> sint val
      else if sb_type bd = 2 then 0x0FFF8 \<le> sint val
      else 0x0FFFFFF8 \<le> sint val)"

text \<open>The entry of cluster \<open>n\<close> in table bytes that start with its own first byte.\<close>

definition fat_value :: "super_block \<Rightarrow> u32 \<Rightarrow> memory \<Rightarrow> u32 \<Rightarrow> u32" where
  "fat_value bd n m a =
     (if sb_type bd = 1 then
        let val = ucast (u16_at m a) in if n AND 1 \<noteq> 0 then drop_bit 4 val else val AND 0xFFF
      else if sb_type bd = 2 then ucast (u16_at m a)
      else u32_at m a AND 0x0FFFFFFF)"

definition FATEntryVal ::
    "u8 list \<Rightarrow> 'a kfs_scheme reader \<Rightarrow> super_block \<Rightarrow> u32 \<Rightarrow> 'a kfs_scheme \<Rightarrow> (u32 \<times> 'a kfs_scheme) exec" where
  "FATEntryVal stk rdb bd cluster s =
     (let offset = FAToffset bd cluster in
      if sb_sector_size bd = 0 then Some (Inl Div_by_zero)
      else
        let sector = sb_resvdseccnt bd + offset div sb_sector_size bd + sb_base bd in
        exec_bind (get_block stk rdb sector 1024 s) (\<lambda>(secbuf, s1).
        if secbuf = 0 then exec_bind (Some (printk stk (bytes ''no kernel space'' @ [10, 0]) [] s1)) (\<lambda>s2. Some (Inr (0, s2)))
        else
          let offset1 = offset mod sb_sector_size bd;
              val = fat_value bd cluster (ram s1) (buf_data secbuf s1 + offset1)
          in exec_bind (Some (put_block secbuf s1)) (\<lambda>s2. Some (Inr (val, s2)))))"

text \<open>
  The loop of \<open>read_map\<close>: the clusters of the file go into the ten elements of \<open>block\<close>, until the chain
  or the count ends.
\<close>

function read_map_loop ::
    "u8 list \<Rightarrow> 'a kfs_scheme reader \<Rightarrow> nat \<Rightarrow> nat \<Rightarrow> u32 \<Rightarrow> int \<Rightarrow> 'a kfs_scheme \<Rightarrow> 'a kfs_scheme exec" where
  "read_map_loop stk rdb ip i index count s =
     exec_bind (Some (rd (inodes s) ip)) (\<lambda>n.
     exec_bind (Some (wr (i_block n) i index)) (\<lambda>bl.
     let s1 = s\<lparr>inodes := (inodes s)[ip := n\<lparr>i_block := bl\<rparr>]\<rparr> in
     exec_bind (Some (sb_of ip s1)) (\<lambda>sb.
     exec_bind (FATEntryVal stk rdb sb index s1) (\<lambda>(index1, s2).
     exec_bind (Some (printk stk (bytes ''file index:%d'' @ [10, 0]) [Va_word index1] s2)) (\<lambda>s3.
     exec_bind (Some (sb_of ip s3)) (\<lambda>sb3.
     if \<not> eeof sb3 index1 \<and> 0 < count then read_map_loop stk rdb ip (i + 1) index1 (count - 1) s3
     else Some (Inr s3)))))))"
  by pat_completeness auto
termination
  by (relation "measure (\<lambda>(stk, rdb, ip, i, index, count, s). nat count)") auto

declare read_map_loop.simps [simp del]

definition read_map :: "u8 list \<Rightarrow> 'a kfs_scheme reader \<Rightarrow> nat \<Rightarrow> 'a kfs_scheme \<Rightarrow> 'a kfs_scheme exec" where
  "read_map stk rdb ip s =
     exec_bind (Some (rd (inodes s) ip)) (\<lambda>n.
     exec_bind (Some (sb_of ip s)) (\<lambda>sb.
     exec_bind (Some (do_cdiv (i_size n) (sb_cluster_size sb * sb_sector_size sb))) (\<lambda>count.
     exec_bind (Some (printk stk (bytes ''file count:%d'' @ [10, 0]) [Va_word count] s)) (\<lambda>s1.
     exec_bind (Some (rd (i_block n) 0)) (\<lambda>index.
     read_map_loop stk rdb ip 0 index (sint count) s1)))))"

section \<open>Reading\<close>

definition FstSecofDataClu :: "super_block \<Rightarrow> u32 \<Rightarrow> u32" where
  "FstSecofDataClu bd n = (n - 2) * sb_cluster_size bd + sb_data_first_sec bd"

text \<open>The result is the buffer pointer, advanced when the cluster was read.\<close>

definition ClusterRead ::
    "u8 list \<Rightarrow> 'a kfs_scheme reader \<Rightarrow> u32 \<Rightarrow> nat \<Rightarrow> u32 \<Rightarrow> u32 \<Rightarrow> u32 \<Rightarrow> 'a kfs_scheme \<Rightarrow> (u32 \<times> 'a kfs_scheme) exec" where
  "ClusterRead stk rdb buf ino nr offset sz s =
     (if 10 < sint nr \<or> sint nr < 0 then
        exec_bind (Some (printk stk (bytes ''invalid cluster number%d'' @ [10, 0]) [Va_word nr] s)) (\<lambda>s1. Some (Inr (buf, s1)))
      else
        exec_bind (Some (rd (inodes s) ino)) (\<lambda>n.
        exec_bind (Some (sb_of ino s)) (\<lambda>sb.
        exec_bind (Some (rd (i_block n) (unat nr))) (\<lambda>clu.
        let sec = FstSecofDataClu sb clu;
            clusz = sb_sector_size sb * sb_cluster_size sb
        in
        exec_bind (get_block stk rdb sec clusz s) (\<lambda>(bf, s1).
        if bf = 0 then Some (Inr (buf, s1))
        else
          let s2 = s1\<lparr>ram := memcpy (buf_data bf s1 + offset) buf sz (ram s1)\<rparr>
          in exec_bind (Some (put_block bf s2)) (\<lambda>s3. Some (Inr (buf + sz, s3))))))))"

definition filp_inode :: "nat \<Rightarrow> 'a kfs_scheme \<Rightarrow> (nat \<times> inode) res" where
  "filp_inode f s = res_bind (rd (filps s) f) (\<lambda>fl.
     case f_ino fl of None \<Rightarrow> Inl Null_deref | Some ip \<Rightarrow> res_bind (rd (inodes s) ip) (\<lambda>n. Inr (ip, n)))"

definition eofile :: "nat \<Rightarrow> 'a kfs_scheme \<Rightarrow> int res" where
  "eofile f s = res_bind (filp_inode f s) (\<lambda>(ip, n). res_bind (rd (filps s) f) (\<lambda>fl.
     Inr (if i_size n \<le> f_pos fl then 1 else 0)))"

text \<open>
  The valid bytes of the cluster that the position is in, and what is read of them. All but the
  position are ints, so that their divisions and comparisons are signed.
\<close>

definition valid_size :: "u32 \<Rightarrow> u32 \<Rightarrow> u32 \<Rightarrow> u32 \<Rightarrow> u32" where
  "valid_size Clusz filesz pos left =
     (let Clu = pos div Clusz;
          offset = pos mod Clusz;
          v = (if sint Clu = sint filesz sdiv sint Clusz \<and> sint filesz smod sint Clusz \<noteq> 0
               then of_int (sint filesz smod sint Clusz) else Clusz);
          valid = v - offset
      in if sint left < sint valid then left else valid)"

partial_function (option) filp_read_loop ::
    "u8 list \<Rightarrow> 'a kfs_scheme reader \<Rightarrow> u32 \<Rightarrow> u32 \<Rightarrow> u32 \<Rightarrow> u32 \<Rightarrow> nat \<Rightarrow> 'a kfs_scheme \<Rightarrow> 'a kfs_scheme exec" where
  "filp_read_loop stk rdb Clusz filesz buf left f s =
     exec_bind (Some (rd (filps s) f)) (\<lambda>fl.
     if 0 < sint left \<and> f_pos fl < filesz then
       if Clusz = 0 then Some (Inl Div_by_zero)
       else
         let valid = valid_size Clusz filesz (f_pos fl) left in
         exec_bind (Some (filp_inode f s)) (\<lambda>(ip, n).
         exec_bind (ClusterRead stk rdb buf ip (f_pos fl div Clusz) (f_pos fl mod Clusz) valid s) (\<lambda>(buf1, s1).
         exec_bind (Some (rd (filps s1) f)) (\<lambda>fl1.
         filp_read_loop stk rdb Clusz filesz buf1 (left - valid) f
           (s1\<lparr>filps := (filps s1)[f := fl1\<lparr>f_pos := f_pos fl1 + valid\<rparr>]\<rparr>))))
     else Some (Inr s))"

definition filp_read ::
    "u8 list \<Rightarrow> 'a kfs_scheme reader \<Rightarrow> u32 \<Rightarrow> u32 \<Rightarrow> nat \<Rightarrow> 'a kfs_scheme \<Rightarrow> (u32 \<times> 'a kfs_scheme) exec" where
  "filp_read stk rdb buf sz f s =
     exec_bind (Some (filp_inode f s)) (\<lambda>(ip, n).
     exec_bind (Some (rd (filps s) f)) (\<lambda>fl.
     exec_bind (Some (sb_of ip s)) (\<lambda>sb.
     exec_bind (filp_read_loop stk rdb (sb_cluster_size sb * sb_sector_size sb) (i_size n) buf sz f s) (\<lambda>s1.
     exec_bind (Some (rd (filps s1) f)) (\<lambda>fl1.
     Some (Inr (f_pos fl1 - f_pos fl, s1)))))))"

text \<open>An element of the descriptor table of the current process; the number is an int.\<close>

definition fd_entry :: "u32 \<Rightarrow> 'a kfs_scheme \<Rightarrow> nat option res" where
  "fd_entry fp s = (if sint fp < 0 then Inl Out_of_bounds else rd (fd_array (files (procs s (current s)))) (unat fp))"

definition sys_feof :: "u32 \<Rightarrow> 'a kfs_scheme \<Rightarrow> int res" where
  "sys_feof fp s = res_bind (fd_entry fp s) (\<lambda>f. case f of None \<Rightarrow> Inr 0 | Some i \<Rightarrow> eofile i s)"

text \<open>\<open>sys_read\<close> maps the user's buffer and then reads to the address that it was given.\<close>

definition sys_read ::
    "u8 list \<Rightarrow> 'a kfs_scheme reader \<Rightarrow> u32 \<Rightarrow> u32 \<Rightarrow> u32 \<Rightarrow> u32 \<Rightarrow> 'a kfs_scheme \<Rightarrow> (int \<times> 'a kfs_scheme) exec" where
  "sys_read stk rdb buf sz count fp s =
     (let kbuf = umap (procs s (current s)) buf in
      if kbuf = 0 then Some (Inr (0, s))
      else exec_bind (Some (fd_entry fp s)) (\<lambda>f.
        case f of None \<Rightarrow> Some (Inr (0, s))
        | Some i \<Rightarrow> exec_bind (filp_read stk rdb buf (sz * count) i s) (\<lambda>(n, s1).
            if sz = 0 then Some (Inl Div_by_zero) else Some (Inr (sint n sdiv sint sz, s1)))))"

end
