(* ===== verification/Fs_Mount.thy ===== *)
theory Fs_Mount
  imports Fs
begin

text \<open>
  Finding and mounting the file system: the partition table (\<^verbatim>\<open>ker/partition.c\<close>) and the super blocks
  (\<^verbatim>\<open>fs/super.c\<close>).
\<close>

section \<open>The partition table\<close>

definition NO_PART :: u8 where "NO_PART = 0x00"
definition FAT12_PART :: u8 where "FAT12_PART = 0x06"
definition FAT32_PART :: u8 where "FAT32_PART = 0x0B"

definition partition_at :: "memory \<Rightarrow> u32 \<Rightarrow> partition_entry" where
  "partition_at m a = \<lparr>bootind = m a, start_head = m (a + 1), start_sec = m (a + 2), start_cyl = m (a + 3),
     sysind = m (a + 4), last_head = m (a + 5), last_sec = m (a + 6), last_cyl = m (a + 7),
     first_log = u32_at m (a + 8), part_size = u32_at m (a + 12)\<rparr>"

text \<open>\<open>boot\<close> is the address of the array on the stack, \<open>d\<close> the drive whose table is filled.\<close>

definition get_part_table :: "'a kfs_scheme reader \<Rightarrow> u32 \<Rightarrow> nat \<Rightarrow> 'a kfs_scheme \<Rightarrow> (int \<times> 'a kfs_scheme) exec" where
  "get_part_table rdb boot d s =
     exec_bind (rdb boot 512 0 s) (\<lambda>(r, s1).
     if ram s1 (boot + 510) \<noteq> 0x55 \<or> ram s1 (boot + 511) \<noteq> 0xaa then Some (Inr (0, s1))
     else
       let tab = map (\<lambda>i. partition_at (ram s1) (boot + 0x1be + 16 * of_nat i)) [0..<4] in
       exec_bind (Some (rd (wini s1) d)) (\<lambda>wn. Some (Inr (1, s1\<lparr>wini := (wini s1)[d := wn\<lparr>part_table := tab\<rparr>]\<rparr>))))"

fun show_partitions :: "u8 list \<Rightarrow> nat \<Rightarrow> partition_entry list \<Rightarrow> 'a kfs_scheme \<Rightarrow> 'a kfs_scheme res" where
  "show_partitions stk i [] s = Inr s"
| "show_partitions stk i (tap # tab) s =
     res_bind
       (if sysind tap \<noteq> NO_PART then
          printk stk (bytes ''<hda%d%c[%d-%d]>'' @ [10, 0])
            [Va_word (of_nat i), Va_word (if bootind tap = 0x80 then 42 else 32), Va_word (first_log tap),
             Va_word (first_log tap + part_size tap - 1)] s
        else Inr s)
       (show_partitions stk (i + 1) tab)"

definition partition_check :: "u8 list \<Rightarrow> 'a kfs_scheme reader \<Rightarrow> u32 \<Rightarrow> nat \<Rightarrow> 'a kfs_scheme \<Rightarrow> 'a kfs_scheme exec" where
  "partition_check stk rdb boot d s =
     exec_bind (get_part_table rdb boot d s) (\<lambda>(r, s1).
     if r = 0 then Some (Inr s1)
     else
       exec_bind (Some (printk stk (bytes ''Partition:'' @ [10, 0]) [] s1)) (\<lambda>s2.
       exec_bind (Some (rd (wini s2) d)) (\<lambda>wn.
       exec_bind (Some (show_partitions stk 0 (part_table wn) s2)) (\<lambda>s3.
       exec_bind (Some (rd (part_table wn) 0)) (\<lambda>p0.
       if sysind p0 \<noteq> FAT12_PART \<and> sysind p0 \<noteq> FAT32_PART then
         Some (printk stk (bytes ''file system(0x%x) not supported'' @ [10, 0]) [Va_word (ucast (sysind p0))] s3)
       else Some (Inr s3))))))"

section \<open>Super blocks\<close>

definition super_cache_init :: "'a kfs_scheme \<Rightarrow> 'a kfs_scheme" where
  "super_cache_init s = fold (\<lambda>k. INIT_WAIT_QUEUE_HEAD (Super_wait k)) [0..<NR_SUPER] s"

definition upd_super :: "nat \<Rightarrow> (super_block \<Rightarrow> super_block) \<Rightarrow> 'a kfs_scheme \<Rightarrow> 'a kfs_scheme res" where
  "upd_super k f s = res_bind (rd (super_block s) k) (\<lambda>sb. Inr (s\<lparr>super_block := (super_block s)[k := f sb]\<rparr>))"

text \<open>\<^verbatim>\<open>while(sb->lock)sleep_on(&(sb->wait))\<close>.\<close>

partial_function (option) super_wait_loop :: "'a kfs_scheme sleeper \<Rightarrow> nat \<Rightarrow> 'a kfs_scheme \<Rightarrow> 'a kfs_scheme exec" where
  "super_wait_loop slp k s =
     exec_bind (Some (rd (super_block s) k)) (\<lambda>sb.
     if sb_lock sb \<noteq> 0 then exec_bind (slp (Super_wait k) s) (\<lambda>s1. super_wait_loop slp k s1)
     else Some (Inr s))"

definition wait_on_super :: "'a kfs_scheme sleeper \<Rightarrow> nat \<Rightarrow> 'a kfs_scheme \<Rightarrow> 'a kfs_scheme exec" where
  "wait_on_super slp k s =
     (let (fl, s1) = lock_irq_save s in
      exec_bind (super_wait_loop slp k s1) (\<lambda>s2. Some (Inr (unlock_irq_restore fl s2))))"

definition lock_super :: "'a kfs_scheme sleeper \<Rightarrow> nat \<Rightarrow> 'a kfs_scheme \<Rightarrow> 'a kfs_scheme exec" where
  "lock_super slp k s =
     (let (fl, s1) = lock_irq_save s in
      exec_bind (super_wait_loop slp k s1) (\<lambda>s2.
      exec_bind (Some (upd_super k (sb_lock_update (\<lambda>_. 1)) s2)) (\<lambda>s3. Some (Inr (unlock_irq_restore fl s3)))))"

definition unlock_super :: "nat \<Rightarrow> 'a kfs_scheme \<Rightarrow> 'a kfs_scheme exec" where
  "unlock_super k s =
     (let (fl, s1) = lock_irq_save s in
      exec_bind (Some (upd_super k (sb_lock_update (\<lambda>_. 0)) s1)) (\<lambda>s2.
      exec_bind (wake_up (Some (Super_wait k)) s2) (\<lambda>s3. Some (Inr (unlock_irq_restore fl s3)))))"

text \<open>The loop does not advance its pointer.\<close>

partial_function (option) get_empty_loop :: "nat \<Rightarrow> 'a kfs_scheme \<Rightarrow> nat option exec" where
  "get_empty_loop k s =
     (if k < NR_SUPER then
        exec_bind (Some (rd (super_block s) k)) (\<lambda>sb. if sb_dev sb = 0 then Some (Inr (Some k)) else get_empty_loop k s)
      else Some (Inr None))"

definition get_empty_super :: "'a kfs_scheme \<Rightarrow> nat option exec" where
  "get_empty_super s = get_empty_loop 0 s"

partial_function (option) get_super_loop ::
    "'a kfs_scheme sleeper \<Rightarrow> int \<Rightarrow> nat \<Rightarrow> 'a kfs_scheme \<Rightarrow> (nat option \<times> 'a kfs_scheme) exec" where
  "get_super_loop slp dev k s =
     (if k < NR_SUPER then
        exec_bind (Some (rd (super_block s) k)) (\<lambda>sb.
        if sb_dev sb = dev then
          exec_bind (wait_on_super slp k s) (\<lambda>s1.
          exec_bind (Some (rd (super_block s1) k)) (\<lambda>sb1.
          if sb_dev sb1 = dev then Some (Inr (Some k, s1)) else get_super_loop slp dev 0 s1))
        else get_super_loop slp dev (k + 1) s)
      else Some (Inr (None, s)))"

definition get_super ::
    "u8 list \<Rightarrow> 'a kfs_scheme sleeper \<Rightarrow> int \<Rightarrow> 'a kfs_scheme \<Rightarrow> (nat option \<times> 'a kfs_scheme) exec" where
  "get_super stk slp dev s =
     (if dev = 0 then Some (Inr (None, s))
      else exec_bind (Some (printk stk (bytes ''look for super'' @ [10, 0]) [] s)) (get_super_loop slp dev 0))"

definition put_super :: "'a kfs_scheme sleeper \<Rightarrow> nat \<Rightarrow> 'a kfs_scheme \<Rightarrow> 'a kfs_scheme exec" where
  "put_super slp k s =
     exec_bind (lock_super slp k s) (\<lambda>s1.
     exec_bind (Some (upd_super k (sb_dev_update (\<lambda>_. 0)) s1)) (unlock_super k))"

text \<open>\<^verbatim>\<open>struct boot_sector\<close>, the fields that the driver reads, at their offsets.\<close>

record boot_sector =
  bs_sector_size :: u16
  bs_cluster_size :: u8
  bs_reserved :: u16
  bs_fat_number :: u8
  bs_dir_number :: u16
  bs_totsec16 :: u16
  bs_fatsz16 :: u16
  bs_sectorspertrack :: u16
  bs_heads :: u16
  bs_hidden :: u32
  bs_totsec32 :: u32
  bs_fatsz32 :: u32
  bs_rootclus :: u32

definition boot_sector_at :: "memory \<Rightarrow> u32 \<Rightarrow> boot_sector" where
  "boot_sector_at m a = \<lparr>bs_sector_size = u16_at m (a + 11), bs_cluster_size = m (a + 13), bs_reserved = u16_at m (a + 14),
     bs_fat_number = m (a + 16), bs_dir_number = u16_at m (a + 17), bs_totsec16 = u16_at m (a + 19),
     bs_fatsz16 = u16_at m (a + 22), bs_sectorspertrack = u16_at m (a + 24), bs_heads = u16_at m (a + 26),
     bs_hidden = u32_at m (a + 28), bs_totsec32 = u32_at m (a + 32), bs_fatsz32 = u32_at m (a + 36),
     bs_rootclus = u32_at m (a + 44)\<rparr>"

text \<open>
  The fields of the super block that are computed from the boot sector, with those that \<open>read_super\<close>
  copies; \<open>bs->cluster_size\<close> is not zero here.
\<close>

definition fat_super :: "boot_sector \<Rightarrow> super_block \<Rightarrow> super_block" where
  "fat_super bs bd =
     (let rootentcnt = ucast (bs_dir_number bs);
          bytspersec = ucast (bs_sector_size bs);
          rootdirsectors = (rootentcnt * 32 + (bytspersec - 1)) div bytspersec;
          fatsz = (if bs_fatsz16 bs \<noteq> 0 then ucast (bs_fatsz16 bs) else bs_fatsz32 bs);
          fats = ucast (bs_reserved bs) + ucast (bs_fat_number bs) * fatsz;
          bd1 = bd\<lparr>sb_dev := 1, sb_data_first_sec := sb_base bd + fats + rootdirsectors,
                  sb_cluster_size := ucast (bs_cluster_size bs)\<rparr>;
          totsec = (if bs_totsec16 bs \<noteq> 0 then ucast (bs_totsec16 bs) else bs_totsec32 bs);
          datasec = totsec - (fats + rootdirsectors);
          countofclusters = datasec div ucast (bs_cluster_size bs);
          bd2 = (if countofclusters < 4085 then bd1\<lparr>sb_type := 1, sb_dir_first_sec := sb_base bd1 + fats\<rparr>
                 else if countofclusters < 65525 then bd1\<lparr>sb_type := 2, sb_dir_first_sec := sb_base bd1 + fats\<rparr>
                 else bd1\<lparr>sb_type := 3, sb_dir_first_sec := FstSecofDataClu bd1 (bs_rootclus bs)\<rparr>)
      in bd2\<lparr>sb_resvdseccnt := ucast (bs_reserved bs), sb_sector_size := bytspersec,
             sb_fat_number := ucast (bs_fat_number bs), sb_dir_number := rootentcnt, sb_sector_number := totsec,
             sb_sectorsperfat := fatsz, sb_sectorspertrack := ucast (bs_sectorspertrack bs),
             sb_heads := ucast (bs_heads bs), sb_hidden := bs_hidden bs\<rparr>)"

definition fat_t :: "u32 list" where "fat_t = [12, 16, 32]"

definition read_super ::
    "u8 list \<Rightarrow> 'a kfs_scheme reader \<Rightarrow> 'a kfs_scheme sleeper \<Rightarrow> int \<Rightarrow> nat \<Rightarrow> 'a kfs_scheme
      \<Rightarrow> (nat option \<times> 'a kfs_scheme) exec" where
  "read_super stk rdb slp dev d s =
     exec_bind (get_super stk slp dev s) (\<lambda>(r, s1).
     case r of Some k \<Rightarrow> Some (Inr (Some k, s1))
     | None \<Rightarrow>
       exec_bind (get_empty_super s1) (\<lambda>e.
       case e of None \<Rightarrow> Some (Inr (None, s1))
       | Some k \<Rightarrow>
         exec_bind (Some (rd (wini s1) d)) (\<lambda>wn.
         exec_bind (Some (rd (part_table wn) 0)) (\<lambda>p0.
         exec_bind (Some (upd_super k (sb_base_update (\<lambda>_. first_log p0)) s1)) (\<lambda>s2.
         exec_bind (get_block stk rdb (first_log p0) 512 s2) (\<lambda>(bp, s3).
         exec_bind (if bp = 0 then Some (panic stk ''cannot read block'' s3) else Some (Inr s3)) (\<lambda>s4.
         let bs = boot_sector_at (ram s4) (buf_data bp s4) in
         exec_bind (if bs_sector_size bs \<noteq> 512 then Some (panic stk (''Error Sector size'' @ [CHR 0x0A]) s4) else Some (Inr s4)) (\<lambda>s5.
         exec_bind (lock_super slp k s5) (\<lambda>s6.
         if bs_cluster_size bs = 0 then Some (Inl Div_by_zero)
         else
           exec_bind (Some (upd_super k (fat_super bs) s6)) (\<lambda>s7.
           exec_bind (Some (rd (super_block s7) k)) (\<lambda>bd.
           exec_bind (Some (rd fat_t (unat (sb_type bd - 1)))) (\<lambda>ft.
           exec_bind (Some (printk stk (bytes ''File System:Fat%d'' @ [10, 0]) [Va_word ft] s7)) (\<lambda>s8.
           exec_bind (unlock_super k s8) (\<lambda>s9.
           exec_bind (Some (put_block bp s9)) (\<lambda>s10. Some (Inr (Some k, s10)))))))))))))))))"

definition mount_fs ::
    "u8 list \<Rightarrow> 'a kfs_scheme reader \<Rightarrow> 'a kfs_scheme sleeper \<Rightarrow> nat \<Rightarrow> 'a kfs_scheme \<Rightarrow> 'a kfs_scheme exec" where
  "mount_fs stk rdb slp d s =
     exec_bind (read_super stk rdb slp 1 d (super_cache_init s)) (\<lambda>(r, s1).
     case r of None \<Rightarrow> Some (panic stk ''cannot get super'' s1)
     | Some k \<Rightarrow>
       let (rip, s2) = get_inode s1 in
       exec_bind (lock_super slp k s2) (\<lambda>s3.
       exec_bind (Some (upd_super k (sb_rootdir_update (\<lambda>_. rip)) s3)) (\<lambda>s4.
       exec_bind (unlock_super k s4) (\<lambda>s5.
       case rip of None \<Rightarrow> Some (Inl Null_deref)
       | Some ip \<Rightarrow>
         exec_bind (Some (rd (inodes s5) ip)) (\<lambda>n.
         exec_bind (Some (rd (super_block s5) k)) (\<lambda>sb.
         exec_bind (Some (wr (i_block n) 0 (sb_dir_first_sec sb))) (\<lambda>bl.
         Some (Inr (s5\<lparr>inodes := (inodes s5)[ip := n\<lparr>i_block := bl, i_size := sb_dir_number sb * 32, i_sb := Some k\<rparr>]\<rparr>)))))))))"

end
