(* ===== verification/Fs_Open.thy ===== *)
theory Fs_Open
  imports Fs_Mount
begin

text \<open>Directories and opening a file: \<^verbatim>\<open>fs/open.c\<close>.\<close>

definition ATTR_READONLY :: u8 where "ATTR_READONLY = 0x01"
definition ATTR_HIDDEN :: u8 where "ATTR_HIDDEN = 0x02"
definition ATTR_SYSTEM :: u8 where "ATTR_SYSTEM = 0x04"
definition ATTR_LABEL :: u8 where "ATTR_LABEL = 0x08"
definition ATTR_SUBDIR :: u8 where "ATTR_SUBDIR = 0x10"
definition ATTR_ARCHEVE :: u8 where "ATTR_ARCHEVE = 0x20"
definition ATTR_LONG_NAME :: u8 where
  "ATTR_LONG_NAME = (ATTR_READONLY OR ATTR_HIDDEN OR ATTR_SYSTEM OR ATTR_LABEL)"
definition ATTR_LONG_NAME_MASK :: u8 where
  "ATTR_LONG_NAME_MASK = (ATTR_READONLY OR ATTR_HIDDEN OR ATTR_SYSTEM OR ATTR_LABEL OR ATTR_SUBDIR OR ATTR_ARCHEVE)"

lemmas attr_defs = ATTR_READONLY_def ATTR_HIDDEN_def ATTR_SYSTEM_def ATTR_LABEL_def ATTR_SUBDIR_def ATTR_ARCHEVE_def
  ATTR_LONG_NAME_def ATTR_LONG_NAME_MASK_def

text \<open>A directory entry; \<open>de_ord\<close> is the first byte of the name.\<close>

record dir_entry =
  de_ord :: u8
  de_attr :: u8
  de_fstclushi :: u16
  de_fstcluslo :: u16
  de_size :: u32

definition dir_entry_at :: "memory \<Rightarrow> u32 \<Rightarrow> dir_entry" where
  "dir_entry_at m a = \<lparr>de_ord = m a, de_attr = m (a + 11), de_fstclushi = u16_at m (a + 20),
     de_fstcluslo = u16_at m (a + 26), de_size = u32_at m (a + 28)\<rparr>"

section \<open>Short names\<close>

text \<open>The number of bytes up to the last one of the first \<open>n\<close> that is not a blank.\<close>

primrec main_len :: "memory \<Rightarrow> u32 \<Rightarrow> nat \<Rightarrow> nat" where
  "main_len m a 0 = 0"
| "main_len m a (Suc i) = (if m (a + of_nat i) \<noteq> 32 then Suc i else main_len m a i)"

primrec copy_main :: "memory \<Rightarrow> nat \<Rightarrow> u32 \<Rightarrow> nat \<Rightarrow> u8 list \<Rightarrow> u8 list res" where
  "copy_main m 0 a p to = Inr to"
| "copy_main m (Suc n) a p to = res_bind (wr to p (m a)) (copy_main m n (a + 1) (p + 1))"

primrec copy_ext :: "memory \<Rightarrow> nat \<Rightarrow> u32 \<Rightarrow> nat \<Rightarrow> u8 list \<Rightarrow> (nat \<times> u8 list) res" where
  "copy_ext m 0 a p to = Inr (p, to)"
| "copy_ext m (Suc n) a p to =
     (if m a \<noteq> 32 then res_bind (wr to p (m a)) (copy_ext m n (a + 1) (p + 1)) else copy_ext m n (a + 1) p to)"

definition shortnamecopy :: "memory \<Rightarrow> u32 \<Rightarrow> u8 list \<Rightarrow> u8 list res" where
  "shortnamecopy m a to =
     (let n = main_len m a 8 in
      res_bind (copy_main m n a 0 to) (\<lambda>to1.
      res_bind (if m (a + 8) \<noteq> 32 then res_bind (wr to1 n 46) (\<lambda>t. Inr (n + 1, t)) else Inr (n, to1)) (\<lambda>(p, to2).
      res_bind (copy_ext m 3 (a + 8) p to2) (\<lambda>(q, to3). wr to3 q 0))))"

section \<open>Descriptors and directories\<close>

definition get_unused_fd :: "nat \<Rightarrow> 'a kfs_scheme \<Rightarrow> (int \<times> 'a kfs_scheme) res" where
  "get_unused_fd p s =
     (let fl = files (procs s p);
          fd = find_zero_bit (openfd fl)
      in if maxopen fl \<le> int fd then Inr (- 1, s)
         else res_bind (set_bit_at (openfd fl) fd) (\<lambda>b.
           Inr (int fd, upd_proc p (files_update (\<lambda>_. fl\<lparr>openfd := b\<rparr>)) s)))"

definition show_kind :: "u8 list \<Rightarrow> u8 \<Rightarrow> 'a kfs_scheme \<Rightarrow> 'a kfs_scheme res" where
  "show_kind stk attr s =
     (if attr AND (ATTR_SUBDIR OR ATTR_LABEL) = 0 then printk stk [10, 0] [] s
      else if attr AND (ATTR_SUBDIR OR ATTR_LABEL) = ATTR_SUBDIR then printk stk (bytes ''/'' @ [10, 0]) [] s
      else if attr AND (ATTR_SUBDIR OR ATTR_LABEL) = ATTR_LABEL then printk stk (bytes ''<LABLE>'' @ [10, 0]) [] s
      else Inr s)"

text \<open>
  The scan of \<open>n\<close> entries from address \<open>a\<close>. \<open>fname\<close> is the array on the stack, \<open>name\<close> the bytes of the
  buffer that holds the name looked for.
\<close>

primrec scan_loop ::
    "u8 list \<Rightarrow> u8 list \<Rightarrow> nat \<Rightarrow> u32 \<Rightarrow> u8 list \<Rightarrow> 'a kfs_scheme \<Rightarrow> (nat option \<times> 'a kfs_scheme) res" where
  "scan_loop stk name 0 a fname s = Inr (None, s)"
| "scan_loop stk name (Suc n) a fname s =
     (let de = dir_entry_at (ram s) a in
      if de_attr de AND ATTR_LONG_NAME_MASK \<noteq> ATTR_LONG_NAME \<and> de_ord de \<noteq> 0xE5 then
        res_bind (shortnamecopy (ram s) a fname) (\<lambda>fname1.
        res_bind (printk stk (bytes ''%s'' @ [0]) [Va_str fname1] s) (\<lambda>s1.
        res_bind (strcmp fname1 name) (\<lambda>c.
        if c = 0 then
          (let (rip, s2) = get_inode s1; de1 = dir_entry_at (ram s2) a in
           case rip of None \<Rightarrow> Inr (None, s2)
           | Some ip \<Rightarrow>
               res_bind (rd (inodes s2) ip) (\<lambda>nd.
               res_bind (wr (i_block nd) 0 (push_bit 16 (ucast (de_fstclushi de1)) OR ucast (de_fstcluslo de1))) (\<lambda>bl.
               res_bind (strcpy (i_name nd) fname1) (\<lambda>nm.
               Inr (Some ip, s2\<lparr>inodes := (inodes s2)[ip := nd\<lparr>i_block := bl, i_size := de_size de1, i_name := nm\<rparr>]\<rparr>)))))
        else res_bind (show_kind stk (de_attr (dir_entry_at (ram s1) a)) s1) (scan_loop stk name n (a + 32) fname1))))
      else scan_loop stk name n (a + 32) fname s)"

definition scan_dentry_buf ::
    "u8 list \<Rightarrow> u8 list \<Rightarrow> u32 \<Rightarrow> nat \<Rightarrow> u8 list \<Rightarrow> 'a kfs_scheme \<Rightarrow> (nat option \<times> 'a kfs_scheme) res" where
  "scan_dentry_buf stk junk buf count name s = scan_loop stk name (count div 32) buf (junk[12 := 0]) s"

section \<open>Opening\<close>

text \<open>\<^verbatim>\<open>lodsb; stosb\<close> into an object of \<open>n\<close> bytes.\<close>

primrec strcpy_mem :: "nat \<Rightarrow> u32 \<Rightarrow> u32 \<Rightarrow> memory \<Rightarrow> memory res" where
  "strcpy_mem 0 src des m = Inl Out_of_bounds"
| "strcpy_mem (Suc n) src des m =
     (let c = m src; m1 = m(des := c) in if c = 0 then Inr m1 else strcpy_mem n (src + 1) (des + 1) m1)"

definition get_name :: "u32 \<Rightarrow> 'a kfs_scheme \<Rightarrow> (u32 \<times> 'a kfs_scheme) res" where
  "get_name name s =
     res_bind (kmalloc 255 s) (\<lambda>(p, s1).
     res_bind (strcpy_mem 255 (umap (procs s1 (current s1)) name) p (ram s1)) (\<lambda>m. Inr (p, s1\<lparr>ram := m\<rparr>)))"

definition put_name :: "u32 \<Rightarrow> 'a kfs_scheme \<Rightarrow> 'a kfs_scheme res" where
  "put_name p s = kfree p s"

definition sys_open ::
    "u8 list \<Rightarrow> 'a kfs_scheme reader \<Rightarrow> u8 list \<Rightarrow> u32 \<Rightarrow> 'a kfs_scheme \<Rightarrow> (int \<times> 'a kfs_scheme) exec" where
  "sys_open stk rdb junk name s =
     (let rip = fs_root (pfs (procs s (current s))) in
      exec_bind (Some (get_name name s)) (\<lambda>(tmp, s1).
      case rip of None \<Rightarrow> Some (Inl Null_deref)
      | Some r \<Rightarrow>
        exec_bind (Some (rd (inodes s1) r)) (\<lambda>rn.
        exec_bind (Some (rd (i_block rn) 0)) (\<lambda>b0.
        exec_bind (get_block stk rdb b0 1024 s1) (\<lambda>(bp, s2).
        exec_bind (Some (scan_dentry_buf stk junk (buf_data bp s2) 1024 (block_at (ram s2) tmp 255) s2)) (\<lambda>(dip, s3).
        case dip of None \<Rightarrow> Some (Inr (- 1, s3))
        | Some d \<Rightarrow>
          exec_bind (Some (rd (inodes s3) d)) (\<lambda>dn.
          exec_bind (Some (rd (inodes s3) r)) (\<lambda>rn1.
          let s4 = s3\<lparr>inodes := (inodes s3)[d := dn\<lparr>i_sb := i_sb rn1\<rparr>]\<rparr> in
          exec_bind (Some (put_name tmp s4)) (\<lambda>s5.
          exec_bind (Some (put_block bp s5)) (\<lambda>s6.
          exec_bind (read_map stk rdb d s6) (\<lambda>s7.
          exec_bind (Some (get_unused_fd (current s7) s7)) (\<lambda>(fd, s8).
          if fd < 0 then Some (Inr (fd, s8))
          else
            let (fo, s9) = get_filp s8 in
            case fo of None \<Rightarrow> Some (Inr (- 1, s9))
            | Some f \<Rightarrow>
              exec_bind (Some (rd (filps s9) f)) (\<lambda>fl.
              let s10 = s9\<lparr>filps := (filps s9)[f := fl\<lparr>f_pos := 0, f_count := 1, f_ino := Some d\<rparr>]\<rparr>;
                  fs = files (procs s10 (current s10))
              in exec_bind (Some (wr (fd_array fs) (nat fd) (Some f))) (\<lambda>arr.
                 Some (Inr (fd, upd_proc (current s10) (files_update (\<lambda>_. fs\<lparr>fd_array := arr\<rparr>)) s10))))))))))))))))"

definition fs_init ::
    "u8 list \<Rightarrow> 'a kfs_scheme reader \<Rightarrow> 'a kfs_scheme sleeper \<Rightarrow> u32 \<Rightarrow> 'a kfs_scheme \<Rightarrow> 'a kfs_scheme exec" where
  "fs_init stk rdb slp boot s =
     exec_bind (Some (rd (wini s) 0)) (\<lambda>wn.
     exec_bind (case part_ops wn of None \<Rightarrow> Some (Inl Null_deref) | Some Partition_check \<Rightarrow> partition_check stk rdb boot 0 s) (\<lambda>s1.
     exec_bind (mount_fs stk rdb slp 0 (inode_init (filp_init s1))) (\<lambda>s2.
     Some (Inr (proc_fd_init (current s2) s2)))))"

end
