(* ===== verification/Fs_Block.thy ===== *)
theory Fs_Block
  imports Fs Pages_Props Hd_Props
begin

text \<open>
  What the file system relies on: what \<open>bread\<close> promises, the kernel pages that \<open>get_block\<close> takes and
  \<open>put_block\<close> gives back, and what of the state the file system leaves alone.
\<close>

section \<open>Double words in memory\<close>

lemma u32_of_bytes:
  "(ucast (ucast (b0 :: u8) OR push_bit 8 (ucast (b1 :: u8)) :: u16)
     OR push_bit 16 (ucast (ucast (b2 :: u8) OR push_bit 8 (ucast (b3 :: u8)) :: u16)) :: u32)
   = ucast b0 OR push_bit 8 (ucast b1) OR push_bit 16 (ucast b2) OR push_bit 24 (ucast b3)"
  (is "?l = ?r")
proof (rule bit_word_eqI)
  fix n
  assume n: "n < LENGTH(32)"
  have b: "bit (b :: u8) k \<Longrightarrow> k < 8" for b k using bit_imp_le_length [of b k] by simp
  consider "n < 8" | "8 \<le> n" "n < 16" | "16 \<le> n" "n < 24" | "24 \<le> n" by linarith
  then show "bit ?l n = bit ?r n"
    by cases (use n in \<open>auto simp: bit_simps less_diff_conv2 dest: b\<close>)
qed

lemma bytes_of_u32:
  "(ucast (ucast (v :: u32) :: u8) OR push_bit 8 (ucast (ucast (drop_bit 8 v) :: u8))
     OR push_bit 16 (ucast (ucast (drop_bit 16 v) :: u8)) OR push_bit 24 (ucast (ucast (drop_bit 24 v) :: u8)) :: u32) = v"
  (is "?l = v")
proof (rule bit_word_eqI)
  fix n
  assume n: "n < LENGTH(32)"
  consider "n < 8" | "8 \<le> n" "n < 16" | "16 \<le> n" "n < 24" | "24 \<le> n" by linarith
  then show "bit ?l n = bit v n"
    by cases (use n in \<open>auto simp: bit_simps less_diff_conv2\<close>)
qed

lemma u32_at_bytes: "u32_at m a = ucast (m a) OR push_bit 8 (ucast (m (a + 1))) OR push_bit 16 (ucast (m (a + 2)))
    OR push_bit 24 (ucast (m (a + 3)))"
proof -
  have "a + 2 + 1 = a + 3" by simp
  then show ?thesis unfolding u32_at_def u16_at_def by (simp only: u32_of_bytes)
qed

lemma u32_at_put: "u32_at (put_u32 a v m) a = v"
proof -
  have "put_u32 a v m a = ucast v" "put_u32 a v m (a + 1) = ucast (drop_bit 8 v)"
    "put_u32 a v m (a + 2) = ucast (drop_bit 16 v)" "put_u32 a v m (a + 3) = ucast (drop_bit 24 v)"
    by (simp_all add: put_u32_def)
  then show ?thesis unfolding u32_at_bytes by (simp only: bytes_of_u32)
qed

lemma put_u32_outside:
  assumes "unat a + 4 \<le> 2 ^ 32" "unat b < unat a \<or> unat a + 4 \<le> unat b"
  shows "put_u32 a v m b = m b"
proof -
  have "unat (a + of_nat j) = unat a + j" if "j < 4" for j
    using assms(1) that by (intro unat_add_small) simp
  from this [of 0] this [of 1] this [of 2] this [of 3] assms(2)
  have "b \<noteq> a" "b \<noteq> a + 1" "b \<noteq> a + 2" "b \<noteq> a + 3" by auto
  then show ?thesis by (simp add: put_u32_def)
qed

lemma u32_at_cong:
  assumes "\<And>j. j < 4 \<Longrightarrow> m (a + of_nat j) = m' (a + of_nat j)"
  shows "u32_at m a = u32_at m' a"
  using assms [of 0] assms [of 1] assms [of 2] assms [of 3] by (simp add: u32_at_bytes)

text \<open>An int that is not negative.\<close>

lemma sint_small:
  assumes "unat (w :: u32) < 2 ^ 31"
  shows "sint w = int (unat w)"
proof -
  have "unat w < 2147483648" using assms by simp
  then have "uint w < 2147483648" "- 2147483648 \<le> uint w" using uint_nat [of w] by linarith+
  then have "sint w = uint w" unfolding sint_uint by (subst signed_take_bit_int_eq_self) simp_all
  then show ?thesis by simp
qed

section \<open>The disk\<close>

text \<open>
  What \<open>bread\<close> promises its caller: the sectors of a disk whose \<open>k\<close>-th byte is \<open>disk k\<close> are in the buffer
  when it returns, and nothing else that the caller sees has changed.
\<close>

definition disk_block :: "(nat \<Rightarrow> u8) \<Rightarrow> u32 \<Rightarrow> nat \<Rightarrow> u8 list" where
  "disk_block disk sec n = map (\<lambda>j. disk (512 * unat sec + j)) [0..<n]"

definition reads_disk :: "(nat \<Rightarrow> u8) \<Rightarrow> 'a kfs_scheme reader \<Rightarrow> bool" where
  "reads_disk disk rdb \<longleftrightarrow> (\<forall>buf sz sec s. buf \<noteq> 0 \<longrightarrow> 512 dvd unat sz \<longrightarrow> unat buf + unat sz < 2 ^ 32 \<longrightarrow>
     (\<exists>m. rdb buf sz sec s = Some (Inr (1, s\<lparr>ram := m\<rparr>)) \<and> block_at m buf (unat sz) = disk_block disk sec (unat sz)
        \<and> (\<forall>a. unat a < unat buf \<or> unat buf + unat sz \<le> unat a \<longrightarrow> m a = ram s a)))"

text \<open>A reader that does: it copies the bytes.\<close>

definition copy_reader :: "(nat \<Rightarrow> u8) \<Rightarrow> 'a kfs_scheme reader" where
  "copy_reader disk buf sz sec s =
     Some (Inr (1, s\<lparr>ram := (\<lambda>a. if unat buf \<le> unat a \<and> unat a < unat buf + unat sz
        then disk (512 * unat sec + (unat a - unat buf)) else ram s a)\<rparr>))"

lemma copy_reader_reads: "reads_disk disk (copy_reader disk)"
  unfolding reads_disk_def
proof (intro allI impI)
  fix buf sz sec :: u32 and s :: "'a kfs_scheme"
  assume "unat buf + unat sz < 2 ^ 32"
  then have "unat (buf + of_nat j) = unat buf + j" if "j < unat sz" for j
    using that by (intro unat_add_small) simp
  then have "block_at (\<lambda>a. if unat buf \<le> unat a \<and> unat a < unat buf + unat sz
        then disk (512 * unat sec + (unat a - unat buf)) else ram s a) buf (unat sz) = disk_block disk sec (unat sz)"
    by (intro nth_equalityI) (simp_all add: disk_block_def)
  then show "\<exists>m. copy_reader disk buf sz sec s = Some (Inr (1, s\<lparr>ram := m\<rparr>)) \<and> block_at m buf (unat sz) = disk_block disk sec (unat sz)
        \<and> (\<forall>a. unat a < unat buf \<or> unat buf + unat sz \<le> unat a \<longrightarrow> m a = ram s a)"
    unfolding copy_reader_def by (intro exI conjI) (rule refl, assumption, simp)
qed

section \<open>Kernel pages\<close>

text \<open>
  The page array with used runs in front and \<open>n\<close> free pages behind them; the pages are above the first
  megabyte.
\<close>

definition room :: "u32 list \<Rightarrow> nat \<Rightarrow> 'a kpages_scheme \<Rightarrow> bool" where
  "room us n s \<longleftrightarrow> kmem_page s = layout (map Used us @ [Free n]) \<and> runs_ok (map Used us @ [Free n])
     \<and> length (kmem_page s) = NR_PAGES \<and> 0x100000 \<le> unat (kmem_base s) \<and> unat (kmem_base s) + 131072 < 2 ^ 32"

definition used_pages :: "u32 list \<Rightarrow> nat" where
  "used_pages us = length (layout (map Used us))"

lemma used_pages_simps [simp]:
  "used_pages [] = 0" "used_pages (us @ [z]) = used_pages us + (pages_of z - 1) + 1"
  by (simp_all add: used_pages_def)

lemma room_pages: "room us n s \<Longrightarrow> used_pages us + n = 128 \<and> 0 < n"
  unfolding room_def by (elim conjE) (simp add: used_pages_def NR_PAGES_def)

lemma room_cong:
  "kmem_page s' = kmem_page s \<Longrightarrow> kmem_base s' = kmem_base s \<Longrightarrow> room us n s' = room us n s"
  by (simp add: room_def)

lemma page_addr_room:
  assumes "room us n s" "h \<le> 128"
  shows "unat (page_addr s h) = unat (kmem_base s) + 1024 * h"
proof -
  have "of_nat h * (1024 :: u32) = of_nat (1024 * h)" by simp
  moreover have "unat (kmem_base s + of_nat (1024 * h)) = unat (kmem_base s) + 1024 * h"
    using assms by (intro unat_add_small) (auto simp: room_def)
  ultimately show ?thesis by (simp add: page_addr_def PAGE_SIZE_def mult.commute)
qed

lemma skip_used: "skip_runs c (0, False) (map Used us) = Some (0, False)"
  by (induction us) simp_all

lemma kmalloc_room:
  assumes "room us n s" "sz \<noteq> 0" "sz \<noteq> PAGE_S_CONT" "pages_of sz < n"
  shows "\<exists>s'. kmalloc sz s = Inr (page_addr s (used_pages us), s') \<and> room (us @ [sz]) (n - pages_of sz) s'
    \<and> s' = s\<lparr>ief := False, kmem_page := layout (map Used (us @ [sz]) @ [Free (n - pages_of sz)])\<rparr>"
proof -
  have p: "kmem_page s = layout (map Used us @ Free n # [])" "runs_ok (map Used us @ Free n # [])" "length (kmem_page s) = NR_PAGES"
    using assms(1) unfolding room_def by (elim conjE; simp)+
  have len: "used_pages us + n = 128" using room_pages [OF assms(1)] by simp
  have c: "carve_run sz n = [Used sz, Free (n - pages_of sz)]" using assms(4) by (simp add: carve_run_def)
  have "kmalloc_loop sz (pages_of sz) 0 0 False 0 (kmem_page s)
      = Inr (Some (used_pages us), layout (map Used us @ carve_run sz n @ []))"
    unfolding used_pages_def using len assms(2,4) p(3)
    by (intro kmalloc_loop_fits [OF p(1,2) _ skip_used]) (simp_all add: used_pages_def NR_PAGES_def)
  then have k: "kmalloc sz s = Inr (page_addr s (used_pages us),
      s\<lparr>ief := False, kmem_page := layout (map Used (us @ [sz]) @ [Free (n - pages_of sz)])\<rparr>)"
    using kmalloc_at unfolding c by fastforce
  have "length (layout (map Used (us @ [sz]) @ [Free (n - pages_of sz)])) = NR_PAGES"
    using len assms(4) pages_of_pos [OF assms(2)] by (simp add: used_pages_def NR_PAGES_def)
  then have "room (us @ [sz]) (n - pages_of sz) (s\<lparr>ief := False, kmem_page := layout (map Used (us @ [sz]) @ [Free (n - pages_of sz)])\<rparr>)"
    using assms by (simp add: room_def)
  with k show ?thesis by blast
qed

lemma kfree_room:
  assumes "room (us @ [z]) n s"
  shows "\<exists>s'. kfree (page_addr s (used_pages us)) s = Inr s' \<and> room us (n + pages_of z) s'
    \<and> s' = s\<lparr>kmem_page := layout (map Used us @ [Free (n + pages_of z)])\<rparr>"
proof -
  have p: "kmem_page s = layout (map Used us @ Used z # [Free n])" "runs_ok (map Used us @ Used z # [Free n])" "length (kmem_page s) = NR_PAGES"
    using assms unfolding room_def by (elim conjE; simp)+
  have left: "release_left (map Used us) k = map Used us @ [Free k]" for k
    by (cases us rule: rev_cases) (simp_all add: release_left_def)
  have "kfree_pages (used_pages us) (kmem_page s) = Inr (layout (release (map Used us) z [Free n]))"
    unfolding used_pages_def using p(3) by (intro kfree_pages_release [OF p(1,2)]) simp_all
  then have "kfree (page_addr s (used_pages us)) s = Inr (s\<lparr>kmem_page := layout (map Used us @ [Free (n + pages_of z)])\<rparr>)"
    using room_pages [OF assms] by (intro kfree_at) (simp_all add: release_def left NR_PAGES_def add.commute)
  moreover have "room us (n + pages_of z) (s\<lparr>kmem_page := layout (map Used us @ [Free (n + pages_of z)])\<rparr>)"
    using assms pages_of_pos [of z] unfolding room_def by (auto simp: NR_PAGES_def)
  ultimately show ?thesis by blast
qed

section \<open>Getting and putting a block\<close>

text \<open>The free pages behind \<open>us\<close>, and a step that changes only them, the screen and the interrupt flag.\<close>

definition free_area :: "u32 list \<Rightarrow> 'a kpages_scheme \<Rightarrow> u32 \<Rightarrow> bool" where
  "free_area us s a \<longleftrightarrow> unat (kmem_base s) + 1024 * used_pages us \<le> unat a \<and> unat a < unat (kmem_base s) + 131072"

definition fs_io :: "u32 list \<Rightarrow> 'a kfs_scheme \<Rightarrow> 'a kfs_scheme \<Rightarrow> bool" where
  "fs_io us s s' \<longleftrightarrow> (\<exists>e m con crt. s' = s\<lparr>ief := e, ram := m, cons := con, crt_out := crt\<rparr>
     \<and> (cons_ok s \<longrightarrow> cons_ok s') \<and> (\<forall>a. off_screen a \<and> \<not> free_area us s a \<longrightarrow> m a = ram s a))"

lemma fs_io_refl [simp]: "fs_io us s s"
  unfolding fs_io_def by (intro exI [of _ "ief s"] exI [of _ "ram s"] exI [of _ "cons s"] exI [of _ "crt_out s"]) simp

lemma fs_io_sel:
  assumes "fs_io us s s'"
  shows "kmem_page s' = kmem_page s" "kmem_base s' = kmem_base s" "inodes s' = inodes s" "super_block s' = super_block s"
    "filps s' = filps s" "procs s' = procs s" "current s' = current s" "inode_pool s' = inode_pool s" "filp_pool s' = filp_pool s"
    "free_area vs s' = free_area vs s"
  using assms by (auto simp: fs_io_def free_area_def)

lemma fs_io_ram: "fs_io us s s' \<Longrightarrow> off_screen a \<Longrightarrow> \<not> free_area us s a \<Longrightarrow> ram s' a = ram s a"
  by (auto simp: fs_io_def)

lemma fs_io_cons: "fs_io us s s' \<Longrightarrow> cons_ok s \<Longrightarrow> cons_ok s'"
  by (auto simp: fs_io_def)

lemma fs_io_room: "fs_io us s s' \<Longrightarrow> room vs n s' = room vs n s"
  by (intro room_cong fs_io_sel)

lemma fs_io_trans:
  assumes "fs_io us s t" "fs_io us t u"
  shows "fs_io us s u"
proof -
  obtain e m con crt where t: "t = s\<lparr>ief := e, ram := m, cons := con, crt_out := crt\<rparr>" "cons_ok s \<longrightarrow> cons_ok t"
    "\<forall>a. off_screen a \<and> \<not> free_area us s a \<longrightarrow> m a = ram s a"
    using assms(1) unfolding fs_io_def by blast
  obtain e2 m2 con2 crt2 where u: "u = t\<lparr>ief := e2, ram := m2, cons := con2, crt_out := crt2\<rparr>" "cons_ok t \<longrightarrow> cons_ok u"
    "\<forall>a. off_screen a \<and> \<not> free_area us t a \<longrightarrow> m2 a = ram t a"
    using assms(2) unfolding fs_io_def by blast
  have "free_area us t = free_area us s" using fs_io_sel(10) [OF assms(1)] .
  then have "\<forall>a. off_screen a \<and> \<not> free_area us s a \<longrightarrow> m2 a = ram s a" using t(3) u(3) unfolding t(1) by simp
  moreover have "u = s\<lparr>ief := e2, ram := m2, cons := con2, crt_out := crt2\<rparr>" using u(1) unfolding t(1) by simp
  ultimately show ?thesis unfolding fs_io_def using t(2) u(2) by blast
qed

lemma fs_io_on_screen:
  assumes "on_screen s s'" "cons_ok s'"
  shows "fs_io us s s'"
proof -
  obtain m con crt where s': "s' = s\<lparr>ram := m, cons := con, crt_out := crt\<rparr>"
    "\<forall>a. unat a < unat screen_base \<or> unat screen_base + 4000 \<le> unat a \<longrightarrow> m a = ram s a"
    using assms(1) unfolding on_screen_def by blast
  have "s' = s\<lparr>ief := ief s, ram := m, cons := con, crt_out := crt\<rparr>" unfolding s'(1) by simp
  moreover have "\<forall>a. off_screen a \<and> \<not> free_area us s a \<longrightarrow> m a = ram s a" using s'(2) unfolding off_screen_def by blast
  ultimately show ?thesis unfolding fs_io_def using assms(2) by blast
qed

lemma fs_io_more:
  "fs_io us s t \<Longrightarrow> wini t = wini s" "fs_io us s t \<Longrightarrow> wait_links t = wait_links s"
  by (auto simp: fs_io_def)

text \<open>A step that does the same when fields that it does not look at are different.\<close>

lemma fs_io_map:
  assumes "fs_io us s t"
    and "\<And>u e m con crt. f (u\<lparr>ief := e, ram := m, cons := con, crt_out := crt\<rparr>) = (f u)\<lparr>ief := e, ram := m, cons := con, crt_out := crt\<rparr>"
    and "ram (f s) = ram s" "kmem_base (f s) = kmem_base s" "cons (f s) = cons s" "cons (f t) = cons t"
  shows "fs_io us (f s) (f t)"
proof -
  obtain e m con crt where t: "t = s\<lparr>ief := e, ram := m, cons := con, crt_out := crt\<rparr>" "cons_ok s \<longrightarrow> cons_ok t"
    "\<forall>a. off_screen a \<and> \<not> free_area us s a \<longrightarrow> m a = ram s a" using assms(1) unfolding fs_io_def by blast
  have "cons_ok (f s) \<longrightarrow> cons_ok (f t)" using t(2) assms(5,6) by (simp add: cons_ok_def)
  moreover have "\<forall>a. off_screen a \<and> \<not> free_area us (f s) a \<longrightarrow> m a = ram (f s) a" using t(3) assms(3,4) by (simp add: free_area_def)
  ultimately show ?thesis unfolding fs_io_def using assms(2) t(1) by blast
qed

text \<open>A message is such a step.\<close>

lemma message:
  assumes "render fmt as = Some out" "0 \<notin> set fmt" "length out < 100" "length stk = STACK_SIZE" "cons_ok s"
  shows "\<exists>s'. printk stk (fmt @ [0]) as s = Inr s' \<and> fs_io us s s' \<and> cons_ok s'"
  using printk_terminal [OF assms(1,2) _ assms(5), of stk] assms(3,4) fs_io_on_screen
  by (fastforce simp: STACK_SIZE_def)

text \<open>A step that changes the free pages and the interrupt flag alone.\<close>

lemma fs_io_memory:
  assumes "\<And>a. \<not> free_area us s a \<Longrightarrow> m a = ram s a"
  shows "fs_io us s (s\<lparr>ief := e, ram := m\<rparr>)"
  unfolding fs_io_def using assms
  by (intro exI [of _ e] exI [of _ m] exI [of _ "cons s"] exI [of _ "crt_out s"]) (simp add: cons_ok_def)

lemma pages_of_4 [simp]: "pages_of 4 = 1" by (simp add: pages_of_ceil)

lemma get_block_spec:
  assumes "room us n s" "reads_disk disk rdb" "sz \<noteq> 0" "512 dvd unat sz" "unat sz \<le> 131072" "pages_of sz + 1 < n"
  shows "\<exists>m s1. get_block stk rdb sec sz s = Some (Inr (page_addr s (used_pages us), s1))
    \<and> s1 = s\<lparr>ief := False, kmem_page := layout (map Used (us @ [4, sz]) @ [Free (n - 1 - pages_of sz)]), ram := m\<rparr>
    \<and> room (us @ [4, sz]) (n - 1 - pages_of sz) s1
    \<and> u32_at m (page_addr s (used_pages us)) = page_addr s (used_pages us + 1)
    \<and> block_at m (page_addr s (used_pages us + 1)) (unat sz) = disk_block disk sec (unat sz)
    \<and> (\<forall>a. \<not> free_area us s a \<longrightarrow> m a = ram s a)"
proof -
  let ?h = "used_pages us" and ?bp = "page_addr s (used_pages us)" and ?d = "page_addr s (used_pages us + 1)"
  have len: "?h + n = 128" using room_pages [OF assms(1)] by simp
  have cont: "sz \<noteq> PAGE_S_CONT" "(4 :: u32) \<noteq> PAGE_S_CONT" using assms(5) by (auto simp: PAGE_S_CONT_def unsigned_minus_1_eq_mask mask_eq_exp_minus_1)
  obtain s1 where s1: "kmalloc 4 s = Inr (?bp, s1)" "room (us @ [4]) (n - 1) s1"
    "s1 = s\<lparr>ief := False, kmem_page := layout (map Used (us @ [4]) @ [Free (n - 1)])\<rparr>"
    using kmalloc_room [OF assms(1), of 4] cont(2) assms(6) by auto
  obtain s2 where s2: "kmalloc sz s1 = Inr (page_addr s1 (used_pages (us @ [4])), s2)" "room (us @ [4] @ [sz]) (n - 1 - pages_of sz) s2"
    "s2 = s1\<lparr>ief := False, kmem_page := layout (map Used (us @ [4] @ [sz]) @ [Free (n - 1 - pages_of sz)])\<rparr>"
    using kmalloc_room [OF s1(2) assms(3) cont(1)] assms(6) by auto
  have d: "page_addr s1 (used_pages (us @ [4])) = ?d" unfolding s1(3) by (simp add: page_addr_def)
  have ad: "unat ?bp = unat (kmem_base s) + 1024 * ?h" "unat ?d = unat (kmem_base s) + 1024 * ?h + 1024"
    using page_addr_room [OF assms(1)] len assms(6) by simp_all
  have base: "0x100000 \<le> unat (kmem_base s)" "unat (kmem_base s) + 131072 < 2 ^ 32" using assms(1) by (simp_all add: room_def)
  have szp: "unat sz \<le> 1024 * pages_of sz" by (simp add: pages_of_ceil)
  have nz: "?bp \<noteq> 0" "?d \<noteq> 0" using ad base by (auto simp: unat_eq_zero)
  let ?s3 = "s2\<lparr>ram := put_u32 ?bp ?d (ram s2)\<rparr>"
  obtain m where m: "rdb ?d sz sec ?s3 = Some (Inr (1, ?s3\<lparr>ram := m\<rparr>))" "block_at m ?d (unat sz) = disk_block disk sec (unat sz)"
    "\<forall>a. unat a < unat ?d \<or> unat ?d + unat sz \<le> unat a \<longrightarrow> m a = ram ?s3 a"
  proof -
    have "unat ?d + unat sz < 2 ^ 32" using ad base szp len assms(6) by simp
    then show thesis using that assms(2,4) nz(2) unfolding reads_disk_def by blast
  qed
  have out: "m a = put_u32 ?bp ?d (ram s) a" if "unat a < unat ?d \<or> unat ?d + unat sz \<le> unat a" for a
  proof -
    have "ram ?s3 = put_u32 ?bp ?d (ram s)" unfolding s2(3) s1(3) by simp
    then show ?thesis using m(3) that by metis
  qed
  have "m (?bp + of_nat j) = put_u32 ?bp ?d (ram s) (?bp + of_nat j)" if "j < 4" for j
  proof (intro out)
    have "unat (?bp + of_nat j) = unat ?bp + j" using ad base len assms(6) that by (intro unat_add_small) simp
    then show "unat (?bp + of_nat j) < unat ?d \<or> unat ?d + unat sz \<le> unat (?bp + of_nat j)" using ad that by simp
  qed
  then have ptr: "u32_at m ?bp = ?d" using u32_at_cong [of m ?bp "put_u32 ?bp ?d (ram s)"] u32_at_put by simp
  have rest: "m a = ram s a" if "\<not> free_area us s a" for a
  proof -
    have "unat a < unat ?bp \<or> unat (kmem_base s) + 131072 \<le> unat a" using that ad by (auto simp: free_area_def)
    moreover have "unat ?d + unat sz \<le> unat (kmem_base s) + 131072" using ad szp len assms(6) by simp
    ultimately have "unat a < unat ?d \<or> unat ?d + unat sz \<le> unat a" "unat a < unat ?bp \<or> unat ?bp + 4 \<le> unat a"
      using ad by auto
    moreover have "unat ?bp + 4 \<le> 2 ^ 32" using ad base len assms(6) by linarith
    ultimately show ?thesis using out put_u32_outside [of ?bp a ?d "ram s"] by simp
  qed
  let ?s4 = "s\<lparr>ief := False, kmem_page := layout (map Used (us @ [4, sz]) @ [Free (n - 1 - pages_of sz)]), ram := m\<rparr>"
  have s4: "?s3\<lparr>ram := m\<rparr> = ?s4" unfolding s2(3) s1(3) by simp
  have ptr3: "u32_at (ram ?s3) ?bp = ?d" by (simp add: u32_at_put)
  have "get_block stk rdb sec sz s = Some (Inr (?bp, ?s4))"
    unfolding get_block_def s1(1) exec_bind_simps prod.case s2(1) d if_not_P [OF nz(1)] Let_def ptr3 m(1) s4 by simp
  moreover have "room (us @ [4, sz]) (n - 1 - pages_of sz) ?s4"
  proof -
    have "kmem_page ?s4 = kmem_page s2" "kmem_base ?s4 = kmem_base s2" unfolding s2(3) s1(3) by simp_all
    then show ?thesis using s2(2) room_cong [of ?s4 s2] by simp
  qed
  ultimately show ?thesis using ptr m(2) rest by blast
qed

lemma put_block_spec:
  assumes "room (us @ [4, sz]) k t" "buf_data (page_addr t (used_pages us)) t = page_addr t (used_pages us + 1)"
  shows "put_block (page_addr t (used_pages us)) t = Inr (t\<lparr>kmem_page := layout (map Used us @ [Free (k + pages_of sz + 1)])\<rparr>)
    \<and> room us (k + pages_of sz + 1) (t\<lparr>kmem_page := layout (map Used us @ [Free (k + pages_of sz + 1)])\<rparr>)"
proof -
  have "room ((us @ [4]) @ [sz]) k t" using assms(1) by simp
  then obtain t1 where t1: "kfree (page_addr t (used_pages (us @ [4]))) t = Inr t1" "room (us @ [4]) (k + pages_of sz) t1"
    "t1 = t\<lparr>kmem_page := layout (map Used (us @ [4]) @ [Free (k + pages_of sz)])\<rparr>"
    using kfree_room by blast
  obtain t2 where t2: "kfree (page_addr t1 (used_pages us)) t1 = Inr t2" "room us (k + pages_of sz + 1) t2"
    "t2 = t1\<lparr>kmem_page := layout (map Used us @ [Free (k + pages_of sz + 1)])\<rparr>"
    using kfree_room [OF t1(2)] by auto
  have "page_addr t1 (used_pages us) = page_addr t (used_pages us)" unfolding t1(3) by (simp add: page_addr_def)
  then have "put_block (page_addr t (used_pages us)) t = Inr t2"
    using t1(1) t2(1) assms(2) by (simp add: put_block_def)
  then show ?thesis using t2(2,3) t1(3) by simp
qed

text \<open>A block in use: what its holder finds in it, and that it goes back when the pointer to it has been kept.\<close>

lemma block_in_use:
  fixes s :: "'a kfs_scheme"
  assumes "room us n s" "reads_disk disk rdb" "sz \<noteq> 0" "512 dvd unat sz" "unat sz \<le> 131072" "pages_of sz + 1 < n"
  obtains m k where "get_block stk rdb sec sz s = Some (Inr (page_addr s (used_pages us), s\<lparr>ief := False, kmem_page := k, ram := m\<rparr>))"
    "page_addr s (used_pages us) \<noteq> 0" "u32_at m (page_addr s (used_pages us)) = page_addr s (used_pages us + 1)"
    "block_at m (page_addr s (used_pages us + 1)) (unat sz) = disk_block disk sec (unat sz)" "\<forall>a. \<not> free_area us s a \<longrightarrow> m a = ram s a"
    "\<And>t :: 'a kfs_scheme. kmem_page t = k \<Longrightarrow> kmem_base t = kmem_base s
      \<Longrightarrow> (\<forall>j < 4. ram t (page_addr s (used_pages us) + of_nat j) = m (page_addr s (used_pages us) + of_nat j))
      \<Longrightarrow> put_block (page_addr s (used_pages us)) t = Inr (t\<lparr>kmem_page := kmem_page s\<rparr>)"
proof -
  let ?h = "used_pages us" and ?us = "us @ [4, sz]" and ?k = "n - 1 - pages_of sz"
  let ?bp = "page_addr s ?h"
  obtain m s1 where g: "get_block stk rdb sec sz s = Some (Inr (?bp, s1))"
    and s1: "s1 = s\<lparr>ief := False, kmem_page := layout (map Used ?us @ [Free ?k]), ram := m\<rparr>"
    and r1: "room ?us ?k s1" and ptr: "u32_at m ?bp = page_addr s (?h + 1)"
    and blk: "block_at m (page_addr s (?h + 1)) (unat sz) = disk_block disk sec (unat sz)" and out: "\<forall>a. \<not> free_area us s a \<longrightarrow> m a = ram s a"
    using get_block_spec [OF assms, of stk sec] by blast
  have base: "0x100000 \<le> unat (kmem_base s)" "kmem_page s = layout (map Used us @ [Free n])" using assms(1) by (simp_all add: room_def)
  have nz: "?bp \<noteq> 0"
    using page_addr_room [OF assms(1), of ?h] room_pages [OF assms(1)] base assms(6) by (auto simp: unat_eq_zero)
  have n: "?k + pages_of sz + 1 = n" using assms(6) by simp
  have put: "put_block ?bp t = Inr (t\<lparr>kmem_page := kmem_page s\<rparr>)"
    if t: "kmem_page t = layout (map Used ?us @ [Free ?k])" "kmem_base t = kmem_base s" "\<forall>j < 4. ram t (?bp + of_nat j) = m (?bp + of_nat j)" for t :: "'a kfs_scheme"
  proof -
    have "page_addr t i = page_addr s i" for i using t(2) by (simp add: page_addr_def)
    moreover have "u32_at (ram t) ?bp = u32_at m ?bp" using t(3) by (intro u32_at_cong) simp
    moreover have "room ?us ?k t" using r1 room_cong [of t s1] t(1,2) by (simp add: s1)
    ultimately show ?thesis using put_block_spec [of us sz ?k t] ptr unfolding n base(2) by (simp add: buf_data_def)
  qed
  from that [OF g [unfolded s1] nz ptr blk out put] show thesis .
qed

end
