(* ===== verification/Fat_Props.thy ===== *)
theory Fat_Props
  imports Fs_Block
begin

text \<open>
  The file allocation table: the entry that \<open>FATEntryVal\<close> reads is the one that the FAT specification
  defines, and \<open>read_map\<close> follows the chain of a file.
\<close>

section \<open>Entries of the table\<close>

text \<open>
  By the specification the table is a sequence of bits, the low bit of the first byte first, and the
  entry of cluster \<open>n\<close> are the 12, 16 or 32 bits from bit \<open>12 n\<close>, \<open>16 n\<close> or \<open>32 n\<close>; of 32 bits the high four
  are reserved.
\<close>

definition bits_at :: "(nat \<Rightarrow> u8) \<Rightarrow> nat \<Rightarrow> nat \<Rightarrow> nat" where
  "bits_at T p w = horner_sum of_bool 2 (map (\<lambda>i. bit (T ((p + i) div 8)) ((p + i) mod 8)) [0..<w])"

definition fat_entry :: "u32 \<Rightarrow> (nat \<Rightarrow> u8) \<Rightarrow> nat \<Rightarrow> nat" where
  "fat_entry t T n = (if t = 1 then bits_at T (12 * n) 12 else if t = 2 then bits_at T (16 * n) 16
     else bits_at T (32 * n) 28)"

lemma bit_bits_at: "bit (bits_at T p w) i \<longleftrightarrow> i < w \<and> bit (T ((p + i) div 8)) ((p + i) mod 8)"
  by (auto simp: bits_at_def bit_horner_sum_bit_iff)

lemma FAToffset_nat:
  assumes "unat n < 2 ^ 28"
  shows "unat (FAToffset bd n) = (if sb_type bd = 1 then unat n + unat n div 2 else if sb_type bd = 2 then 2 * unat n else 4 * unat n)"
proof -
  have s: "sint n = int (unat n)" using assms by (intro sint_small) simp
  have "int k sdiv 2 = int (k div 2)" for k by (auto simp: signed_divide_int_def zdiv_int sgn_if)
  then have "sint n sdiv 2 = int (unat n div 2)" unfolding s .
  then have "n + of_int (sint n sdiv 2) = of_nat (unat n + unat n div 2)" by simp
  moreover have "unat n + unat n div 2 < 2 ^ 32" using assms by simp
  ultimately have "unat (n + of_int (sint n sdiv 2)) = unat n + unat n div 2" by (simp only: unat_of_nat) simp
  moreover have "unat (n * 2) = 2 * unat n" "unat (n * 4) = 4 * unat n"
    using assms by (simp_all add: unat_word_ariths)
  ultimately show ?thesis by (simp add: FAToffset_def)
qed

lemma bit_u16_at: "bit (u16_at m a) i \<longleftrightarrow> (if i < 8 then bit (m a) i else bit (m (a + 1)) (i - 8))"
proof -
  have b: "bit (b :: u8) k \<Longrightarrow> k < 8" for b k using bit_imp_le_length [of b k] by simp
  show ?thesis by (auto simp: u16_at_def bit_simps dest: b)
qed

lemma bit_u32_at: "bit (u32_at m a) i \<longleftrightarrow> bit (m (a + of_nat (i div 8))) (i mod 8) \<and> i < 32"
proof -
  have b: "bit (b :: u8) k \<Longrightarrow> k < 8" for b k using bit_imp_le_length [of b k] by simp
  consider "i < 8" | "8 \<le> i" "i < 16" | "16 \<le> i" "i < 24" | "24 \<le> i" "i < 32" | "32 \<le> i" by linarith
  then show ?thesis
  proof cases
    case 1 then show ?thesis by (auto simp: u32_at_bytes bit_simps dest: b)
  next
    case 2
    then have "i div 8 = 1" "i mod 8 = i - 8" by (auto simp: div_nat_eqI mod_if)
    with 2 show ?thesis by (auto simp: u32_at_bytes bit_simps less_diff_conv2 dest: b)
  next
    case 3
    then have "i div 8 = 2" "i mod 8 = i - 16" by (auto simp: div_nat_eqI mod_if)
    with 3 show ?thesis by (auto simp: u32_at_bytes bit_simps less_diff_conv2 dest: b)
  next
    case 4
    then have "i div 8 = 3" "i mod 8 = i - 24" by (auto simp: div_nat_eqI mod_if)
    with 4 show ?thesis by (auto simp: u32_at_bytes bit_simps less_diff_conv2 dest: b)
  next
    case 5 then show ?thesis by (auto dest: bit_u32_less)
  qed
qed

lemma low_bit: "n AND 1 = 0 \<longleftrightarrow> even (unat (n :: u32))"
proof -
  have "n AND 1 = 0 \<longleftrightarrow> unat (n AND 1) = 0" by (simp add: unat_eq_zero)
  then show ?thesis by (simp add: unsigned_and_eq and_one_eq even_iff_mod_2_eq_zero unat_mod)
qed

text \<open>The value that the code takes from the bytes behind its offset.\<close>

lemma bit_u16_bits:
  assumes "m a = T j" "m (a + 1) = T (Suc j)" "i < 16"
  shows "bit (u16_at m a) i \<longleftrightarrow> bit (T (j + i div 8)) (i mod 8)"
proof (cases "i < 8")
  case True
  then show ?thesis using assms by (simp add: bit_u16_at)
next
  case False
  then have "i div 8 = 1" "i mod 8 = i - 8" using assms(3) by (auto simp: div_nat_eqI mod_if)
  then show ?thesis using False assms by (simp add: bit_u16_at)
qed

lemma div8: "a = 8 * q + i \<Longrightarrow> a div 8 = q + i div 8 \<and> a mod 8 = i mod (8 :: nat)"
  by simp

lemma fat_value_entry:
  assumes T: "\<And>j. j < 4 \<Longrightarrow> m (a + of_nat j) = T (unat (FAToffset bd n) + j)" and n: "unat n < 2 ^ 28"
  shows "unat (fat_value bd n m a) = fat_entry (sb_type bd) T (unat n)"
proof (rule bit_eqI)
  fix i
  have bu: "bit (unat (w :: u32)) i \<longleftrightarrow> bit w i" for w by (auto simp: bit_unsigned_iff dest: bit_u32_less)
  have m12: "(0xFFF :: u32) = mask 12" and m28: "(0x0FFFFFFF :: u32) = mask 28" by (simp_all add: mask_eq_exp_minus_1)
  have u16: "bit (u16_at m a) k \<Longrightarrow> k < 16" for k using bit_imp_le_length [of "u16_at m a" k] by simp
  have T0: "m a = T (unat (FAToffset bd n))" "m (a + 1) = T (Suc (unat (FAToffset bd n)))"
    using T [of 0] T [of 1] by simp_all
  note b16 = bit_u16_bits [of m a T, OF T0]
  consider (even12) "sb_type bd = 1" "even (unat n)" | (odd12) "sb_type bd = 1" "odd (unat n)"
    | (fat16) "sb_type bd = 2" | (fat32) "sb_type bd \<noteq> 1" "sb_type bd \<noteq> 2" by blast
  then show "bit (unat (fat_value bd n m a)) i = bit (fat_entry (sb_type bd) T (unat n)) i"
  proof cases
    case even12
    then obtain k where k: "unat n = 2 * k" by blast
    have off: "unat (FAToffset bd n) = 3 * k" using FAToffset_nat [OF n, of bd] even12(1) k by simp
    have "n AND 1 = 0" using even12(2) low_bit [of n] by simp
    then have l: "bit (unat (fat_value bd n m a)) i \<longleftrightarrow> i < 12 \<and> bit (u16_at m a) i"
      unfolding bu using even12(1) by (auto simp: fat_value_def m12 bit_simps dest: u16)
    have "(12 * (2 * k) + i) div 8 = 3 * k + i div 8 \<and> (12 * (2 * k) + i) mod 8 = i mod 8" by (rule div8) simp
    then have "bit (fat_entry (sb_type bd) T (unat n)) i \<longleftrightarrow> i < 12 \<and> bit (T (3 * k + i div 8)) (i mod 8)"
      using even12(1) by (simp add: fat_entry_def bit_bits_at k)
    then show ?thesis unfolding l using b16 [of i] off by auto
  next
    case odd12
    then obtain k where k: "unat n = 2 * k + 1" by (elim oddE)
    have off: "unat (FAToffset bd n) = 3 * k + 1" using FAToffset_nat [OF n, of bd] odd12(1) k by simp
    have "n AND 1 \<noteq> 0" using odd12(2) low_bit [of n] by simp
    then have l: "bit (unat (fat_value bd n m a)) i \<longleftrightarrow> i < 12 \<and> bit (u16_at m a) (i + 4)"
      unfolding bu using odd12(1) u16 [of "i + 4"] by (auto simp: fat_value_def bit_simps add.commute)
    have "(12 * (2 * k + 1) + i) div 8 = 3 * k + 1 + (i + 4) div 8 \<and> (12 * (2 * k + 1) + i) mod 8 = (i + 4) mod 8" by (rule div8) simp
    then have "bit (fat_entry (sb_type bd) T (unat n)) i \<longleftrightarrow> i < 12 \<and> bit (T (3 * k + 1 + (i + 4) div 8)) ((i + 4) mod 8)"
      using odd12(1) by (simp add: fat_entry_def bit_bits_at k)
    then show ?thesis unfolding l using b16 [of "i + 4"] off by auto
  next
    case fat16
    then have off: "unat (FAToffset bd n) = 2 * unat n" using FAToffset_nat [OF n, of bd] by simp
    have l: "bit (unat (fat_value bd n m a)) i \<longleftrightarrow> i < 16 \<and> bit (u16_at m a) i"
      unfolding bu using fat16 by (auto simp: fat_value_def bit_simps dest: u16)
    have "(16 * unat n + i) div 8 = 2 * unat n + i div 8 \<and> (16 * unat n + i) mod 8 = i mod 8" by (rule div8) simp
    then have "bit (fat_entry (sb_type bd) T (unat n)) i \<longleftrightarrow> i < 16 \<and> bit (T (2 * unat n + i div 8)) (i mod 8)"
      using fat16 by (simp add: fat_entry_def bit_bits_at)
    then show ?thesis unfolding l using b16 [of i] off by auto
  next
    case fat32
    then have off: "unat (FAToffset bd n) = 4 * unat n" using FAToffset_nat [OF n, of bd] by simp
    have l: "bit (unat (fat_value bd n m a)) i \<longleftrightarrow> i < 28 \<and> bit (u32_at m a) i"
      unfolding bu using fat32 by (auto simp: fat_value_def m28 bit_simps)
    have "(32 * unat n + i) div 8 = 4 * unat n + i div 8 \<and> (32 * unat n + i) mod 8 = i mod 8" by (rule div8) simp
    then have "bit (fat_entry (sb_type bd) T (unat n)) i \<longleftrightarrow> i < 28 \<and> bit (T (4 * unat n + i div 8)) (i mod 8)"
      using fat32 by (simp add: fat_entry_def bit_bits_at)
    moreover have "i < 28 \<Longrightarrow> i div 8 < 4" by (simp add: less_mult_imp_div_less)
    ultimately show ?thesis unfolding l bit_u32_at using T [of "i div 8"] off by auto
  qed
qed

text \<open>The table of a file system on a disk.\<close>

definition fat_table :: "(nat \<Rightarrow> u8) \<Rightarrow> super_block \<Rightarrow> nat \<Rightarrow> u8" where
  "fat_table disk bd j = disk (512 * (unat (sb_base bd) + unat (sb_resvdseccnt bd)) + j)"

definition sb_ok :: "super_block \<Rightarrow> bool" where
  "sb_ok bd \<longleftrightarrow> sb_sector_size bd = 512 \<and> unat (sb_base bd) + unat (sb_resvdseccnt bd) < 2 ^ 31"

lemma pages_of_1024 [simp]: "pages_of 1024 = 1" by (simp add: pages_of_ceil)

lemma FATEntryVal_spec:
  assumes "room us n s" "reads_disk disk rdb" "sb_ok bd" "2 < n" "unat cl < 2 ^ 28"
  shows "\<exists>val s'. FATEntryVal stk rdb bd cl s = Some (Inr (val, s')) \<and> fs_io us s s'
    \<and> unat val = fat_entry (sb_type bd) (fat_table disk bd) (unat cl)"
proof -
  let ?off = "FAToffset bd cl" and ?h = "used_pages us"
  have sec: "sb_sector_size bd = 512" "unat (sb_base bd) + unat (sb_resvdseccnt bd) < 2 ^ 31" using assms(3) by (simp_all add: sb_ok_def)
  have off: "unat ?off < 2 ^ 30" using FAToffset_nat [OF assms(5), of bd] assms(5) by auto
  let ?sec = "sb_resvdseccnt bd + ?off div 512 + sb_base bd"
  have usec: "unat ?sec = unat (sb_base bd) + unat (sb_resvdseccnt bd) + unat ?off div 512"
  proof -
    have "unat (?off div 512) = unat ?off div 512" by (simp add: unat_div)
    moreover have "unat ?off div 512 < 2 ^ 21" using off by (simp add: less_mult_imp_div_less)
    ultimately show ?thesis using sec(2) by (simp add: unat_word_ariths)
  qed
  let ?bp = "page_addr s ?h" and ?d = "page_addr s (?h + 1)"
  have sz: "(1024 :: u32) \<noteq> 0" "512 dvd unat (1024 :: u32)" "unat (1024 :: u32) \<le> 131072" "pages_of 1024 + 1 < n" using assms(4) by simp_all
  obtain m k where g: "get_block stk rdb ?sec 1024 s = Some (Inr (?bp, s\<lparr>ief := False, kmem_page := k, ram := m\<rparr>))"
    and nz: "?bp \<noteq> 0" and ptr: "u32_at m ?bp = ?d"
    and blk: "block_at m ?d (unat (1024 :: u32)) = disk_block disk ?sec (unat (1024 :: u32))" and out: "\<forall>a. \<not> free_area us s a \<longrightarrow> m a = ram s a"
    and giveback: "\<And>t :: 'a kfs_scheme. kmem_page t = k \<Longrightarrow> kmem_base t = kmem_base s \<Longrightarrow> (\<forall>j < 4. ram t (?bp + of_nat j) = m (?bp + of_nat j))
      \<Longrightarrow> put_block ?bp t = Inr (t\<lparr>kmem_page := kmem_page s\<rparr>)"
    using block_in_use [OF assms(1,2) sz, of stk ?sec] by blast
  define s2 where "s2 = s\<lparr>ief := False, ram := m\<rparr>"
  let ?s1 = "s\<lparr>ief := False, kmem_page := k, ram := m\<rparr>"
  have put: "put_block ?bp ?s1 = Inr s2" using giveback [of ?s1] by (simp add: s2_def)
  have io: "fs_io us s s2" unfolding s2_def using fs_io_memory [of us s m False] out by simp
  let ?val = "fat_value bd cl m (?d + ?off mod 512)"
  have "m (?d + ?off mod 512 + of_nat j) = fat_table disk bd (unat ?off + j)" if "j < 4" for j
  proof -
    have k: "unat ?off mod 512 + j < 1024" using that by (simp add: mod_less_divisor [THEN less_le_trans])
    have e: "?d + ?off mod 512 + of_nat j = ?d + of_nat (unat ?off mod 512 + j)"
    proof -
      have "of_nat (unat (?off mod 512)) = ?off mod 512" by simp
      then have "of_nat (unat ?off mod 512) = ?off mod 512" unfolding unat_mod by simp
      then show ?thesis by simp
    qed
    have "m (?d + of_nat (unat ?off mod 512 + j)) = block_at m ?d 1024 ! (unat ?off mod 512 + j)"
      using k by (simp only: nth_block_at)
    also have "\<dots> = disk (512 * unat ?sec + (unat ?off mod 512 + j))"
      using k blk by (simp add: disk_block_def)
    also have "512 * unat ?sec + (unat ?off mod 512 + j) = 512 * (unat (sb_base bd) + unat (sb_resvdseccnt bd)) + (unat ?off + j)"
      unfolding usec using mult_div_mod_eq [of 512 "unat ?off"] by simp
    finally show ?thesis unfolding e fat_table_def .
  qed
  then have "unat ?val = fat_entry (sb_type bd) (fat_table disk bd) (unat cl)"
    by (rule fat_value_entry [OF _ assms(5)])
  moreover have "FATEntryVal stk rdb bd cl s = Some (Inr (?val, s2))"
  proof -
    have "buf_data ?bp ?s1 = ?d" using ptr by (simp add: buf_data_def)
    then show ?thesis unfolding FATEntryVal_def Let_def using sec(1) g nz put by simp
  qed
  ultimately show ?thesis using io by blast
qed

section \<open>The chain of a file\<close>

text \<open>The values from here on end a chain.\<close>

definition eof_mark :: "u32 \<Rightarrow> nat" where
  "eof_mark t = (if t = 1 then 0xFF8 else if t = 2 then 0xFFF8 else 0xFFFFFF8)"

text \<open>A list of clusters, each but the last with the next as its entry, the last with an end mark.\<close>

fun fat_chain :: "u32 \<Rightarrow> (nat \<Rightarrow> u8) \<Rightarrow> nat list \<Rightarrow> bool" where
  "fat_chain t T [] \<longleftrightarrow> False"
| "fat_chain t T [c] \<longleftrightarrow> eof_mark t \<le> fat_entry t T c"
| "fat_chain t T (c # d # cs) \<longleftrightarrow> fat_entry t T c = d \<and> d < eof_mark t \<and> fat_chain t T (d # cs)"

lemma bits_at_less: "bits_at T p w < 2 ^ w"
  using horner_sum_of_bool_2_less [where ?'a = nat and bs = "map (\<lambda>i. bit (T ((p + i) div 8)) ((p + i) mod 8)) [0..<w]"]
  by (simp add: bits_at_def)

lemma fat_entry_less: "fat_entry t T n < 2 ^ 28"
  using bits_at_less [of T "12 * n" 12] bits_at_less [of T "16 * n" 16] bits_at_less [of T "32 * n" 28]
  by (auto simp: fat_entry_def)

lemma eeof_mark: "unat val < 2 ^ 28 \<Longrightarrow> eeof bd val \<longleftrightarrow> eof_mark (sb_type bd) \<le> unat val"
proof -
  assume "unat val < 2 ^ 28"
  then have s: "sint val = int (unat val)" by (intro sint_small) simp
  have "(numeral k :: int) \<le> int (unat val) \<longleftrightarrow> numeral k \<le> unat val" for k
    by (metis of_nat_le_iff of_nat_numeral)
  then show ?thesis unfolding eeof_def eof_mark_def s by (simp only: if_distrib [of "\<lambda>k. k \<le> unat val"])
qed

text \<open>The inode \<open>ip\<close> with other clusters, in a state after the reads.\<close>

definition with_blocks :: "nat \<Rightarrow> u32 list \<Rightarrow> 'a kfs_scheme \<Rightarrow> 'a kfs_scheme" where
  "with_blocks ip bl s = s\<lparr>inodes := (inodes s)[ip := (inodes s ! ip)\<lparr>i_block := bl\<rparr>]\<rparr>"

lemma with_blocks_twice: "ip < length (inodes s) \<Longrightarrow> with_blocks ip bl' (with_blocks ip bl s) = with_blocks ip bl' s"
  by (simp add: with_blocks_def)

lemma fs_io_with_blocks:
  assumes "fs_io us (with_blocks ip bl s) u"
  shows "\<exists>t. fs_io us s t \<and> u = with_blocks ip bl t"
proof -
  let ?w = "with_blocks ip bl s"
  obtain e m con crt where u: "u = ?w\<lparr>ief := e, ram := m, cons := con, crt_out := crt\<rparr>" "cons_ok ?w \<longrightarrow> cons_ok u"
    "\<forall>a. off_screen a \<and> \<not> free_area us ?w a \<longrightarrow> m a = ram ?w a"
    using assms unfolding fs_io_def by blast
  let ?t = "s\<lparr>ief := e, ram := m, cons := con, crt_out := crt\<rparr>"
  have "cons_ok s \<longrightarrow> cons_ok ?t" using u(2) unfolding u(1) by (simp add: cons_ok_def with_blocks_def)
  moreover have "\<forall>a. off_screen a \<and> \<not> free_area us s a \<longrightarrow> m a = ram s a"
    using u(3) by (simp add: free_area_def with_blocks_def)
  ultimately have "fs_io us s ?t" unfolding fs_io_def by blast
  moreover have "u = with_blocks ip bl ?t" unfolding u(1) by (simp add: with_blocks_def)
  ultimately show ?thesis by blast
qed

lemma sb_of_cong:
  assumes "super_block s' = super_block s" "length (inodes s') = length (inodes s)"
    and "ip < length (inodes s) \<Longrightarrow> i_sb (inodes s' ! ip) = i_sb (inodes s ! ip)"
  shows "sb_of ip s' = sb_of ip s"
  using assms by (cases "ip < length (inodes s)"; cases "i_sb (inodes s ! ip)") (simp_all add: sb_of_def)

lemma with_blocks_sel:
  "room vs n (with_blocks ip bl s) = room vs n s" "cons_ok (with_blocks ip bl s) = cons_ok s"
  "length (inodes (with_blocks ip bl s)) = length (inodes s)"
  "ip < length (inodes s) \<Longrightarrow> inodes (with_blocks ip bl s) ! ip = (inodes s ! ip)\<lparr>i_block := bl\<rparr>"
  by (simp_all add: with_blocks_def room_def cons_ok_def)

lemma sb_of_with_blocks: "sb_of ip (with_blocks ip bl s) = sb_of ip s"
  by (rule sb_of_cong) (simp_all add: with_blocks_def)

text \<open>Once around the loop.\<close>

lemma read_map_step:
  assumes "room us n s" "reads_disk disk rdb" "2 < n" "cons_ok s" "length stk = STACK_SIZE"
    and "ip < length (inodes s)" "length (i_block (inodes s ! ip)) = 10" "sb_of ip s = Inr bd" "sb_ok bd" "unat c < 2 ^ 28"
  shows "if i < 10 then
      \<exists>val t. fs_io us s t \<and> unat val = fat_entry (sb_type bd) (fat_table disk bd) (unat c)
        \<and> read_map_loop stk rdb ip i c count s =
          (let s3 = with_blocks ip ((i_block (inodes s ! ip))[i := c]) t in
           if unat val < eof_mark (sb_type bd) \<and> 0 < count then read_map_loop stk rdb ip (i + 1) val (count - 1) s3
           else Some (Inr s3))
    else read_map_loop stk rdb ip i c count s = Some (Inl Out_of_bounds)"
proof (cases "i < 10")
  case False
  have "read_map_loop stk rdb ip i c count s = Some (Inl Out_of_bounds)"
    using assms(6,7) False by (subst read_map_loop.simps) simp
  then show ?thesis unfolding if_not_P [OF False] .
next
  case True
  let ?bl = "(i_block (inodes s ! ip))[i := c]"
  define s1 where "s1 = with_blocks ip ?bl s"
  have r1: "room us n s1" "cons_ok s1" "sb_of ip s1 = Inr bd"
    using assms(1,4,6,8) by (simp_all add: s1_def with_blocks_sel sb_of_with_blocks)
  obtain val s2 where v: "FATEntryVal stk rdb bd c s1 = Some (Inr (val, s2))" "fs_io us s1 s2"
    "unat val = fat_entry (sb_type bd) (fat_table disk bd) (unat c)"
    using FATEntryVal_spec [OF r1(1) assms(2,9,3,10)] by blast
  have ren: "render (bytes ''file index:%d'' @ [10]) [Va_word val] = Some (bytes ''file index:'' @ dec_bytes val @ [10])"
    by (simp add: bytes_def item_def of_char_def)
  obtain s3 where p: "printk stk (bytes ''file index:%d'' @ [10, 0]) [Va_word val] s2 = Inr s3" "fs_io us s2 s3"
    using message [OF ren _ _ assms(5) fs_io_cons [OF v(2) r1(2)]] dec_bytes_length [of val]
    by (auto simp: bytes_def of_char_def)
  obtain t where t: "fs_io us s t" "s3 = with_blocks ip ?bl t"
    using fs_io_with_blocks [OF fs_io_trans [OF v(2) p(2), unfolded s1_def]] by blast
  have "sb_of ip s3 = sb_of ip s1" using fs_io_sel(3,4) [OF fs_io_trans [OF v(2) p(2)]] by (intro sb_of_cong) simp_all
  then have sb3: "sb_of ip s3 = Inr bd" using r1(3) by simp
  have ee: "\<not> eeof bd val \<longleftrightarrow> unat val < eof_mark (sb_type bd)"
    using eeof_mark [of val bd] fat_entry_less v(3) by (auto simp: not_le)
  have s1': "s\<lparr>inodes := (inodes s)[ip := (inodes s ! ip)\<lparr>i_block := ?bl\<rparr>]\<rparr> = s1" by (simp add: s1_def with_blocks_def)
  have w: "rd (inodes s) ip = Inr (inodes s ! ip)" "wr (i_block (inodes s ! ip)) i c = Inr ?bl" using assms(6,7) True by simp_all
  have "read_map_loop stk rdb ip i c count s =
      (if unat val < eof_mark (sb_type bd) \<and> 0 < count then read_map_loop stk rdb ip (i + 1) val (count - 1) s3 else Some (Inr s3))"
    by (subst read_map_loop.simps) (simp only: w exec_bind_simps Let_def s1' r1(3) v(1) prod.case p(1) sb3 ee)
  then have "\<exists>val t. fs_io us s t \<and> unat val = fat_entry (sb_type bd) (fat_table disk bd) (unat c)
        \<and> read_map_loop stk rdb ip i c count s =
          (let s3 = with_blocks ip ?bl t in
           if unat val < eof_mark (sb_type bd) \<and> 0 < count then read_map_loop stk rdb ip (i + 1) val (count - 1) s3
           else Some (Inr s3))"
    using t v(3) unfolding Let_def by blast
  then show ?thesis unfolding if_P [OF True] .
qed

lemma read_map_loop_spec:
  assumes "fat_chain (sb_type bd) (fat_table disk bd) (map unat cs)"
    and "room us n s" "reads_disk disk rdb" "2 < n" "cons_ok s" "length stk = STACK_SIZE"
    and "ip < length (inodes s)" "length (i_block (inodes s ! ip)) = 10" "sb_of ip s = Inr bd" "sb_ok bd"
    and "\<forall>c \<in> set cs. unat c < 2 ^ 28" "int (length cs) \<le> count + 1" "i \<le> 10"
  shows "if i + length cs \<le> 10 then
      \<exists>t. fs_io us s t \<and> read_map_loop stk rdb ip i (hd cs) count s =
        Some (Inr (with_blocks ip (take i (i_block (inodes s ! ip)) @ cs @ drop (i + length cs) (i_block (inodes s ! ip))) t))
    else read_map_loop stk rdb ip i (hd cs) count s = Some (Inl Out_of_bounds)"
  using assms
proof (induction cs arbitrary: i s count)
  case Nil
  then show ?case by simp
next
  case (Cons c cs)
  let ?bl = "i_block (inodes s ! ip)"
  have c: "unat c < 2 ^ 28" using Cons.prems(11) by simp
  note step = read_map_step [OF Cons.prems(2-10) c, of i count]
  show ?case
  proof (cases "i < 10")
    case False
    then have "read_map_loop stk rdb ip i c count s = Some (Inl Out_of_bounds)" using step by simp
    then show ?thesis using False Cons.prems(13) by simp
  next
    case True
    obtain val t where t: "fs_io us s t" "unat val = fat_entry (sb_type bd) (fat_table disk bd) (unat c)"
      "read_map_loop stk rdb ip i c count s = (let s3 = with_blocks ip (?bl[i := c]) t in
           if unat val < eof_mark (sb_type bd) \<and> 0 < count then read_map_loop stk rdb ip (i + 1) val (count - 1) s3
           else Some (Inr s3))"
      using step unfolding if_P [OF True] by blast
    have upd: "take i ?bl @ c # drop (Suc i) ?bl = ?bl[i := c]" using True Cons.prems(8) by (simp add: upd_conv_take_nth_drop)
    show ?thesis
    proof (cases cs)
      case Nil
      then have "\<not> unat val < eof_mark (sb_type bd)" using Cons.prems(1) t(2) by simp
      then have "read_map_loop stk rdb ip i c count s = Some (Inr (with_blocks ip (?bl[i := c]) t))"
        using t(3) by simp
      then show ?thesis using t(1) True Nil upd by (intro if_P [THEN iffD2]) auto
    next
      case (Cons d ds)
      let ?s3 = "with_blocks ip (?bl[i := c]) t"
      have v: "unat val = unat d" "unat d < eof_mark (sb_type bd)" "fat_chain (sb_type bd) (fat_table disk bd) (map unat cs)"
        using Cons.prems(1) t(2) Cons by simp_all
      have run: "read_map_loop stk rdb ip i c count s = read_map_loop stk rdb ip (i + 1) (hd cs) (count - 1) ?s3"
      proof -
        have "val = d" using v(1) by (simp add: word_unat_eq_iff)
        then show ?thesis using t(3) v(2) Cons Cons.prems(12) by simp
      qed
      note sel = fs_io_sel [OF t(1)]
      have p3: "room us n ?s3" "cons_ok ?s3" "ip < length (inodes ?s3)" "length (i_block (inodes ?s3 ! ip)) = 10"
        "sb_of ip ?s3 = Inr bd" "i_block (inodes ?s3 ! ip) = ?bl[i := c]"
        using Cons.prems(2,5,7,8,9) fs_io_room [OF t(1)] fs_io_cons [OF t(1)] sel
          sb_of_cong [of t s ip] by (simp_all add: with_blocks_sel sb_of_with_blocks)
      have IH: "if (i + 1) + length cs \<le> 10 then
        \<exists>u. fs_io us ?s3 u \<and> read_map_loop stk rdb ip (i + 1) (hd cs) (count - 1) ?s3 =
          Some (Inr (with_blocks ip (take (i + 1) (?bl[i := c]) @ cs @ drop ((i + 1) + length cs) (?bl[i := c])) u))
        else read_map_loop stk rdb ip (i + 1) (hd cs) (count - 1) ?s3 = Some (Inl Out_of_bounds)"
        using Cons.IH [OF v(3) p3(1) Cons.prems(3,4) p3(2) Cons.prems(6) p3(3-5) Cons.prems(10), of "count - 1" "i + 1"]
          Cons.prems(11,12) True unfolding p3(6) by simp
      have lst: "take (i + 1) (?bl[i := c]) @ cs @ drop ((i + 1) + length cs) (?bl[i := c])
          = take i ?bl @ (c # cs) @ drop (i + length (c # cs)) ?bl"
        using True Cons.prems(8) by (simp add: take_Suc_conv_app_nth)
      show ?thesis
      proof (cases "(i + 1) + length cs \<le> 10")
        case fits: True
        then obtain u where u: "fs_io us ?s3 u" "read_map_loop stk rdb ip (i + 1) (hd cs) (count - 1) ?s3 =
          Some (Inr (with_blocks ip (take i ?bl @ (c # cs) @ drop (i + length (c # cs)) ?bl) u))"
          using IH unfolding lst by auto
        obtain t' where t': "fs_io us t t'" "u = with_blocks ip (?bl[i := c]) t'" using fs_io_with_blocks [OF u(1)] by blast
        have "ip < length (inodes t')" using fs_io_sel(3) [OF t'(1)] sel Cons.prems(7) by simp
        then show ?thesis using fits run u(2) t' fs_io_trans [OF t(1) t'(1)] by (auto simp: with_blocks_twice)
      next
        case False
        then show ?thesis using run IH by simp
      qed
    qed
  qed
qed

section \<open>Properties\<close>

text \<open>
  Property C10: \<open>FATEntryVal\<close> returns the entry that the FAT specification gives to a cluster, for tables
  of 12, 16 and 32 bits, also where a 12-bit entry lies in two sectors. The kernel pages it used are
  free again, and nothing else has changed but the interrupt flag and the screen.
\<close>

theorem FATEntryVal_entry:
  assumes "room us n s" "reads_disk disk rdb" "sb_ok bd" "2 < n" "unat cl < 2 ^ 28"
  shows "\<exists>val s'. FATEntryVal stk rdb bd cl s = Some (Inr (val, s')) \<and> fs_io us s s'
    \<and> unat val = fat_entry (sb_type bd) (fat_table disk bd) (unat cl)"
  by (rule FATEntryVal_spec [OF assms])

text \<open>The number of clusters that the size of a file asks for.\<close>

definition clusters_of :: "super_block \<Rightarrow> u32 \<Rightarrow> nat" where
  "clusters_of bd sz = (unat sz + 512 * unat (sb_cluster_size bd) - 1) div (512 * unat (sb_cluster_size bd))"

lemma read_map_count:
  assumes "sb_sector_size bd = 512" "sb_cluster_size bd \<noteq> 0" "512 * unat (sb_cluster_size bd) < 2 ^ 32"
  shows "\<exists>q. do_cdiv sz (sb_cluster_size bd * sb_sector_size bd) = Inr q \<and> sint q = int (clusters_of bd sz)"
proof -
  let ?c = "sb_cluster_size bd * 512"
  have u: "unat ?c = 512 * unat (sb_cluster_size bd)" using assms(3) by (simp add: unat_word_ariths)
  have p: "0 < unat (sb_cluster_size bd)" using assms(2) by (simp add: unat_gt_0)
  then have "?c \<noteq> 0" using u by (auto simp: unat_eq_zero [symmetric])
  then obtain q where q: "do_cdiv sz ?c = Inr q" "unat q = (unat sz + unat ?c - 1) div unat ?c"
    using do_cdiv_ceil by blast
  have "unat q \<le> (unat sz + unat ?c - 1) div 512" unfolding q(2) using u p by (intro div_le_mono2) simp_all
  also have "\<dots> < 2 ^ 31"
  proof -
    have "unat sz < 2 ^ 32" using unsigned_less [of sz] by simp
    then have "unat sz + unat ?c - 1 < 2 ^ 31 * 512" using assms(3) u by simp
    then show ?thesis by (rule less_mult_imp_div_less)
  qed
  finally have "sint q = int (unat q)" by (rule sint_small)
  then show ?thesis using q u assms(1) by (simp add: clusters_of_def)
qed

lemma read_map_spec:
  assumes "fat_chain (sb_type bd) (fat_table disk bd) (map unat cs)" "\<forall>c \<in> set cs. unat c < 2 ^ 28"
    and "room us n s" "reads_disk disk rdb" "2 < n" "cons_ok s" "length stk = STACK_SIZE"
    and "ip < length (inodes s)" "length (i_block (inodes s ! ip)) = 10" "i_block (inodes s ! ip) ! 0 = hd cs"
    and "sb_of ip s = Inr bd" "sb_ok bd" "sb_cluster_size bd \<noteq> 0" "512 * unat (sb_cluster_size bd) < 2 ^ 32"
    and "length cs \<le> clusters_of bd (i_size (inodes s ! ip)) + 1"
  shows "if length cs \<le> 10 then
      \<exists>t. fs_io us s t \<and> read_map stk rdb ip s =
        Some (Inr (with_blocks ip (cs @ drop (length cs) (i_block (inodes s ! ip))) t))
    else read_map stk rdb ip s = Some (Inl Out_of_bounds)"
proof -
  let ?nd = "inodes s ! ip"
  obtain q where q: "do_cdiv (i_size ?nd) (sb_cluster_size bd * sb_sector_size bd) = Inr q" "sint q = int (clusters_of bd (i_size ?nd))"
    using read_map_count [of bd] assms(12-14) by (auto simp: sb_ok_def)
  have ren: "render (bytes ''file count:%d'' @ [10]) [Va_word q] = Some (bytes ''file count:'' @ dec_bytes q @ [10])"
    by (simp add: bytes_def item_def of_char_def)
  obtain s1 where p: "printk stk (bytes ''file count:%d'' @ [10, 0]) [Va_word q] s = Inr s1" "fs_io us s s1" "cons_ok s1"
    using message [OF ren _ _ assms(7,6)] dec_bytes_length [of q] by (auto simp: bytes_def of_char_def)
  note sel = fs_io_sel [OF p(2)]
  have "rd (i_block ?nd) 0 = Inr (hd cs)" "rd (inodes s) ip = Inr ?nd" using assms(8-10) by simp_all
  then have run: "read_map stk rdb ip s = read_map_loop stk rdb ip 0 (hd cs) (sint q) s1"
    by (simp add: read_map_def assms(11) q(1) p(1))
  have r1: "room us n s1" "ip < length (inodes s1)" "length (i_block (inodes s1 ! ip)) = 10"
    using assms(3,8,9) fs_io_room [OF p(2)] sel by simp_all
  have b1: "sb_of ip s1 = Inr bd" using assms(11) sel sb_of_cong [of s1 s ip] by simp
  have c1: "int (length cs) \<le> sint q + 1" using q(2) assms(15) by simp
  note spec = read_map_loop_spec [OF assms(1) r1(1) assms(4,5) p(3) assms(7) r1(2,3) b1 assms(12,2) c1, of 0]
  show ?thesis
  proof (cases "length cs \<le> 10")
    case True
    then obtain t where "fs_io us s1 t" "read_map_loop stk rdb ip 0 (hd cs) (sint q) s1 =
        Some (Inr (with_blocks ip (cs @ drop (length cs) (i_block ?nd)) t))"
      using spec sel by auto
    then show ?thesis using True run fs_io_trans [OF p(2)] by auto
  next
    case False
    then show ?thesis using run spec by simp
  qed
qed

text \<open>
  Property C9: \<open>read_map\<close> puts the cluster chain of a file into \<open>block\<close>, in order, when the chain is as
  long as the size says, or shorter. A file of more than ten clusters is written past the array.
\<close>

theorem read_map_chain:
  assumes "fat_chain (sb_type bd) (fat_table disk bd) (map unat cs)" "\<forall>c \<in> set cs. unat c < 2 ^ 28"
    and "room us n s" "reads_disk disk rdb" "2 < n" "cons_ok s" "length stk = STACK_SIZE"
    and "ip < length (inodes s)" "length (i_block (inodes s ! ip)) = 10" "i_block (inodes s ! ip) ! 0 = hd cs"
    and "sb_of ip s = Inr bd" "sb_ok bd" "sb_cluster_size bd \<noteq> 0" "512 * unat (sb_cluster_size bd) < 2 ^ 32"
    and "length cs \<le> clusters_of bd (i_size (inodes s ! ip)) + 1"
  shows "if length cs \<le> 10 then
      \<exists>t. fs_io us s t \<and> read_map stk rdb ip s =
        Some (Inr (with_blocks ip (cs @ drop (length cs) (i_block (inodes s ! ip))) t))
    else read_map stk rdb ip s = Some (Inl Out_of_bounds)"
  using read_map_spec [OF assms] .

text \<open>A disk with a table of 12 bits behind its first sector: a file in the clusters 2 and 3.\<close>

definition small_disk :: "nat \<Rightarrow> u8" where
  "small_disk k = (if k = 515 then 3 else if k = 516 then 0xF0 else if k = 517 then 0xFF else 0)"

definition small_super :: super_block where
  "small_super = \<lparr>sb_base = 0, sb_sector_size = 512, sb_cluster_size = 1, sb_fat_number = 1, sb_sector_number = 100,
     sb_sectorsperfat = 1, sb_sectorspertrack = 18, sb_resvdseccnt = 1, sb_heads = 2, sb_hidden = 0, sb_type = 1,
     sb_dir_first_sec = 2, sb_dir_number = 16, sb_data_first_sec = 3, sb_lock = 0, sb_dev = 1, sb_rootdir = None\<rparr>"

definition small_inode :: inode where
  "small_inode = \<lparr>i_sb = Some 0, i_size = 700, i_name = replicate 255 0, i_block = 2 # replicate 9 0\<rparr>"

definition small_fs :: kfs where
  "small_fs = khd.extend (hd_state [] 0 (boot_state\<lparr>kmem_page := layout [Free 128], kmem_base := 0x200000, super_block := [small_super]\<rparr>))
     \<lparr>inodes = [small_inode], inode_pool = init_slot INODE_NR \<lparr>free_next = (\<lambda>_. None), free_head = None\<rparr>, filps = [\<lparr>f_ino = Some 0, f_pos = 0, f_count = 1\<rparr>],
      filp_pool = init_slot FILP_NR \<lparr>free_next = (\<lambda>_. None), free_head = None\<rparr>\<rparr>"

lemmas small_extend = small_fs_def khd.extend_def hd_state_def kcpu.extend_def device_extend

lemma small_fs_sel:
  "kmem_page small_fs = layout [Free 128]" "kmem_base small_fs = 0x200000" "cons small_fs = cons last_cell"
  "inodes small_fs = [small_inode]" "super_block small_fs = [small_super]" "filps small_fs = [\<lparr>f_ino = Some 0, f_pos = 0, f_count = 1\<rparr>]"
  by (simp_all add: small_extend)

lemma small_fs_ok: "room [] 128 small_fs" "cons_ok small_fs" "sb_of 0 small_fs = Inr small_super" "sb_ok small_super"
  "small_inode = inodes small_fs ! 0"
proof -
  show "room [] 128 small_fs" by (simp add: room_def small_fs_sel NR_PAGES_def)
  show "cons_ok small_fs" using last_cell_ok(1) by (simp add: cons_ok_def small_fs_sel)
  show "sb_of 0 small_fs = Inr small_super" by (simp add: sb_of_def small_fs_sel small_inode_def)
  show "sb_ok small_super" by (simp add: sb_ok_def small_super_def)
  show "small_inode = inodes small_fs ! 0" by (simp add: small_fs_sel)
qed

lemma small_entries:
  "fat_entry (sb_type small_super) (fat_table small_disk small_super) 2 = 3"
  "fat_entry (sb_type small_super) (fat_table small_disk small_super) 3 = 0xFFF"
  by code_simp+

theorem FATEntryVal_entry_witness:
  "\<exists>val s'. FATEntryVal (replicate 100 0) (copy_reader small_disk) small_super 2 small_fs = Some (Inr (val, s')) \<and> unat val = 3"
  using FATEntryVal_entry [OF small_fs_ok(1) copy_reader_reads small_fs_ok(4), of 2 "replicate 100 0" small_disk] small_entries(1)
  by auto

theorem read_map_chain_witness:
  "\<exists>t. read_map (replicate 100 0) (copy_reader small_disk) 0 small_fs = Some (Inr (with_blocks 0 ([2, 3] @ replicate 8 0) t))"
proof -
  have chain: "fat_chain (sb_type small_super) (fat_table small_disk small_super) (map unat [2, 3 :: u32])"
  proof -
    have "sb_type small_super = 1" by (simp add: small_super_def)
    then show ?thesis using small_entries by (simp add: eof_mark_def)
  qed
  have nd: "length (i_block (inodes small_fs ! 0)) = 10" "i_block (inodes small_fs ! 0) ! 0 = hd [2, 3]"
    "i_size (inodes small_fs ! 0) = 700" "0 < length (inodes small_fs)"
    by (simp_all add: small_fs_sel small_inode_def)
  have "length [2, 3 :: u32] \<le> clusters_of small_super (i_size (inodes small_fs ! 0)) + 1"
    unfolding nd by (simp add: clusters_of_def small_super_def)
  from read_map_chain [OF chain _ small_fs_ok(1) copy_reader_reads _ small_fs_ok(2) _ nd(4,1,2) small_fs_ok(3,4) _ _ this, of "replicate 100 0"]
  show ?thesis by (simp add: STACK_SIZE_def small_super_def) (auto simp: small_fs_sel small_inode_def)
qed

end
