(* ===== verification/Read_Props.thy ===== *)
theory Read_Props
  imports Fat_Props
begin

text \<open>Reading a file: \<open>filp_read\<close> returns the bytes of the file's clusters from its position on.\<close>

section \<open>One cluster\<close>

text \<open>The first sector of a cluster, and byte \<open>k\<close> of the file with the clusters \<open>bl\<close>.\<close>

definition cluster_bytes :: "super_block \<Rightarrow> nat" where
  "cluster_bytes bd = 512 * unat (sb_cluster_size bd)"

definition first_sector :: "super_block \<Rightarrow> u32 \<Rightarrow> nat" where
  "first_sector bd c = (unat c - 2) * unat (sb_cluster_size bd) + unat (sb_data_first_sec bd)"

definition file_byte :: "(nat \<Rightarrow> u8) \<Rightarrow> super_block \<Rightarrow> u32 list \<Rightarrow> nat \<Rightarrow> u8" where
  "file_byte disk bd bl k = disk (512 * first_sector bd (bl ! (k div cluster_bytes bd)) + k mod cluster_bytes bd)"

definition clu_ok :: "super_block \<Rightarrow> u32 \<Rightarrow> bool" where
  "clu_ok bd c \<longleftrightarrow> 2 \<le> unat c \<and> first_sector bd c < 2 ^ 32"

lemma FstSecofDataClu_nat: "clu_ok bd c \<Longrightarrow> unat (FstSecofDataClu bd c) = first_sector bd c"
proof -
  assume c: "clu_ok bd c"
  then have "unat (c - 2) = unat c - 2" by (simp add: clu_ok_def unat_sub word_le_nat_alt)
  then have "of_nat (first_sector bd c) = of_nat (unat (c - 2)) * of_nat (unat (sb_cluster_size bd)) + (of_nat (unat (sb_data_first_sec bd)) :: u32)"
    by (simp add: first_sector_def)
  then have "FstSecofDataClu bd c = of_nat (first_sector bd c)" by (simp add: FstSecofDataClu_def)
  then show ?thesis using c by (simp add: clu_ok_def unat_of_nat)
qed

text \<open>A file system and an inode of it whose clusters are there; at most ten of them.\<close>

definition file_ok :: "super_block \<Rightarrow> inode \<Rightarrow> nat \<Rightarrow> bool" where
  "file_ok bd nd n \<longleftrightarrow> sb_ok bd \<and> 0 < unat (sb_cluster_size bd) \<and> cluster_bytes bd \<le> 65536 \<and> pages_of (of_nat (cluster_bytes bd)) + 1 < n
     \<and> length (i_block nd) = 10 \<and> unat (i_size nd) \<le> 10 * cluster_bytes bd
     \<and> (\<forall>i. i * cluster_bytes bd < unat (i_size nd) \<longrightarrow> clu_ok bd (i_block nd ! i))"

text \<open>A region of memory that the file system does not use.\<close>

definition outside_free :: "u32 list \<Rightarrow> 'a kpages_scheme \<Rightarrow> u32 \<Rightarrow> nat \<Rightarrow> bool" where
  "outside_free us s buf k \<longleftrightarrow> unat buf + k < 2 ^ 32
     \<and> (unat buf + k \<le> unat (kmem_base s) + 1024 * used_pages us \<or> unat (kmem_base s) + 131072 \<le> unat buf)"

lemma outside_free_mem: "outside_free us s buf k \<Longrightarrow> unat buf \<le> unat a \<Longrightarrow> unat a < unat buf + k \<Longrightarrow> \<not> free_area us s a"
  by (auto simp: outside_free_def free_area_def)

lemma cluster_index:
  assumes "file_ok bd nd n" "i * cluster_bytes bd < unat (i_size nd)"
  shows "i < 10" "unat (of_nat i :: u32) = i" "sint (of_nat i :: u32) = int i"
proof -
  show i: "i < 10"
  proof (rule ccontr)
    assume "\<not> i < 10"
    then have "10 * cluster_bytes bd \<le> i * cluster_bytes bd" by (intro mult_le_mono1) simp
    moreover have "unat (i_size nd) \<le> 10 * cluster_bytes bd" using assms(1) by (simp add: file_ok_def)
    ultimately show False using assms(2) by linarith
  qed
  show u: "unat (of_nat i :: u32) = i" using i by (simp add: unat_of_nat)
  show "sint (of_nat i :: u32) = int i" using sint_small [of "of_nat i"] i u by simp
qed

text \<open>A copy from the free pages to a region outside them.\<close>

lemma copy_out:
  assumes "unat (kmem_base s) + 131072 < 2 ^ 32" "outside_free us s buf k"
    and "unat (kmem_base s) + 1024 * used_pages us \<le> unat src" "unat src + k \<le> unat (kmem_base s) + 131072" "m2 = rep_movsb k src buf m"
  shows "j < k \<Longrightarrow> m2 (buf + of_nat j) = m (src + of_nat j)" "unat a < unat buf \<or> unat buf + k \<le> unat a \<Longrightarrow> m2 a = m a"
proof -
  have o: "unat buf + k < 2 ^ 32" "unat buf + k \<le> unat (kmem_base s) + 1024 * used_pages us \<or> unat (kmem_base s) + 131072 \<le> unat buf"
    using assms(2) by (auto simp: outside_free_def)
  show "m2 (buf + of_nat j) = m (src + of_nat j)" if "j < k"
    unfolding assms(5) using o assms(1,3,4) that by (intro rep_movsb_copies) auto
  show "m2 a = m a" if "unat a < unat buf \<or> unat buf + k \<le> unat a"
    unfolding assms(5) by (intro rep_movsb_outside o that)
qed

lemma ClusterRead_spec:
  assumes "room us n s" "reads_disk disk rdb" "file_ok bd nd n"
    and "ino < length (inodes s)" "inodes s ! ino = nd" "sb_of ino s = Inr bd"
    and "i * cluster_bytes bd < unat (i_size nd)" "unat off + unat v \<le> cluster_bytes bd" "outside_free us s buf (unat v)"
  shows "\<exists>m. ClusterRead stk rdb buf ino (of_nat i) off v s = Some (Inr (buf + v, s\<lparr>ief := False, ram := m\<rparr>))
    \<and> block_at m buf (unat v) = map (\<lambda>j. disk (512 * first_sector bd (i_block nd ! i) + unat off + j)) [0..<unat v]
    \<and> (\<forall>a. \<not> free_area us s a \<longrightarrow> unat a < unat buf \<or> unat buf + unat v \<le> unat a \<longrightarrow> m a = ram s a)"
proof -
  let ?C = "cluster_bytes bd" and ?h = "used_pages us"
  have f: "sb_sector_size bd = 512" "0 < unat (sb_cluster_size bd)" "?C \<le> 65536" "pages_of (of_nat ?C) + 1 < n"
    "length (i_block nd) = 10" "unat (i_size nd) \<le> 10 * ?C" "clu_ok bd (i_block nd ! i)"
    using assms(3,7) by (auto simp: file_ok_def sb_ok_def)
  note ii = cluster_index [OF assms(3,7)]
  have sz: "sb_sector_size bd * sb_cluster_size bd = of_nat ?C" using f(1) by (simp add: cluster_bytes_def)
  have usz: "unat (of_nat ?C :: u32) = ?C" using f(3) by (simp add: unat_of_nat)
  let ?c = "i_block nd ! i" and ?bp = "page_addr s ?h" and ?d = "page_addr s (?h + 1)"
  have nz0: "(of_nat ?C :: u32) \<noteq> 0" using usz f(2) by (auto simp: cluster_bytes_def simp flip: unat_eq_zero)
  have pre: "512 dvd unat (of_nat ?C :: u32)" "unat (of_nat ?C :: u32) \<le> 131072" "pages_of (of_nat ?C) + 1 < n"
    using usz f(3,4) by (simp_all add: cluster_bytes_def)
  obtain m k where g: "get_block stk rdb (FstSecofDataClu bd ?c) (of_nat ?C) s = Some (Inr (?bp, s\<lparr>ief := False, kmem_page := k, ram := m\<rparr>))"
    and nz: "?bp \<noteq> 0" and ptr: "u32_at m ?bp = ?d" and blk: "block_at m ?d ?C = disk_block disk (FstSecofDataClu bd ?c) ?C"
    and out: "\<forall>a. \<not> free_area us s a \<longrightarrow> m a = ram s a"
    and giveback: "\<And>t :: 'a kfs_scheme. kmem_page t = k \<Longrightarrow> kmem_base t = kmem_base s \<Longrightarrow> (\<forall>j < 4. ram t (?bp + of_nat j) = m (?bp + of_nat j))
      \<Longrightarrow> put_block ?bp t = Inr (t\<lparr>kmem_page := kmem_page s\<rparr>)"
    using block_in_use [OF assms(1,2) nz0 pre, of stk "FstSecofDataClu bd ?c"] unfolding usz by blast
  have base: "0x100000 \<le> unat (kmem_base s)" "unat (kmem_base s) + 131072 < 2 ^ 32" using assms(1) by (simp_all add: room_def)
  have len: "?h + n = 128" using room_pages [OF assms(1)] by simp
  have szp: "?C \<le> 1024 * pages_of (of_nat ?C)" using usz by (simp add: pages_of_ceil)
  have ad: "unat ?bp = unat (kmem_base s) + 1024 * ?h" "unat ?d = unat (kmem_base s) + 1024 * ?h + 1024"
    using page_addr_room [OF assms(1)] len f(4) by simp_all
  let ?s1 = "s\<lparr>ief := False, kmem_page := k, ram := m\<rparr>"
  have data: "buf_data ?bp ?s1 = ?d" using ptr by (simp add: buf_data_def)
  let ?from = "?d + off"
  have offv: "unat off \<le> ?C" using assms(8) by simp
  have ufrom: "unat ?from = unat ?d + unat off"
  proof -
    have "unat ?d + unat off < 2 ^ 32" using offv ad base szp len f(4) by linarith
    then show ?thesis by (simp add: unat_word_ariths)
  qed
  define m2 where "m2 = rep_movsb (unat v) ?from buf m"
  have area: "unat (kmem_base s) + 1024 * ?h \<le> unat ?from" "unat ?from + unat v \<le> unat (kmem_base s) + 131072"
    using ufrom ad assms(8) szp len f(4) by linarith+
  note cp = copy_out [OF base(2) assms(9) area m2_def]
  define s3 where "s3 = s\<lparr>ief := False, ram := m2\<rparr>"
  have "m2 (?bp + of_nat j) = m (?bp + of_nat j)" if "j < 4" for j
  proof (intro cp(2))
    have "unat (?bp + of_nat j) = unat ?bp + j" using ad base len f(4) that by (intro unat_add_small) simp
    moreover have "unat ?bp + j < unat (kmem_base s) + 131072" using ad len f(4) that by linarith
    ultimately show "unat (?bp + of_nat j) < unat buf \<or> unat buf + unat v \<le> unat (?bp + of_nat j)" using assms(9) ad(1) by (auto simp: outside_free_def)
  qed
  then have put: "put_block ?bp (?s1\<lparr>ram := m2\<rparr>) = Inr s3" using giveback [of "?s1\<lparr>ram := m2\<rparr>"] by (simp add: s3_def)
  have "ClusterRead stk rdb buf ino (of_nat i) off v s = Some (Inr (buf + v, s3))"
  proof -
    have "rd (i_block nd) i = Inr ?c" "rd (inodes s) ino = Inr nd" using ii(1) f(5) assms(4,5) by simp_all
    moreover have "?s1\<lparr>ram := memcpy ?from buf v (ram ?s1)\<rparr> = ?s1\<lparr>ram := m2\<rparr>" by (simp add: memcpy_def m2_def)
    ultimately show ?thesis
      unfolding ClusterRead_def Let_def ii(2,3) using ii(1) assms(6) g nz put data by (simp add: sz)
  qed
  moreover have "block_at m2 buf (unat v) = map (\<lambda>j. disk (512 * first_sector bd ?c + unat off + j)) [0..<unat v]"
  proof (rule nth_equalityI)
    fix j
    assume "j < length (block_at m2 buf (unat v))"
    then have j: "j < unat v" by simp
    have e: "?from + of_nat j = ?d + of_nat (unat off + j)" by simp
    have "m2 (buf + of_nat j) = block_at m ?d ?C ! (unat off + j)"
      using cp(1) [OF j] j assms(8) unfolding e by simp
    also have "\<dots> = disk (512 * first_sector bd ?c + (unat off + j))"
      unfolding blk disk_block_def FstSecofDataClu_nat [OF f(7)] using j assms(8) by simp
    finally show "block_at m2 buf (unat v) ! j = map (\<lambda>j. disk (512 * first_sector bd ?c + unat off + j)) [0..<unat v] ! j"
      using j by (simp add: add.assoc)
  qed simp
  moreover have "\<forall>a. \<not> free_area us s a \<longrightarrow> unat a < unat buf \<or> unat buf + unat v \<le> unat a \<longrightarrow> m2 a = ram s a"
    using cp(2) out by simp
  ultimately show ?thesis unfolding s3_def by blast
qed

section \<open>The valid part of a cluster\<close>

lemma cluster_rest:
  assumes "(pos :: nat) < sz" "0 < C"
  shows "(if pos div C = sz div C \<and> sz mod C \<noteq> 0 then sz mod C else C) - pos mod C = min (C - pos mod C) (sz - pos)"
    and "pos mod C \<le> (if pos div C = sz div C \<and> sz mod C \<noteq> 0 then sz mod C else C)"
proof -
  have p: "pos = C * (pos div C) + pos mod C" "sz = C * (sz div C) + sz mod C" by simp_all
  have m: "pos mod C < C" "sz mod C < C" using assms(2) by simp_all
  have le: "pos div C \<le> sz div C" using assms(1) by (intro div_le_mono) simp
  show "pos mod C \<le> (if pos div C = sz div C \<and> sz mod C \<noteq> 0 then sz mod C else C)"
  proof (cases "pos div C = sz div C")
    case True
    then have "C * (pos div C) = C * (sz div C)" by simp
    then have "pos mod C < sz mod C" using p assms(1) by linarith
    then show ?thesis using m by simp
  qed (use m in simp)
  show "(if pos div C = sz div C \<and> sz mod C \<noteq> 0 then sz mod C else C) - pos mod C = min (C - pos mod C) (sz - pos)"
  proof (cases "pos div C = sz div C")
    case True
    then have "C * (pos div C) = C * (sz div C)" by simp
    then have "pos mod C < sz mod C" "sz - pos = sz mod C - pos mod C" using p assms(1) by linarith+
    then show ?thesis using True m by simp
  next
    case False
    then have "C * (pos div C + 1) \<le> C * (sz div C)" using False le by (intro mult_le_mono2) simp
    then have "C * (pos div C) + C \<le> C * (sz div C)" by simp
    then have "C - pos mod C \<le> sz - pos" using p m by linarith
    then show ?thesis using False by simp
  qed
qed

lemma signed_nat: "int a sdiv int b = int (a div b)" "int a smod int b = int (a mod b)"
  by (cases "a = 0"; cases "b = 0"; simp add: signed_divide_int_def signed_modulo_int_def sgn_if zdiv_int zmod_int minus_mult_div_eq_mod)+

lemma valid_size_nat:
  assumes "unat pos < unat filesz" "unat filesz < 2 ^ 31" "0 < unat Clusz" "unat Clusz < 2 ^ 31" "unat left < 2 ^ 31"
  shows "unat (valid_size Clusz filesz pos left) = min (unat left) (min (unat Clusz - unat pos mod unat Clusz) (unat filesz - unat pos))"
proof -
  let ?C = "unat Clusz" and ?z = "unat filesz" and ?p = "unat pos"
  have d: "unat (pos div Clusz) = ?p div ?C" "unat (pos mod Clusz) = ?p mod ?C" by (simp_all add: unat_div unat_mod)
  have "?p div ?C \<le> ?p" by simp
  then have s: "sint (pos div Clusz) = int (?p div ?C)" "sint filesz = int ?z" "sint Clusz = int ?C" "sint left = int (unat left)"
    using assms d by (simp_all only: sint_small d)
  have q: "sint filesz sdiv sint Clusz = int (?z div ?C)" "sint filesz smod sint Clusz = int (?z mod ?C)"
    unfolding s by (rule signed_nat)+
  define v where "v = (if ?p div ?C = ?z div ?C \<and> ?z mod ?C \<noteq> 0 then ?z mod ?C else ?C)"
  have vC: "v \<le> ?C" unfolding v_def using assms(3) by (simp add: less_imp_le)
  have off: "?p mod ?C \<le> v" "v - ?p mod ?C = min (?C - ?p mod ?C) (?z - ?p)"
    unfolding v_def using cluster_rest [OF assms(1,3)] by blast+
  let ?v = "if sint (pos div Clusz) = sint filesz sdiv sint Clusz \<and> sint filesz smod sint Clusz \<noteq> 0
               then of_int (sint filesz smod sint Clusz) else Clusz"
  have "?v = of_nat v" unfolding q unfolding s(1) v_def
    by (simp only: of_nat_eq_iff of_nat_eq_0_iff of_int_of_nat_eq) simp
  then have "unat ?v = v" using vC assms(4) by (simp add: unat_of_nat)
  then have w: "unat (?v - pos mod Clusz) = v - ?p mod ?C"
    using off(1) d(2) by (simp only: unat_sub word_le_nat_alt)
  define V where "V = ?v - pos mod Clusz"
  have uV: "unat V = v - ?p mod ?C" using w by (simp only: V_def)
  then have "unat V < 2 ^ 31" using vC assms(4) by linarith
  then have "sint V = int (unat V)" by (rule sint_small)
  moreover have "valid_size Clusz filesz pos left = (if sint left < sint V then left else V)"
    by (simp only: valid_size_def Let_def V_def)
  ultimately show ?thesis using uV s(4) off(2) by (simp only: of_nat_less_iff min_def split: if_split) linarith
qed

section \<open>The loop\<close>

lemma file_bytes_cluster:
  assumes "p mod cluster_bytes bd + v \<le> cluster_bytes bd"
  shows "map (\<lambda>j. disk (512 * first_sector bd (bl ! (p div cluster_bytes bd)) + p mod cluster_bytes bd + j)) [0..<v]
    = map (file_byte disk bd bl) [p..<p + v]"
proof (rule nth_equalityI)
  fix j
  assume "j < length (map (\<lambda>j. disk (512 * first_sector bd (bl ! (p div cluster_bytes bd)) + p mod cluster_bytes bd + j)) [0..<v])"
  then have j: "j < v" by simp
  have "(p + j) div cluster_bytes bd = p div cluster_bytes bd" "(p + j) mod cluster_bytes bd = p mod cluster_bytes bd + j"
    using j assms div_mult_self1 [of "cluster_bytes bd" "p mod cluster_bytes bd + j" "p div cluster_bytes bd"]
      mod_mult_self2 [of "p mod cluster_bytes bd + j" "cluster_bytes bd" "p div cluster_bytes bd"]
    by (simp_all add: add.assoc [symmetric])
  then show "map (\<lambda>j. disk (512 * first_sector bd (bl ! (p div cluster_bytes bd)) + p mod cluster_bytes bd + j)) [0..<v] ! j
      = map (file_byte disk bd bl) [p..<p + v] ! j"
    using j by (simp add: file_byte_def add.assoc)
qed simp

text \<open>An open file of a volume.\<close>

definition open_file :: "nat \<Rightarrow> filp \<Rightarrow> nat \<Rightarrow> super_block \<Rightarrow> inode \<Rightarrow> 'a kfs_scheme \<Rightarrow> bool" where
  "open_file f fl ino bd nd s \<longleftrightarrow> f < length (filps s) \<and> filps s ! f = fl \<and> f_ino fl = Some ino
     \<and> ino < length (inodes s) \<and> inodes s ! ino = nd \<and> sb_of ino s = Inr bd"

text \<open>The state after \<open>k\<close> bytes have been read.\<close>

definition after_read :: "bool \<Rightarrow> memory \<Rightarrow> nat \<Rightarrow> nat \<Rightarrow> 'a kfs_scheme \<Rightarrow> 'a kfs_scheme" where
  "after_read e m f k s = s\<lparr>ief := e, ram := m, filps := (filps s)[f := (filps s ! f)\<lparr>f_pos := f_pos (filps s ! f) + of_nat k\<rparr>]\<rparr>"

lemma after_read_open:
  "open_file f fl ino bd nd s \<Longrightarrow> open_file f (fl\<lparr>f_pos := f_pos fl + of_nat k\<rparr>) ino bd nd (after_read e m f k s)"
  using sb_of_cong [of "after_read e m f k s" s ino] by (simp add: open_file_def after_read_def)

lemma after_read_sel:
  "room us n (after_read e m f k s) = room us n s" "free_area us (after_read e m f k s) = free_area us s"
  "outside_free us (after_read e m f k s) = outside_free us s" "ram (after_read e m f k s) = m"
  by (auto simp: after_read_def free_area_def outside_free_def fun_eq_iff intro!: room_cong)

lemma after_read_0: "f < length (filps s) \<Longrightarrow> after_read (ief s) (ram s) f 0 s = s"
  by (simp add: after_read_def)

lemma after_read_twice:
  "f < length (filps s) \<Longrightarrow> after_read e2 m2 f k2 (after_read e m f k s) = after_read e2 m2 f (k + k2) s"
  by (simp add: after_read_def add.assoc)

lemma file_ok_sizes:
  assumes "file_ok bd nd n"
  shows "sb_cluster_size bd * sb_sector_size bd = of_nat (cluster_bytes bd)" "unat (of_nat (cluster_bytes bd) :: u32) = cluster_bytes bd"
    "0 < cluster_bytes bd" "cluster_bytes bd \<le> 65536" "unat (i_size nd) < 2 ^ 31"
proof -
  show s: "0 < cluster_bytes bd" "cluster_bytes bd \<le> 65536" using assms by (simp_all add: file_ok_def cluster_bytes_def)
  then show "unat (of_nat (cluster_bytes bd) :: u32) = cluster_bytes bd" by (simp add: unat_of_nat)
  show "unat (i_size nd) < 2 ^ 31" using assms s(2) by (auto simp: file_ok_def)
  show "sb_cluster_size bd * sb_sector_size bd = of_nat (cluster_bytes bd)"
    using assms by (simp add: file_ok_def sb_ok_def cluster_bytes_def)
qed

text \<open>Once around the loop: the rest of the cluster, of the file or of the count, whichever is least.\<close>

lemma filp_read_step:
  assumes "room us n s" "reads_disk disk rdb" "file_ok bd nd n" "open_file f fl ino bd nd s"
    and "unat (f_pos fl) < unat (i_size nd)" "unat left < 2 ^ 31" "left \<noteq> 0"
    and "v = min (unat left) (min (cluster_bytes bd - unat (f_pos fl) mod cluster_bytes bd) (unat (i_size nd) - unat (f_pos fl)))"
    and "outside_free us s buf v"
  shows "\<exists>m. filp_read_loop stk rdb (of_nat (cluster_bytes bd)) (i_size nd) buf left f s
      = filp_read_loop stk rdb (of_nat (cluster_bytes bd)) (i_size nd) (buf + of_nat v) (left - of_nat v) f (after_read False m f v s)
    \<and> block_at m buf v = map (file_byte disk bd (i_block nd)) [unat (f_pos fl)..<unat (f_pos fl) + v]
    \<and> (\<forall>a. \<not> free_area us s a \<longrightarrow> unat a < unat buf \<or> unat buf + v \<le> unat a \<longrightarrow> m a = ram s a)"
proof -
  let ?C = "cluster_bytes bd" and ?p = "unat (f_pos fl)"
  let ?W = "of_nat ?C :: u32"
  note C = file_ok_sizes [OF assms(3)]
  let ?v = "valid_size ?W (i_size nd) (f_pos fl) left"
  have uv: "unat ?v = v" using valid_size_nat [OF assms(5) C(5) _ _ assms(6), of ?W] C(2-4) assms(8) by simp
  then have vw: "of_nat v = ?v" by (simp only: word_unat_eq_iff) (simp add: unat_of_nat flip: uv)
  have q: "f_pos fl div ?W = of_nat (?p div ?C)" "unat (f_pos fl mod ?W) = ?p mod ?C"
  proof -
    show "f_pos fl div ?W = of_nat (?p div ?C)" unfolding word_arith_nat_div C(2) ..
    show "unat (f_pos fl mod ?W) = ?p mod ?C" by (simp add: unat_mod C(2))
  qed
  have o: "f < length (filps s)" "filps s ! f = fl" "f_ino fl = Some ino" "ino < length (inodes s)" "inodes s ! ino = nd" "sb_of ino s = Inr bd"
    using assms(4) by (simp_all add: open_file_def)
  have m: "?p mod ?C < ?C" using C(3) by simp
  have fit: "?p mod ?C + v \<le> ?C" unfolding assms(8) using m by linarith
  have lt: "?p div ?C * ?C < unat (i_size nd)" using assms(5) div_times_less_eq_dividend [of ?p ?C] by linarith
  obtain mm where r: "ClusterRead stk rdb buf ino (of_nat (?p div ?C)) (f_pos fl mod ?W) ?v s = Some (Inr (buf + ?v, s\<lparr>ief := False, ram := mm\<rparr>))"
    "block_at mm buf v = map (\<lambda>j. disk (512 * first_sector bd (i_block nd ! (?p div ?C)) + ?p mod ?C + j)) [0..<v]"
    "\<forall>a. \<not> free_area us s a \<longrightarrow> unat a < unat buf \<or> unat buf + v \<le> unat a \<longrightarrow> mm a = ram s a"
    using ClusterRead_spec [OF assms(1-3) o(4-6) lt, of "f_pos fl mod ?W" ?v buf stk] q(2) uv fit assms(9) by auto
  have "?W \<noteq> 0" using C(2,3) by (auto simp flip: unat_eq_zero)
  moreover have "0 < sint left"
    unfolding sint_small [OF assms(6)] of_nat_0_less_iff using assms(7) by (simp add: unat_gt_0)
  moreover have "f_pos fl < i_size nd" using assms(5) by (simp add: word_less_nat_alt)
  moreover have "filp_inode f s = Inr (ino, nd)" using o by (simp add: filp_inode_def)
  ultimately have "filp_read_loop stk rdb ?W (i_size nd) buf left f s
      = filp_read_loop stk rdb ?W (i_size nd) (buf + of_nat v) (left - of_nat v) f (after_read False mm f v s)"
    unfolding vw using o r(1) by (subst filp_read_loop.simps) (simp add: Let_def q(1) after_read_def vw)
  then show ?thesis using r(2,3) file_bytes_cluster [OF fit] by metis
qed

lemma outside_free_part: "outside_free us s buf (v + k) \<Longrightarrow> outside_free us s buf v \<and> outside_free us s (buf + of_nat v) k"
  using unat_add_small [of buf v] by (auto simp: outside_free_def)

lemma outside_free_kept:
  assumes "outside_free us s buf v" "\<And>a. \<not> free_area us s a \<Longrightarrow> unat a < unat buf + v \<Longrightarrow> m' a = m a"
  shows "block_at m' buf v = block_at m buf v"
proof (rule nth_equalityI)
  fix j
  assume "j < length (block_at m' buf v)"
  then have j: "j < v" by simp
  then have u: "unat (buf + of_nat j) = unat buf + j" using assms(1) by (intro unat_add_small) (simp add: outside_free_def)
  then have "\<not> free_area us s (buf + of_nat j)" using outside_free_mem [OF assms(1)] j by simp
  then show "block_at m' buf v ! j = block_at m buf v ! j" using assms(2) u j by simp
qed simp

lemma filp_read_loop_spec:
  assumes "room us n s" "reads_disk disk rdb" "file_ok bd nd n" "open_file f fl ino bd nd s" "unat left < 2 ^ 31"
    and "k = min (unat left) (unat (i_size nd) - unat (f_pos fl))" "outside_free us s buf k"
  shows "\<exists>e m. filp_read_loop stk rdb (of_nat (cluster_bytes bd)) (i_size nd) buf left f s = Some (Inr (after_read e m f k s))
    \<and> block_at m buf k = map (file_byte disk bd (i_block nd)) [unat (f_pos fl)..<unat (f_pos fl) + k]
    \<and> (\<forall>a. \<not> free_area us s a \<longrightarrow> unat a < unat buf \<or> unat buf + k \<le> unat a \<longrightarrow> m a = ram s a)"
  using assms
proof (induction "unat left" arbitrary: left buf k fl s rule: less_induct)
  case less
  let ?C = "cluster_bytes bd" and ?p = "unat (f_pos fl)" and ?z = "unat (i_size nd)"
  note C = file_ok_sizes [OF less.prems(3)]
  have o: "f < length (filps s)" "filps s ! f = fl" using less.prems(4) by (simp_all add: open_file_def)
  show ?case
  proof (cases "left \<noteq> 0 \<and> ?p < ?z")
    case False
    then have "\<not> (0 < sint left \<and> f_pos fl < i_size nd)" by (auto simp: word_less_nat_alt)
    then have "filp_read_loop stk rdb (of_nat ?C) (i_size nd) buf left f s = Some (Inr s)"
      using o by (subst filp_read_loop.simps) auto
    moreover have "k = 0" using False less.prems(6) by auto
    ultimately show ?thesis using o
      by (intro exI [of _ "ief s"] exI [of _ "ram s"]) (simp add: after_read_0)
  next
    case True
    define v where "v = min (unat left) (min (?C - ?p mod ?C) (?z - ?p))"
    have m: "?p mod ?C < ?C" using C(3) by simp
    have v0: "0 < v" "v \<le> unat left" "v \<le> ?z - ?p" unfolding v_def using True m by (auto simp: unat_gt_0)
    have k: "k = v + (k - v)" unfolding less.prems(6) using v0 by simp
    note out = outside_free_part [of us s buf v "k - v", folded k, OF less.prems(7)]
    obtain m1 where step: "filp_read_loop stk rdb (of_nat ?C) (i_size nd) buf left f s
        = filp_read_loop stk rdb (of_nat ?C) (i_size nd) (buf + of_nat v) (left - of_nat v) f (after_read False m1 f v s)"
      "block_at m1 buf v = map (file_byte disk bd (i_block nd)) [?p..<?p + v]"
      "\<forall>a. \<not> free_area us s a \<longrightarrow> unat a < unat buf \<or> unat buf + v \<le> unat a \<longrightarrow> m1 a = ram s a"
      using filp_read_step [OF less.prems(1-4) _ less.prems(5) _ v_def, of buf stk] True out by blast
    let ?s1 = "after_read False m1 f v s" and ?fl1 = "fl\<lparr>f_pos := f_pos fl + of_nat v\<rparr>"
    have l1: "unat (left - of_nat v) = unat left - v"
    proof -
      have "unat (of_nat v :: u32) = v" using v0(2) less.prems(5) by (simp add: unat_of_nat)
      then show ?thesis using v0(2) by (simp add: unat_sub word_le_nat_alt)
    qed
    have "?p + v < 2 ^ 32" using v0(3) C(5) conjunct2 [OF True] by simp
    then have p1: "unat (f_pos ?fl1) = ?p + v" using unat_add_small [of "f_pos fl" v] by simp
    have h: "unat (left - of_nat v) < unat left" "room us n ?s1" "open_file f ?fl1 ino bd nd ?s1" "unat (left - of_nat v) < 2 ^ 31"
      "outside_free us ?s1 (buf + of_nat v) (k - v)"
      using l1 v0 less.prems(1,5,6) out after_read_open [OF less.prems(4), of v False m1] unfolding after_read_sel p1 by simp_all
    have kv: "k - v = min (unat (left - of_nat v)) (unat (i_size nd) - unat (f_pos ?fl1))"
      unfolding less.prems(6) l1 p1 by linarith
    obtain e m2 where IH: "filp_read_loop stk rdb (of_nat ?C) (i_size nd) (buf + of_nat v) (left - of_nat v) f ?s1 = Some (Inr (after_read e m2 f (k - v) ?s1))"
      "block_at m2 (buf + of_nat v) (k - v) = map (file_byte disk bd (i_block nd)) [?p + v..<?p + v + (k - v)]"
      "\<forall>a. \<not> free_area us s a \<longrightarrow> unat a < unat (buf + of_nat v) \<or> unat (buf + of_nat v) + (k - v) \<le> unat a \<longrightarrow> m2 a = m1 a"
      using less.hyps [OF h(1,2) less.prems(2,3) h(3,4) kv h(5)] unfolding after_read_sel p1 by blast
    have ub: "unat (buf + of_nat v) = unat buf + v" using out by (intro unat_add_small) (simp add: outside_free_def)
    have keep: "block_at m2 buf v = block_at m1 buf v"
      using outside_free_kept [of us s buf v m2 m1] out IH(3) ub by simp
    have "[?p..<?p + v] @ [?p + v..<?p + v + (k - v)] = [?p..<?p + v + (k - v)]" by (rule upt_add_eq_append [symmetric]) simp
    then have "block_at m2 buf (v + (k - v)) = map (file_byte disk bd (i_block nd)) [?p..<?p + (v + (k - v))]"
      by (simp only: block_at_add keep step(2) IH(2) add.assoc flip: map_append)
    then have "block_at m2 buf k = map (file_byte disk bd (i_block nd)) [?p..<?p + k]" by (simp only: k [symmetric])
    moreover have "\<forall>a. \<not> free_area us s a \<longrightarrow> unat a < unat buf \<or> unat buf + k \<le> unat a \<longrightarrow> m2 a = ram s a"
      using IH(3) step(3) ub k by auto
    ultimately show ?thesis using step(1) IH(1) after_read_twice [OF o(1)] k by metis
  qed
qed

lemma filp_read_spec:
  assumes "room us n s" "reads_disk disk rdb" "file_ok bd nd n" "open_file f fl ino bd nd s" "unat sz < 2 ^ 31"
    and "k = min (unat sz) (unat (i_size nd) - unat (f_pos fl))" "outside_free us s buf k"
  shows "\<exists>e m. filp_read stk rdb buf sz f s = Some (Inr (of_nat k, after_read e m f k s))
    \<and> block_at m buf k = map (file_byte disk bd (i_block nd)) [unat (f_pos fl)..<unat (f_pos fl) + k]
    \<and> (\<forall>a. \<not> free_area us s a \<longrightarrow> unat a < unat buf \<or> unat buf + k \<le> unat a \<longrightarrow> m a = ram s a)"
proof -
  obtain e m where r: "filp_read_loop stk rdb (of_nat (cluster_bytes bd)) (i_size nd) buf sz f s = Some (Inr (after_read e m f k s))"
    "block_at m buf k = map (file_byte disk bd (i_block nd)) [unat (f_pos fl)..<unat (f_pos fl) + k]"
    "\<forall>a. \<not> free_area us s a \<longrightarrow> unat a < unat buf \<or> unat buf + k \<le> unat a \<longrightarrow> m a = ram s a"
    using filp_read_loop_spec [OF assms] by blast
  have "filp_read stk rdb buf sz f s = Some (Inr (of_nat k, after_read e m f k s))"
    using assms(4) r(1) file_ok_sizes(1) [OF assms(3)]
    by (simp add: filp_read_def filp_inode_def open_file_def after_read_def)
  then show ?thesis using r(2,3) by blast
qed

section \<open>Properties\<close>

text \<open>
  Property C8: \<open>filp_read\<close> returns, for a file of at most ten clusters, with the number of bytes asked for or left in it, whichever is
  less. Those bytes of the file are in the buffer, in order and across clusters, the position has moved
  on by their number, the kernel pages are free again, and nothing else in memory has changed.
\<close>

theorem filp_read_returns:
  assumes "room us n s" "reads_disk disk rdb" "file_ok bd nd n" "open_file f fl ino bd nd s" "unat sz < 2 ^ 31"
    and "k = min (unat sz) (unat (i_size nd) - unat (f_pos fl))" "outside_free us s buf k"
  shows "\<exists>e m. filp_read stk rdb buf sz f s = Some (Inr (of_nat k, after_read e m f k s))
    \<and> block_at m buf k = map (file_byte disk bd (i_block nd)) [unat (f_pos fl)..<unat (f_pos fl) + k]
    \<and> (\<forall>a. \<not> free_area us s a \<longrightarrow> unat a < unat buf \<or> unat buf + k \<le> unat a \<longrightarrow> m a = ram s a)"
  using filp_read_spec [OF assms] .

text \<open>The file system above after \<open>read_map\<close>: the file's 700 bytes are in the sectors 3 and 4.\<close>

definition two_clusters :: kfs where
  "two_clusters = with_blocks 0 ([2, 3] @ replicate 8 0) small_fs"

lemma two_clusters_ok:
  "room [] 128 two_clusters" "file_ok small_super (small_inode\<lparr>i_block := [2, 3] @ replicate 8 0\<rparr>) 128"
  "open_file 0 \<lparr>f_ino = Some 0, f_pos = 0, f_count = 1\<rparr> 0 small_super (small_inode\<lparr>i_block := [2, 3] @ replicate 8 0\<rparr>) two_clusters"
  "outside_free [] two_clusters 0x500000 600"
proof -
  show "room [] 128 two_clusters" using small_fs_ok(1) room_cong [of two_clusters small_fs] by (simp add: two_clusters_def with_blocks_def)
  have p: "pages_of 512 = 1" by (simp add: pages_of_ceil)
  have "clu_ok small_super (([2, 3] @ replicate 8 0) ! i)" if "i * 512 < 700" for i
  proof -
    have "i = 0 \<or> i = 1" using that by linarith
    then show ?thesis by (auto simp: clu_ok_def first_sector_def small_super_def)
  qed
  then show "file_ok small_super (small_inode\<lparr>i_block := [2, 3] @ replicate 8 0\<rparr>) 128"
    using small_fs_ok(4) p by (simp add: file_ok_def cluster_bytes_def small_super_def small_inode_def)
  show "open_file 0 \<lparr>f_ino = Some 0, f_pos = 0, f_count = 1\<rparr> 0 small_super (small_inode\<lparr>i_block := [2, 3] @ replicate 8 0\<rparr>) two_clusters"
    by (simp add: open_file_def two_clusters_def with_blocks_def small_fs_sel sb_of_def small_inode_def)
  show "outside_free [] two_clusters 0x500000 600"
    by (simp add: outside_free_def two_clusters_def with_blocks_def small_fs_sel)
qed

theorem filp_read_returns_witness:
  "\<exists>e m. filp_read (replicate 100 0) (copy_reader (\<lambda>k. of_nat (k div 512))) 0x500000 600 0 two_clusters
      = Some (Inr (600, after_read e m 0 600 two_clusters)) \<and> m 0x500000 = 3 \<and> m 0x500200 = 4"
proof -
  let ?fl = "\<lparr>f_ino = Some 0, f_pos = 0, f_count = 1\<rparr>" and ?g = "file_byte (\<lambda>k. of_nat (k div 512)) small_super ([2, 3] @ replicate 8 0)"
  have sz: "unat (600 :: u32) < 2 ^ 31" "600 = min (unat (600 :: u32)) (unat (i_size (small_inode\<lparr>i_block := [2, 3] @ replicate 8 0\<rparr>)) - unat (f_pos ?fl))"
    by (simp_all add: small_inode_def)
  obtain e m where r: "filp_read (replicate 100 0) (copy_reader (\<lambda>k. of_nat (k div 512))) 0x500000 600 0 two_clusters
      = Some (Inr (of_nat 600, after_read e m 0 600 two_clusters))"
    "block_at m 0x500000 600 = map (file_byte (\<lambda>k. of_nat (k div 512)) small_super (i_block (small_inode\<lparr>i_block := [2, 3] @ replicate 8 0\<rparr>)))
        [unat (f_pos ?fl)..<unat (f_pos ?fl) + 600]"
    using filp_read_returns [OF two_clusters_ok(1) copy_reader_reads two_clusters_ok(2,3) sz two_clusters_ok(4), of "replicate 100 0"] by blast
  have nth: "block_at m 0x500000 600 ! j = ?g j" if "j < 600" for j
    unfolding r(2) using that by (subst nth_map) (simp_all only: length_upt nth_upt small_inode_def inode.simps inode.update_convs filp.simps unsigned_0 add_0 diff_zero)
  have "m 0x500000 = 3" "m 0x500200 = 4" using nth [of 0] nth [of 512]
    by (simp_all add: file_byte_def cluster_bytes_def first_sector_def small_super_def)
  then show ?thesis using r(1) by auto
qed

end
