(* ===== verification/Dir_Props.thy ===== *)
theory Dir_Props
  imports Fs_Open Fat_Props
begin

text \<open>
  What opening a file relies on: the name of a directory entry, the first entry of a directory with a
  given name, and the search for an unused super block.
\<close>

section \<open>Short names\<close>

text \<open>
  The name of a directory entry of eleven bytes: the part before the blanks that fill it up, a point when
  there is an extension, and the extension without blanks.
\<close>

definition trim :: "u8 list \<Rightarrow> u8 list" where
  "trim bs = rev (dropWhile (\<lambda>c. c = 32) (rev bs))"

definition dos_name :: "u8 list \<Rightarrow> u8 list" where
  "dos_name bs = trim (take 8 bs) @ (if bs ! 8 \<noteq> 32 then [46] else []) @ filter (\<lambda>c. c \<noteq> 32) (drop 8 bs)"

lemma block_at_Suc: "block_at m a (Suc n) = block_at m a n @ [m (a + of_nat n)]"
  by (simp add: block_at_def)

lemma block_at_Cons: "block_at m a (Suc n) = m a # block_at m (a + 1) n"
  using block_at_add [of m a 1 n] by (simp add: block_at_def)

lemma main_len_trim: "trim (block_at m a n) = take (main_len m a n) (block_at m a n) \<and> main_len m a n \<le> n"
  by (induction n) (auto simp: trim_def block_at_Suc)

lemma copy_main_take:
  "p + n \<le> length to \<Longrightarrow> copy_main m n a p to = Inr (take p to @ block_at m a n @ drop (p + n) to)"
proof (induction n arbitrary: a p to)
  case (Suc n)
  have "to[p := m a] = take p to @ m a # drop (Suc p) to" using Suc.prems by (simp add: upd_conv_take_nth_drop)
  then show ?case using Suc by (simp add: block_at_Cons add.commute)
qed simp

lemma copy_ext_filter:
  "p + n \<le> length to \<Longrightarrow> copy_ext m n a p to =
    (let e = filter (\<lambda>c. c \<noteq> 32) (block_at m a n) in Inr (p + length e, take p to @ e @ drop (p + length e) to))"
proof (induction n arbitrary: a p to)
  case (Suc n)
  have "to[p := m a] = take p to @ m a # drop (Suc p) to" using Suc.prems by (simp add: upd_conv_take_nth_drop)
  then show ?case using Suc.IH [of p to "a + 1"] Suc.IH [of "Suc p" "to[p := m a]" "a + 1"] Suc.prems
    by (simp add: block_at_Cons Let_def add.commute)
qed (simp add: Let_def)

lemma dos_name_block:
  "dos_name (block_at m a 11) = take (main_len m a 8) (block_at m a 8) @ (if m (a + 8) \<noteq> 32 then [46] else [])
     @ filter (\<lambda>c. c \<noteq> 32) (block_at m (a + 8) 3)"
proof -
  have "block_at m a 11 = block_at m a 8 @ block_at m (a + 8) 3" using block_at_add [of m a 8 3] by simp
  then show ?thesis using main_len_trim [of m a 8] by (simp add: dos_name_def nth_append)
qed

lemma dos_name_length: "length (dos_name (block_at m a 11)) \<le> 12"
proof -
  have "length (filter (\<lambda>c. c \<noteq> 32) (block_at m (a + 8) 3)) \<le> length (block_at m (a + 8) 3)" by (rule length_filter_le)
  then show ?thesis using main_len_trim [of m a 8] unfolding dos_name_block by auto
qed

lemma wr_drop: "length pre = n \<Longrightarrow> n < length to \<Longrightarrow> wr (pre @ drop n to) n v = Inr (pre @ v # drop (n + 1) to)"
  by (cases "drop n to") (auto simp: list_update_append drop_Suc simp flip: tl_drop)

lemma shortnamecopy_put:
  assumes "length to = 13"
  shows "shortnamecopy m a to = Inr (dos_name (block_at m a 11) @ 0 # drop (length (dos_name (block_at m a 11)) + 1) to)"
proof -
  let ?n = "main_len m a 8" and ?e = "filter (\<lambda>c. c \<noteq> 32) (block_at m (a + 8) 3)"
  define x :: "u8 list" where "x = (if m (a + 8) \<noteq> 32 then [46] else [])"
  define b where "b = take ?n (block_at m a 8)"
  have n: "?n \<le> 8" "length b = ?n" "length x \<le> 1" using main_len_trim [of m a 8] by (auto simp: b_def x_def)
  have e: "length ?e \<le> 3" using length_filter_le [of "\<lambda>c. c \<noteq> 32" "block_at m (a + 8) 3"] by simp
  have bn: "block_at m a ?n = b" using n by (simp add: block_at_def b_def take_map)
  have c1: "copy_main m ?n a 0 to = Inr (b @ drop ?n to)" using copy_main_take [of 0 ?n to] n assms bn by simp
  let ?to2 = "(b @ x) @ drop (?n + length x) to"
  have c2: "(if m (a + 8) \<noteq> 32 then res_bind (wr (b @ drop ?n to) ?n 46) (\<lambda>t. Inr (?n + 1, t)) else Inr (?n, b @ drop ?n to))
      = Inr (?n + length x, ?to2)"
    using wr_drop [of b ?n to 46] n assms by (simp add: x_def)
  have c3: "copy_ext m 3 (a + 8) (?n + length x) ?to2 = Inr (?n + length x + length ?e, (b @ x @ ?e) @ drop (?n + length x + length ?e) to)"
    using copy_ext_filter [of "?n + length x" 3 ?to2 m "a + 8"] n assms by (simp add: Let_def add.commute add.left_commute)
  have "wr ((b @ x @ ?e) @ drop (?n + length x + length ?e) to) (?n + length x + length ?e) 0
      = Inr ((b @ x @ ?e) @ 0 # drop (?n + length x + length ?e + 1) to)"
    using n e assms by (intro wr_drop) simp_all
  moreover have "dos_name (block_at m a 11) = b @ x @ ?e" unfolding dos_name_block b_def x_def ..
  moreover have "length (b @ x @ ?e) = ?n + length x + length ?e" using n(2) by simp
  ultimately show ?thesis
    unfolding shortnamecopy_def Let_def c1 by (simp only: res_bind_Inr c2 prod.case c3)
qed

section \<open>The scan of a directory\<close>

text \<open>
  The entries that the scan looks at: not a part of a long name, and not a deleted one. Names are compared
  up to a NUL.
\<close>

abbreviation c_part :: "u8 list \<Rightarrow> u8 list" where
  "c_part \<equiv> takeWhile (\<lambda>c. c \<noteq> 0)"

definition listed :: "memory \<Rightarrow> u32 \<Rightarrow> bool" where
  "listed m a \<longleftrightarrow> m (a + 11) AND 0x3F \<noteq> 0x0F \<and> m a \<noteq> 0xE5"

definition entry_name :: "memory \<Rightarrow> u32 \<Rightarrow> u8 list" where
  "entry_name m a = c_part (dos_name (block_at m a 11))"

definition entry_addrs :: "u32 \<Rightarrow> nat \<Rightarrow> u32 list" where
  "entry_addrs a n = map (\<lambda>i. a + 32 * of_nat i) [0..<n]"

definition dir_lookup :: "memory \<Rightarrow> u32 \<Rightarrow> nat \<Rightarrow> u8 list \<Rightarrow> u32 option" where
  "dir_lookup m buf n name = find (\<lambda>a. listed m a \<and> entry_name m a = c_part name) (entry_addrs buf n)"

text \<open>The inode of an entry found.\<close>

definition entry_inode :: "memory \<Rightarrow> u32 \<Rightarrow> inode \<Rightarrow> inode" where
  "entry_inode m a nd = nd\<lparr>i_block := (i_block nd)[0 := push_bit 16 (ucast (u16_at m (a + 20))) OR ucast (u16_at m (a + 26))],
     i_size := u32_at m (a + 28), i_name := entry_name m a @ 0 # drop (Suc (length (entry_name m a))) (i_name nd)\<rparr>"

definition off_entry :: "u32 \<Rightarrow> bool" where
  "off_entry a \<longleftrightarrow> (\<forall>j < 32. off_screen (a + of_nat j))"

lemma entry_addrs_Suc: "entry_addrs a (Suc n) = a # entry_addrs (a + 32) n"
proof -
  have "[0..<Suc n] = 0 # map Suc [0..<n]" by (simp add: map_Suc_upt upt_conv_Cons del: upt_Suc)
  then show ?thesis by (simp add: entry_addrs_def comp_def distrib_left add.assoc del: upt_Suc)
qed

lemma dir_lookup_mem: "dir_lookup m a n name = Some d \<Longrightarrow> d \<in> set (entry_addrs a n)"
  by (auto simp: dir_lookup_def find_Some_iff)

text \<open>An entry is what its 32 bytes are.\<close>

lemma entry_cong:
  assumes "\<And>j. j < 32 \<Longrightarrow> m (a + of_nat j) = m' (b + of_nat j)"
  shows "dir_entry_at m a = dir_entry_at m' b" "listed m a = listed m' b" "entry_name m a = entry_name m' b"
    "entry_inode m a = entry_inode m' b" "block_at m a 11 = block_at m' b 11"
proof -
  note k = assms [of 0] assms [of 11] assms [of 20] assms [of 21] assms [of 26] assms [of 27] assms [of 28] assms [of 29]
    assms [of 30] assms [of 31]
  show bl: "block_at m a 11 = block_at m' b 11" using assms by (intro nth_equalityI) simp_all
  then show e: "entry_name m a = entry_name m' b" by (simp add: entry_name_def)
  show "listed m a = listed m' b" using k by (simp add: listed_def)
  have w: "u16_at m (a + 20) = u16_at m' (b + 20)" "u16_at m (a + 26) = u16_at m' (b + 26)" "u32_at m (a + 28) = u32_at m' (b + 28)"
    using k by (simp_all add: u16_at_def u32_at_bytes add.assoc)
  then show "dir_entry_at m a = dir_entry_at m' b" using k by (simp add: dir_entry_at_def)
  show "entry_inode m a = entry_inode m' b" using w e by (simp add: entry_inode_def fun_eq_iff)
qed

lemma off_entry_same:
  assumes "on_screen s s'" "off_entry a"
  shows "dir_entry_at (ram s') a = dir_entry_at (ram s) a" "listed (ram s') a = listed (ram s) a"
    "entry_name (ram s') a = entry_name (ram s) a" "entry_inode (ram s') a = entry_inode (ram s) a"
proof -
  have "ram s' (a + of_nat j) = ram s (a + of_nat j)" if "j < 32" for j
    using assms that by (intro on_screen_ram [OF assms(1)]) (simp add: off_entry_def off_screen_def)
  from entry_cong [of "ram s'" a "ram s" a, OF this]
  show "dir_entry_at (ram s') a = dir_entry_at (ram s) a" "listed (ram s') a = listed (ram s) a"
    "entry_name (ram s') a = entry_name (ram s) a" "entry_inode (ram s') a = entry_inode (ram s) a" by simp_all
qed

lemma mask_3f: "ATTR_LONG_NAME_MASK = 0x3F" "ATTR_LONG_NAME = 0x0F"
  by (simp_all add: attr_defs)

lemma show_kind_prints:
  assumes "cons_ok s" "length stk = STACK_SIZE"
  shows "\<exists>s'. show_kind stk attr s = Inr s' \<and> on_screen s s' \<and> cons_ok s'"
proof -
  have p: "\<exists>s'. printk stk (fmt @ [0]) [] s = Inr s' \<and> on_screen s s' \<and> cons_ok s'"
    if "of_char (CHR ''%'') \<notin> set fmt" "0 \<notin> set fmt" "length fmt < 100" for fmt :: "u8 list"
    using printk_terminal [OF render_plain [OF that(1)] that(2) _ assms(1), of stk "[]"] that(3) assms(2) by (auto simp: STACK_SIZE_def)
  have q: "\<exists>s'. Inr s = Inr s' \<and> on_screen s s' \<and> cons_ok s'" using assms(1) on_screen_refl by blast
  show ?thesis unfolding show_kind_def
    using p [of "[10]"] p [of "bytes ''/'' @ [10]"] p [of "bytes ''<LABLE>'' @ [10]"] q
    by (simp add: bytes_def of_char_def)
qed

text \<open>An entry that is listed: its name is printed and compared.\<close>

lemma listed_step:
  assumes "cons_ok s" "length stk = STACK_SIZE" "length fname = 13"
  shows "\<exists>fname1 s1. shortnamecopy (ram s) a fname = Inr fname1 \<and> length fname1 = 13 \<and> cstring fname1 = Inr (entry_name (ram s) a)
    \<and> printk stk (bytes ''%s'' @ [0]) [Va_str fname1] s = Inr s1 \<and> on_screen s s1 \<and> cons_ok s1"
proof -
  let ?d = "dos_name (block_at (ram s) a 11)"
  define fname1 where "fname1 = ?d @ 0 # drop (length ?d + 1) fname"
  have put: "shortnamecopy (ram s) a fname = Inr fname1" unfolding fname1_def by (rule shortnamecopy_put [OF assms(3)])
  have len: "length fname1 = 13" using dos_name_length [of "ram s" a] assms(3) by (simp add: fname1_def)
  have str: "cstring fname1 = Inr (entry_name (ram s) a)" unfolding fname1_def entry_name_def by (rule cstring_takeWhile)
  have "length (entry_name (ram s) a) \<le> length ?d" unfolding entry_name_def by (rule length_takeWhile_le)
  then have "length (entry_name (ram s) a) < 100" using dos_name_length [of "ram s" a] by linarith
  moreover have "render (bytes ''%s'') [Va_str fname1] = Some (entry_name (ram s) a)"
    using str by (simp add: bytes_def item_def of_char_def)
  ultimately have "\<exists>s1. printk stk (bytes ''%s'' @ [0]) [Va_str fname1] s = Inr s1 \<and> on_screen s s1 \<and> cons_ok s1"
    using printk_terminal [of "bytes ''%s''" "[Va_str fname1]" _ stk s] assms(1,2) by (fastforce simp: STACK_SIZE_def bytes_def of_char_def)
  then show ?thesis using put len str by blast
qed

text \<open>What the scan makes of an entry found: an unused inode, if there is one, with the entry's data.\<close>

definition take_inode :: "memory \<Rightarrow> u32 \<Rightarrow> 'a kfs_scheme \<Rightarrow> nat option \<times> 'a kfs_scheme" where
  "take_inode m d s = (case alloc_slot (inode_pool s) of
     (None, p) \<Rightarrow> (None, s\<lparr>inode_pool := p\<rparr>)
   | (Some ip, p) \<Rightarrow> (Some ip, s\<lparr>inode_pool := p, inodes := (inodes s)[ip := entry_inode m d (inodes s ! ip)]\<rparr>))"

definition spare_inode :: "'a kfs_scheme \<Rightarrow> bool" where
  "spare_inode s \<longleftrightarrow> (\<forall>ip p. alloc_slot (inode_pool s) = (Some ip, p) \<longrightarrow>
     ip < length (inodes s) \<and> length (i_block (inodes s ! ip)) = 10 \<and> length (i_name (inodes s ! ip)) = 255)"

lemma on_screen_inodes:
  "on_screen s s' \<Longrightarrow> inode_pool s' = inode_pool s \<and> inodes s' = inodes s"
  "on_screen s s' \<Longrightarrow> spare_inode s' = spare_inode s"
  by (auto simp: on_screen_def spare_inode_def)

lemma scan_found:
  assumes "cstring fname = Inr (entry_name (ram s) a)" "off_entry a" "on_screen s s1" "spare_inode s"
  shows "(let (rip, s2) = get_inode s1; de1 = dir_entry_at (ram s2) a in
           case rip of None \<Rightarrow> Inr (None, s2)
           | Some ip \<Rightarrow>
               res_bind (rd (inodes s2) ip) (\<lambda>nd.
               res_bind (wr (i_block nd) 0 (push_bit 16 (ucast (de_fstclushi de1)) OR ucast (de_fstcluslo de1))) (\<lambda>bl.
               res_bind (strcpy (i_name nd) fname) (\<lambda>nm.
               Inr (Some ip, s2\<lparr>inodes := (inodes s2)[ip := nd\<lparr>i_block := bl, i_size := de_size de1, i_name := nm\<rparr>]\<rparr>)))))
    = Inr (take_inode (ram s) a s1)"
proof (cases "alloc_slot (inode_pool s1)")
  case (Pair r p)
  show ?thesis
  proof (cases r)
    case None
    then show ?thesis using Pair by (simp add: get_inode_def take_inode_def)
  next
    case (Some ip)
    let ?nd = "inodes s1 ! ip"
    have b: "ip < length (inodes s1)" "length (i_block ?nd) = 10" "length (i_name ?nd) = 255"
      using assms(4) Pair Some on_screen_inodes [OF assms(3)] by (auto simp: spare_inode_def)
    have "length (entry_name (ram s) a) < length (i_name ?nd)"
      using length_takeWhile_le [of "\<lambda>c. c \<noteq> 0" "dos_name (block_at (ram s) a 11)"] dos_name_length [of "ram s" a] b(3)
      by (simp add: entry_name_def)
    then have "strcpy (i_name ?nd) fname = Inr (entry_name (ram s) a @ 0 # drop (Suc (length (entry_name (ram s) a))) (i_name ?nd))"
      by (rule strcpy_cstring [OF assms(1)])
    then show ?thesis using Pair Some b off_entry_same(1) [OF assms(3,2)]
      by (simp add: get_inode_def take_inode_def entry_inode_def dir_entry_at_def)
  qed
qed

lemma scan_loop_spec:
  assumes "cons_ok s" "length stk = STACK_SIZE" "length fname = 13" "\<forall>d \<in> set (entry_addrs a n). off_entry d"
    "0 \<in> set name" "spare_inode s"
  shows "\<exists>t. on_screen s t \<and> cons_ok t \<and> scan_loop stk name n a fname s =
    Inr (case dir_lookup (ram s) a n name of None \<Rightarrow> (None, t) | Some d \<Rightarrow> take_inode (ram s) d t)"
  using assms
proof (induction n arbitrary: a fname s)
  case 0
  then show ?case using on_screen_refl by (auto simp: dir_lookup_def entry_addrs_def)
next
  case (Suc n)
  have off: "off_entry a" "\<forall>d \<in> set (entry_addrs (a + 32) n). off_entry d" using Suc.prems(4) by (simp_all add: entry_addrs_Suc)
  have cs: "cstring name = Inr (c_part name)" using Suc.prems(5) by (induction name) auto
  have same: "dir_lookup (ram s') (a + 32) n name = dir_lookup (ram s) (a + 32) n name" if "on_screen s s'" for s'
    unfolding dir_lookup_def using off(2) off_entry_same(2,3) [OF that] by (intro find_cong) auto
  have entry: "d \<in> set (entry_addrs (a + 32) n) \<Longrightarrow> take_inode (ram s') d t = take_inode (ram s) d t" if "on_screen s s'" for s' t d
    using off(2) off_entry_same(4) [OF that, of d] by (simp add: take_inode_def split: prod.split option.split)
  have step: "\<exists>t. on_screen s t \<and> cons_ok t \<and> scan_loop stk name n (a + 32) f1 s' =
      Inr (case dir_lookup (ram s) (a + 32) n name of None \<Rightarrow> (None, t) | Some d \<Rightarrow> take_inode (ram s) d t)"
    if s': "on_screen s s'" "cons_ok s'" "length f1 = 13" for f1 s'
  proof -
    obtain t where t: "on_screen s' t" "cons_ok t" "scan_loop stk name n (a + 32) f1 s' =
      Inr (case dir_lookup (ram s') (a + 32) n name of None \<Rightarrow> (None, t) | Some d \<Rightarrow> take_inode (ram s') d t)"
      using Suc.IH [OF s'(2) Suc.prems(2) s'(3) off(2) Suc.prems(5)] Suc.prems(6) on_screen_inodes(2) [OF s'(1)] by auto
    have "(case dir_lookup (ram s') (a + 32) n name of None \<Rightarrow> (None, t) | Some d \<Rightarrow> take_inode (ram s') d t)
        = (case dir_lookup (ram s) (a + 32) n name of None \<Rightarrow> (None, t) | Some d \<Rightarrow> take_inode (ram s) d t)"
      unfolding same [OF s'(1)] using entry [OF s'(1)] dir_lookup_mem [of "ram s" "a + 32" n name]
      by (cases "dir_lookup (ram s) (a + 32) n name") auto
    then show ?thesis using t on_screen_trans [OF s'(1) t(1)] by auto
  qed
  show ?case
  proof (cases "listed (ram s) a")
    case False
    then have "scan_loop stk name (Suc n) a fname s = scan_loop stk name n (a + 32) fname s"
      "dir_lookup (ram s) a (Suc n) name = dir_lookup (ram s) (a + 32) n name"
      by (auto simp: listed_def dir_entry_at_def mask_3f Let_def dir_lookup_def entry_addrs_Suc)
    then show ?thesis using step [OF on_screen_refl Suc.prems(1,3)] by simp
  next
    case True
    obtain f1 s1 where f1: "shortnamecopy (ram s) a fname = Inr f1" "length f1 = 13" "cstring f1 = Inr (entry_name (ram s) a)"
      "printk stk (bytes ''%s'' @ [0]) [Va_str f1] s = Inr s1" "on_screen s s1" "cons_ok s1"
      using listed_step [OF Suc.prems(1-3)] by blast
    have go: "de_attr (dir_entry_at (ram s) a) AND ATTR_LONG_NAME_MASK \<noteq> ATTR_LONG_NAME \<and> de_ord (dir_entry_at (ram s) a) \<noteq> 0xE5"
      using True by (simp add: listed_def dir_entry_at_def mask_3f)
    note cmp = strcmp_cstring [OF f1(3) cs]
    show ?thesis
    proof (cases "entry_name (ram s) a = c_part name")
      case eq: True
      then have "scan_loop stk name (Suc n) a fname s = Inr (take_inode (ram s) a s1)"
        using go f1(1,4) cmp scan_found [OF f1(3) off(1) f1(5) Suc.prems(6)] by (simp add: Let_def)
      moreover have "dir_lookup (ram s) a (Suc n) name = Some a" using True eq by (simp add: dir_lookup_def entry_addrs_Suc)
      ultimately show ?thesis using f1(5,6) by auto
    next
      case ne: False
      obtain s2 where s2: "show_kind stk (de_attr (dir_entry_at (ram s1) a)) s1 = Inr s2" "on_screen s1 s2" "cons_ok s2"
        using show_kind_prints [OF f1(6) Suc.prems(2)] by blast
      have "scan_loop stk name (Suc n) a fname s = scan_loop stk name n (a + 32) f1 s2"
        using go f1(1,4) cmp ne s2(1) by (simp add: Let_def)
      moreover have "dir_lookup (ram s) a (Suc n) name = dir_lookup (ram s) (a + 32) n name"
        using ne by (simp add: dir_lookup_def entry_addrs_Suc)
      ultimately show ?thesis using step [OF on_screen_trans [OF f1(5) s2(2)] s2(3) f1(2)] by simp
    qed
  qed
qed

text \<open>The loop over the super blocks looks at one of them for as long as it runs.\<close>

lemma get_empty_loop_stays:
  assumes "get_empty_loop k s = Some r"
  shows "k < NR_SUPER \<longrightarrow> k < length (super_block s) \<longrightarrow> sb_dev (super_block s ! k) = 0"
proof (rule get_empty_loop.raw_induct [OF _ assms])
  fix f :: "nat \<Rightarrow> 'a kfs_scheme \<Rightarrow> nat option exec" and k s r
  assume IH: "\<And>k s r. f k s = Some r \<Longrightarrow> k < NR_SUPER \<longrightarrow> k < length (super_block s) \<longrightarrow> sb_dev (super_block s ! k) = 0"
    and body: "(if k < NR_SUPER then exec_bind (Some (rd (super_block s) k)) (\<lambda>sb. if sb_dev sb = 0 then Some (Inr (Some k)) else f k s)
      else Some (Inr None)) = Some r"
  show "k < NR_SUPER \<longrightarrow> k < length (super_block s) \<longrightarrow> sb_dev (super_block s ! k) = 0"
    using IH [of k s] body by (cases "sb_dev (super_block s ! k) = 0") auto
qed

section \<open>Properties\<close>

text \<open>
  \<open>shortnamecopy\<close> turns the eleven bytes of a directory entry into the name of the file,
  NUL terminated; it never needs more than the thirteen bytes of its caller's array.
\<close>

theorem shortnamecopy_name:
  assumes "length to = 13"
  shows "shortnamecopy m a to = Inr (dos_name (block_at m a 11) @ 0 # drop (length (dos_name (block_at m a 11)) + 1) to)
    \<and> length (dos_name (block_at m a 11)) \<le> 12"
  using shortnamecopy_put [OF assms] dos_name_length by blast

text \<open>
  \<open>scan_dentry_buf\<close> finds the first entry of the buffer that is neither deleted nor part of
  a long name and has the name asked for, and fills an unused inode from it. When there is none, or no
  inode is unused, it returns nothing; otherwise it changes only the screen.
\<close>

theorem scan_dentry_first:
  assumes "cons_ok s" "length stk = STACK_SIZE" "length junk = 13" "\<forall>d \<in> set (entry_addrs buf (count div 32)). off_entry d"
    "0 \<in> set name" "spare_inode s"
  shows "\<exists>t. on_screen s t \<and> cons_ok t \<and> scan_dentry_buf stk junk buf count name s =
    Inr (case dir_lookup (ram s) buf (count div 32) name of None \<Rightarrow> (None, t) | Some d \<Rightarrow> take_inode (ram s) d t)"
  unfolding scan_dentry_buf_def using assms by (intro scan_loop_spec) simp_all

text \<open>
  Property C32: \<open>get_empty_super\<close> returns only when the first super block is unused. The loop does not
  go on to the next one: with a mounted device in the first it runs for ever.
\<close>

theorem get_empty_super_spins:
  assumes "super_block s \<noteq> []"
  shows "get_empty_super s = (if sb_dev (super_block s ! 0) = 0 then Some (Inr (Some 0)) else None)"
proof (cases "sb_dev (super_block s ! 0) = 0")
  case True
  then show ?thesis using assms by (simp add: get_empty_super_def get_empty_loop.simps NR_SUPER_def)
next
  case False
  then have "get_empty_loop 0 s = None" using get_empty_loop_stays [of 0 s] assms
    by (cases "get_empty_loop 0 s") (auto simp: NR_SUPER_def)
  then show ?thesis using False by (simp add: get_empty_super_def)
qed

text \<open>A directory: a deleted entry, and the file \<open>A.TXT\<close> that starts in cluster 5.\<close>

definition dir_memory :: memory where
  "dir_memory a = (if a = 0x300000 then 0xE5 else if a = 0x300020 then 65 else if 0x300020 < a \<and> a < 0x300028 then 32
     else if a = 0x300028 \<or> a = 0x30002A then 84 else if a = 0x300029 then 88 else if a = 0x30002B then 0x20
     else if a = 0x30003A then 5 else 0)"

definition dir_fs :: kfs where
  "dir_fs = small_fs\<lparr>ram := dir_memory\<rparr>"

lemma dir_fs_ok: "cons_ok dir_fs" "spare_inode dir_fs" "\<forall>d \<in> set (entry_addrs 0x300000 2). off_entry d"
proof -
  show "cons_ok dir_fs" using small_fs_ok(2) by (simp add: dir_fs_def cons_ok_def)
  show "spare_inode dir_fs"
    by (simp add: spare_inode_def dir_fs_def small_fs_sel small_inode_def)
      (simp add: small_extend init_slot_def alloc_slot_def)
  have "off_entry a" if "0x300000 \<le> unat a" "unat a < 0x400000" for a
    unfolding off_entry_def
  proof (intro allI impI)
    fix j :: nat
    assume "j < 32"
    then have "unat (a + of_nat j) = unat a + j" using that by (intro unat_add_small) simp
    then show "off_screen (a + of_nat j)" using that by (simp add: off_screen_def screen_base_def)
  qed
  from this [of "0x300000"] this [of "0x300020"] have "off_entry 0x300000" "off_entry 0x300020" by simp_all
  moreover have "entry_addrs 0x300000 2 = [0x300000, 0x300020]" by (simp add: entry_addrs_def upt_rec)
  ultimately show "\<forall>d \<in> set (entry_addrs 0x300000 2). off_entry d" by simp
qed

lemma dir_memory_lookup: "dir_lookup dir_memory 0x300000 2 [65, 46, 84, 88, 84, 0] = Some 0x300020"
  by code_simp

theorem shortnamecopy_name_witness:
  "shortnamecopy dir_memory 0x300020 (replicate 13 7) = Inr ([65, 46, 84, 88, 84] @ 0 # replicate 7 7)"
proof -
  have "dos_name (block_at dir_memory 0x300020 11) = [65, 46, 84, 88, 84]" by code_simp
  then show ?thesis using shortnamecopy_name [of "replicate 13 7" dir_memory "0x300020"] by simp
qed

theorem scan_dentry_first_witness:
  "\<exists>t. on_screen dir_fs t \<and> scan_dentry_buf (replicate 100 0) (replicate 13 7) 0x300000 64 [65, 46, 84, 88, 84, 0] dir_fs
     = Inr (take_inode dir_memory 0x300020 t)"
  using scan_dentry_first [OF dir_fs_ok(1) _ _ _ _ dir_fs_ok(2), of "replicate 100 0" "replicate 13 7" "0x300000" 64 "[65, 46, 84, 88, 84, 0]"]
    dir_fs_ok(3) dir_memory_lookup by (auto simp: STACK_SIZE_def dir_fs_def)

theorem get_empty_super_spins_witness: "get_empty_super small_fs = None"
  using get_empty_super_spins [of small_fs] by (simp add: small_fs_sel small_super_def)

end
