(* ===== verification/Tty.thy ===== *)
theory Tty
  imports Clock
begin

text \<open>
  Text from a process and text about the memory: \<open>tty_write\<close> of \<^verbatim>\<open>ker/console.c\<close>, where the string is in
  the memory that the screen is in too, and \<open>mem_show\<close> of \<^verbatim>\<open>ker/mem.c\<close>, with the message of \<open>mem_init\<close>.
  The lemma \<open>do_prints\<close> carries the properties of the theories that print several lines.
\<close>

section \<open>The code\<close>

text \<open>The body of the loop of \<open>cons_echo\<close>, for one character.\<close>

definition cons_char :: "u8 \<Rightarrow> 'a kcons_scheme \<Rightarrow> 'a kcons_scheme" where
  "cons_char c s =
     (if c = 10 then scroll_check (s\<lparr>cons := (cons s)\<lparr>c_row := c_row (cons s) + 1, c_col := 0\<rparr>\<rparr>)
      else
        let s1 = char_out (cons s) c SYS_COLOR s;
            s2 = s1\<lparr>cons := (cons s1)\<lparr>c_cur := of_int (c_row (cons s1) * 80 + c_col (cons s1))\<rparr>\<rparr>;
            s3 = set_cur (c_cur (cons s2)) s2;
            s4 = s3\<lparr>cons := (cons s3)\<lparr>c_col := c_col (cons s3) + 1\<rparr>\<rparr>
        in scroll_check s4)"

text \<open>
  The loop on a string in memory, which each iteration reads anew: None when no NUL ever comes.
\<close>

partial_function (option) echo_loop :: "u32 \<Rightarrow> 'a kcons_scheme \<Rightarrow> 'a kcons_scheme option" where
  "echo_loop p s = (if ram s p = 0 then Some s else echo_loop (p + 1) (cons_char (ram s p) s))"

definition echo_at :: "u32 \<Rightarrow> 'a kcons_scheme \<Rightarrow> 'a kcons_scheme option" where
  "echo_at p s =
     (if p = 0 then Some s
      else let (fl, s1) = lock_irq_save s in map_option (unlock_irq_restore fl) (echo_loop p s1))"

definition tty_write :: "u32 \<Rightarrow> 'a kcons_scheme \<Rightarrow> 'a kcons_scheme option" where
  "tty_write str s = echo_at (umap (procs s (current s)) str) s"

text \<open>The number that \<^verbatim>\<open>char status\<close> holds.\<close>

definition status_code :: "hole_status \<Rightarrow> u32" where
  "status_code st = (case st of STAT_BUSY \<Rightarrow> 1 | STAT_FREE \<Rightarrow> 2)"

partial_function (option) mem_show_loop :: "u8 list \<Rightarrow> nat option \<Rightarrow> 'a kcons_scheme \<Rightarrow> 'a kcons_scheme exec" where
  "mem_show_loop stk p s =
     (case p of None \<Rightarrow> Some (Inr s)
      | Some i \<Rightarrow>
          (case printk stk (bytes ''0x%x-0x%x:[%d] size:0x%x'' @ [10, 0])
              [Va_word (h_base (mem_hole s i)), Va_word (h_base (mem_hole s i) + h_size (mem_hole s i) - 1),
               Va_word (status_code (h_status (mem_hole s i))), Va_word (h_size (mem_hole s i))] s of
             Inl e \<Rightarrow> Some (Inl e)
           | Inr s1 \<Rightarrow> mem_show_loop stk (h_next (mem_hole s1 i)) s1))"

definition mem_show :: "u8 list \<Rightarrow> 'a kcons_scheme \<Rightarrow> 'a kcons_scheme exec" where
  "mem_show stk s = mem_show_loop stk (h_head s) s"

text \<open>What \<open>mem_init\<close> prints before it sets the holes up.\<close>

definition mem_init_says :: "u8 list \<Rightarrow> u32 \<Rightarrow> 'a kcons_scheme \<Rightarrow> 'a kcons_scheme res" where
  "mem_init_says stk ext_mem_size s =
     printk stk (bytes ''Extended Memory:%dKB(%dMB)'' @ [10, 0]) [Va_word ext_mem_size, Va_word (ext_mem_size div 1024)] s"

section \<open>Several lines\<close>

text \<open>A message that \<open>printk\<close> can print: its format, its arguments and the text of both.\<close>

definition prints_as :: "u8 list \<Rightarrow> va_arg list \<Rightarrow> u8 list \<Rightarrow> bool" where
  "prints_as fmt as out \<longleftrightarrow> render fmt as = Some out \<and> 0 \<notin> set fmt \<and> 0 \<notin> set out \<and> length out < STACK_SIZE"

lemma printk_text:
  assumes "prints_as fmt as out" "length stk = STACK_SIZE" "cons_ok s"
  shows "\<exists>s'. printk stk (fmt @ [0]) as s = Inr s' \<and> on_screen s s' \<and> cons_ok s'
    \<and> terminal_of s' = fold term_put out (terminal_of s)"
proof -
  have tw: "takeWhile (\<lambda>c. c \<noteq> 0) out = out" using assms(1) by (intro takeWhile_text) (simp add: prints_as_def)
  from printk_terminal [of fmt as out stk s, unfolded tw] assms show ?thesis by (simp add: prints_as_def)
qed

lemma do_prints:
  assumes "\<forall>(fmt, as, out) \<in> set ms. prints_as fmt as out" "length stk = STACK_SIZE" "cons_ok s"
  shows "\<exists>s'. do_calls (map (\<lambda>(fmt, as, out). printk stk (fmt @ [0]) as) ms) s = Inr s' \<and> on_screen s s' \<and> cons_ok s'
    \<and> terminal_of s' = fold term_put (concat (map (\<lambda>(fmt, as, out). out) ms)) (terminal_of s)"
  using assms
proof (induction ms arbitrary: s)
  case Nil
  then show ?case by (simp add: on_screen_refl)
next
  case (Cons m ms)
  obtain fmt as out where m: "m = (fmt, as, out)" by (cases m)
  obtain s1 where s1: "printk stk (fmt @ [0]) as s = Inr s1" "on_screen s s1" "cons_ok s1"
    "terminal_of s1 = fold term_put out (terminal_of s)"
    using printk_text [of fmt as out stk s] Cons.prems m by auto
  with Cons.IH [of s1] Cons.prems m show ?case by (auto intro: on_screen_trans)
qed

section \<open>Strings in memory\<close>

lemma cons_loop_char: "cons_loop (c # str) s = (if c = 0 then Inr s else cons_loop str (cons_char c s))"
  by (simp add: cons_char_def Let_def)

lemma cons_char_spec:
  assumes "c \<noteq> 0" "cons_ok s"
  shows "cons_ok (cons_char c s) \<and> terminal_of (cons_char c s) = term_put c (terminal_of s) \<and> on_screen s (cons_char c s)"
proof -
  have "cstring [c, 0] = Inr [c]" using assms(1) by simp
  from cons_loop_terminal [OF this assms(2)] show ?thesis using assms(1) unfolding cons_loop_char by auto
qed

text \<open>The bytes of a string lie apart from the video memory.\<close>

definition clear_of_screen :: "u32 \<Rightarrow> nat \<Rightarrow> bool" where
  "clear_of_screen a n \<longleftrightarrow> unat a + n \<le> unat screen_base \<or> unat screen_base + 4000 \<le> unat a \<and> unat a + n \<le> 2 ^ 32"

lemma block_at_first: "block_at m a (Suc n) = m a # block_at m (a + 1) n"
  using block_at_add [of m a 1 n] by (simp add: block_at_def)

lemma clear_of_screen_Suc:
  assumes "clear_of_screen a (Suc (Suc n))"
  shows "clear_of_screen (a + 1) (Suc n)"
proof -
  have "unat screen_base + 4000 < 2 ^ 32" by (simp add: screen_base_def)
  then have "unat a + 1 < 2 ^ 32" using assms by (auto simp: clear_of_screen_def)
  then have "unat (a + 1) = unat a + 1" by (intro unat_word_ariths(1) [THEN trans]) simp
  then show ?thesis using assms by (auto simp: clear_of_screen_def)
qed

lemma on_screen_block:
  assumes "on_screen s s'" "clear_of_screen a n"
  shows "block_at (ram s') a n = block_at (ram s) a n"
proof (rule block_at_outside)
  fix i
  assume i: "i < n"
  have b: "unat screen_base + 4000 < 2 ^ 32" by (simp add: screen_base_def)
  then have "unat (a + of_nat i) = unat a + i" using assms(2) i by (intro unat_add_small) (auto simp: clear_of_screen_def)
  then show "ram s' (a + of_nat i) = ram s (a + of_nat i)"
    using on_screen_ram [OF assms(1)] assms(2) i by (auto simp: clear_of_screen_def)
qed

lemma echo_loop_text:
  assumes "block_at (ram s) a (Suc (length x)) = x @ [0]" "0 \<notin> set x" "clear_of_screen a (Suc (length x))" "cons_ok s"
  shows "\<exists>s'. echo_loop a s = Some s' \<and> on_screen s s' \<and> cons_ok s' \<and> terminal_of s' = fold term_put x (terminal_of s)"
  using assms
proof (induction x arbitrary: a s)
  case Nil
  then show ?case by (subst echo_loop.simps) (simp add: block_at_first on_screen_refl)
next
  case (Cons c x)
  have c: "ram s a = c" "block_at (ram s) (a + 1) (Suc (length x)) = x @ [0]" "c \<noteq> 0"
    using Cons.prems(1,2) by (simp_all add: block_at_first)
  let ?s = "cons_char c s"
  have s: "cons_ok ?s" "terminal_of ?s = term_put c (terminal_of s)" "on_screen s ?s"
    using cons_char_spec [OF c(3) Cons.prems(4)] by blast+
  have off: "clear_of_screen (a + 1) (Suc (length x))" using clear_of_screen_Suc [of a "length x"] Cons.prems(3) by simp
  have "block_at (ram ?s) (a + 1) (Suc (length x)) = x @ [0]" using on_screen_block [OF s(3) off] c(2) by simp
  then obtain s' where s': "echo_loop (a + 1) ?s = Some s'" "on_screen ?s s'" "cons_ok s'"
    "terminal_of s' = fold term_put x (terminal_of ?s)"
    using Cons.IH [OF _ _ off s(1)] Cons.prems(2) by auto
  have "echo_loop a s = echo_loop (a + 1) ?s" using c(1,3) by (subst echo_loop.simps) simp
  with s' s show ?case by (auto intro: on_screen_trans)
qed

lemma echo_at_text:
  assumes "block_at (ram s) a (Suc (length x)) = x @ [0]" "0 \<notin> set x" "clear_of_screen a (Suc (length x))" "cons_ok s" "a \<noteq> 0"
  shows "\<exists>s'. echo_at a s = Some s' \<and> on_screen s s' \<and> cons_ok s' \<and> terminal_of s' = fold term_put x (terminal_of s)"
proof -
  have "cons_ok (s\<lparr>ief := False\<rparr>)" using assms(4) by (simp add: cons_ok_def)
  then obtain s1 where s1: "echo_loop a (s\<lparr>ief := False\<rparr>) = Some s1" "on_screen (s\<lparr>ief := False\<rparr>) s1" "cons_ok s1"
    "terminal_of s1 = fold term_put x (terminal_of (s\<lparr>ief := False\<rparr>))"
    using echo_loop_text [of "s\<lparr>ief := False\<rparr>" a x] assms(1-3) by auto
  then obtain m con p where m: "s1 = s\<lparr>ief := False, ram := m, cons := con, crt_out := p\<rparr>"
    "\<forall>a. unat a < unat screen_base \<or> unat screen_base + 4000 \<le> unat a \<longrightarrow> m a = ram s a"
    unfolding on_screen_def by auto
  have e: "echo_at a s = Some (s1\<lparr>ief := ief s\<rparr>)"
    using s1(1) assms(5) by (simp add: echo_at_def lock_irq_save_def unlock_irq_restore_def)
  have "s1\<lparr>ief := ief s\<rparr> = s\<lparr>ram := m, cons := con, crt_out := p\<rparr>" unfolding m(1) by simp
  then have "on_screen s (s1\<lparr>ief := ief s\<rparr>)" unfolding on_screen_def using m(2) by blast
  with e s1(3,4) show ?thesis by (intro exI [of _ "s1\<lparr>ief := ief s\<rparr>"]) (simp add: cons_ok_def terminal_of_def)
qed

section \<open>Properties\<close>

text \<open>
  Property C19: the system call that prints takes the address of its string from the caller's data
  segment: an address behind it prints nothing, any other prints the string that lies at its place in
  memory, up to the NUL, and returns. Nothing but the screen changes. The string must not lie in the video
  memory, which the printing overwrites.
\<close>

theorem tty_write_prints:
  assumes "cons_ok s" "a = umap (procs s (current s)) str"
    and "a \<noteq> 0 \<Longrightarrow> block_at (ram s) a (Suc (length x)) = x @ [0] \<and> 0 \<notin> set x \<and> clear_of_screen a (Suc (length x))"
  shows "\<exists>s'. tty_write str s = Some s' \<and> on_screen s s' \<and> cons_ok s'
    \<and> terminal_of s' = (if a = 0 then terminal_of s else fold term_put x (terminal_of s))"
proof (cases "a = 0")
  case True
  then show ?thesis using assms(1,2) by (simp add: tty_write_def echo_at_def on_screen_refl)
next
  case False
  then show ?thesis using echo_at_text [of s a x] assms unfolding tty_write_def by auto
qed

text \<open>A process with a string in its data segment.\<close>

definition hello_state :: kcons where
  "hello_state = last_cell\<lparr>ram := (\<lambda>a. if a = 0x200010 then 72 else if a = 0x200011 then 105 else 0),
     procs := (\<lambda>_. zero_proc\<lparr>pmap := (\<lambda>_. \<lparr>vir = 0, phys = 0x200000, map_size = 0x1000\<rparr>)\<rparr>)\<rparr>"

theorem tty_write_prints_witness:
  "\<exists>s'. tty_write 0x10 hello_state = Some s' \<and> t_row (terminal_of s') = 24 \<and> t_col (terminal_of s') = 1"
proof -
  have a: "umap (procs hello_state (current hello_state)) 0x10 = 0x200010" by (simp add: hello_state_def umap_def)
  have b: "block_at (ram hello_state) 0x200010 (Suc (length [72, 105 :: u8])) = [72, 105] @ [0]"
    by (simp add: hello_state_def block_at_def upt_rec)
  have o: "clear_of_screen 0x200010 (Suc (length [72, 105 :: u8]))" by (simp add: clear_of_screen_def screen_base_def)
  have c: "cons_ok hello_state" "t_row (terminal_of hello_state) = 24" "t_col (terminal_of hello_state) = 79"
    using last_cell_ok by (simp_all add: hello_state_def cons_ok_def terminal_of_def)
  show ?thesis
    using tty_write_prints [OF c(1) a [symmetric], of "[72, 105]"] b o c(2,3)
    by (auto simp: term_put_def term_fit_def Let_def)
qed

text \<open>What \<open>mem_show\<close> prints for a block of memory: its first and last byte, its status and its size.\<close>

definition hole_line :: "block \<Rightarrow> u8 list" where
  "hole_line b = (case b of (base, z, st) \<Rightarrow> bytes ''0x'' @ hex_bytes base @ bytes ''-0x'' @ hex_bytes (base + z - 1) @ bytes '':[''
     @ dec_bytes (status_code st) @ bytes ''] size:0x'' @ hex_bytes z @ [10])"

lemma hole_line_prints:
  "prints_as (bytes ''0x%x-0x%x:[%d] size:0x%x'' @ [10])
     [Va_word b, Va_word (b + z - 1), Va_word (status_code st), Va_word z] (hole_line (b, z, st))"
  using hex_bytes_length [of b] hex_bytes_length [of "b + z - 1"] hex_bytes_length [of z] dec_bytes_length [of "status_code st"]
    hex_bytes_nonzero dec_bytes_nonzero
  by (auto simp: prints_as_def hole_line_def bytes_def item_def of_char_def STACK_SIZE_def)

lemma mem_show_loop_lists:
  assumes "chain (nexts s) p is" "cons_ok s" "length stk = STACK_SIZE"
  shows "\<exists>s'. mem_show_loop stk p s = Some (Inr s') \<and> on_screen s s' \<and> cons_ok s'
    \<and> terminal_of s' = fold term_put (concat (map hole_line (blocks s is))) (terminal_of s)"
  using assms(1,2)
proof (induction "is" arbitrary: p s)
  case Nil
  then show ?case by (subst mem_show_loop.simps) (simp add: blocks_def on_screen_refl)
next
  case (Cons i "is")
  let ?h = "mem_hole s i"
  have p: "p = Some i" and c: "chain (nexts s) (h_next ?h) is" using Cons.prems(1) by (simp_all add: nexts_def comp_def)
  obtain s1 where s1: "printk stk ((bytes ''0x%x-0x%x:[%d] size:0x%x'' @ [10]) @ [0])
      [Va_word (h_base ?h), Va_word (h_base ?h + h_size ?h - 1), Va_word (status_code (h_status ?h)), Va_word (h_size ?h)] s = Inr s1"
    "on_screen s s1" "cons_ok s1" "terminal_of s1 = fold term_put (hole_line (block_of s i)) (terminal_of s)"
    using printk_text [OF hole_line_prints [of "h_base ?h" "h_size ?h" "h_status ?h"] assms(3) Cons.prems(2)]
    by (auto simp: block_of_def)
  have m: "mem_hole s1 = mem_hole s" using s1(2) by (auto simp: on_screen_def)
  have b: "nexts s1 = nexts s" "blocks s1 is = blocks s is" by (simp_all add: m nexts_def blocks_def block_of_def)
  obtain s' where s': "mem_show_loop stk (h_next ?h) s1 = Some (Inr s')" "on_screen s1 s'" "cons_ok s'"
    "terminal_of s' = fold term_put (concat (map hole_line (blocks s is))) (terminal_of s1)"
    using Cons.IH [of s1 "h_next ?h"] c s1(3) unfolding b by auto
  have "mem_show_loop stk p s = mem_show_loop stk (h_next ?h) s1"
    using s1(1) m by (subst mem_show_loop.simps) (simp add: p)
  with s' s1 show ?case by (auto simp: blocks_def intro: on_screen_trans)
qed

text \<open>
  \<open>mem_show\<close> ends, and prints one line for each block of the system memory, in the order of
  their addresses; it changes nothing but the screen.
\<close>

theorem mem_show_lists:
  assumes "hole_rep s is fs" "cons_ok s" "length stk = STACK_SIZE"
  shows "\<exists>s'. mem_show stk s = Some (Inr s') \<and> on_screen s s' \<and> cons_ok s'
    \<and> terminal_of s' = fold term_put (concat (map hole_line (blocks s is))) (terminal_of s)"
  using mem_show_loop_lists [of s "h_head s" "is" stk] assms by (simp add: mem_show_def hole_rep_def)

theorem mem_show_lists_witness:
  "\<exists>s'. mem_show (replicate 100 0) (mem_init_holes 1024 last_cell) = Some (Inr s')
     \<and> terminal_of s' = fold term_put (bytes ''0x100000-0x200000:[2] size:0x100001'' @ [10])
         (terminal_of (mem_init_holes 1024 last_cell))"
proof -
  have "cons_ok (mem_init_holes 1024 last_cell)"
    using last_cell_ok(1)
    by (simp add: cons_ok_def mem_init_holes_def Let_def init_hole_slot_def alloc_hole_slot_def)
  moreover have "hole_line (0x100000, 0x100001, STAT_FREE) = bytes ''0x100000-0x200000:[2] size:0x100001'' @ [10]"
    by (simp add: hole_line_def hex_bytes_def dec_bytes_def number_def rdigits_step atoihex_def atoi_def status_code_def bytes_def of_char_def)
  ultimately show ?thesis
    using mem_show_lists [of "mem_init_holes 1024 last_cell" "[0]" "[1..<NR_HOLE]" "replicate 100 0"]
      mem_init_holes_rep [of 1024 last_cell] by (auto simp: STACK_SIZE_def push_bit_eq_mult)
qed

end
