(* ===== verification/Open_Props.thy ===== *)
theory Open_Props
  imports Dir_Props Read_Props Tty
begin

text \<open>
  Opening a file by its name: the name is copied from the process, the directory is read from the disk and
  searched, the clusters of the file are collected, and a descriptor is made.
\<close>

section \<open>The name\<close>

lemma strcpy_mem_copies:
  assumes "block_at m src (Suc (length x)) = x @ [0]" "0 \<notin> set x" "length x < n"
    and "unat src + length x < 2 ^ 32" "unat des + length x < 2 ^ 32"
    and "unat src + length x < unat des \<or> unat des + length x < unat src"
  shows "\<exists>m'. strcpy_mem n src des m = Inr m' \<and> block_at m' des (Suc (length x)) = x @ [0]
    \<and> (\<forall>a. unat a < unat des \<or> unat des + length x < unat a \<longrightarrow> m' a = m a)"
  using assms
proof (induction x arbitrary: m src des n)
  case Nil
  then obtain n' where n: "n = Suc n'" by (cases n) auto
  have "m src = 0" using Nil.prems(1) by (simp add: block_at_Cons)
  moreover have "(m(des := 0)) a = m a" if "unat a < unat des \<or> unat des < unat a" for a using that by auto
  ultimately show ?case using n by (intro exI [of _ "m(des := 0)"]) (simp add: block_at_Cons fun_upd_def)
next
  case (Cons c x)
  then obtain n' where n: "n = Suc n'" by (cases n) auto
  have c: "m src = c" "c \<noteq> 0" "block_at m (src + 1) (Suc (length x)) = x @ [0]"
    using Cons.prems(1,2) by (auto simp: block_at_Cons)
  have u: "unat (src + 1) = unat src + 1" "unat (des + 1) = unat des + 1"
    using Cons.prems(4,5) unat_add_small [of src 1] unat_add_small [of des 1] by simp_all
  let ?m = "m(des := c)"
  have "block_at ?m (src + 1) (Suc (length x)) = block_at m (src + 1) (Suc (length x))"
  proof (rule block_at_outside)
    fix i
    assume i: "i < Suc (length x)"
    have "unat (src + 1 + of_nat i) = unat src + 1 + i" using u(1) i Cons.prems(4) by (subst unat_add_small) simp_all
    then show "?m (src + 1 + of_nat i) = m (src + 1 + of_nat i)" using Cons.prems(6) i by auto
  qed
  then have b: "block_at ?m (src + 1) (Suc (length x)) = x @ [0]" using c(3) by simp
  have r: "0 \<notin> set x" "length x < n'" "unat (src + 1) + length x < 2 ^ 32" "unat (des + 1) + length x < 2 ^ 32"
    "unat (src + 1) + length x < unat (des + 1) \<or> unat (des + 1) + length x < unat (src + 1)"
    using Cons.prems(2-6) n u by auto
  obtain m' where m': "strcpy_mem n' (src + 1) (des + 1) ?m = Inr m'" "block_at m' (des + 1) (Suc (length x)) = x @ [0]"
    "\<forall>a. unat a < unat (des + 1) \<or> unat (des + 1) + length x < unat a \<longrightarrow> m' a = ?m a"
    using Cons.IH [OF b r] by blast
  have "m' des = c" using m'(3) u(2) by simp
  then have "block_at m' des (Suc (length (c # x))) = (c # x) @ [0]" using m'(2) by (simp add: block_at_Cons [of m' des])
  moreover have "m' a = m a" if "unat a < unat des \<or> unat des + length (c # x) < unat a" for a
    using m'(3) that u(2) by auto
  ultimately show ?case using m'(1) n c(1,2) by (intro exI [of _ m']) (auto simp: Let_def)
qed

text \<open>The string \<open>x\<close> at an address of the running process, apart from the free pages.\<close>

definition names :: "u32 list \<Rightarrow> u32 \<Rightarrow> u8 list \<Rightarrow> 'a kfs_scheme \<Rightarrow> bool" where
  "names us a x s \<longleftrightarrow> (let p = umap (procs s (current s)) a in block_at (ram s) p (Suc (length x)) = x @ [0]
     \<and> 0 \<notin> set x \<and> length x < 255 \<and> unat p + length x < 2 ^ 32
     \<and> (unat p + length x < unat (kmem_base s) + 1024 * used_pages us \<or> unat (kmem_base s) + 131072 \<le> unat p))"

lemma pages_of_255 [simp]: "pages_of 255 = 1" by (simp add: pages_of_ceil)

lemma get_name_spec:
  assumes "room us n s" "1 < n" "names us a x s"
  shows "\<exists>m s1. get_name a s = Inr (page_addr s (used_pages us), s1)
    \<and> s1 = s\<lparr>ief := False, kmem_page := layout (map Used (us @ [255]) @ [Free (n - 1)]), ram := m\<rparr>
    \<and> room (us @ [255]) (n - 1) s1 \<and> block_at m (page_addr s (used_pages us)) (Suc (length x)) = x @ [0]
    \<and> (\<forall>a. \<not> free_area us s a \<longrightarrow> m a = ram s a)"
proof -
  let ?t = "page_addr s (used_pages us)" and ?p = "umap (procs s (current s)) a"
  obtain s1 where s1: "kmalloc 255 s = Inr (?t, s1)" "room (us @ [255]) (n - 1) s1"
    "s1 = s\<lparr>ief := False, kmem_page := layout (map Used (us @ [255]) @ [Free (n - 1)])\<rparr>"
    using kmalloc_room [OF assms(1), of 255] assms(2) by (auto simp: PAGE_S_CONT_def)
  have len: "used_pages us + n = 128" using room_pages [OF assms(1)] by simp
  have t: "unat ?t = unat (kmem_base s) + 1024 * used_pages us" "unat (kmem_base s) + 131072 < 2 ^ 32"
    using page_addr_room [OF assms(1)] len assms(1) by (simp_all add: room_def)
  note nm = assms(3) [unfolded names_def Let_def]
  have "\<exists>m. strcpy_mem 255 ?p ?t (ram s) = Inr m \<and> block_at m ?t (Suc (length x)) = x @ [0]
    \<and> (\<forall>a. unat a < unat ?t \<or> unat ?t + length x < unat a \<longrightarrow> m a = ram s a)"
    using nm t len assms(2) by (intro strcpy_mem_copies) auto
  then obtain m where m: "strcpy_mem 255 ?p ?t (ram s) = Inr m" "block_at m ?t (Suc (length x)) = x @ [0]"
    "\<forall>a. unat a < unat ?t \<or> unat ?t + length x < unat a \<longrightarrow> m a = ram s a" by blast
  have "m a = ram s a" if "\<not> free_area us s a" for a
    using m(3) that t len nm assms(2) by (auto simp: free_area_def)
  moreover have "room (us @ [255]) (n - 1) (s1\<lparr>ram := m\<rparr>)" using s1(2) room_cong [of "s1\<lparr>ram := m\<rparr>" s1] by simp
  moreover have "get_name a s = Inr (?t, s1\<lparr>ram := m\<rparr>)"
    using s1(1) m(1) unfolding get_name_def s1(3) by simp
  ultimately show ?thesis using m(2) unfolding s1(3) by (intro exI [of _ m] exI) (intro conjI refl; simp)
qed

section \<open>The pages of the name and of the directory\<close>

text \<open>The name is released before the block behind it.\<close>

lemma put_name_and_block:
  assumes "room (us @ [255, 4, 1024]) k t" "buf_data (page_addr t (used_pages us + 1)) t = page_addr t (used_pages us + 2)"
  shows "\<exists>t1. put_name (page_addr t (used_pages us)) t = Inr t1 \<and> put_block (page_addr t (used_pages us + 1)) t1
      = Inr (t\<lparr>kmem_page := layout (map Used us @ [Free (k + 3)])\<rparr>)
    \<and> t1 = t\<lparr>kmem_page := kmem_page t1\<rparr> \<and> room us (k + 3) (t\<lparr>kmem_page := layout (map Used us @ [Free (k + 3)])\<rparr>)"
proof -
  let ?h = "used_pages us" and ?us = "map Used us"
  have p: "kmem_page t = layout (?us @ Used 255 # [Used 4, Used 1024, Free k])" "runs_ok (?us @ Used 255 # [Used 4, Used 1024, Free k])"
    "length (kmem_page t) = NR_PAGES"
    using assms(1) unfolding room_def by (elim conjE; simp)+
  have len: "?h + 3 + k = 128" "0 < k" using room_pages [OF assms(1)] by (simp_all add: used_pages_def)
  have left: "release_left ?us m = ?us @ [Free m]" for m
    by (cases us rule: rev_cases) (simp_all add: release_left_def)
  have "kfree_pages ?h (kmem_page t) = Inr (layout (release ?us 255 [Used 4, Used 1024, Free k]))"
    unfolding used_pages_def using p(3) by (intro kfree_pages_release [OF p(1,2)]) simp_all
  then have k1: "kfree (page_addr t ?h) t = Inr (t\<lparr>kmem_page := layout ((?us @ [Free 1, Used 4]) @ Used 1024 # [Free k])\<rparr>)"
    using len by (intro kfree_at) (simp_all add: release_def left NR_PAGES_def)
  let ?t1 = "t\<lparr>kmem_page := layout ((?us @ [Free 1, Used 4]) @ Used 1024 # [Free k])\<rparr>"
  have l: "length (layout (?us @ [Free 1, Used 4])) = ?h + 2" "length (kmem_page ?t1) = NR_PAGES"
    using len by (simp_all add: used_pages_def NR_PAGES_def)
  have "kfree_pages (length (layout (?us @ [Free 1, Used 4]))) (kmem_page ?t1) = Inr (layout (release (?us @ [Free 1, Used 4]) 1024 [Free k]))"
    using p(2) l(2) by (intro kfree_pages_release) simp_all
  then have "kfree_pages (?h + 2) (kmem_page ?t1) = Inr (layout (release (?us @ [Free 1, Used 4]) 1024 [Free k]))" unfolding l(1) .
  moreover have "release (?us @ [Free 1, Used 4]) 1024 [Free k] = (?us @ [Free 1]) @ Used 4 # [Free (k + 1)]"
    by (simp add: release_def release_left_def)
  ultimately have k2: "kfree (page_addr ?t1 (?h + 2)) ?t1 = Inr (?t1\<lparr>kmem_page := layout ((?us @ [Free 1]) @ Used 4 # [Free (k + 1)])\<rparr>)"
    using len by (intro kfree_at) (simp_all add: NR_PAGES_def)
  let ?t2 = "?t1\<lparr>kmem_page := layout ((?us @ [Free 1]) @ Used 4 # [Free (k + 1)])\<rparr>"
  have l2: "length (layout (?us @ [Free 1])) = ?h + 1" "length (kmem_page ?t2) = NR_PAGES"
    using len by (simp_all add: used_pages_def NR_PAGES_def)
  have "kfree_pages (length (layout (?us @ [Free 1]))) (kmem_page ?t2) = Inr (layout (release (?us @ [Free 1]) 4 [Free (k + 1)]))"
    using p(2) l2(2) by (intro kfree_pages_release) simp_all
  then have "kfree_pages (?h + 1) (kmem_page ?t2) = Inr (layout (release (?us @ [Free 1]) 4 [Free (k + 1)]))" unfolding l2(1) .
  moreover have "release (?us @ [Free 1]) 4 [Free (k + 1)] = ?us @ [Free (k + 3)]"
    by (simp add: release_def release_left_def butlast_append)
  ultimately have k3: "kfree (page_addr ?t2 (?h + 1)) ?t2 = Inr (?t2\<lparr>kmem_page := layout (?us @ [Free (k + 3)])\<rparr>)"
    using len by (intro kfree_at) (simp_all add: NR_PAGES_def)
  have a: "page_addr ?t1 i = page_addr t i" "page_addr ?t2 i = page_addr t i" "buf_data b ?t1 = buf_data b t" for i b
    by (simp_all add: page_addr_def buf_data_def)
  have "put_block (page_addr t (?h + 1)) ?t1 = Inr (t\<lparr>kmem_page := layout (?us @ [Free (k + 3)])\<rparr>)"
    using k2 k3 assms(2) unfolding put_block_def a by simp
  moreover have "room us (k + 3) (t\<lparr>kmem_page := layout (?us @ [Free (k + 3)])\<rparr>)"
    using assms(1) len unfolding room_def by (auto simp: NR_PAGES_def used_pages_def)
  ultimately show ?thesis using k1 unfolding put_name_def by (intro exI [of _ ?t1]) simp
qed

section \<open>The directory on the disk\<close>

text \<open>The bytes of the disk from a sector on, as a memory.\<close>

definition sector_memory :: "(nat \<Rightarrow> u8) \<Rightarrow> u32 \<Rightarrow> memory" where
  "sector_memory disk sec = (\<lambda>a. disk (512 * unat sec + unat a))"

lemma find_mapped: "find P (map f xs) = map_option f (find (P \<circ> f) xs)"
  by (induction xs) auto

lemma lookup_moved:
  assumes "\<And>i. i < 32 * n \<Longrightarrow> m (buf + of_nat i) = m' (of_nat i)"
  shows "dir_lookup m buf n name = map_option ((+) buf) (dir_lookup m' 0 n name)"
    and "d \<in> set (entry_addrs 0 n) \<Longrightarrow> entry_inode m (buf + d) = entry_inode m' d"
proof -
  have e: "m (buf + 32 * of_nat i + of_nat j) = m' (0 + 32 * of_nat i + of_nat j)" if "i < n" "j < 32" for i j
  proof -
    have "32 * i + j < 32 * n" using that by linarith
    from assms [OF this] show ?thesis by (simp add: add.assoc)
  qed
  note same = entry_cong [of m "buf + 32 * of_nat i" m' "0 + 32 * of_nat i" for i, OF e]
  have "entry_addrs buf n = map ((+) buf) (entry_addrs 0 n)" by (simp add: entry_addrs_def)
  moreover have "find (\<lambda>a. listed m (buf + a) \<and> entry_name m (buf + a) = c_part name) (entry_addrs 0 n)
      = find (\<lambda>a. listed m' a \<and> entry_name m' a = c_part name) (entry_addrs 0 n)"
    using same by (intro find_cong) (auto simp: entry_addrs_def)
  ultimately show "dir_lookup m buf n name = map_option ((+) buf) (dir_lookup m' 0 n name)"
    by (simp add: dir_lookup_def find_mapped comp_def)
  show "entry_inode m (buf + d) = entry_inode m' d" if "d \<in> set (entry_addrs 0 n)"
    using that same(4) by (auto simp: entry_addrs_def)
qed

lemma sector_block:
  assumes "block_at m buf k = disk_block disk sec k" "i < k" "k < 2 ^ 32"
  shows "m (buf + of_nat i) = sector_memory disk sec (of_nat i)"
proof -
  have "block_at m buf k ! i = disk_block disk sec k ! i" using assms(1) by simp
  moreover have "unat (of_nat i :: u32) = i" using assms(2,3) by (simp add: unat_of_nat)
  ultimately show ?thesis using assms(2) by (simp add: disk_block_def sector_memory_def)
qed

section \<open>The search\<close>

text \<open>What \<open>sys_open\<close> does once the entry is found.\<close>

definition take_descriptor :: "nat \<Rightarrow> 'a kfs_scheme \<Rightarrow> (int \<times> 'a kfs_scheme) exec" where
  "take_descriptor d s7 =
     exec_bind (Some (get_unused_fd (current s7) s7)) (\<lambda>(fd, s8).
     if fd < 0 then Some (Inr (fd, s8))
     else
       let (fo, s9) = get_filp s8 in
       case fo of None \<Rightarrow> Some (Inr (- 1, s9))
       | Some f \<Rightarrow>
         exec_bind (Some (rd (filps s9) f)) (\<lambda>fl.
         let s10 = s9\<lparr>filps := (filps s9)[f := fl\<lparr>f_pos := 0, f_count := 1, f_ino := Some d\<rparr>]\<rparr>;
             fs = files (procs s10 (current s10))
         in exec_bind (Some (wr (fd_array fs) (nat fd) (Some f))) (\<lambda>arr.
            Some (Inr (fd, upd_proc (current s10) (files_update (\<lambda>_. fs\<lparr>fd_array := arr\<rparr>)) s10)))))"

definition open_rest ::
    "u8 list \<Rightarrow> 'a kfs_scheme reader \<Rightarrow> nat \<Rightarrow> u32 \<Rightarrow> u32 \<Rightarrow> nat \<Rightarrow> 'a kfs_scheme \<Rightarrow> (int \<times> 'a kfs_scheme) exec" where
  "open_rest stk rdb r bp tmp d s3 =
     exec_bind (Some (rd (inodes s3) d)) (\<lambda>dn.
     exec_bind (Some (rd (inodes s3) r)) (\<lambda>rn1.
     exec_bind (Some (put_name tmp (s3\<lparr>inodes := (inodes s3)[d := dn\<lparr>i_sb := i_sb rn1\<rparr>]\<rparr>))) (\<lambda>s5.
     exec_bind (Some (put_block bp s5)) (\<lambda>s6.
     exec_bind (read_map stk rdb d s6) (take_descriptor d)))))"

lemma sys_open_searches:
  assumes "fs_root (pfs (procs s (current s))) = Some r" "get_name a s = Inr (tmp, s1)" "inodes s1 = inodes s" "r < length (inodes s)"
    and "i_block (inodes s ! r) = sec # bs" "get_block stk rdb sec 1024 s1 = Some (Inr (bp, s2))"
  shows "sys_open stk rdb junk a s =
    exec_bind (Some (scan_dentry_buf stk junk (buf_data bp s2) 1024 (block_at (ram s2) tmp 255) s2)) (\<lambda>(dip, s3).
    case dip of None \<Rightarrow> Some (Inr (- 1, s3)) | Some d \<Rightarrow> open_rest stk rdb r bp tmp d s3)"
proof -
  have "rd (inodes s1) r = Inr (inodes s ! r)" "rd (sec # bs) 0 = Inr sec" using assms(3,4) rd_in [of 0 "sec # bs"] by simp_all
  then show ?thesis
    using assms(1,2,5,6) unfolding sys_open_def open_rest_def take_descriptor_def Let_def by simp
qed

lemma pages_off_screen:
  assumes "room us n s" "h + k \<le> 128" "i < 1024 * k"
  shows "unat (page_addr s h + of_nat i) = unat (kmem_base s) + 1024 * h + i" "off_screen (page_addr s h + of_nat i)"
proof -
  have a: "unat (page_addr s h) = unat (kmem_base s) + 1024 * h" using page_addr_room [OF assms(1)] assms(2) by simp
  have b: "0x100000 \<le> unat (kmem_base s)" "unat (kmem_base s) + 131072 < 2 ^ 32" using assms(1) by (simp_all add: room_def)
  show "unat (page_addr s h + of_nat i) = unat (kmem_base s) + 1024 * h + i"
    using a b assms(2,3) by (subst unat_add_small) simp_all
  then show "off_screen (page_addr s h + of_nat i)" using b by (simp add: off_screen_def screen_base_def)
qed

lemma name_found:
  assumes "block_at m t (Suc (length x)) = x @ [0]" "0 \<notin> set x" "length x < 255"
  shows "c_part (block_at m t 255) = x" "0 \<in> set (block_at m t 255)"
proof -
  have "block_at m t (Suc (length x) + (254 - length x)) = (x @ [0]) @ block_at m (t + of_nat (Suc (length x))) (254 - length x)"
    unfolding block_at_add assms(1) ..
  moreover have "Suc (length x) + (254 - length x) = 255" using assms(3) by simp
  ultimately have b: "block_at m t 255 = (x @ [0]) @ block_at m (t + of_nat (Suc (length x))) (254 - length x)" by simp
  have "takeWhile (\<lambda>c. c \<noteq> 0) (x @ 0 # ys) = x" for ys using assms(2) by (subst takeWhile_append2) auto
  then show "c_part (block_at m t 255) = x" unfolding b by simp
  show "0 \<in> set (block_at m t 255)" unfolding b by simp
qed

text \<open>A process with a root directory in sector \<open>sec\<close>, inode \<open>r\<close>.\<close>

definition rooted :: "u32 list \<Rightarrow> nat \<Rightarrow> nat \<Rightarrow> u32 \<Rightarrow> 'a kfs_scheme \<Rightarrow> bool" where
  "rooted us n r sec s \<longleftrightarrow> room us n s \<and> 3 < n \<and> cons_ok s \<and> spare_inode s
     \<and> fs_root (pfs (procs s (current s))) = Some r \<and> r < length (inodes s) \<and> (\<exists>bs. i_block (inodes s ! r) = sec # bs)"

text \<open>The state with the pages of the name and of the directory in use.\<close>

definition three_used :: "u32 list \<Rightarrow> nat \<Rightarrow> 'a kpages_scheme \<Rightarrow> 'a kpages_scheme" where
  "three_used us n s = s\<lparr>kmem_page := layout (map Used (us @ [255, 4, 1024]) @ [Free (n - 3)])\<rparr>"

text \<open>The directory in memory.\<close>

lemma directory_block:
  assumes "room us n s" "3 < n" "cons_ok s" "names us a x s" "reads_disk disk rdb"
  shows "\<exists>m s1. get_name a s = Inr (page_addr s (used_pages us), s1) \<and> inodes s1 = inodes s
    \<and> get_block stk rdb sec 1024 s1 = Some (Inr (page_addr s (used_pages us + 1), three_used us n (s\<lparr>ief := False, ram := m\<rparr>)))
    \<and> room (us @ [255, 4, 1024]) (n - 3) (three_used us n (s\<lparr>ief := False, ram := m\<rparr>))
    \<and> u32_at m (page_addr s (used_pages us + 1)) = page_addr s (used_pages us + 2)
    \<and> block_at m (page_addr s (used_pages us + 2)) 1024 = disk_block disk sec 1024
    \<and> block_at m (page_addr s (used_pages us)) (Suc (length x)) = x @ [0]
    \<and> (\<forall>a. \<not> free_area us s a \<longrightarrow> m a = ram s a)"
proof -
  let ?h = "used_pages us"
  have len: "?h + n = 128" using room_pages [OF assms(1)] by simp
  obtain m1 s1 where s1: "get_name a s = Inr (page_addr s ?h, s1)"
    "s1 = s\<lparr>ief := False, kmem_page := layout (map Used (us @ [255]) @ [Free (n - 1)]), ram := m1\<rparr>"
    "room (us @ [255]) (n - 1) s1" "block_at m1 (page_addr s ?h) (Suc (length x)) = x @ [0]"
    "\<forall>a. \<not> free_area us s a \<longrightarrow> m1 a = ram s a"
    using get_name_spec [OF assms(1) _ assms(4)] assms(2) by auto
  have p: "page_addr s1 i = page_addr s i" "free_area (us @ [255]) s1 a = free_area (us @ [255]) s a" for i a
    unfolding s1(2) by (simp_all add: page_addr_def free_area_def)
  have pre: "(1024 :: u32) \<noteq> 0" "512 dvd unat (1024 :: u32)" "unat (1024 :: u32) \<le> 131072" "pages_of 1024 + 1 < n - 1"
    using assms(2) by simp_all
  obtain m s2 where s2: "get_block stk rdb sec 1024 s1 = Some (Inr (page_addr s1 (used_pages (us @ [255])), s2))"
    "s2 = s1\<lparr>ief := False, kmem_page := layout (map Used ((us @ [255]) @ [4, 1024]) @ [Free (n - 1 - 1 - pages_of 1024)]), ram := m\<rparr>"
    "room ((us @ [255]) @ [4, 1024]) (n - 1 - 1 - pages_of 1024) s2"
    "u32_at m (page_addr s1 (used_pages (us @ [255]))) = page_addr s1 (used_pages (us @ [255]) + 1)"
    "block_at m (page_addr s1 (used_pages (us @ [255]) + 1)) (unat (1024 :: u32)) = disk_block disk sec (unat (1024 :: u32))"
    "\<forall>a. \<not> free_area (us @ [255]) s1 a \<longrightarrow> m a = ram s1 a"
    using get_block_spec [OF s1(3) assms(5) pre, of stk sec] by blast
  have u: "used_pages (us @ [255]) = ?h + 1" "n - 1 - 1 - pages_of 1024 = n - 3" by simp_all
  have w: "unat (1024 :: u32) = 1024" "?h + 1 + 1 = ?h + 2" by simp_all
  have e: "s2 = three_used us n (s\<lparr>ief := False, ram := m\<rparr>)"
    unfolding s2(2) s1(2) u(2) three_used_def by simp
  have l: "length x < 255" using assms(4) by (simp add: names_def Let_def)
  have "block_at m (page_addr s ?h) (Suc (length x)) = block_at m1 (page_addr s ?h) (Suc (length x))"
  proof (rule block_at_outside)
    fix i
    assume "i < Suc (length x)"
    then have "unat (page_addr s ?h + of_nat i) = unat (kmem_base s) + 1024 * ?h + i"
      using pages_off_screen(1) [OF assms(1), of ?h 1 i] len assms(2) l by simp
    then have "\<not> free_area (us @ [255]) s (page_addr s ?h + of_nat i)" using \<open>i < Suc (length x)\<close> l by (simp add: free_area_def)
    then show "m (page_addr s ?h + of_nat i) = m1 (page_addr s ?h + of_nat i)" using s2(6) p(2) by (simp add: s1(2))
  qed
  then have "block_at m (page_addr s ?h) (Suc (length x)) = x @ [0]" using s1(4) by (rule trans)
  moreover have "m a = ram s a" if "\<not> free_area us s a" for a
  proof -
    have "\<not> free_area (us @ [255]) s a" using that by (auto simp: free_area_def)
    then show ?thesis using s2(6) p(2) s1(5) that by (simp add: s1(2))
  qed
  moreover have "inodes s1 = inodes s" by (simp add: s1(2))
  ultimately show ?thesis
    using s1(1) s2(1,3-5) unfolding u p e w append_assoc append.simps by blast
qed

lemma three_used_screen:
  assumes "on_screen (three_used us n (s\<lparr>ief := False, ram := m\<rparr>)) t" "cons_ok t" "\<forall>a. \<not> free_area us s a \<longrightarrow> m a = ram s a"
  shows "\<exists>t'. t = three_used us n t' \<and> fs_io us s t' \<and> ram t' = ram t"
proof -
  obtain m' con crt where t: "t = (three_used us n (s\<lparr>ief := False, ram := m\<rparr>))\<lparr>ram := m', cons := con, crt_out := crt\<rparr>"
    "\<forall>a. unat a < unat screen_base \<or> unat screen_base + 4000 \<le> unat a \<longrightarrow> m' a = m a"
    using assms(1) by (auto simp: on_screen_def three_used_def)
  let ?t' = "s\<lparr>ief := False, ram := m', cons := con, crt_out := crt\<rparr>"
  have "cons_ok ?t'" using assms(2) unfolding t(1) by (simp add: cons_ok_def)
  moreover have "m' b = ram s b" if "off_screen b" "\<not> free_area us s b" for b
    using t(2) assms(3) that unfolding off_screen_def by metis
  ultimately have "fs_io us s ?t'" unfolding fs_io_def by blast
  then show ?thesis using t(1) by (intro exI [of _ ?t']) (simp add: three_used_def)
qed

lemma sys_open_scans:
  assumes "rooted us n r sec s" "names us a x s" "reads_disk disk rdb" "length stk = STACK_SIZE" "length junk = 13"
  shows "\<exists>t. fs_io us s t \<and> room (us @ [255, 4, 1024]) (n - 3) (three_used us n t)
    \<and> buf_data (page_addr s (used_pages us + 1)) t = page_addr s (used_pages us + 2)
    \<and> sys_open stk rdb junk a s = (case dir_lookup (sector_memory disk sec) 0 32 x of
        None \<Rightarrow> Some (Inr (- 1, three_used us n t))
      | Some d \<Rightarrow> (case take_inode (sector_memory disk sec) d (three_used us n t) of
            (None, u) \<Rightarrow> Some (Inr (- 1, u))
          | (Some ip, u) \<Rightarrow> open_rest stk rdb r (page_addr s (used_pages us + 1)) (page_addr s (used_pages us)) ip u))"
proof -
  let ?h = "used_pages us"
  have r: "room us n s" "3 < n" "cons_ok s" "spare_inode s" "fs_root (pfs (procs s (current s))) = Some r" "r < length (inodes s)"
    using assms(1) by (simp_all add: rooted_def)
  obtain bs where bs: "i_block (inodes s ! r) = sec # bs" using assms(1) by (auto simp: rooted_def)
  have len: "?h + n = 128" using room_pages [OF r(1)] by simp
  obtain m s1 where d: "get_name a s = Inr (page_addr s ?h, s1)" "inodes s1 = inodes s"
    "get_block stk rdb sec 1024 s1 = Some (Inr (page_addr s (?h + 1), three_used us n (s\<lparr>ief := False, ram := m\<rparr>)))"
    "room (us @ [255, 4, 1024]) (n - 3) (three_used us n (s\<lparr>ief := False, ram := m\<rparr>))"
    "u32_at m (page_addr s (?h + 1)) = page_addr s (?h + 2)" "block_at m (page_addr s (?h + 2)) 1024 = disk_block disk sec 1024"
    "block_at m (page_addr s ?h) (Suc (length x)) = x @ [0]" "\<forall>a. \<not> free_area us s a \<longrightarrow> m a = ram s a"
    using directory_block [OF r(1-3) assms(2,3)] by blast
  let ?s2 = "three_used us n (s\<lparr>ief := False, ram := m\<rparr>)" and ?buf = "page_addr s (?h + 2)" and ?nm = "block_at m (page_addr s ?h) 255"
  have s2: "ram ?s2 = m" "cons_ok ?s2" "spare_inode ?s2" "buf_data (page_addr s (?h + 1)) ?s2 = ?buf"
    using r(3,4) d(5) by (simp_all add: three_used_def cons_ok_def spare_inode_def buf_data_def)
  have x: "0 \<notin> set x" "length x < 255" using assms(2) by (simp_all add: names_def Let_def)
  note nm = name_found [OF d(7) x]
  have off: "off_entry e" if "e \<in> set (entry_addrs ?buf 32)" for e
    unfolding off_entry_def
  proof (intro allI impI)
    fix j :: nat
    assume j: "j < 32"
    obtain i where i: "i < 32" "e = ?buf + 32 * of_nat i" using \<open>e \<in> _\<close> by (auto simp: entry_addrs_def)
    then have e: "e + of_nat j = ?buf + of_nat (32 * i + j)" by (simp add: add.assoc)
    have "off_screen (?buf + of_nat (32 * i + j))" using len r(2) i(1) j by (intro pages_off_screen(2) [OF r(1), of "?h + 2" 1]) simp_all
    then show "off_screen (e + of_nat j)" unfolding e .
  qed
  obtain t2 where t2: "on_screen ?s2 t2" "cons_ok t2" "scan_loop stk ?nm 32 ?buf (junk[12 := 0]) ?s2
      = Inr (case dir_lookup m ?buf 32 ?nm of None \<Rightarrow> (None, t2) | Some d \<Rightarrow> take_inode m d t2)"
    using scan_loop_spec [OF s2(2) assms(4) _ _ nm(2) s2(3), of "junk[12 := 0]" ?buf 32] off assms(5) unfolding s2(1) by auto
  obtain t where t: "t2 = three_used us n t" "fs_io us s t" "ram t = ram t2" using three_used_screen [OF t2(1,2) d(8)] by blast
  have sm: "m (?buf + of_nat i) = sector_memory disk sec (of_nat i)" if "i < 32 * 32" for i
    using sector_block [OF d(6)] that by simp
  have cx: "c_part x = x" using x(1) by (rule takeWhile_text)
  have look: "dir_lookup m ?buf 32 ?nm = map_option ((+) ?buf) (dir_lookup (sector_memory disk sec) 0 32 x)"
    using lookup_moved(1) [of 32 m ?buf "sector_memory disk sec" ?nm, OF sm] unfolding dir_lookup_def nm(1) cx by simp
  have ino: "take_inode m (?buf + e) u = take_inode (sector_memory disk sec) e u"
    if "dir_lookup (sector_memory disk sec) 0 32 x = Some e" for e u
    using lookup_moved(2) [of 32 m ?buf "sector_memory disk sec", OF sm dir_lookup_mem [OF that]]
    by (simp add: take_inode_def split: prod.split option.split)
  have "page_addr s (?h + 1) + of_nat j = page_addr s (?h + 1) + of_nat j \<and> off_screen (page_addr s (?h + 1) + of_nat j)" if "j < 4" for j
    using pages_off_screen(2) [OF r(1), of "?h + 1" 1 j] len r(2) that by simp
  then have "u32_at (ram t2) (page_addr s (?h + 1)) = u32_at m (page_addr s (?h + 1))"
    using on_screen_ram [OF t2(1)] by (intro u32_at_cong) (simp add: off_screen_def s2(1))
  then have bd: "buf_data (page_addr s (?h + 1)) t = ?buf" using d(5) t(3) by (simp add: buf_data_def)
  have "room (us @ [255, 4, 1024]) (n - 3) (three_used us n t)"
    using d(4) fs_io_sel(2) [OF t(2)] room_cong [of "three_used us n t" ?s2] by (simp add: three_used_def)
  moreover have "sys_open stk rdb junk a s =
      exec_bind (Some (scan_dentry_buf stk junk ?buf 1024 ?nm ?s2)) (\<lambda>(dip, s3).
      case dip of None \<Rightarrow> Some (Inr (- 1, s3)) | Some e \<Rightarrow> open_rest stk rdb r (page_addr s (?h + 1)) (page_addr s ?h) e s3)"
    using sys_open_searches [OF r(5) d(1,2) r(6) bs d(3)] unfolding s2(1,4) .
  moreover have "scan_dentry_buf stk junk ?buf 1024 ?nm ?s2
      = Inr (case dir_lookup (sector_memory disk sec) 0 32 x of None \<Rightarrow> (None, t2) | Some e \<Rightarrow> take_inode (sector_memory disk sec) e t2)"
  proof (cases "dir_lookup (sector_memory disk sec) 0 32 x")
    case None
    then show ?thesis using t2(3) unfolding scan_dentry_buf_def look by simp
  next
    case (Some e)
    then show ?thesis using t2(3) ino [OF Some, of t2] unfolding scan_dentry_buf_def look by simp
  qed
  ultimately show ?thesis using t(1,2) bd
    by (intro exI [of _ t]) (auto split: option.split prod.split)
qed

section \<open>The descriptor\<close>

text \<open>The state of the process and of the open file afterwards.\<close>

definition with_descriptor :: "nat \<Rightarrow> nat \<Rightarrow> slots \<Rightarrow> nat \<Rightarrow> 'a kfs_scheme \<Rightarrow> 'a kfs_scheme" where
  "with_descriptor fd f q d s =
     (let fl = files (procs s (current s)) in
      upd_proc (current s) (files_update (\<lambda>_. fl\<lparr>openfd := openfd fl OR push_bit fd 1, fd_array := (fd_array fl)[fd := Some f]\<rparr>))
        (s\<lparr>filp_pool := q, filps := (filps s)[f := \<lparr>f_ino = Some d, f_pos = 0, f_count = 1\<rparr>]\<rparr>))"

lemma take_descriptor_takes:
  assumes "fd = find_zero_bit (openfd (files (procs s (current s))))" "int fd < maxopen (files (procs s (current s)))"
    and "fd < 32" "fd < length (fd_array (files (procs s (current s))))"
    and "alloc_slot (filp_pool s) = (Some f, q)" "f < length (filps s)"
  shows "take_descriptor d s = Some (Inr (int fd, with_descriptor fd f q d s))"
proof -
  let ?fl = "files (procs s (current s))" and ?b = "openfd (files (procs s (current s))) OR push_bit fd 1"
  let ?s8 = "upd_proc (current s) (files_update (\<lambda>_. ?fl\<lparr>openfd := ?b\<rparr>)) s"
  have g: "get_unused_fd (current s) s = Inr (int fd, ?s8)"
    using assms(1-3) by (simp add: get_unused_fd_def set_bit_at_def Let_def)
  let ?s9 = "?s8\<lparr>filp_pool := q\<rparr>" and ?fo = "\<lparr>f_ino = Some d, f_pos = 0, f_count = 1\<rparr>"
  let ?s10 = "?s9\<lparr>filps := (filps s)[f := ?fo]\<rparr>"
  have gf: "get_filp ?s8 = (Some f, ?s9)" using assms(5) by (simp add: get_filp_def upd_proc_def)
  obtain i p c where "filps s ! f = \<lparr>f_ino = i, f_pos = p, f_count = c\<rparr>" by (cases "filps s ! f")
  moreover have "filps ?s9 = filps s" by (simp add: upd_proc_def)
  moreover have fs: "files (procs ?s10 (current ?s10)) = ?fl\<lparr>openfd := ?b\<rparr>" by (simp add: upd_proc_def)
  moreover have "upd_proc (current ?s10) (files_update (\<lambda>_. ?fl\<lparr>openfd := ?b, fd_array := (fd_array ?fl)[fd := Some f]\<rparr>)) ?s10
      = with_descriptor fd f q d s"
    unfolding with_descriptor_def Let_def upd_proc_def by simp
  ultimately show ?thesis
    using assms(4,6) unfolding take_descriptor_def g exec_bind_simps prod.case gf Let_def
    by simp
qed

section \<open>What is opened\<close>

text \<open>The inode of the entry \<open>d\<close> of the directory in sector \<open>sec\<close>, with the clusters \<open>cs\<close>.\<close>

definition file_inode :: "(nat \<Rightarrow> u8) \<Rightarrow> u32 \<Rightarrow> u32 \<Rightarrow> nat option \<Rightarrow> u32 list \<Rightarrow> inode \<Rightarrow> inode" where
  "file_inode disk sec d sb cs nd = (entry_inode (sector_memory disk sec) d nd)\<lparr>i_sb := sb, i_block := cs @ drop (length cs) (i_block nd)\<rparr>"

text \<open>The clusters of a file: a chain of the FAT from the first cluster of the entry on.\<close>

definition file_clusters :: "(nat \<Rightarrow> u8) \<Rightarrow> super_block \<Rightarrow> u32 \<Rightarrow> u32 \<Rightarrow> u32 list \<Rightarrow> bool" where
  "file_clusters disk bd sec d cs \<longleftrightarrow> (let m = sector_memory disk sec in
     fat_chain (sb_type bd) (fat_table disk bd) (map unat cs) \<and> (\<forall>c \<in> set cs. unat c < 2 ^ 28) \<and> length cs \<le> 10
     \<and> hd cs = push_bit 16 (ucast (u16_at m (d + 20))) OR ucast (u16_at m (d + 26)) \<and> length cs \<le> clusters_of bd (u32_at m (d + 28)) + 1)"

text \<open>A super block whose numbers fit into words.\<close>

definition mounted :: "nat \<Rightarrow> super_block \<Rightarrow> 'a kfs_scheme \<Rightarrow> bool" where
  "mounted r bd s \<longleftrightarrow> sb_of r s = Inr bd \<and> sb_ok bd \<and> sb_cluster_size bd \<noteq> 0 \<and> 512 * unat (sb_cluster_size bd) < 2 ^ 32"

text \<open>A step that leaves the inodes alone does the same when they are different.\<close>

lemma fs_io_inodes:
  assumes "fs_io us s t"
  shows "fs_io us (s\<lparr>inodes := ns\<rparr>) (t\<lparr>inodes := ns\<rparr>)" "fs_io us (s\<lparr>inode_pool := p\<rparr>) (t\<lparr>inode_pool := p\<rparr>)"
  using fs_io_map [OF assms, of "inodes_update (\<lambda>_. ns)"] fs_io_map [OF assms, of "inode_pool_update (\<lambda>_. p)"] by simp_all

lemma open_rest_reads:
  assumes "room us n s" "3 < n" "cons_ok s" "r < length (inodes s)" "reads_disk disk rdb" "length stk = STACK_SIZE"
    and "mounted r bd s" "ip < length (inodes s)" "ip \<noteq> r" "length (i_block (inodes s ! ip)) = 10" "file_clusters disk bd sec d cs"
    and "room (us @ [255, 4, 1024]) (n - 3) (three_used us n s)" "buf_data (page_addr s (used_pages us + 1)) s = page_addr s (used_pages us + 2)"
    and "u = (three_used us n s)\<lparr>inode_pool := p, inodes := (inodes s)[ip := entry_inode (sector_memory disk sec) d (inodes s ! ip)]\<rparr>"
  shows "\<exists>t. fs_io us (s\<lparr>inode_pool := p, inodes := (inodes s)[ip := file_inode disk sec d (i_sb (inodes s ! r)) cs (inodes s ! ip)]\<rparr>) t
    \<and> open_rest stk rdb r (page_addr s (used_pages us + 1)) (page_addr s (used_pages us)) ip u = take_descriptor ip t"
proof -
  let ?h = "used_pages us" and ?e = "entry_inode (sector_memory disk sec) d (inodes s ! ip)" and ?sb = "i_sb (inodes s ! r)"
  let ?nd = "?e\<lparr>i_sb := ?sb\<rparr>"
  define s4 where "s4 = u\<lparr>inodes := (inodes u)[ip := ?nd]\<rparr>"
  define s6 where "s6 = s\<lparr>inode_pool := p, inodes := (inodes s)[ip := ?nd]\<rparr>"
  have n: "n - 3 + 3 = n" using assms(2) by simp
  have k: "kmem_page s = layout (map Used us @ [Free n])" using assms(1) by (simp add: room_def)
  have s4: "s4 = (three_used us n s)\<lparr>inode_pool := p, inodes := (inodes s)[ip := ?nd]\<rparr>"
    using assms(8) by (simp add: s4_def assms(14))
  have r4: "room (us @ [255, 4, 1024]) (n - 3) s4"
    using assms(12) room_cong [of s4 "three_used us n s"] by (simp add: s4)
  have pa: "page_addr s4 i = page_addr s i" "buf_data b s4 = buf_data b s" for i b
    by (simp_all add: s4 three_used_def page_addr_def buf_data_def)
  have b4: "buf_data (page_addr s4 (?h + 1)) s4 = page_addr s4 (?h + 2)" using assms(13) unfolding pa .
  obtain t1 where t1: "put_name (page_addr s ?h) s4 = Inr t1"
    "put_block (page_addr s (?h + 1)) t1 = Inr (s4\<lparr>kmem_page := layout (map Used us @ [Free n])\<rparr>)"
    "room us n (s4\<lparr>kmem_page := layout (map Used us @ [Free n])\<rparr>)"
    using put_name_and_block [OF r4 b4] unfolding pa n by blast
  have s6: "s4\<lparr>kmem_page := layout (map Used us @ [Free n])\<rparr> = s6"
    unfolding s4 s6_def three_used_def using k by simp
  have run: "open_rest stk rdb r (page_addr s (?h + 1)) (page_addr s ?h) ip u = exec_bind (read_map stk rdb ip s6) (take_descriptor ip)"
  proof -
    have "rd (inodes u) ip = Inr ?e" "rd (inodes u) r = Inr (inodes s ! r)" using assms(4,8,9) by (simp_all add: assms(14))
    then show ?thesis unfolding open_rest_def using t1(1,2) s6 s4_def by simp
  qed
  note fc = assms(11) [unfolded file_clusters_def Let_def]
  have c6: "cons_ok s6" "ip < length (inodes s6)" "inodes s6 ! ip = ?nd" using assms(3,8) by (simp_all add: s6_def cons_ok_def)
  have b6: "length (i_block (inodes s6 ! ip)) = 10" "i_block (inodes s6 ! ip) ! 0 = hd cs"
    "length cs \<le> clusters_of bd (i_size (inodes s6 ! ip)) + 1"
    unfolding c6(3) using assms(10) fc by (simp_all add: entry_inode_def)
  have f: "fat_chain (sb_type bd) (fat_table disk bd) (map unat cs)" "\<forall>c \<in> set cs. unat c < 2 ^ 28" "length cs \<le> 10" "2 < n"
    using fc assms(2) by auto
  have m: "sb_ok bd" "sb_cluster_size bd \<noteq> 0" "512 * unat (sb_cluster_size bd) < 2 ^ 32" using assms(7) by (simp_all add: mounted_def)
  have "sb_of ip s6 = sb_of r s" using assms(4,8) by (cases "i_sb (inodes s ! r)") (simp_all add: sb_of_def s6_def)
  then have sb: "sb_of ip s6 = Inr bd" using assms(7) by (simp add: mounted_def)
  have r6: "room us n s6" using t1(3) unfolding s6 .
  obtain t where t: "fs_io us s6 t" "read_map stk rdb ip s6 = Some (Inr (with_blocks ip (cs @ drop (length cs) (i_block ?nd)) t))"
    using read_map_spec [OF f(1,2) r6 assms(5) f(4) c6(1) assms(6) c6(2) b6(1,2) sb m b6(3)] unfolding if_P [OF f(3)] c6(3) by blast
  have "drop (length cs) (i_block ?nd) = drop (length cs) (i_block (inodes s ! ip))"
    using fc by (cases cs) (simp_all add: entry_inode_def)
  moreover have "fs_io us (with_blocks ip bl s6) (with_blocks ip bl t)" for bl
    using fs_io_inodes(1) [OF t(1)] fs_io_sel(3) [OF t(1)] by (simp add: with_blocks_def)
  moreover have "with_blocks ip bl s6 = s\<lparr>inode_pool := p, inodes := (inodes s)[ip := ?nd\<lparr>i_block := bl\<rparr>]\<rparr>" for bl
    using assms(8) by (simp add: with_blocks_def s6_def)
  ultimately show ?thesis using run t(2) unfolding file_inode_def by auto
qed

section \<open>Properties\<close>

text \<open>A process with a descriptor \<open>fd\<close> and an open file record \<open>f\<close> to spare.\<close>

definition descriptor_free :: "nat \<Rightarrow> nat \<Rightarrow> slots \<Rightarrow> 'a kfs_scheme \<Rightarrow> bool" where
  "descriptor_free fd f q s \<longleftrightarrow> (let fl = files (procs s (current s)) in fd = find_zero_bit (openfd fl) \<and> int fd < maxopen fl
     \<and> maxopen fl \<le> int (length (fd_array fl)) \<and> length (fd_array fl) \<le> 32)
     \<and> alloc_slot (filp_pool s) = (Some f, q) \<and> f < length (filps s)"

lemma with_descriptor_file:
  assumes "descriptor_free fd f q s" "ip < length (inodes s)" "inodes s ! ip = nd" "sb_of ip s = Inr bd"
  shows "fd_entry (of_nat fd) (with_descriptor fd f q ip s) = Inr (Some f)"
    "open_file f \<lparr>f_ino = Some ip, f_pos = 0, f_count = 1\<rparr> ip bd nd (with_descriptor fd f q ip s)"
proof -
  let ?fl = "files (procs s (current s))"
  have fd: "fd < length (fd_array ?fl)" "length (fd_array ?fl) \<le> 32" "f < length (filps s)"
    using assms(1) by (auto simp: descriptor_free_def Let_def)
  have u: "unat (of_nat fd :: u32) = fd" using fd by (simp add: unat_of_nat)
  have "\<not> sint (of_nat fd :: u32) < 0" using sint_small [of "of_nat fd :: u32"] u fd by simp
  then show "fd_entry (of_nat fd) (with_descriptor fd f q ip s) = Inr (Some f)"
    using fd u by (simp add: fd_entry_def with_descriptor_def upd_proc_def Let_def)
  have "sb_of ip (with_descriptor fd f q ip s) = sb_of ip s"
    by (rule sb_of_cong) (simp_all add: with_descriptor_def upd_proc_def Let_def)
  then show "open_file f \<lparr>f_ino = Some ip, f_pos = 0, f_count = 1\<rparr> ip bd nd (with_descriptor fd f q ip s)"
    using assms(2-4) fd(3) by (simp add: open_file_def with_descriptor_def upd_proc_def Let_def)
qed

lemma sys_open_spec:
  assumes "rooted us n r sec s" "names us a x s" "reads_disk disk rdb" "length stk = STACK_SIZE" "length junk = 13"
    and "mounted r bd s" "dir_lookup (sector_memory disk sec) 0 32 x = Some d" "file_clusters disk bd sec d cs"
    and "alloc_slot (inode_pool s) = (Some ip, p)" "ip \<noteq> r" "descriptor_free fd f q s"
    and "nd = file_inode disk sec d (i_sb (inodes s ! r)) cs (inodes s ! ip)"
  shows "\<exists>t. fs_io us (s\<lparr>inode_pool := p, inodes := (inodes s)[ip := nd]\<rparr>) t
    \<and> sys_open stk rdb junk a s = Some (Inr (int fd, with_descriptor fd f q ip t))
    \<and> ip < length (inodes t) \<and> inodes t ! ip = nd \<and> sb_of ip t = Inr bd \<and> descriptor_free fd f q t"
proof -
  let ?h = "used_pages us" and ?M = "sector_memory disk sec"
  have r: "room us n s" "3 < n" "cons_ok s" "spare_inode s" "r < length (inodes s)" using assms(1) by (simp_all add: rooted_def)
  have ip: "ip < length (inodes s)" "length (i_block (inodes s ! ip)) = 10" using r(4) assms(9) by (auto simp: spare_inode_def)
  obtain t0 where t0: "fs_io us s t0" "room (us @ [255, 4, 1024]) (n - 3) (three_used us n t0)"
    "buf_data (page_addr s (?h + 1)) t0 = page_addr s (?h + 2)"
    "sys_open stk rdb junk a s = (case take_inode ?M d (three_used us n t0) of (None, u) \<Rightarrow> Some (Inr (- 1, u))
      | (Some i, u) \<Rightarrow> open_rest stk rdb r (page_addr s (?h + 1)) (page_addr s ?h) i u)"
    using sys_open_scans [OF assms(1-5)] unfolding assms(7) by auto
  note sel = fs_io_sel [OF t0(1)]
  have pa: "page_addr s i = page_addr t0 i" for i using sel(2) by (simp add: page_addr_def)
  let ?u = "(three_used us n t0)\<lparr>inode_pool := p, inodes := (inodes t0)[ip := entry_inode ?M d (inodes t0 ! ip)]\<rparr>"
  have tk: "take_inode ?M d (three_used us n t0) = (Some ip, ?u)" using assms(9) sel by (simp add: take_inode_def three_used_def)
  have c0: "room us n t0" "cons_ok t0" "r < length (inodes t0)" "ip < length (inodes t0)" "length (i_block (inodes t0 ! ip)) = 10"
    using r ip sel fs_io_room [OF t0(1)] fs_io_cons [OF t0(1)] by simp_all
  have m0: "mounted r bd t0" using assms(6) sel sb_of_cong [of t0 s r] by (simp add: mounted_def)
  have "open_rest stk rdb r (page_addr s (?h + 1)) (page_addr s ?h) ip ?u = open_rest stk rdb r (page_addr t0 (?h + 1)) (page_addr t0 ?h) ip ?u"
    unfolding pa ..
  moreover obtain t where t: "fs_io us (t0\<lparr>inode_pool := p, inodes := (inodes t0)[ip := nd]\<rparr>) t"
    "open_rest stk rdb r (page_addr t0 (?h + 1)) (page_addr t0 ?h) ip ?u = take_descriptor ip t"
    using open_rest_reads [OF c0(1) r(2) c0(2,3) assms(3,4) m0 c0(4) assms(10) c0(5) assms(8) t0(2) t0(3) [unfolded pa] refl, of p]
    using assms(12) sel(3) by auto
  ultimately have run: "sys_open stk rdb junk a s = take_descriptor ip t" using t0(4) tk by simp
  note selt = fs_io_sel [OF t(1)]
  have df: "descriptor_free fd f q t" using assms(11) sel selt by (simp add: descriptor_free_def)
  have "take_descriptor ip t = Some (Inr (int fd, with_descriptor fd f q ip t))"
    using df by (intro take_descriptor_takes) (auto simp: descriptor_free_def Let_def)
  moreover have "sb_of ip t = sb_of r s"
  proof -
    have "inodes t ! ip = nd" "i_sb nd = i_sb (inodes s ! r)" "super_block t = super_block s"
      using selt sel ip by (simp_all add: assms(12) file_inode_def)
    then show ?thesis using r(5) ip(1) selt sel by (cases "i_sb (inodes s ! r)") (simp_all add: sb_of_def)
  qed
  moreover have "ip < length (inodes t)" "inodes t ! ip = nd" using selt sel ip by simp_all
  moreover have "fs_io us (s\<lparr>inode_pool := p, inodes := (inodes s)[ip := nd]\<rparr>) (t0\<lparr>inode_pool := p, inodes := (inodes t0)[ip := nd]\<rparr>)"
    unfolding sel(3) by (intro fs_io_inodes t0(1))
  ultimately show ?thesis using run df assms(6) fs_io_trans [OF _ t(1)] unfolding mounted_def by auto
qed

text \<open>
  Property C14: \<open>sys_open\<close> of a name that is among the first 32 entries of the root directory returns the first free descriptor, for a
  file at position 0 whose inode has the size and the first cluster of the first directory entry with that
  name and the chain of clusters that the FAT holds for it. The kernel pages that it took for the name, the
  directory and the FAT are free again, and no other process and no memory besides is changed.
\<close>

theorem sys_open_opens:
  assumes "rooted us n r sec s" "names us a x s" "reads_disk disk rdb" "length stk = STACK_SIZE" "length junk = 13"
    and "mounted r bd s" "dir_lookup (sector_memory disk sec) 0 32 x = Some d" "file_clusters disk bd sec d cs"
    and "alloc_slot (inode_pool s) = (Some ip, p)" "ip \<noteq> r" "descriptor_free fd f q s"
    and "nd = file_inode disk sec d (i_sb (inodes s ! r)) cs (inodes s ! ip)"
  shows "\<exists>s'. sys_open stk rdb junk a s = Some (Inr (int fd, s')) \<and> fd_entry (of_nat fd) s' = Inr (Some f)
    \<and> open_file f \<lparr>f_ino = Some ip, f_pos = 0, f_count = 1\<rparr> ip bd nd s'
    \<and> room us n s' \<and> cons_ok s' \<and> current s' = current s \<and> (\<forall>i. i \<noteq> current s \<longrightarrow> procs s' i = procs s i)
    \<and> (\<forall>b. off_screen b \<and> \<not> free_area us s b \<longrightarrow> ram s' b = ram s b)"
proof -
  let ?s = "s\<lparr>inode_pool := p, inodes := (inodes s)[ip := nd]\<rparr>"
  obtain t where t: "fs_io us ?s t" "sys_open stk rdb junk a s = Some (Inr (int fd, with_descriptor fd f q ip t))"
    "ip < length (inodes t)" "inodes t ! ip = nd" "sb_of ip t = Inr bd" "descriptor_free fd f q t"
    using sys_open_spec [OF assms] by blast
  note sel = fs_io_sel [OF t(1)]
  have r: "room us n s" "cons_ok s" using assms(1) by (simp_all add: rooted_def)
  have "cons_ok t" using r(2) fs_io_cons [OF t(1)] by (simp add: cons_ok_def)
  then have "cons_ok (with_descriptor fd f q ip t)" by (simp add: with_descriptor_def upd_proc_def Let_def cons_ok_def)
  moreover have "room us n t" using r(1) fs_io_room [OF t(1)] room_cong [of ?s s] by simp
  then have "room us n (with_descriptor fd f q ip t)"
    using room_cong [of "with_descriptor fd f q ip t" t] by (simp add: with_descriptor_def upd_proc_def Let_def)
  moreover have "ram t b = ram s b" if "off_screen b" "\<not> free_area us s b" for b
    using fs_io_ram [OF t(1) that(1)] that(2) by (simp add: free_area_def)
  ultimately show ?thesis
    using t(2) with_descriptor_file [OF t(6,3-5)] sel
    by (intro exI [of _ "with_descriptor fd f q ip t"]) (simp add: with_descriptor_def upd_proc_def Let_def)
qed

text \<open>
  Property C21: when no entry has the name, \<open>sys_open\<close> returns -1 and opens nothing, but the three kernel pages
  of the name and of the directory stay in use: each failed open loses them for good.
\<close>

theorem sys_open_misses:
  assumes "rooted us n r sec s" "names us a x s" "reads_disk disk rdb" "length stk = STACK_SIZE" "length junk = 13"
    and "dir_lookup (sector_memory disk sec) 0 32 x = None"
  shows "\<exists>s'. sys_open stk rdb junk a s = Some (Inr (- 1, s')) \<and> room (us @ [255, 4, 1024]) (n - 3) s'
    \<and> procs s' = procs s \<and> filps s' = filps s \<and> inodes s' = inodes s"
proof -
  obtain t where t: "fs_io us s t" "room (us @ [255, 4, 1024]) (n - 3) (three_used us n t)"
    "sys_open stk rdb junk a s = Some (Inr (- 1, three_used us n t))"
    using sys_open_scans [OF assms(1-5)] unfolding assms(6) by auto
  then show ?thesis using fs_io_sel [OF t(1)] by (intro exI [of _ "three_used us n t"]) (simp add: three_used_def)
qed

text \<open>A disk with the file \<open>A.TXT\<close> of 700 bytes in the clusters 2 and 3, and a process that knows its name.\<close>

definition open_disk :: "nat \<Rightarrow> u8" where
  "open_disk k = (if k = 1024 then 0xE5 else if k = 1056 then 65 else if 1056 < k \<and> k < 1064 then 32
     else if k = 1064 \<or> k = 1066 then 84 else if k = 1065 then 88 else if k = 1067 then 0x20
     else if k = 1082 then 2 else if k = 1084 then 0xBC else if k = 1085 then 2 else small_disk k)"

definition open_fs :: kfs where
  "open_fs = small_fs\<lparr>inodes := [small_inode, small_inode], ram := (\<lambda>_. 0)(0x500000 := 65, 0x500001 := 46, 0x500002 := 84, 0x500003 := 88, 0x500004 := 84),
     procs := (\<lambda>_. zero_proc\<lparr>pmap := (\<lambda>_. \<lparr>vir = 0, phys = 0, map_size = 0x600000\<rparr>), pfs := \<lparr>fs_root = Some 1\<rparr>\<rparr>)\<rparr>"

lemma open_fs_sel:
  "inodes open_fs = [small_inode, small_inode]" "super_block open_fs = [small_super]" "kmem_base open_fs = 0x200000"
  "filps open_fs = [\<lparr>f_ino = Some 0, f_pos = 0, f_count = 1\<rparr>]" "inode_pool open_fs = inode_pool small_fs" "filp_pool open_fs = filp_pool small_fs"
  by (simp_all add: open_fs_def small_fs_sel small_extend)

lemma open_fs_ok:
  "rooted [] 128 1 2 open_fs" "names [] 0x500000 [65, 46, 84, 88, 84] open_fs" "mounted 1 small_super open_fs"
  "alloc_slot (inode_pool open_fs) = (Some 0, snd (alloc_slot (inode_pool open_fs)))"
  "descriptor_free 0 0 (snd (alloc_slot (filp_pool open_fs))) open_fs"
proof -
  show a: "alloc_slot (inode_pool open_fs) = (Some 0, snd (alloc_slot (inode_pool open_fs)))"
    unfolding open_fs_sel by (simp add: small_extend init_slot_def alloc_slot_def)
  have "room [] 128 open_fs" using small_fs_ok(1) room_cong [of open_fs small_fs] by (simp add: open_fs_def)
  moreover have "cons_ok open_fs" using small_fs_ok(2) by (simp add: open_fs_def cons_ok_def)
  moreover have "spare_inode open_fs" using a by (auto simp: spare_inode_def open_fs_sel small_inode_def)
  ultimately show "rooted [] 128 1 2 open_fs" by (simp add: rooted_def open_fs_sel small_inode_def) (simp add: open_fs_def)
  have n: "[0..<6] = [0, 1, 2, 3, 4, 5]" by (simp add: upt_rec)
  show "names [] 0x500000 [65, 46, 84, 88, 84] open_fs"
    by (simp add: names_def open_fs_sel) (simp add: open_fs_def umap_def block_at_def n)
  show "mounted 1 small_super open_fs"
    using small_fs_ok(4) by (simp add: mounted_def sb_of_def open_fs_sel small_inode_def) (simp add: small_super_def)
  have "find_zero_bit 0 = 0" by code_simp
  moreover have "alloc_slot (filp_pool open_fs) = (Some 0, snd (alloc_slot (filp_pool open_fs)))"
    unfolding open_fs_sel by (simp add: small_extend init_slot_def alloc_slot_def)
  ultimately show "descriptor_free 0 0 (snd (alloc_slot (filp_pool open_fs))) open_fs"
    unfolding descriptor_free_def open_fs_sel(4) by (simp add: open_fs_def zero_proc_def Let_def)
qed

lemma open_disk_file:
  "dir_lookup (sector_memory open_disk 2) 0 32 [65, 46, 84, 88, 84] = Some 32"
  "file_clusters open_disk small_super 2 32 [2, 3]" "u32_at (sector_memory open_disk 2) (32 + 28) = 700"
proof -
  have e: "fat_entry 1 (fat_table open_disk small_super) 2 = 3" "fat_entry 1 (fat_table open_disk small_super) 3 = 0xFFF" by code_simp+
  have w: "u16_at (sector_memory open_disk 2) (32 + 20) = 0" "u16_at (sector_memory open_disk 2) (32 + 26) = 2" by code_simp+
  show s: "u32_at (sector_memory open_disk 2) (32 + 28) = 700" by code_simp
  have t: "sb_type small_super = 1" by (simp add: small_super_def)
  have "clusters_of small_super 700 = 2" by (simp add: clusters_of_def small_super_def)
  then show "file_clusters open_disk small_super 2 32 [2, 3]"
    using e w s unfolding file_clusters_def Let_def t by (simp add: eof_mark_def)
  show "dir_lookup (sector_memory open_disk 2) 0 32 [65, 46, 84, 88, 84] = Some 32" by code_simp
qed

theorem sys_open_opens_witness:
  "\<exists>s'. sys_open (replicate 100 0) (copy_reader open_disk) (replicate 13 7) 0x500000 open_fs = Some (Inr (0, s'))
     \<and> fd_entry 0 s' = Inr (Some 0) \<and> i_size (inodes s' ! 0) = 700 \<and> take 2 (i_block (inodes s' ! 0)) = [2, 3]"
  using sys_open_opens [OF open_fs_ok(1,2) copy_reader_reads _ _ open_fs_ok(3) open_disk_file(1,2) open_fs_ok(4) _ open_fs_ok(5) refl,
      of "replicate 100 0" "replicate 13 7"] open_disk_file(3)
  by (auto simp: STACK_SIZE_def open_file_def file_inode_def entry_inode_def)

theorem sys_open_misses_witness:
  "\<exists>s'. sys_open (replicate 100 0) (copy_reader small_disk) (replicate 13 7) 0x500000 open_fs = Some (Inr (- 1, s'))
     \<and> room [255, 4, 1024] 125 s'"
proof -
  have z: "sector_memory small_disk 2 = (\<lambda>_. 0)" by (simp add: sector_memory_def small_disk_def fun_eq_iff)
  have "dos_name (block_at (\<lambda>_. 0) a 11) = replicate 8 0 @ [46] @ replicate 3 0" for a
    unfolding dos_name_def by (simp add: block_at_def trim_def map_replicate_const)
  then have "entry_name (sector_memory small_disk 2) a = []" for a unfolding z entry_name_def by (simp add: numeral_eq_Suc)
  then have "dir_lookup (sector_memory small_disk 2) 0 32 [65, 46, 84, 88, 84] = None" by (simp add: dir_lookup_def find_None_iff)
  then show ?thesis
    using sys_open_misses [OF open_fs_ok(1,2) copy_reader_reads, of "replicate 100 0" "replicate 13 7" small_disk] by (auto simp: STACK_SIZE_def)
qed

end
