(* ===== verification/Mount_Props.thy ===== *)
theory Mount_Props
  imports Open_Props
begin

text \<open>
  Mounting: \<open>fs_init\<close> finds the first partition, reads its boot sector and leaves the super block and the root
  directory that \<open>sys_open\<close> needs.
\<close>

section \<open>Super blocks that nobody uses\<close>

lemma super_wait_free:
  assumes "k < length (super_block s)" "sb_lock (super_block s ! k) = 0"
  shows "super_wait_loop slp k s = Some (Inr s)"
  using assms by (subst super_wait_loop.simps) simp

lemma lock_super_free:
  assumes "k < length (super_block s)" "sb_lock (super_block s ! k) = 0"
  shows "lock_super slp k s = Some (Inr (s\<lparr>super_block := (super_block s)[k := (super_block s ! k)\<lparr>sb_lock := 1\<rparr>]\<rparr>))"
proof -
  have "super_wait_loop slp k (s\<lparr>ief := False\<rparr>) = Some (Inr (s\<lparr>ief := False\<rparr>))" using assms by (intro super_wait_free) simp_all
  then show ?thesis using assms(1) by (simp add: lock_super_def upd_super_def irq_defs)
qed

lemma unlock_super_alone:
  assumes "k < length (super_block s)" "ring (wait_links s) (Super_wait k) []"
  shows "unlock_super k s = Some (Inr (s\<lparr>super_block := (super_block s)[k := (super_block s ! k)\<lparr>sb_lock := 0\<rparr>]\<rparr>))"
proof -
  have "wake_loop (Super_wait k) (Some (Super_wait k)) t = Some (Inr t)" for t :: "'a kfs_scheme"
    by (subst wake_loop.simps) simp
  then show ?thesis
    using assms by (simp add: unlock_super_def upd_super_def wake_up_def irq_defs ring_empty)
qed

lemma super_cache_init_rings:
  "\<exists>l. super_cache_init s = s\<lparr>wait_links := l\<rparr> \<and> (\<forall>k < NR_SUPER. ring l (Super_wait k) [])"
proof -
  have "[0..<NR_SUPER] = [0, 1]" by (simp add: NR_SUPER_def upt_rec)
  then have "super_cache_init s = INIT_WAIT_QUEUE_HEAD (Super_wait 1) (INIT_WAIT_QUEUE_HEAD (Super_wait 0) s)"
    by (simp add: super_cache_init_def)
  moreover have "\<dots> = s\<lparr>wait_links := wait_links \<dots>\<rparr>" by (simp add: INIT_WAIT_QUEUE_HEAD_def)
  moreover have "ring (wait_links \<dots>) (Super_wait k) []" if "k < NR_SUPER" for k
    using that less_2_cases [of k] by (auto simp: NR_SUPER_def INIT_WAIT_QUEUE_HEAD_def ring_empty)
  ultimately show ?thesis by metis
qed

text \<open>The table of super blocks before the first mount.\<close>

definition unmounted :: "super_block list \<Rightarrow> bool" where
  "unmounted sbs \<longleftrightarrow> length sbs = NR_SUPER \<and> (\<forall>sb \<in> set sbs. sb_dev sb = 0) \<and> sb_lock (sbs ! 0) = 0"

lemma get_super_loop_none:
  assumes "unmounted (super_block s)" "dev \<noteq> 0"
  shows "get_super_loop slp dev 0 s = Some (Inr (None, s))"
proof -
  have "length (super_block s) = 2" "sb_dev (super_block s ! 0) = 0" "sb_dev (super_block s ! 1) = 0"
    using assms(1) by (auto simp: unmounted_def NR_SUPER_def)
  then show ?thesis using assms(2) by (simp add: get_super_loop.simps NR_SUPER_def)
qed

lemma get_empty_super_first:
  assumes "unmounted (super_block s)"
  shows "get_empty_super s = Some (Inr (Some 0))"
proof -
  have "length (super_block s) = 2" "sb_dev (super_block s ! 0) = 0" using assms by (auto simp: unmounted_def NR_SUPER_def)
  then show ?thesis by (simp add: get_empty_super_def get_empty_loop.simps NR_SUPER_def)
qed

section \<open>The boot sector\<close>

lemma sector_words:
  assumes "\<forall>i < 512. m (buf + of_nat i) = M (of_nat i)" "i + 3 < 512"
  shows "u16_at m (buf + of_nat i) = u16_at M (of_nat i)" "u32_at m (buf + of_nat i) = u32_at M (of_nat i)"
proof -
  have s: "m (buf + of_nat i + of_nat j) = M (of_nat i + of_nat j)" if "j < 4" for j
    using assms(1) [rule_format, of "i + j"] assms(2) that by (simp add: add.assoc)
  show "u32_at m (buf + of_nat i) = u32_at M (of_nat i)" using s [of 0] s [of 1] s [of 2] s [of 3] by (simp add: u32_at_bytes)
  show "u16_at m (buf + of_nat i) = u16_at M (of_nat i)" using s [of 0] s [of 1] by (simp add: u16_at_def)
qed

lemma boot_sector_moved:
  assumes "\<forall>i < 512. m (buf + of_nat i) = M (of_nat i)"
  shows "boot_sector_at m buf = boot_sector_at M 0"
proof -
  note w = sector_words [OF assms]
  have "m (buf + 13) = M 13" "m (buf + 16) = M 16" using assms [rule_format, of 13] assms [rule_format, of 16] by simp_all
  moreover have "u16_at m (buf + 11) = u16_at M 11" "u16_at m (buf + 14) = u16_at M 14" "u16_at m (buf + 17) = u16_at M 17"
    "u16_at m (buf + 19) = u16_at M 19" "u16_at m (buf + 22) = u16_at M 22" "u16_at m (buf + 24) = u16_at M 24" "u16_at m (buf + 26) = u16_at M 26"
    using w(1) [of 11] w(1) [of 14] w(1) [of 17] w(1) [of 19] w(1) [of 22] w(1) [of 24] w(1) [of 26] by simp_all
  moreover have "u32_at m (buf + 28) = u32_at M 28" "u32_at m (buf + 32) = u32_at M 32" "u32_at m (buf + 36) = u32_at M 36" "u32_at m (buf + 44) = u32_at M 44"
    using w(2) [of 28] w(2) [of 32] w(2) [of 36] w(2) [of 44] by simp_all
  ultimately show ?thesis by (simp add: boot_sector_at_def)
qed

lemma fat_super_type: "sb_type (fat_super bs bd) \<in> {1, 2, 3}"
  by (simp add: fat_super_def Let_def)

lemma fat_super_sel [simp]:
  "sb_lock (fat_super bs bd) = sb_lock bd" "sb_base (fat_super bs bd) = sb_base bd" "sb_dev (fat_super bs bd) = 1"
  "sb_sector_size (fat_super bs bd) = ucast (bs_sector_size bs)" "sb_cluster_size (fat_super bs bd) = ucast (bs_cluster_size bs)"
  "sb_resvdseccnt (fat_super bs bd) = ucast (bs_reserved bs)"
  by (simp_all add: fat_super_def Let_def)

section \<open>Reading the super block\<close>

text \<open>A message while a block is in use, up to the release of the block.\<close>

lemma message_in_block:
  assumes "room us n s" "pages_of sz + 1 < n" "sz \<noteq> 0" "512 dvd unat sz" "unat sz \<le> 131072" "reads_disk disk rdb" "cons_ok s" "length stk = STACK_SIZE"
  obtains bp s1 where "get_block stk rdb sec sz s = Some (Inr (bp, s1))" "bp \<noteq> 0"
    "\<exists>k m. s1 = s\<lparr>ief := False, kmem_page := k, ram := m\<rparr>"
    "block_at (ram s1) (buf_data bp s1) (unat sz) = disk_block disk sec (unat sz)"
    "\<And>fmt as out sbs. render fmt as = Some out \<Longrightarrow> 0 \<notin> set fmt \<Longrightarrow> length out < 100 \<Longrightarrow>
       \<exists>s2 t. printk stk (fmt @ [0]) as (s1\<lparr>super_block := sbs\<rparr>) = Inr s2 \<and> super_block s2 = sbs \<and> wait_links s2 = wait_links s
         \<and> fs_io us s t \<and> (\<forall>v. put_block bp (s2\<lparr>super_block := v\<rparr>) = Inr (t\<lparr>super_block := v\<rparr>))"
proof -
  let ?h = "used_pages us" and ?bp = "page_addr s (used_pages us)"
  obtain m k where g: "get_block stk rdb sec sz s = Some (Inr (?bp, s\<lparr>ief := False, kmem_page := k, ram := m\<rparr>))"
    and nz: "?bp \<noteq> 0" and ptr: "u32_at m ?bp = page_addr s (?h + 1)"
    and blk: "block_at m (page_addr s (?h + 1)) (unat sz) = disk_block disk sec (unat sz)" and out: "\<forall>a. \<not> free_area us s a \<longrightarrow> m a = ram s a"
    and giveback: "\<And>t :: 'a kfs_scheme. kmem_page t = k \<Longrightarrow> kmem_base t = kmem_base s \<Longrightarrow> (\<forall>j < 4. ram t (?bp + of_nat j) = m (?bp + of_nat j))
      \<Longrightarrow> put_block ?bp t = Inr (t\<lparr>kmem_page := kmem_page s\<rparr>)"
    using block_in_use [OF assms(1,6,3-5,2), of stk sec] by blast
  have len: "?h + n = 128" using room_pages [OF assms(1)] by simp
  let ?s1 = "s\<lparr>ief := False, kmem_page := k, ram := m\<rparr>" and ?us = "us @ [4, sz]"
  have say: "\<exists>s2 t. printk stk (fmt @ [0]) as (?s1\<lparr>super_block := sbs\<rparr>) = Inr s2 \<and> super_block s2 = sbs \<and> wait_links s2 = wait_links s
         \<and> fs_io us s t \<and> (\<forall>v. put_block ?bp (s2\<lparr>super_block := v\<rparr>) = Inr (t\<lparr>super_block := v\<rparr>))"
    if f: "render fmt as = Some out" "0 \<notin> set fmt" "length out < 100" for fmt as out sbs
  proof -
    let ?s2 = "?s1\<lparr>super_block := sbs\<rparr>"
    have up: "used_pages ?us = ?h + 1 + (pages_of sz - 1) + 1" using used_pages_simps(2) [of "us @ [4]" sz] by simp
    have "cons_ok ?s2" using assms(7) by (simp add: cons_ok_def)
    then obtain s2 where s2: "printk stk (fmt @ [0]) as ?s2 = Inr s2" "fs_io ?us ?s2 s2" "cons_ok s2"
      using message [OF f assms(8)] by blast
    obtain e m2 con crt where u: "s2 = ?s2\<lparr>ief := e, ram := m2, cons := con, crt_out := crt\<rparr>"
      "\<forall>a. off_screen a \<and> \<not> free_area ?us ?s2 a \<longrightarrow> m2 a = ram ?s2 a" using s2(2) unfolding fs_io_def by blast
    have "m2 (?bp + of_nat j) = m (?bp + of_nat j)" if "j < 4" for j
    proof -
      have "unat (?bp + of_nat j) = unat (kmem_base s) + 1024 * ?h + j" "off_screen (?bp + of_nat j)"
        using pages_off_screen [OF assms(1), of ?h 1 j] len assms(2) that by simp_all
      then show ?thesis using u(2) that up by (simp add: free_area_def)
    qed
    then have "put_block ?bp (s2\<lparr>super_block := v\<rparr>) = Inr (s2\<lparr>super_block := v, kmem_page := kmem_page s\<rparr>)" for v
      using giveback [of "s2\<lparr>super_block := v\<rparr>"] by (simp add: u(1))
    moreover have "fs_io us s (s\<lparr>ief := e, ram := m2, cons := con, crt_out := crt\<rparr>)" (is "fs_io us s ?t")
    proof -
      have "m2 a = ram s a" if "off_screen a" "\<not> free_area us s a" for a
        using that u(2) out up by (auto simp: free_area_def)
      moreover have "cons_ok ?t" using s2(3) by (simp add: cons_ok_def u(1))
      ultimately show ?thesis unfolding fs_io_def by blast
    qed
    moreover have "s2\<lparr>super_block := v, kmem_page := kmem_page s\<rparr> = ?t\<lparr>super_block := v\<rparr>" for v by (simp add: u(1))
    moreover have "super_block s2 = sbs" "wait_links s2 = wait_links s" by (simp_all add: u(1))
    ultimately show ?thesis using s2(1) by auto
  qed
  have d: "buf_data ?bp ?s1 = page_addr s (?h + 1)" "ram ?s1 = m" using ptr by (simp_all add: buf_data_def)
  show thesis
    by (rule that [OF g nz]) (blast, use blk d in simp, erule say, assumption+)
qed

text \<open>
  \<open>read_super\<close> fills the first super block from the boot sector of the partition and gives the block back.
\<close>

lemma read_super_mounts:
  assumes "room us n s" "2 < n" "cons_ok s" "reads_disk disk rdb" "length stk = STACK_SIZE"
    and "unmounted (super_block s)" "ring (wait_links s) (Super_wait 0) []" "d < length (wini s)" "part_table (wini s ! d) = p0 # tab"
    and "bs = boot_sector_at (sector_memory disk (first_log p0)) 0" "bs_sector_size bs = 512" "bs_cluster_size bs \<noteq> 0"
  shows "\<exists>t. fs_io us s t \<and> read_super stk rdb slp 1 d s = Some (Inr (Some 0, t\<lparr>super_block := (super_block s)[0 :=
    (fat_super bs ((super_block s ! 0)\<lparr>sb_base := first_log p0\<rparr>))\<lparr>sb_lock := 0\<rparr>]\<rparr>))"
proof -
  let ?sb = "super_block s ! 0" and ?b = "first_log p0"
  let ?bd = "fat_super bs (?sb\<lparr>sb_base := ?b, sb_lock := 1\<rparr>)"
  have sb: "0 < length (super_block s)" "sb_lock ?sb = 0" using assms(6) by (simp_all add: unmounted_def NR_SUPER_def)
  obtain s1 where s1: "printk stk (bytes ''look for super'' @ [10, 0]) [] s = Inr s1" "fs_io us s s1" "cons_ok s1"
    using message [of "bytes ''look for super'' @ [10]" "[]" _ stk s us] assms(3,5) by (auto simp: bytes_def of_char_def)
  note sel = fs_io_sel [OF s1(2)] fs_io_more [OF s1(2)]
  have u1: "unmounted (super_block s1)" using assms(6) sel by simp
  define s2 where "s2 = s1\<lparr>super_block := (super_block s)[0 := ?sb\<lparr>sb_base := ?b\<rparr>]\<rparr>"
  have r2: "room us n s2" "cons_ok s2"
    using assms(1) fs_io_room [OF s1(2)] room_cong [of s2 s1] s1(3) by (simp_all add: s2_def cons_ok_def)
  have p512: "pages_of 512 + 1 < n" using assms(2) by (simp add: pages_of_ceil)
  have sz: "(512 :: u32) \<noteq> 0" "512 dvd unat (512 :: u32)" "unat (512 :: u32) \<le> 131072" by simp_all
  obtain bp s3 where g: "get_block stk rdb ?b 512 s2 = Some (Inr (bp, s3))" "bp \<noteq> 0" "\<exists>k m. s3 = s2\<lparr>ief := False, kmem_page := k, ram := m\<rparr>"
    "block_at (ram s3) (buf_data bp s3) (unat (512 :: u32)) = disk_block disk ?b (unat (512 :: u32))"
    "\<And>fmt as out sbs. render fmt as = Some out \<Longrightarrow> 0 \<notin> set fmt \<Longrightarrow> length out < 100 \<Longrightarrow>
       \<exists>s4 t. printk stk (fmt @ [0]) as (s3\<lparr>super_block := sbs\<rparr>) = Inr s4 \<and> super_block s4 = sbs \<and> wait_links s4 = wait_links s2
         \<and> fs_io us s2 t \<and> (\<forall>v. put_block bp (s4\<lparr>super_block := v\<rparr>) = Inr (t\<lparr>super_block := v\<rparr>))"
    using message_in_block [OF r2(1) p512 sz assms(4) r2(2) assms(5), of ?b] by blast
  have bs: "boot_sector_at (ram s3) (buf_data bp s3) = bs"
    unfolding assms(10) using g(4) by (intro boot_sector_moved allI impI sector_block [where k = 512]) simp_all
  define sbs where "sbs = (super_block s)[0 := ?bd]"
  have fst: "sb_type ?bd \<in> {1, 2, 3}" by (rule fat_super_type)
  then obtain ft where ft: "rd fat_t (unat (sb_type ?bd - 1)) = Inr ft" by (auto simp: fat_t_def)
  have ren: "render (bytes ''File System:Fat%d'' @ [10]) [Va_word ft] = Some (bytes ''File System:Fat'' @ dec_bytes ft @ [10])"
    by (simp add: bytes_def item_def of_char_def)
  obtain s4 t where s4: "printk stk (bytes ''File System:Fat%d'' @ [10, 0]) [Va_word ft] (s3\<lparr>super_block := sbs\<rparr>) = Inr s4"
    "super_block s4 = sbs" "wait_links s4 = wait_links s2" "fs_io us s2 t" "\<And>v. put_block bp (s4\<lparr>super_block := v\<rparr>) = Inr (t\<lparr>super_block := v\<rparr>)"
    using g(5) [OF ren, of sbs] dec_bytes_length [of ft] by (auto simp: bytes_def of_char_def)
  have sb3: "super_block s3 = (super_block s)[0 := ?sb\<lparr>sb_base := ?b\<rparr>]" using g(3) by (auto simp: s2_def)
  have lk: "lock_super slp 0 s3 = Some (Inr (s3\<lparr>super_block := (super_block s)[0 := ?sb\<lparr>sb_base := ?b, sb_lock := 1\<rparr>]\<rparr>))"
    using sb by (subst lock_super_free) (simp_all add: sb3)
  have ul: "unlock_super 0 s4 = Some (Inr (s4\<lparr>super_block := (super_block s)[0 := ?bd\<lparr>sb_lock := 0\<rparr>]\<rparr>))"
    using sb assms(7) s4(2,3) sel by (subst unlock_super_alone) (simp_all add: s2_def sbs_def)
  have gs: "get_super stk slp 1 s = Some (Inr (None, s1))"
    using s1(1) get_super_loop_none [OF u1] by (simp add: get_super_def)
  have up: "upd_super 0 (sb_base_update (\<lambda>_. ?b)) s1 = Inr s2" using sb sel by (simp add: upd_super_def s2_def)
  have "rd (wini s1) d = Inr (wini s ! d)" using assms(8) sel by simp
  then have "read_super stk rdb slp 1 d s = Some (Inr (Some 0, t\<lparr>super_block := (super_block s)[0 := ?bd\<lparr>sb_lock := 0\<rparr>]\<rparr>))"
    unfolding read_super_def
    using gs get_empty_super_first [OF u1] assms(9,11,12) up g(1,2) bs lk sb ft s4(1,5) ul
    by (simp add: Let_def upd_super_def sbs_def)
  moreover have "?bd\<lparr>sb_lock := 0\<rparr> = (fat_super bs (?sb\<lparr>sb_base := ?b\<rparr>))\<lparr>sb_lock := 0\<rparr>"
    by (simp add: fat_super_def Let_def FstSecofDataClu_def)
  moreover have "fs_io us s (t\<lparr>super_block := super_block s\<rparr>)"
  proof -
    obtain e m con crt where t: "t = s2\<lparr>ief := e, ram := m, cons := con, crt_out := crt\<rparr>" "cons_ok s2 \<longrightarrow> cons_ok t"
      "\<forall>a. off_screen a \<and> \<not> free_area us s2 a \<longrightarrow> m a = ram s2 a" using s4(4) unfolding fs_io_def by blast
    have "t\<lparr>super_block := super_block s\<rparr> = s1\<lparr>ief := e, ram := m, cons := con, crt_out := crt\<rparr>"
      using sel(4) by (simp add: t(1) s2_def)
    moreover have "cons_ok (t\<lparr>super_block := super_block s\<rparr>)" using t(2) r2(2) by (simp add: cons_ok_def)
    moreover have "\<forall>a. off_screen a \<and> \<not> free_area us s1 a \<longrightarrow> m a = ram s1 a" using t(3) by (simp add: s2_def free_area_def)
    ultimately have "fs_io us s1 (t\<lparr>super_block := super_block s\<rparr>)" unfolding fs_io_def by blast
    then show ?thesis by (rule fs_io_trans [OF s1(2)])
  qed
  ultimately show ?thesis by (intro exI [of _ "t\<lparr>super_block := super_block s\<rparr>"]) simp
qed

section \<open>The root directory\<close>

text \<open>The inodes of the table have the sizes of the source.\<close>

definition inodes_ok :: "inode list \<Rightarrow> bool" where
  "inodes_ok ns \<longleftrightarrow> length ns = INODE_NR \<and> (\<forall>nd \<in> set ns. length (i_block nd) = 10 \<and> length (i_name nd) = 255)"

definition root_inode :: "super_block \<Rightarrow> inode \<Rightarrow> inode" where
  "root_inode bd nd = nd\<lparr>i_block := (i_block nd)[0 := sb_dir_first_sec bd], i_size := sb_dir_number bd * 32, i_sb := Some 0\<rparr>"

lemma mount_fs_roots:
  assumes "room us n s" "2 < n" "cons_ok s" "reads_disk disk rdb" "length stk = STACK_SIZE"
    and "unmounted (super_block s)" "d < length (wini s)" "part_table (wini s ! d) = p0 # tab"
    and "bs = boot_sector_at (sector_memory disk (first_log p0)) 0" "bs_sector_size bs = 512" "bs_cluster_size bs \<noteq> 0"
    and "inodes_ok (inodes s)" "alloc_slot (inode_pool s) = (Some r, q)" "r < INODE_NR"
    and "bd = (fat_super bs ((super_block s ! 0)\<lparr>sb_base := first_log p0\<rparr>))\<lparr>sb_rootdir := Some r, sb_lock := 0\<rparr>"
  shows "\<exists>l t. fs_io us (s\<lparr>wait_links := l\<rparr>) t \<and> mount_fs stk rdb slp d s =
    Some (Inr (t\<lparr>super_block := (super_block s)[0 := bd], inodes := (inodes s)[r := root_inode bd (inodes s ! r)], inode_pool := q\<rparr>))"
proof -
  obtain l where l: "super_cache_init s = s\<lparr>wait_links := l\<rparr>" "ring l (Super_wait 0) []"
    using super_cache_init_rings [of s] by (auto simp: NR_SUPER_def)
  let ?s = "s\<lparr>wait_links := l\<rparr>" and ?bd = "(fat_super bs ((super_block s ! 0)\<lparr>sb_base := first_log p0\<rparr>))\<lparr>sb_lock := 0\<rparr>"
  have "room us n ?s" "cons_ok ?s" using assms(1,3) room_cong [of ?s s] by (simp_all add: cons_ok_def)
  then obtain t where t: "fs_io us ?s t" "read_super stk rdb slp 1 d ?s = Some (Inr (Some 0, t\<lparr>super_block := (super_block s)[0 := ?bd]\<rparr>))"
    using read_super_mounts [of us n ?s disk rdb stk d p0 tab bs slp] assms(2,4-11) l(2) by auto
  note sel = fs_io_sel [OF t(1)] fs_io_more [OF t(1)]
  have len: "0 < length (super_block s)" using assms(6) by (simp add: unmounted_def NR_SUPER_def)
  have ir: "r < length (inodes s)" "length (i_block (inodes s ! r)) = 10" using assms(12,14) by (simp_all add: inodes_ok_def)
  define t1 where "t1 = t\<lparr>super_block := (super_block s)[0 := ?bd], inode_pool := q\<rparr>"
  have gi: "get_inode (t\<lparr>super_block := (super_block s)[0 := ?bd]\<rparr>) = (Some r, t1)"
    using assms(13) sel by (simp add: get_inode_def t1_def)
  have lk: "lock_super slp 0 t1 = Some (Inr (t1\<lparr>super_block := (super_block s)[0 := ?bd\<lparr>sb_lock := 1\<rparr>]\<rparr>))"
    using len by (subst lock_super_free) (simp_all add: t1_def)
  have ul: "unlock_super 0 (t1\<lparr>super_block := (super_block s)[0 := ?bd\<lparr>sb_lock := 1, sb_rootdir := Some r\<rparr>]\<rparr>)
      = Some (Inr (t1\<lparr>super_block := (super_block s)[0 := bd]\<rparr>))"
    using len l(2) sel by (subst unlock_super_alone) (simp_all add: t1_def assms(15))
  have "mount_fs stk rdb slp d s = Some (Inr (t1\<lparr>super_block := (super_block s)[0 := bd], inodes := (inodes s)[r := root_inode bd (inodes s ! r)]\<rparr>))"
    using ir sel len unfolding mount_fs_def l(1) t(2) exec_bind_simps prod.case option.case gi Let_def lk
    by (simp add: upd_super_def ul [unfolded t1_def, simplified] root_inode_def t1_def)
  then show ?thesis using t(1) by (intro exI [of _ l] exI [of _ t]) (simp add: t1_def)
qed

section \<open>The partition table\<close>

text \<open>The table in the first sector of the disk.\<close>

definition partitions :: "(nat \<Rightarrow> u8) \<Rightarrow> partition_entry list" where
  "partitions disk = map (\<lambda>i. partition_at (sector_memory disk 0) (0x1be + 16 * of_nat i)) [0..<4]"

lemma partition_moved:
  assumes "\<forall>i < 512. m (buf + of_nat i) = M (of_nat i)" "i < 4"
  shows "partition_at m (buf + 0x1be + 16 * of_nat i) = partition_at M (0x1be + 16 * of_nat i)"
proof -
  have e: "buf + 0x1be + 16 * of_nat i + of_nat j = buf + of_nat (0x1be + 16 * i + j)" "0x1be + 16 * of_nat i + of_nat j = (of_nat (0x1be + 16 * i + j) :: u32)"
    for j by (simp_all add: algebra_simps)
  have b: "m (buf + 0x1be + 16 * of_nat i + of_nat j) = M (0x1be + 16 * of_nat i + of_nat j)" if "j < 16" for j
    unfolding e using assms(2) that by (intro assms(1) [rule_format]) simp
  have w: "u32_at m (buf + 0x1be + 16 * of_nat i + of_nat j) = u32_at M (0x1be + 16 * of_nat i + of_nat j)" if "j < 13" for j
    unfolding e using sector_words(2) [OF assms(1), of "0x1be + 16 * i + j"] assms(2) that by simp
  show ?thesis
    using b [of 0] b [of 1] b [of 2] b [of 3] b [of 4] b [of 5] b [of 6] b [of 7] w [of 8] w [of 12] by (simp add: partition_at_def)
qed

lemma show_partitions_shows:
  assumes "length stk = STACK_SIZE" "cons_ok s"
  shows "\<exists>t. show_partitions stk i tab s = Inr t \<and> fs_io us s t \<and> cons_ok t"
  using assms(2)
proof (induction tab arbitrary: i s)
  case Nil
  then show ?case by simp
next
  case (Cons e es)
  let ?c = "if bootind e = 0x80 then 42 else 32 :: u32" and ?f = "of_nat i :: u32" and ?l = "first_log e + part_size e - 1"
  have ren: "render (bytes ''<hda%d%c[%d-%d]>'' @ [10]) [Va_word ?f, Va_word ?c, Va_word (first_log e), Va_word ?l]
      = Some (bytes ''<hda'' @ dec_bytes ?f @ [ucast ?c] @ bytes ''['' @ dec_bytes (first_log e) @ bytes ''-'' @ dec_bytes ?l @ bytes '']>'' @ [10])"
    by (simp add: bytes_def item_def of_char_def)
  have p: "\<exists>s1. printk stk (bytes ''<hda%d%c[%d-%d]>'' @ [10, 0]) [Va_word ?f, Va_word ?c, Va_word (first_log e), Va_word ?l] s = Inr s1
      \<and> fs_io us s s1 \<and> cons_ok s1"
    using message [OF ren _ _ assms(1) Cons.prems] dec_bytes_length [of ?f] dec_bytes_length [of "first_log e"] dec_bytes_length [of ?l]
    by (auto simp: bytes_def of_char_def)
  obtain s1 where "(if sysind e \<noteq> NO_PART then printk stk (bytes ''<hda%d%c[%d-%d]>'' @ [10, 0])
      [Va_word ?f, Va_word ?c, Va_word (first_log e), Va_word ?l] s else Inr s) = Inr s1" "fs_io us s s1" "cons_ok s1"
    using p Cons.prems by (cases "sysind e \<noteq> NO_PART") auto
  with Cons.IH [of s1 "i + 1"] fs_io_trans show ?case by fastforce
qed

lemma partition_check_finds:
  assumes "reads_disk disk rdb" "boot \<noteq> 0" "unat boot + 512 < 2 ^ 32" "length stk = STACK_SIZE" "cons_ok s" "d < length (wini s)"
    and "disk 510 = 0x55" "disk 511 = 0xaa" "sysind (partitions disk ! 0) \<in> {FAT12_PART, FAT32_PART}"
  shows "\<exists>m t. (\<forall>a. unat a < unat boot \<or> unat boot + 512 \<le> unat a \<longrightarrow> m a = ram s a)
    \<and> fs_io us (s\<lparr>ram := m, wini := (wini s)[d := (wini s ! d)\<lparr>part_table := partitions disk\<rparr>]\<rparr>) t
    \<and> partition_check stk rdb boot d s = Some (Inr t)"
proof -
  have sz: "unat (512 :: u32) = 512" by simp
  obtain m where m: "rdb boot 512 0 s = Some (Inr (1, s\<lparr>ram := m\<rparr>))" "block_at m boot 512 = disk_block disk 0 512"
    "\<forall>a. unat a < unat boot \<or> unat boot + 512 \<le> unat a \<longrightarrow> m a = ram s a"
    using assms(1) [unfolded reads_disk_def, rule_format, of boot 512 0 s] assms(2,3) unfolding sz by auto
  have b: "\<forall>i < 512. m (boot + of_nat i) = sector_memory disk 0 (of_nat i)" using sector_block [OF m(2)] by simp
  have sig: "m (boot + 510) = 0x55" "m (boot + 511) = 0xaa"
    using b [rule_format, of 510] b [rule_format, of 511] assms(7,8) by (simp_all add: sector_memory_def)
  have tab: "map (\<lambda>i. partition_at m (boot + 0x1be + 16 * of_nat i)) [0..<4] = partitions disk"
    unfolding partitions_def using partition_moved [OF b] by (intro map_cong) auto
  let ?s1 = "s\<lparr>ram := m, wini := (wini s)[d := (wini s ! d)\<lparr>part_table := partitions disk\<rparr>]\<rparr>"
  have g: "get_part_table rdb boot d s = Some (Inr (1, ?s1))"
    using sig tab assms(6) by (simp add: get_part_table_def m(1) Let_def)
  have "cons_ok ?s1" using assms(5) by (simp add: cons_ok_def)
  then obtain s2 where s2: "printk stk (bytes ''Partition:'' @ [10, 0]) [] ?s1 = Inr s2" "fs_io us ?s1 s2" "cons_ok s2"
    using message [of "bytes ''Partition:'' @ [10]" "[]" _ stk ?s1 us] assms(4) by (auto simp: bytes_def of_char_def)
  obtain s3 where s3: "show_partitions stk 0 (partitions disk) s2 = Inr s3" "fs_io us s2 s3"
    using show_partitions_shows [OF assms(4) s2(3)] by blast
  have "rd (wini s2) d = Inr ((wini s ! d)\<lparr>part_table := partitions disk\<rparr>)" using fs_io_more(1) [OF s2(2)] assms(6) by simp
  moreover have "rd (partitions disk) 0 = Inr (partitions disk ! 0)" by (simp add: partitions_def)
  ultimately have "partition_check stk rdb boot d s = Some (Inr s3)"
    using assms(9) by (auto simp: partition_check_def g s2(1) s3(1))
  then show ?thesis using m(3) fs_io_trans [OF s2(2) s3(2)] by blast
qed

section \<open>Starting the file system\<close>

text \<open>
  The state in which \<open>fs_init\<close> runs, with the disk in drive 0 and the buffer \<open>boot\<close> on the stack, and the super
  block that it makes of the disk.
\<close>

definition startable :: "u32 list \<Rightarrow> nat \<Rightarrow> u32 \<Rightarrow> 'a kfs_scheme \<Rightarrow> bool" where
  "startable us n boot s \<longleftrightarrow> room us n s \<and> 3 < n \<and> cons_ok s \<and> unmounted (super_block s) \<and> inodes_ok (inodes s)
     \<and> length (filps s) = FILP_NR \<and> 0 < length (wini s) \<and> part_ops (wini s ! 0) = Some Partition_check
     \<and> boot \<noteq> 0 \<and> unat boot + 512 < 2 ^ 32 \<and> length (fd_array (files (procs s (current s)))) = 5"

definition first_boot_sector :: "(nat \<Rightarrow> u8) \<Rightarrow> boot_sector" where
  "first_boot_sector disk = boot_sector_at (sector_memory disk (first_log (partitions disk ! 0))) 0"

definition mountable :: "(nat \<Rightarrow> u8) \<Rightarrow> bool" where
  "mountable disk \<longleftrightarrow> disk 510 = 0x55 \<and> disk 511 = 0xaa \<and> sysind (partitions disk ! 0) \<in> {FAT12_PART, FAT32_PART}
     \<and> (let bs = first_boot_sector disk in bs_sector_size bs = 512 \<and> bs_cluster_size bs \<noteq> 0
          \<and> unat (first_log (partitions disk ! 0)) + unat (bs_reserved bs) < 2 ^ 31)"

definition disk_super :: "(nat \<Rightarrow> u8) \<Rightarrow> super_block \<Rightarrow> super_block" where
  "disk_super disk sb = (fat_super (first_boot_sector disk) (sb\<lparr>sb_base := first_log (partitions disk ! 0)\<rparr>))\<lparr>sb_rootdir := Some 0, sb_lock := 0\<rparr>"

lemma fresh_pool: "0 < n \<Longrightarrow> \<exists>q. alloc_slot (init_slot n p) = (Some 0, q) \<and> free_slots q [1..<n]"
  using free_slots_init [of n p] by (simp add: free_slots_def alloc_slot_def upt_conv_Cons init_slot_def)

text \<open>What \<open>fs_init\<close> leaves, in terms of the state before.\<close>

definition fs_started :: "memory \<Rightarrow> (nat \<Rightarrow> u8) \<Rightarrow> lnode links \<Rightarrow> 'a kfs_scheme \<Rightarrow> 'a kfs_scheme" where
  "fs_started m disk l s = s\<lparr>ram := m, wini := (wini s)[0 := (wini s ! 0)\<lparr>part_table := partitions disk\<rparr>],
     filp_pool := init_slot FILP_NR (filp_pool s), inode_pool := init_slot INODE_NR (inode_pool s), wait_links := l\<rparr>"

lemma fs_init_runs:
  assumes "startable us n boot s" "mountable disk" "reads_disk disk rdb" "length stk = STACK_SIZE"
    and "bd = disk_super disk (super_block s ! 0)" "alloc_slot (init_slot INODE_NR (inode_pool s)) = (Some 0, q)"
  shows "\<exists>m l t. (\<forall>a. unat a < unat boot \<or> unat boot + 512 \<le> unat a \<longrightarrow> m a = ram s a) \<and> fs_io us (fs_started m disk l s) t
    \<and> fs_init stk rdb slp boot s = Some (Inr (proc_fd_init (current s)
        (t\<lparr>super_block := (super_block s)[0 := bd], inodes := (inodes s)[0 := root_inode bd (inodes s ! 0)], inode_pool := q\<rparr>)))"
proof -
  note a = assms(1) [unfolded startable_def] note m = assms(2) [unfolded mountable_def Let_def]
  obtain mem t1 where t1: "\<forall>a. unat a < unat boot \<or> unat boot + 512 \<le> unat a \<longrightarrow> mem a = ram s a"
    "fs_io us (s\<lparr>ram := mem, wini := (wini s)[0 := (wini s ! 0)\<lparr>part_table := partitions disk\<rparr>]\<rparr>) t1"
    "partition_check stk rdb boot 0 s = Some (Inr t1)"
    using partition_check_finds [OF assms(3) _ _ assms(4), of boot s 0 us] a m by blast
  note sel = fs_io_sel [OF t1(2)] fs_io_more [OF t1(2)]
  define s2 where "s2 = inode_init (filp_init t1)"
  have s2: "room us n s2" "cons_ok s2" "super_block s2 = super_block s" "inodes s2 = inodes s" "inode_pool s2 = init_slot INODE_NR (inode_pool s)"
    "wini s2 = (wini s)[0 := (wini s ! 0)\<lparr>part_table := partitions disk\<rparr>]"
  proof -
    have "room us n t1" "cons_ok t1" using a fs_io_cons [OF t1(2)] room_cong [of t1 s] sel by (simp_all add: cons_ok_def)
    then show "room us n s2" "cons_ok s2" using room_cong [of s2 t1] by (simp_all add: s2_def inode_init_def filp_init_def cons_ok_def)
  qed (use sel in \<open>simp_all add: s2_def inode_init_def filp_init_def\<close>)
  have tab: "part_table (wini s2 ! 0) = partitions disk ! 0 # List.tl (partitions disk)"
    using a s2(6) by (cases "partitions disk") (simp_all add: partitions_def)
  obtain l t where t: "fs_io us (s2\<lparr>wait_links := l\<rparr>) t" "mount_fs stk rdb slp 0 s2 =
      Some (Inr (t\<lparr>super_block := (super_block s)[0 := bd], inodes := (inodes s)[0 := root_inode bd (inodes s ! 0)], inode_pool := q\<rparr>))"
    using mount_fs_roots [OF s2(1) _ s2(2) assms(3,4) _ _ tab first_boot_sector_def [of disk], of 0 q bd slp] a m s2 assms(5,6)
    by (auto simp: disk_super_def INODE_NR_def)
  let ?f = "\<lambda>u :: 'a kfs_scheme. u\<lparr>filp_pool := init_slot FILP_NR (filp_pool s), inode_pool := init_slot INODE_NR (inode_pool s), wait_links := l\<rparr>"
  have "s2\<lparr>wait_links := l\<rparr> = ?f t1" using sel by (simp add: s2_def inode_init_def filp_init_def)
  moreover have "fs_io us (fs_started mem disk l s) (?f t1)"
    using fs_io_map [OF t1(2), of ?f] by (simp add: fs_started_def)
  ultimately have io: "fs_io us (fs_started mem disk l s) t" using fs_io_trans t(1) by metis
  then have "current t = current s" using fs_io_sel(7) [OF io] by (simp add: fs_started_def)
  moreover have "exec_bind (case part_ops (wini s ! 0) of None \<Rightarrow> Some (Inl Null_deref) | Some Partition_check \<Rightarrow> partition_check stk rdb boot 0 s) f = f t1"
    for f :: "'a kfs_scheme \<Rightarrow> 'a kfs_scheme exec" using a t1(3) by simp
  ultimately have "fs_init stk rdb slp boot s = Some (Inr (proc_fd_init (current s)
        (t\<lparr>super_block := (super_block s)[0 := bd], inodes := (inodes s)[0 := root_inode bd (inodes s ! 0)], inode_pool := q\<rparr>)))"
    using a t(2) by (simp add: fs_init_def s2_def)
  then show ?thesis using t1(1) io by blast
qed

text \<open>That state is one in which files can be opened.\<close>

definition outside_buffer :: "u32 \<Rightarrow> u32 \<Rightarrow> bool" where
  "outside_buffer boot a \<longleftrightarrow> unat a < unat boot \<or> unat boot + 512 \<le> unat a"

definition fs_ready :: "u32 list \<Rightarrow> nat \<Rightarrow> u32 \<Rightarrow> super_block \<Rightarrow> 'a kfs_scheme \<Rightarrow> 'a kfs_scheme \<Rightarrow> bool" where
  "fs_ready us n boot bd s s' \<longleftrightarrow> rooted us n 0 (sb_dir_first_sec bd) s' \<and> mounted 0 bd s' \<and> i_sb (inodes s' ! 0) = Some 0
     \<and> (\<exists>p. alloc_slot (inode_pool s') = (Some 1, p)) \<and> (\<exists>q. descriptor_free 0 0 q s')
     \<and> current s' = current s \<and> (\<forall>i. i \<noteq> current s \<longrightarrow> procs s' i = procs s i) \<and> umap (procs s' (current s)) = umap (procs s (current s))
     \<and> openfd (files (procs s' (current s))) = 0 \<and> maxopen (files (procs s' (current s))) = 5 \<and> fs_root (pfs (procs s' (current s))) = Some 0
     \<and> fd_array (files (procs s' (current s))) = fd_array (files (procs s (current s)))
     \<and> free_slots (inode_pool s') [1..<INODE_NR] \<and> free_slots (filp_pool s') [0..<FILP_NR] \<and> inodes_ok (inodes s')
     \<and> length (filps s') = FILP_NR \<and> 0 < length (super_block s')
     \<and> (\<forall>i. 0 < i \<longrightarrow> inodes s' ! i = inodes s ! i) \<and> kmem_base s' = kmem_base s
     \<and> (\<forall>a. off_screen a \<and> \<not> free_area us s a \<and> outside_buffer boot a \<longrightarrow> ram s' a = ram s a)"

lemma unat_wider [simp]: "unat (ucast (x :: u8) :: u32) = unat x" "unat (ucast (y :: u16) :: u32) = unat y"
proof -
  have "unat x < 2 ^ 8" "unat y < 2 ^ 16" using unsigned_less [of x] unsigned_less [of y] by simp_all
  then show "unat (ucast x :: u32) = unat x" "unat (ucast y :: u32) = unat y"
    by (simp_all add: unsigned_ucast_eq take_bit_nat_eq_self)
qed

lemma disk_super_mounted:
  assumes "mountable disk"
  shows "sb_ok (disk_super disk sb)" "sb_cluster_size (disk_super disk sb) \<noteq> 0" "512 * unat (sb_cluster_size (disk_super disk sb)) < 2 ^ 32"
proof -
  note m = assms [unfolded mountable_def Let_def]
  have "unat (bs_cluster_size (first_boot_sector disk)) < 256" using unsigned_less [of "bs_cluster_size (first_boot_sector disk)"] by simp
  then show "512 * unat (sb_cluster_size (disk_super disk sb)) < 2 ^ 32" by (simp add: disk_super_def)
  show "sb_cluster_size (disk_super disk sb) \<noteq> 0" using m by (simp add: disk_super_def flip: unat_eq_zero)
  show "sb_ok (disk_super disk sb)" using m by (simp add: sb_ok_def disk_super_def)
qed

lemma fs_init_ready:
  assumes "startable us n boot s" "mountable disk" "reads_disk disk rdb" "length stk = STACK_SIZE"
    and "bd = disk_super disk (super_block s ! 0)"
  shows "\<exists>s'. fs_init stk rdb slp boot s = Some (Inr s') \<and> fs_ready us n boot bd s s'"
proof -
  note a = assms(1) [unfolded startable_def]
  obtain q where q: "alloc_slot (init_slot INODE_NR (inode_pool s)) = (Some 0, q)" "free_slots q [1..<INODE_NR]"
    using fresh_pool [of INODE_NR "inode_pool s"] by (auto simp: INODE_NR_def)
  obtain m l t where t: "\<forall>b. unat b < unat boot \<or> unat boot + 512 \<le> unat b \<longrightarrow> m b = ram s b" "fs_io us (fs_started m disk l s) t"
    "fs_init stk rdb slp boot s = Some (Inr (proc_fd_init (current s)
        (t\<lparr>super_block := (super_block s)[0 := bd], inodes := (inodes s)[0 := root_inode bd (inodes s ! 0)], inode_pool := q\<rparr>)))"
    using fs_init_runs [OF assms q(1)] by blast
  define s' where "s' = proc_fd_init (current s)
        (t\<lparr>super_block := (super_block s)[0 := bd], inodes := (inodes s)[0 := root_inode bd (inodes s ! 0)], inode_pool := q\<rparr>)"
  note sel = fs_io_sel [OF t(2), unfolded fs_started_def, simplified]
  have ns: "length (inodes s) = 20" "length (i_block (inodes s ! 0)) = 10" "length (i_block (inodes s ! 1)) = 10" "length (i_name (inodes s ! 1)) = 255"
    using a by (auto simp: inodes_ok_def INODE_NR_def)
  have len: "0 < length (super_block s)" using a by (simp add: unmounted_def NR_SUPER_def)
  have s': "super_block s' = (super_block s)[0 := bd]" "inodes s' = (inodes s)[0 := root_inode bd (inodes s ! 0)]" "inode_pool s' = q"
    "filps s' = filps s" "filp_pool s' = init_slot FILP_NR (filp_pool s)" "current s' = current s" "ram s' = ram t" "kmem_base s' = kmem_base s"
    "kmem_page s' = kmem_page s" "cons s' = cons t" "\<And>i. i \<noteq> current s \<Longrightarrow> procs s' i = procs s i"
    "files (procs s' (current s)) = (files (procs s (current s)))\<lparr>openfd := 0, maxopen := 5\<rparr>" "fs_root (pfs (procs s' (current s))) = sb_rootdir bd"
    "umap (procs s' (current s)) = umap (procs s (current s))"
    using sel len by (simp_all add: s'_def proc_fd_init_def upd_proc_def umap_def fun_eq_iff)
  have p: "alloc_slot q = (Some 1, q\<lparr>free_head := free_next q 1\<rparr>)"
    using q(2) by (simp add: free_slots_def alloc_slot_def INODE_NR_def upt_conv_Cons)
  obtain fq where fq: "alloc_slot (init_slot FILP_NR (filp_pool s)) = (Some 0, fq)"
    using fresh_pool [of FILP_NR "filp_pool s"] by (auto simp: FILP_NR_def)
  have "cons_ok t" using a fs_io_cons [OF t(2)] by (simp add: fs_started_def cons_ok_def)
  then have "rooted us n 0 (sb_dir_first_sec bd) s'"
    using a s' ns p room_cong [of s' s] assms(5)
    by (cases "i_block (inodes s ! 0)") (auto simp: rooted_def cons_ok_def spare_inode_def root_inode_def disk_super_def)
  moreover have "mounted 0 bd s'"
    using s' ns len disk_super_mounted [OF assms(2)] assms(5) by (simp add: mounted_def sb_of_def root_inode_def)
  moreover have "find_zero_bit 0 = 0" by code_simp
  then have "descriptor_free 0 0 fq s'" using a s' fq by (simp add: descriptor_free_def FILP_NR_def)
  moreover have "ram s' b = ram s b" if "off_screen b" "\<not> free_area us s b" "outside_buffer boot b" for b
    using t(1) [rule_format, of b] fs_io_ram [OF t(2) that(1)] that(2,3) s'(7) by (simp add: outside_buffer_def fs_started_def free_area_def)
  moreover have "inodes_ok (inodes s')"
    using a set_update_subset_insert [of "inodes s" 0 "root_inode bd (inodes s ! 0)"] ns s'(2) by (auto simp: inodes_ok_def root_inode_def)
  moreover have "free_slots (filp_pool s') [0..<FILP_NR]" unfolding s'(5) by (rule free_slots_init) (simp add: FILP_NR_def)
  moreover have "i_sb (inodes s' ! 0) = Some 0" "fs_root (pfs (procs s' (current s))) = Some 0"
    using s'(2,13) ns assms(5) by (simp_all add: root_inode_def disk_super_def)
  ultimately show ?thesis
    using t(3) s' p q(2) a len unfolding fs_ready_def by (intro exI [of _ s']) (auto simp: s'_def [symmetric])
qed

section \<open>The layout of a volume\<close>

text \<open>The numbers of the FAT specification, as natural numbers, in sectors from the start of the volume.\<close>

definition fat_sectors :: "boot_sector \<Rightarrow> nat" where
  "fat_sectors bs = (if bs_fatsz16 bs \<noteq> 0 then unat (bs_fatsz16 bs) else unat (bs_fatsz32 bs))"

definition volume_sectors :: "boot_sector \<Rightarrow> nat" where
  "volume_sectors bs = (if bs_totsec16 bs \<noteq> 0 then unat (bs_totsec16 bs) else unat (bs_totsec32 bs))"

definition dir_start :: "boot_sector \<Rightarrow> nat" where
  "dir_start bs = unat (bs_reserved bs) + unat (bs_fat_number bs) * fat_sectors bs"

definition data_start :: "boot_sector \<Rightarrow> nat" where
  "data_start bs = dir_start bs + (32 * unat (bs_dir_number bs) + 511) div 512"

definition cluster_count :: "boot_sector \<Rightarrow> nat" where
  "cluster_count bs = (volume_sectors bs - data_start bs) div unat (bs_cluster_size bs)"

definition volume_fits :: "boot_sector \<Rightarrow> u32 \<Rightarrow> bool" where
  "volume_fits bs base \<longleftrightarrow> bs_sector_size bs = 512 \<and> bs_cluster_size bs \<noteq> 0 \<and> data_start bs \<le> volume_sectors bs
     \<and> unat base + volume_sectors bs < 2 ^ 32"

lemma unat_add_fits: "unat (v :: u32) + unat w < 2 ^ 32 \<Longrightarrow> unat (v + w) = unat v + unat w"
  using unat_add_lem [of v w] by simp

lemma fat_sector_words:
  assumes "volume_fits bs base"
  defines "fats \<equiv> ucast (bs_reserved bs) + ucast (bs_fat_number bs) * (if bs_fatsz16 bs \<noteq> 0 then ucast (bs_fatsz16 bs) else bs_fatsz32 bs) :: u32"
    and "dirs \<equiv> (ucast (bs_dir_number bs) * 32 + (ucast (bs_sector_size bs) - 1)) div ucast (bs_sector_size bs) :: u32"
    and "tot \<equiv> (if bs_totsec16 bs \<noteq> 0 then ucast (bs_totsec16 bs) else bs_totsec32 bs) :: u32"
  shows "unat fats = dir_start bs" "unat (fats + dirs) = data_start bs" "unat tot = volume_sectors bs"
    "unat ((tot - (fats + dirs)) div ucast (bs_cluster_size bs)) = cluster_count bs"
proof -
  note v = assms(1) [unfolded volume_fits_def data_start_def]
  show t: "unat tot = volume_sectors bs" by (simp add: tot_def volume_sectors_def)
  have z: "unat (if bs_fatsz16 bs \<noteq> 0 then ucast (bs_fatsz16 bs) else bs_fatsz32 bs :: u32) = fat_sectors bs" by (simp add: fat_sectors_def)
  have small: "dir_start bs < 2 ^ 32" "data_start bs < 2 ^ 32" using v by (simp_all add: data_start_def)
  have m: "unat (ucast (bs_fat_number bs) * (if bs_fatsz16 bs \<noteq> 0 then ucast (bs_fatsz16 bs) else bs_fatsz32 bs) :: u32) = unat (bs_fat_number bs) * fat_sectors bs"
    using small(1) z unat_mult_lem [of "ucast (bs_fat_number bs) :: u32" "if bs_fatsz16 bs \<noteq> 0 then ucast (bs_fatsz16 bs) else bs_fatsz32 bs"]
    by (simp add: dir_start_def)
  show f: "unat fats = dir_start bs"
    unfolding fats_def using small(1) m by (subst unat_add_fits) (simp_all add: dir_start_def)
  have dn: "unat (bs_dir_number bs) < 65536" using unsigned_less [of "bs_dir_number bs"] by simp
  then have "unat (ucast (bs_dir_number bs) * 32 :: u32) = unat (bs_dir_number bs) * 32"
    using unat_mult_lem [of "ucast (bs_dir_number bs) :: u32" 32] by simp
  then have "unat (ucast (bs_dir_number bs) * 32 + 511 :: u32) = unat (bs_dir_number bs) * 32 + 511"
    using dn by (subst unat_add_fits) simp_all
  then have d: "unat dirs = (32 * unat (bs_dir_number bs) + 511) div 512"
    using v by (simp add: dirs_def unat_div mult.commute)
  show a: "unat (fats + dirs) = data_start bs"
    using small(2) f d by (subst unat_add_fits) (simp_all add: data_start_def)
  have "unat (tot - (fats + dirs)) = volume_sectors bs - data_start bs"
    using assms(1) t a by (subst unat_sub) (simp_all add: word_le_nat_alt volume_fits_def)
  then show "unat ((tot - (fats + dirs)) div ucast (bs_cluster_size bs)) = cluster_count bs"
    by (simp add: unat_div cluster_count_def)
qed

lemma fat_super_layout:
  assumes "volume_fits bs (sb_base bd)" "r = fat_super bs bd"
  shows "unat (sb_data_first_sec r) = unat (sb_base bd) + data_start bs" "unat (sb_sector_number r) = volume_sectors bs"
    "sb_type r = (if cluster_count bs < 4085 then 1 else if cluster_count bs < 65525 then 2 else 3)"
    "cluster_count bs < 65525 \<Longrightarrow> unat (sb_dir_first_sec r) = unat (sb_base bd) + dir_start bs"
    "65525 \<le> cluster_count bs \<Longrightarrow> sb_dir_first_sec r = FstSecofDataClu r (bs_rootclus bs)"
    "sb_cluster_size r = ucast (bs_cluster_size bs)"
proof -
  let ?fats = "ucast (bs_reserved bs) + ucast (bs_fat_number bs) * (if bs_fatsz16 bs \<noteq> 0 then ucast (bs_fatsz16 bs) else bs_fatsz32 bs) :: u32"
  let ?dirs = "(ucast (bs_dir_number bs) * 32 + (ucast (bs_sector_size bs) - 1)) div ucast (bs_sector_size bs) :: u32"
  let ?tot = "(if bs_totsec16 bs \<noteq> 0 then ucast (bs_totsec16 bs) else bs_totsec32 bs) :: u32"
  let ?cnt = "(?tot - (?fats + ?dirs)) div ucast (bs_cluster_size bs)"
  note w = fat_sector_words [OF assms(1)]
  have v: "unat (sb_base bd) + data_start bs < 2 ^ 32" "dir_start bs \<le> data_start bs"
    using assms(1) by (simp_all add: volume_fits_def data_start_def)
  have c: "?cnt < 4085 \<longleftrightarrow> cluster_count bs < 4085" "?cnt < 65525 \<longleftrightarrow> cluster_count bs < 65525"
    unfolding word_less_nat_alt w(4) by simp_all
  have less: "w < 4085 \<Longrightarrow> w < 65525" for w :: u32 by (simp add: word_less_nat_alt)
  have r: "sb_data_first_sec r = sb_base bd + (?fats + ?dirs)" "sb_sector_number r = ?tot"
    "sb_type r = (if ?cnt < 4085 then 1 else if ?cnt < 65525 then 2 else 3)"
    "?cnt < 65525 \<Longrightarrow> sb_dir_first_sec r = sb_base bd + ?fats"
    "\<not> ?cnt < 65525 \<Longrightarrow> sb_dir_first_sec r = FstSecofDataClu r (bs_rootclus bs)"
    unfolding assms(2) fat_super_def Let_def by (auto simp: add.assoc FstSecofDataClu_def dest: less)
  show "unat (sb_data_first_sec r) = unat (sb_base bd) + data_start bs"
    unfolding r(1) using v w(2) by (subst unat_add_fits) simp_all
  show "unat (sb_sector_number r) = volume_sectors bs" unfolding r(2) by (rule w(3))
  show "sb_type r = (if cluster_count bs < 4085 then 1 else if cluster_count bs < 65525 then 2 else 3)" unfolding r(3) c ..
  show "unat (sb_dir_first_sec r) = unat (sb_base bd) + dir_start bs" if "cluster_count bs < 65525"
    using r(4) that v w(1) unat_add_fits [of "sb_base bd" ?fats] unfolding c by simp
  show "sb_dir_first_sec r = FstSecofDataClu r (bs_rootclus bs)" if "65525 \<le> cluster_count bs"
    using r(5) that unfolding c by simp
  show "sb_cluster_size r = ucast (bs_cluster_size bs)" by (simp add: assms(2))
qed

text \<open>The first sector of a cluster of the volume, which is numbered from 2 on.\<close>

definition cluster_start :: "boot_sector \<Rightarrow> u32 \<Rightarrow> nat" where
  "cluster_start bs c = data_start bs + (unat c - 2) * unat (bs_cluster_size bs)"

definition cluster_of :: "boot_sector \<Rightarrow> u32 \<Rightarrow> bool" where
  "cluster_of bs c \<longleftrightarrow> 2 \<le> unat c \<and> unat c < cluster_count bs + 2"

lemma cluster_start_inside:
  assumes "volume_fits bs base" "cluster_of bs c"
  shows "cluster_start bs c + unat (bs_cluster_size bs) \<le> volume_sectors bs"
proof -
  let ?k = "unat (bs_cluster_size bs)"
  have "unat c - 2 + 1 \<le> cluster_count bs" using assms(2) by (auto simp: cluster_of_def)
  then have "(unat c - 2 + 1) * ?k \<le> cluster_count bs * ?k" by (rule mult_le_mono1)
  also have "\<dots> \<le> volume_sectors bs - data_start bs" by (simp add: cluster_count_def div_times_less_eq_dividend)
  finally have "(unat c - 2) * ?k + ?k \<le> volume_sectors bs - data_start bs" by (simp add: add_mult_distrib)
  then show ?thesis using assms(1) unfolding cluster_start_def volume_fits_def by linarith
qed

lemma cluster_sector:
  assumes "volume_fits bs (sb_base bd)" "r = fat_super bs bd" "cluster_of bs c"
  shows "unat (FstSecofDataClu r c) = unat (sb_base bd) + cluster_start bs c"
proof -
  note l = fat_super_layout [OF assms(1,2)] and i = cluster_start_inside [OF assms(1,3)]
  have fits: "unat (sb_base bd) + cluster_start bs c < 2 ^ 32" using assms(1) i by (simp add: volume_fits_def)
  have c: "unat (c - 2) = unat c - 2" using assms(3) by (subst unat_sub) (simp_all add: cluster_of_def word_le_nat_alt)
  have "unat (c - 2) * unat (sb_cluster_size r) < 2 ^ 32" using fits by (simp add: c l(6) cluster_start_def)
  then have m: "unat ((c - 2) * sb_cluster_size r) = (unat c - 2) * unat (bs_cluster_size bs)"
    using unat_mult_lem [of "c - 2" "sb_cluster_size r"] by (simp add: c l(6))
  then have "unat ((c - 2) * sb_cluster_size r) + unat (sb_data_first_sec r) < 2 ^ 32" using fits l(1) by (simp add: cluster_start_def)
  then show ?thesis using m l(1) by (simp add: FstSecofDataClu_def unat_add_fits cluster_start_def)
qed

text \<open>A name that \<open>fs_init\<close> leaves in place.\<close>

lemma names_kept:
  assumes "names us a x s"
    and "\<forall>i \<le> length x. off_screen (umap (procs s (current s)) a + of_nat i) \<and> outside_buffer boot (umap (procs s (current s)) a + of_nat i)"
    and "fs_ready us n boot bd s s'"
  shows "names us a x s'"
proof -
  let ?p = "umap (procs s (current s)) a"
  note r = assms(3) [unfolded fs_ready_def] and nm = assms(1) [unfolded names_def Let_def]
  have "ram s' (?p + of_nat i) = ram s (?p + of_nat i)" if "i < Suc (length x)" for i
  proof -
    have "unat (?p + of_nat i) = unat ?p + i" using nm that by (intro unat_add_small) simp
    then have "\<not> free_area us s (?p + of_nat i)" using nm that by (auto simp: free_area_def)
    then show ?thesis using r assms(2) that by (simp add: less_Suc_eq_le)
  qed
  then have "block_at (ram s') ?p (Suc (length x)) = block_at (ram s) ?p (Suc (length x))" by (intro nth_equalityI) simp_all
  then show ?thesis using nm r unfolding names_def Let_def by simp
qed

text \<open>The first file that is opened.\<close>

lemma first_open:
  assumes "startable us n boot s" "mountable disk" "reads_disk disk rdb" "length stk = STACK_SIZE" "length junk = 13"
    and "bd = disk_super disk (super_block s ! 0)" "sec = sb_dir_first_sec bd" "names us a x s"
    and "\<forall>i \<le> length x. off_screen (umap (procs s (current s)) a + of_nat i) \<and> outside_buffer boot (umap (procs s (current s)) a + of_nat i)"
    and "dir_lookup (sector_memory disk sec) 0 32 x = Some d" "file_clusters disk bd sec d cs"
    and "nd = file_inode disk sec d (Some 0) cs (inodes s ! 1)"
  shows "\<exists>s1 s2. fs_init stk rdb slp boot s = Some (Inr s1) \<and> sys_open stk rdb junk a s1 = Some (Inr (0, s2))
    \<and> fd_entry 0 s2 = Inr (Some 0) \<and> open_file 0 \<lparr>f_ino = Some 1, f_pos = 0, f_count = 1\<rparr> 1 bd nd s2 \<and> room us n s2 \<and> kmem_base s2 = kmem_base s"
proof -
  obtain s1 where s1: "fs_init stk rdb slp boot s = Some (Inr s1)" "fs_ready us n boot bd s s1"
    using fs_init_ready [OF assms(1-4,6)] by blast
  note r = s1(2) [unfolded fs_ready_def]
  obtain p q where pq: "alloc_slot (inode_pool s1) = (Some 1, p)" "descriptor_free 0 0 q s1" using r by blast
  have "names us a x s1" using names_kept [OF assms(8,9) s1(2)] .
  moreover have "nd = file_inode disk sec d (i_sb (inodes s1 ! 0)) cs (inodes s1 ! 1)" using r assms(12) by simp
  moreover have "rooted us n 0 sec s1" "mounted 0 bd s1" using r assms(7) by auto
  ultimately obtain t where t: "fs_io us (s1\<lparr>inode_pool := p, inodes := (inodes s1)[1 := nd]\<rparr>) t"
    "sys_open stk rdb junk a s1 = Some (Inr (int 0, with_descriptor 0 0 q 1 t))" "1 < length (inodes t)" "inodes t ! 1 = nd" "sb_of 1 t = Inr bd"
    "descriptor_free 0 0 q t"
    using sys_open_spec [OF _ _ assms(3-5) _ assms(10,11) pq(1) _ pq(2)] by blast
  note o = with_descriptor_file [OF t(6,3-5)]
  let ?s2 = "with_descriptor 0 0 q 1 t"
  have "room us n ?s2"
    using r fs_io_room [OF t(1)] room_cong [of ?s2 t] room_cong [of "s1\<lparr>inode_pool := p, inodes := (inodes s1)[1 := nd]\<rparr>" s1]
    by (simp add: rooted_def with_descriptor_def upd_proc_def Let_def)
  moreover have "kmem_base ?s2 = kmem_base s"
    using r fs_io_sel(2) [OF t(1)] by (simp add: with_descriptor_def upd_proc_def Let_def)
  ultimately show ?thesis using s1(1) t(2) o by auto
qed

section \<open>Properties\<close>

text \<open>
  Property C23: the super block that \<open>read_super\<close> computes in words of 32 bits from a boot sector is the layout of the
  FAT specification, computed in natural numbers: the first sector of the data, the number of sectors, the kind of FAT by
  the count of clusters, and the first sector of the root directory, which is behind the FATs for the small kinds and the
  first sector of the root cluster for FAT32.
\<close>

theorem fat_super_geometry:
  assumes "volume_fits bs (sb_base bd)" "r = fat_super bs bd"
  shows "unat (sb_data_first_sec r) = unat (sb_base bd) + data_start bs \<and> unat (sb_sector_number r) = volume_sectors bs
    \<and> sb_type r = (if cluster_count bs < 4085 then 1 else if cluster_count bs < 65525 then 2 else 3)
    \<and> (cluster_count bs < 65525 \<longrightarrow> unat (sb_dir_first_sec r) = unat (sb_base bd) + dir_start bs)
    \<and> (65525 \<le> cluster_count bs \<and> cluster_of bs (bs_rootclus bs)
         \<longrightarrow> unat (sb_dir_first_sec r) = unat (sb_base bd) + cluster_start bs (bs_rootclus bs))"
  using fat_super_layout [OF assms] cluster_sector [OF assms] by simp

text \<open>
  Property C22: \<open>fs_init\<close> returns on a disk with a partition table whose first partition is a FAT volume: the running
  process has the root directory at the sector where the volume has it, five descriptors, all of them free, and the super
  block of the volume; all inodes but that of the directory and all file records are free. Only the running process and,
  off the screen, only the buffer on the stack and free kernel pages have changed.
\<close>

theorem fs_init_mounts:
  assumes "startable us n boot s" "mountable disk" "reads_disk disk rdb" "length stk = STACK_SIZE"
    and "bd = disk_super disk (super_block s ! 0)"
  shows "\<exists>s'. fs_init stk rdb slp boot s = Some (Inr s') \<and> rooted us n 0 (sb_dir_first_sec bd) s' \<and> mounted 0 bd s'
    \<and> (\<exists>p. alloc_slot (inode_pool s') = (Some 1, p)) \<and> (\<exists>q. descriptor_free 0 0 q s')
    \<and> openfd (files (procs s' (current s))) = 0 \<and> maxopen (files (procs s' (current s))) = 5
    \<and> length (fd_array (files (procs s' (current s)))) = 5 \<and> fs_root (pfs (procs s' (current s))) = Some 0
    \<and> free_slots (inode_pool s') [1..<INODE_NR] \<and> free_slots (filp_pool s') [0..<FILP_NR]
    \<and> current s' = current s \<and> (\<forall>i. i \<noteq> current s \<longrightarrow> procs s' i = procs s i)
    \<and> (\<forall>a. off_screen a \<and> \<not> free_area us s a \<and> outside_buffer boot a \<longrightarrow> ram s' a = ram s a)"
proof -
  have "length (fd_array (files (procs s (current s)))) = 5" using assms(1) by (simp add: startable_def)
  with fs_init_ready [OF assms] show ?thesis unfolding fs_ready_def by metis
qed

text \<open>
  Property C12: from the start of the file system to the bytes of a file: after \<open>fs_init\<close>, \<open>sys_open\<close> of a name that is among the first 32 entries
  of the root directory returns descriptor 0, and \<open>filp_read\<close> of its file returns the bytes that the disk holds in the clusters of
  the file, in order, as many as were asked for or as the file has.
\<close>

theorem file_after_start:
  assumes "startable us n boot s" "mountable disk" "reads_disk disk rdb" "length stk = STACK_SIZE" "length junk = 13"
    and "bd = disk_super disk (super_block s ! 0)" "sec = sb_dir_first_sec bd" "names us a x s"
    and "\<forall>i \<le> length x. off_screen (umap (procs s (current s)) a + of_nat i) \<and> outside_buffer boot (umap (procs s (current s)) a + of_nat i)"
    and "dir_lookup (sector_memory disk sec) 0 32 x = Some d" "file_clusters disk bd sec d cs"
    and "nd = file_inode disk sec d (Some 0) cs (inodes s ! 1)" "file_ok bd nd n"
    and "unat sz < 2 ^ 31" "k = min (unat sz) (unat (i_size nd))" "outside_free us s buf k"
  shows "\<exists>s1 s2 e m. fs_init stk rdb slp boot s = Some (Inr s1) \<and> sys_open stk rdb junk a s1 = Some (Inr (0, s2))
    \<and> fd_entry 0 s2 = Inr (Some 0) \<and> filp_read stk rdb buf sz 0 s2 = Some (Inr (of_nat k, after_read e m 0 k s2))
    \<and> block_at m buf k = map (file_byte disk bd (i_block nd)) [0..<k]"
proof -
  obtain s1 s2 where o: "fs_init stk rdb slp boot s = Some (Inr s1)" "sys_open stk rdb junk a s1 = Some (Inr (0, s2))"
    "fd_entry 0 s2 = Inr (Some 0)" "open_file 0 \<lparr>f_ino = Some 1, f_pos = 0, f_count = 1\<rparr> 1 bd nd s2" "room us n s2" "kmem_base s2 = kmem_base s"
    using first_open [OF assms(1-12), of slp] by blast
  have "outside_free us s2 buf k" using assms(16) o(6) by (simp add: outside_free_def)
  moreover have "k = min (unat sz) (unat (i_size nd) - unat (f_pos \<lparr>f_ino = Some 1, f_pos = 0, f_count = 1\<rparr>))" using assms(15) by simp
  ultimately obtain e m where "filp_read stk rdb buf sz 0 s2 = Some (Inr (of_nat k, after_read e m 0 k s2))"
    "block_at m buf k = map (file_byte disk bd (i_block nd)) [0..<k]"
    using filp_read_spec [OF o(5) assms(3,13) o(4) assms(14), of k buf stk] by auto
  then show ?thesis using o(1-3) by auto
qed

text \<open>
  The disk of \<open>sys_open_opens_witness\<close> as the first partition of a disk, behind a sector with the partition table.
\<close>

definition boot_disk :: "nat \<Rightarrow> u8" where
  "boot_disk k = (if k = 450 then 6 else if k = 454 then 1 else if k = 510 then 0x55 else if k = 511 then 0xAA
     else if k = 524 then 2 else if k = 525 \<or> k = 526 \<or> k = 528 then 1 else if k = 529 then 16 else if k = 531 then 100 else if k = 534 then 1
     else if k < 1024 then 0 else if k = 2560 then 72 else open_disk (k - 512))"

definition boot_fs :: kfs where
  "boot_fs = open_fs\<lparr>procs := (\<lambda>_. zero_proc\<lparr>pmap := (\<lambda>_. \<lparr>vir = 0, phys = 0, map_size = 0x600000\<rparr>)\<rparr>), super_block := [zero_super, zero_super], inodes := replicate 20 small_inode,
     wini := [hd_drive\<lparr>part_ops := Some Partition_check\<rparr>], filps := replicate 8 \<lparr>f_ino = None, f_pos = 0, f_count = 0\<rparr>\<rparr>"

lemma boot_fs_ok: "startable [] 128 0x300000 boot_fs" "names [] 0x500000 [65, 46, 84, 88, 84] boot_fs"
  "umap (procs boot_fs (current boot_fs)) 0x500000 = 0x500000" "outside_free [] boot_fs 0x500000 600"
proof -
  have "room [] 128 boot_fs" using small_fs_ok(1) room_cong [of boot_fs small_fs] by (simp add: boot_fs_def open_fs_def)
  moreover have "cons_ok boot_fs" using small_fs_ok(2) by (simp add: boot_fs_def open_fs_def cons_ok_def)
  moreover have "unmounted (super_block boot_fs)" by (simp add: boot_fs_def unmounted_def NR_SUPER_def zero_super_def)
  moreover have "inodes_ok (inodes boot_fs)" by (simp add: boot_fs_def inodes_ok_def INODE_NR_def small_inode_def)
  moreover have "length (fd_array (files (procs boot_fs (current boot_fs)))) = 5" by (simp add: boot_fs_def open_fs_def zero_proc_def)
  ultimately show "startable [] 128 0x300000 boot_fs" by (simp add: startable_def) (simp add: boot_fs_def FILP_NR_def)
  show "names [] 0x500000 [65, 46, 84, 88, 84] boot_fs" using open_fs_ok(2) by (simp add: names_def boot_fs_def open_fs_def umap_def)
  show "umap (procs boot_fs (current boot_fs)) 0x500000 = 0x500000" by (simp add: boot_fs_def open_fs_def umap_def)
  show "outside_free [] boot_fs 0x500000 600" by (simp add: outside_free_def boot_fs_def open_fs_sel)
qed

definition boot_super :: super_block where
  "boot_super = small_super\<lparr>sb_base := 1, sb_sectorspertrack := 0, sb_heads := 0, sb_dir_first_sec := 3, sb_data_first_sec := 4, sb_rootdir := Some 0\<rparr>"

lemma boot_disk_super:
  "mountable boot_disk" "boot_super = disk_super boot_disk (super_block boot_fs ! 0)" "volume_fits (first_boot_sector boot_disk) 1"
  "cluster_count (first_boot_sector boot_disk) = 97" "data_start (first_boot_sector boot_disk) = 3"
proof -
  have p: "first_log (partitions boot_disk ! 0) = 1" "sysind (partitions boot_disk ! 0) = 6"
    by (simp_all add: partitions_def partition_at_def sector_memory_def u32_at_def u16_at_def boot_disk_def)
  have b: "boot_sector_at (sector_memory boot_disk 1) 0 = \<lparr>bs_sector_size = 512, bs_cluster_size = 1, bs_reserved = 1, bs_fat_number = 1,
     bs_dir_number = 16, bs_totsec16 = 100, bs_fatsz16 = 1, bs_sectorspertrack = 0, bs_heads = 0, bs_hidden = 0, bs_totsec32 = 0,
     bs_fatsz32 = 0, bs_rootclus = 0\<rparr>"
    by (simp add: boot_sector_at_def sector_memory_def u32_at_def u16_at_def boot_disk_def open_disk_def small_disk_def)
  show "mountable boot_disk" by (simp add: mountable_def first_boot_sector_def p b FAT12_PART_def) (simp add: boot_disk_def)
  show "boot_super = disk_super boot_disk (super_block boot_fs ! 0)"
    by (simp add: disk_super_def first_boot_sector_def p b fat_super_def Let_def boot_super_def) (simp add: boot_fs_def zero_super_def small_super_def)
  show "data_start (first_boot_sector boot_disk) = 3" "cluster_count (first_boot_sector boot_disk) = 97" "volume_fits (first_boot_sector boot_disk) 1"
    by (simp_all add: first_boot_sector_def p b cluster_count_def data_start_def dir_start_def fat_sectors_def volume_sectors_def volume_fits_def)
qed

lemma boot_disk_file:
  "dir_lookup (sector_memory boot_disk 3) 0 32 [65, 46, 84, 88, 84] = Some 32" "file_clusters boot_disk boot_super 3 32 [2, 3]"
  "u32_at (sector_memory boot_disk 3) (32 + 28) = 700"
  "file_ok boot_super (file_inode boot_disk 3 32 (Some 0) [2, 3] (inodes boot_fs ! 1)) 128"
proof -
  have "fat_table boot_disk boot_super 3 = 3" "fat_table boot_disk boot_super 4 = 0xF0" "fat_table boot_disk boot_super 5 = 0xFF"
    by (simp_all add: fat_table_def boot_super_def small_super_def boot_disk_def open_disk_def small_disk_def)
  then have e: "fat_entry 1 (fat_table boot_disk boot_super) 2 = 3" "fat_entry 1 (fat_table boot_disk boot_super) 3 = 0xFFF"
    unfolding fat_entry_def bits_at_def by (simp_all add: upt_rec bit_numeral_rec)
  have same: "sector_memory boot_disk 3 (0 + of_nat i) = sector_memory open_disk 2 (of_nat i)" if "i < 1024" for i
    using that by (simp add: sector_memory_def boot_disk_def unat_of_nat)
  have w: "u16_at (sector_memory boot_disk 3) (32 + 20) = 0" "u16_at (sector_memory boot_disk 3) (32 + 26) = 2"
    by (simp_all add: u16_at_def sector_memory_def boot_disk_def open_disk_def small_disk_def)
  have "u32_at (sector_memory boot_disk 3) (32 + 28) = u32_at (sector_memory open_disk 2) (32 + 28)"
    using same [of 60] same [of 61] same [of 62] same [of 63] by (simp add: u32_at_bytes)
  then show s: "u32_at (sector_memory boot_disk 3) (32 + 28) = 700" using open_disk_file(3) by simp
  have t: "sb_type boot_super = 1" "sb_cluster_size boot_super = 1" by (simp_all add: boot_super_def small_super_def)
  have "clusters_of boot_super 700 = 2" by (simp add: clusters_of_def t)
  then show "file_clusters boot_disk boot_super 3 32 [2, 3]"
    using e w s unfolding file_clusters_def Let_def t by (simp add: eof_mark_def)
  show "dir_lookup (sector_memory boot_disk 3) 0 32 [65, 46, 84, 88, 84] = Some 32"
    using lookup_moved(1) [of 32 "sector_memory boot_disk 3" 0 "sector_memory open_disk 2"] same open_disk_file(1) by simp
  have p: "pages_of 512 = 1" by (simp add: pages_of_ceil)
  have "clu_ok boot_super (([2, 3] @ replicate 8 0) ! i)" if "i * 512 < 700" for i
  proof -
    have "i = 0 \<or> i = 1" using that by linarith
    then show ?thesis by (auto simp: clu_ok_def first_sector_def boot_super_def small_super_def)
  qed
  then show "file_ok boot_super (file_inode boot_disk 3 32 (Some 0) [2, 3] (inodes boot_fs ! 1)) 128"
    using p s by (simp add: file_ok_def sb_ok_def cluster_bytes_def file_inode_def entry_inode_def boot_fs_def small_inode_def t)
      (simp add: boot_super_def small_super_def)
qed

lemma boot_name_far:
  "\<forall>i \<le> length [65, 46, 84, 88, 84 :: u8]. off_screen (umap (procs boot_fs (current boot_fs)) 0x500000 + of_nat i)
      \<and> outside_buffer 0x300000 (umap (procs boot_fs (current boot_fs)) 0x500000 + of_nat i)"
proof (intro allI impI)
  fix i assume "i \<le> length [65, 46, 84, 88, 84 :: u8]"
  then have "unat ((0x500000 :: u32) + of_nat i) = 0x500000 + i" by (subst unat_add_small) simp_all
  then show "off_screen (umap (procs boot_fs (current boot_fs)) 0x500000 + of_nat i)
    \<and> outside_buffer 0x300000 (umap (procs boot_fs (current boot_fs)) 0x500000 + of_nat i)"
    unfolding boot_fs_ok(3) by (simp add: off_screen_def screen_base_def outside_buffer_def)
qed

text \<open>A large volume, with its root directory in cluster 5.\<close>

definition big_boot :: boot_sector where
  "big_boot = \<lparr>bs_sector_size = 512, bs_cluster_size = 8, bs_reserved = 32, bs_fat_number = 2, bs_dir_number = 0, bs_totsec16 = 0,
     bs_fatsz16 = 0, bs_sectorspertrack = 63, bs_heads = 255, bs_hidden = 63, bs_totsec32 = 1000000, bs_fatsz32 = 977, bs_rootclus = 5\<rparr>"

lemma big_boot_volume:
  "volume_fits big_boot 63" "cluster_count big_boot = 124751" "cluster_of big_boot (bs_rootclus big_boot)" "cluster_start big_boot (bs_rootclus big_boot) = 2010"
  by (simp_all add: volume_fits_def cluster_of_def cluster_start_def cluster_count_def data_start_def dir_start_def fat_sectors_def
      volume_sectors_def big_boot_def)

theorem fat_super_geometry_witness:
  "unat (sb_data_first_sec (fat_super (first_boot_sector boot_disk) (zero_super\<lparr>sb_base := 1\<rparr>))) = 4
    \<and> sb_type (fat_super (first_boot_sector boot_disk) (zero_super\<lparr>sb_base := 1\<rparr>)) = 1
    \<and> sb_type (fat_super big_boot (zero_super\<lparr>sb_base := 63\<rparr>)) = 3
    \<and> unat (sb_dir_first_sec (fat_super big_boot (zero_super\<lparr>sb_base := 63\<rparr>))) = 2073"
  using fat_super_geometry [OF _ refl, of "first_boot_sector boot_disk" "zero_super\<lparr>sb_base := 1\<rparr>"] boot_disk_super(3-5)
    fat_super_geometry [OF _ refl, of big_boot "zero_super\<lparr>sb_base := 63\<rparr>"] big_boot_volume by simp

theorem fs_init_mounts_witness:
  "\<exists>s'. fs_init (replicate 100 0) (copy_reader boot_disk) (\<lambda>_ _. None) 0x300000 boot_fs = Some (Inr s') \<and> rooted [] 128 0 3 s'
    \<and> openfd (files (procs s' (current boot_fs))) = 0 \<and> maxopen (files (procs s' (current boot_fs))) = 5"
proof -
  have "length (replicate 100 0 :: u8 list) = STACK_SIZE" "sb_dir_first_sec boot_super = 3" by (simp_all add: STACK_SIZE_def boot_super_def)
  then show ?thesis
    using fs_init_mounts [OF boot_fs_ok(1) boot_disk_super(1) copy_reader_reads _ boot_disk_super(2), of "replicate 100 0" "\<lambda>_ _. None"] by auto
qed

theorem file_after_start_witness:
  "\<exists>s1 s2 e m. fs_init (replicate 100 0) (copy_reader boot_disk) (\<lambda>_ _. None) 0x300000 boot_fs = Some (Inr s1)
    \<and> sys_open (replicate 100 0) (copy_reader boot_disk) (replicate 13 7) 0x500000 s1 = Some (Inr (0, s2))
    \<and> filp_read (replicate 100 0) (copy_reader boot_disk) 0x500000 600 0 s2 = Some (Inr (600, after_read e m 0 600 s2)) \<and> m 0x500200 = 72"
proof -
  let ?nd = "file_inode boot_disk 3 32 (Some 0) [2, 3] (inodes boot_fs ! 1)"
  have l: "length (replicate 100 0 :: u8 list) = STACK_SIZE" "length (replicate 13 7 :: u8 list) = 13" "3 = sb_dir_first_sec boot_super"
    "unat (600 :: u32) < 2 ^ 31" by (simp_all add: STACK_SIZE_def boot_super_def)
  have sz: "600 = min (unat (600 :: u32)) (unat (i_size ?nd))" using boot_disk_file(3) by (simp add: file_inode_def entry_inode_def)
  obtain s1 s2 e m where r: "fs_init (replicate 100 0) (copy_reader boot_disk) (\<lambda>_ _. None) 0x300000 boot_fs = Some (Inr s1)"
    "sys_open (replicate 100 0) (copy_reader boot_disk) (replicate 13 7) 0x500000 s1 = Some (Inr (0, s2))"
    "filp_read (replicate 100 0) (copy_reader boot_disk) 0x500000 600 0 s2 = Some (Inr (of_nat 600, after_read e m 0 600 s2))"
    "block_at m 0x500000 600 = map (file_byte boot_disk boot_super (i_block ?nd)) [0..<600]"
    using file_after_start [OF boot_fs_ok(1) boot_disk_super(1) copy_reader_reads l(1,2) boot_disk_super(2) l(3) boot_fs_ok(2) boot_name_far
        boot_disk_file(1,2) refl boot_disk_file(4) l(4) sz boot_fs_ok(4), of "\<lambda>_ _. None"] by blast
  have "block_at m 0x500000 600 ! 512 = file_byte boot_disk boot_super (i_block ?nd) 512"
    unfolding r(4) by (subst nth_map) (simp_all only: length_upt nth_upt add_0 diff_zero)
  then have "m 0x500200 = 72"
    by (simp add: file_byte_def cluster_bytes_def first_sector_def file_inode_def boot_super_def small_super_def boot_disk_def)
  then show ?thesis using r(1-3) by auto
qed

end
