(* ===== verification/Fs_Types.thy ===== *)
theory Fs_Types
  imports Mount_Props Fork_Props
begin

text \<open>
  What the tables of open files hold in every state that the kernel reaches: a descriptor stands for a file record in
  use, with an inode in use, with a super block. The other processes run while one waits for the disk, so that an
  operation keeps more than this: the inodes that another operation has taken and not yet opened stay taken.
\<close>

section \<open>The types of the tables\<close>

text \<open>An inode that belongs to a super block.\<close>

definition bound :: "nat \<Rightarrow> 'a kfs_scheme \<Rightarrow> bool" where
  "bound i s \<longleftrightarrow> (\<exists>k. i_sb (inodes s ! i) = Some k \<and> k < length (super_block s))"

text \<open>\<open>X\<close> are inodes that are held; \<open>fi\<close> and \<open>ff\<close> the unused inodes and file records.\<close>

definition file_typed :: "nat list \<Rightarrow> nat list \<Rightarrow> nat \<Rightarrow> 'a kfs_scheme \<Rightarrow> bool" where
  "file_typed fi ff f s \<longleftrightarrow> f < FILP_NR \<and> f \<notin> set ff \<and> (\<exists>i. f_ino (filps s ! f) = Some i \<and> i < INODE_NR \<and> i \<notin> set fi \<and> bound i s)"

definition root_typed :: "nat list \<Rightarrow> nat \<Rightarrow> 'a kfs_scheme \<Rightarrow> bool" where
  "root_typed fi r s \<longleftrightarrow> r < INODE_NR \<and> r \<notin> set fi \<and> bound r s"

definition fs_typed :: "nat set \<Rightarrow> 'a kfs_scheme \<Rightarrow> bool" where
  "fs_typed X s \<longleftrightarrow> (\<exists>fi ff. free_slots (inode_pool s) fi \<and> free_slots (filp_pool s) ff \<and> set fi \<subseteq> {..<INODE_NR} \<and> set ff \<subseteq> {..<FILP_NR}
     \<and> inodes_ok (inodes s) \<and> length (filps s) = FILP_NR \<and> X \<subseteq> {..<INODE_NR} - set fi
     \<and> (\<forall>p f. Some f \<in> set (fd_array (files (procs s p))) \<longrightarrow> file_typed fi ff f s)
     \<and> (\<forall>p r. fs_root (pfs (procs s p)) = Some r \<longrightarrow> root_typed fi r s))"

text \<open>What an operation keeps for the others.\<close>

definition fs_keeps :: "nat set \<Rightarrow> 'a kfs_scheme \<Rightarrow> 'a kfs_scheme \<Rightarrow> bool" where
  "fs_keeps X s s' \<longleftrightarrow> fs_typed X s' \<and> current s' = current s \<and> length (super_block s') = length (super_block s)
     \<and> (\<forall>i \<in> X. i_sb (inodes s' ! i) = i_sb (inodes s ! i))"

text \<open>The steps that do not touch the tables, though a process may take over the files of another.\<close>

definition fs_same :: "'a kfs_scheme \<Rightarrow> 'a kfs_scheme \<Rightarrow> bool" where
  "fs_same s s' \<longleftrightarrow> inodes s' = inodes s \<and> inode_pool s' = inode_pool s \<and> filps s' = filps s \<and> filp_pool s' = filp_pool s
     \<and> super_block s' = super_block s
     \<and> (\<forall>p. \<exists>q. fd_array (files (procs s' p)) = fd_array (files (procs s q)) \<and> fs_root (pfs (procs s' p)) = fs_root (pfs (procs s q)))"

definition fs_reader :: "'a kfs_scheme reader \<Rightarrow> bool" where
  "fs_reader rdb \<longleftrightarrow> (\<forall>X buf sz sec s r s'. fs_typed X s \<longrightarrow> rdb buf sz sec s = Some (Inr (r, s')) \<longrightarrow> fs_keeps X s s')"

lemma fs_keeps_refl: "fs_typed X s \<Longrightarrow> fs_keeps X s s" by (simp add: fs_keeps_def)

lemma fs_keeps_trans: "fs_keeps X s t \<Longrightarrow> fs_keeps X t u \<Longrightarrow> fs_keeps X s u" by (simp add: fs_keeps_def)

lemma fs_keeps_then: "fs_keeps X s t \<Longrightarrow> (fs_typed X t \<Longrightarrow> fs_keeps X t u) \<Longrightarrow> fs_keeps X s u"
  using fs_keeps_trans by (auto simp: fs_keeps_def)

lemma fs_typed_mono: "fs_typed X s \<Longrightarrow> Y \<subseteq> X \<Longrightarrow> fs_typed Y s" unfolding fs_typed_def by blast

lemma fs_keeps_mono: "fs_keeps X s t \<Longrightarrow> Y \<subseteq> X \<Longrightarrow> fs_keeps Y s t"
  using fs_typed_mono by (auto simp: fs_keeps_def)

lemma fs_typed_cong:
  assumes "fs_typed X s" "inodes s' = inodes s" "inode_pool s' = inode_pool s" "filps s' = filps s" "filp_pool s' = filp_pool s"
    "super_block s' = super_block s"
    "\<And>p. \<exists>q. fd_array (files (procs s' p)) = fd_array (files (procs s q)) \<and> fs_root (pfs (procs s' p)) = fs_root (pfs (procs s q))"
  shows "fs_typed X s'"
proof -
  obtain fi ff where t: "free_slots (inode_pool s) fi" "free_slots (filp_pool s) ff" "set fi \<subseteq> {..<INODE_NR}" "set ff \<subseteq> {..<FILP_NR}"
    "inodes_ok (inodes s)" "length (filps s) = FILP_NR" "X \<subseteq> {..<INODE_NR} - set fi"
    "\<And>p f. Some f \<in> set (fd_array (files (procs s p))) \<Longrightarrow> file_typed fi ff f s"
    "\<And>p r. fs_root (pfs (procs s p)) = Some r \<Longrightarrow> root_typed fi r s"
    using assms(1) unfolding fs_typed_def by blast
  have same: "file_typed fi ff f s' = file_typed fi ff f s" "root_typed fi r s' = root_typed fi r s" for f r
    using assms(2-6) by (simp_all add: file_typed_def root_typed_def bound_def)
  have "file_typed fi ff f s'" if "Some f \<in> set (fd_array (files (procs s' p)))" for p f
    using t(8) [of f] assms(7) [of p] that unfolding same by auto
  moreover have "root_typed fi r s'" if "fs_root (pfs (procs s' p)) = Some r" for p r
    using t(9) [of _ r] assms(7) [of p] that unfolding same by auto
  ultimately show ?thesis using t(1-7) assms(2-6) unfolding fs_typed_def by (intro exI [of _ fi] exI [of _ ff]) simp
qed

lemma fs_same_typed: "fs_same s s' \<Longrightarrow> fs_typed X s \<Longrightarrow> fs_typed X s'"
  unfolding fs_same_def by (elim conjE) (erule fs_typed_cong, auto)

lemma fs_same_keeps: "fs_same s s' \<Longrightarrow> current s' = current s \<Longrightarrow> fs_typed X s \<Longrightarrow> fs_keeps X s s'"
  using fs_same_typed unfolding fs_keeps_def fs_same_def by auto

lemma fs_same_trans: "fs_same s t \<Longrightarrow> fs_same t u \<Longrightarrow> fs_same s u"
  unfolding fs_same_def by (elim conjE) (auto, metis)

lemma fs_sameI:
  "inodes s' = inodes s \<Longrightarrow> inode_pool s' = inode_pool s \<Longrightarrow> filps s' = filps s \<Longrightarrow> filp_pool s' = filp_pool s
    \<Longrightarrow> super_block s' = super_block s \<Longrightarrow> (\<And>p. files (procs s' p) = files (procs s p) \<and> pfs (procs s' p) = pfs (procs s p)) \<Longrightarrow> fs_same s s'"
  unfolding fs_same_def by auto

section \<open>Operations that do not touch the tables\<close>

text \<open>A step that keeps the tables and the process that runs.\<close>

definition fs_frame :: "'a kfs_scheme \<Rightarrow> 'a kfs_scheme \<Rightarrow> bool" where
  "fs_frame s s' \<longleftrightarrow> inodes s' = inodes s \<and> inode_pool s' = inode_pool s \<and> filps s' = filps s \<and> filp_pool s' = filp_pool s
     \<and> super_block s' = super_block s \<and> procs s' = procs s \<and> current s' = current s"

lemma fs_frame_keeps: "fs_frame s s' \<Longrightarrow> fs_typed X s \<Longrightarrow> fs_keeps X s s'"
  by (intro fs_same_keeps fs_sameI) (auto simp: fs_frame_def)

lemma fs_frame_trans: "fs_frame s t \<Longrightarrow> fs_frame t u \<Longrightarrow> fs_frame s u" by (simp add: fs_frame_def)

lemma fs_frame_refl [simp]: "fs_frame s s" by (simp add: fs_frame_def)

lemma kmalloc_frame:
  assumes "kmalloc sz s = Inr (a, s')"
  shows "fs_frame s s'"
proof -
  obtain x where "(case x of (r, ps) \<Rightarrow> case r of Some h \<Rightarrow> Inr (kmem_base (s\<lparr>ief := False\<rparr>) + of_nat h * PAGE_SIZE, s\<lparr>ief := False, kmem_page := ps\<rparr>)
      | None \<Rightarrow> Inr (0, s\<lparr>ief := False, ief := ief s\<rparr>)) = (Inr (a, s') :: (u32 \<times> 'a kfs_scheme) res)"
    using assms unfolding kmalloc_def irq_defs Let_def prod.case res_bind_eq_Inr by blast
  then show ?thesis by (cases x; cases "fst x") (auto simp: fs_frame_def)
qed

lemma kfree_frame:
  assumes "kfree a s = Inr s'"
  shows "fs_frame s s'"
proof -
  obtain ps where "s' = s\<lparr>ief := False, kmem_page := ps, ief := ief s\<rparr>"
    using assms unfolding kfree_def irq_defs Let_def prod.case res_bind_eq_Inr by auto
  then show ?thesis by (simp add: fs_frame_def)
qed

lemma scroll_check_frame: "fs_frame s (scroll_check s)"
  by (simp add: scroll_check_def scroll_screen_def Let_def fs_frame_def)

lemma cons_loop_frame: "cons_loop str s = Inr s' \<Longrightarrow> fs_frame s s'"
proof (induction str s rule: cons_loop.induct)
  case (2 c str s)
  have a: "fs_frame s (scroll_check (s\<lparr>cons := con\<rparr>))" for con
    by (rule fs_frame_trans [OF _ scroll_check_frame]) (simp add: fs_frame_def)
  have b: "fs_frame s (scroll_check (set_cur u (char_out k c l s\<lparr>cons := con\<rparr>)\<lparr>cons := con2\<rparr>))" for u k l con con2
    by (rule fs_frame_trans [OF _ scroll_check_frame]) (simp add: fs_frame_def set_cur_def outb_crt_def char_out_def Let_def)
  consider "c = 0" | "c \<noteq> 0" "c = 10" | "c \<noteq> 0" "c \<noteq> 10" by blast
  then show ?case
  proof cases
    case 1
    then show ?thesis using 2(3) by (simp add: fs_frame_def)
  next
    case ten: 2
    then show ?thesis using 2(3) fs_frame_trans [OF a 2(1) [OF ten]] by simp
  next
    case 3
    then show ?thesis using 2(3) fs_frame_trans [OF b 2(2) [OF 3 refl refl refl refl]] by (simp add: Let_def)
  qed
qed simp

lemma printk_frame: "printk stk fmt as s = Inr s' \<Longrightarrow> fs_frame s s'"
proof -
  assume "printk stk fmt as s = Inr s'"
  then obtain b s1 where "cons_loop b (s\<lparr>ief := False\<rparr>) = Inr s1" "s' = s1\<lparr>ief := ief s\<rparr>"
    by (auto simp: printk_def cons_echo_def irq_defs res_bind_eq_Inr)
  then show ?thesis using cons_loop_frame by (fastforce simp: fs_frame_def)
qed

lemma panic_no_result: "panic stk msg s \<noteq> Inr r"
  by (cases "printk stk (bytes ''Kernel panic:%s'' @ [10, 0]) [Va_str (bytes msg @ [0])] s") (simp_all add: panic_def)

lemma put_block_frame: "put_block b s = Inr s' \<Longrightarrow> fs_frame s s'"
  using kfree_frame fs_frame_trans by (fastforce simp: put_block_def res_bind_eq_Inr)

lemma get_block_keeps:
  assumes "fs_reader rdb" "fs_typed X s" "get_block stk rdb blk sz s = Some (Inr (b, s'))"
  shows "fs_keeps X s s'"
proof -
  obtain bp s1 d s2 r s4 where g: "kmalloc 4 s = Inr (bp, s1)" "kmalloc sz s1 = Inr (d, s2)"
    "rdb (u32_at (put_u32 bp d (ram s2)) bp) sz blk (s2\<lparr>ram := put_u32 bp d (ram s2)\<rparr>) = Some (Inr (r, s4))" "r \<noteq> - 1" "s' = s4"
    using assms(3) panic_no_result by (auto simp: get_block_def exec_bind_eq Let_def split: if_splits)
  have "fs_frame s (s2\<lparr>ram := put_u32 bp d (ram s2)\<rparr>)"
    using kmalloc_frame [OF g(1)] kmalloc_frame [OF g(2)] by (simp add: fs_frame_def)
  then have k: "fs_keeps X s (s2\<lparr>ram := put_u32 bp d (ram s2)\<rparr>)" using assms(2) by (rule fs_frame_keeps)
  then have "fs_keeps X (s2\<lparr>ram := put_u32 bp d (ram s2)\<rparr>) s4" using assms(1) g(3) unfolding fs_reader_def fs_keeps_def by blast
  then show ?thesis unfolding g(5) by (rule fs_keeps_trans [OF k])
qed

section \<open>Changes of the tables\<close>

lemma fs_typed_inode:
  assumes "fs_typed X s" "length (i_block nd) = 10" "length (i_name nd) = 255"
    and "i_sb nd = i_sb (inodes s ! ip) \<or> (\<exists>k. i_sb nd = Some k \<and> k < length (super_block s))"
  shows "fs_typed X (s\<lparr>inodes := (inodes s)[ip := nd]\<rparr>)"
proof -
  let ?s = "s\<lparr>inodes := (inodes s)[ip := nd]\<rparr>"
  obtain fi ff where t: "free_slots (inode_pool s) fi" "free_slots (filp_pool s) ff" "set fi \<subseteq> {..<INODE_NR}" "set ff \<subseteq> {..<FILP_NR}"
    "inodes_ok (inodes s)" "length (filps s) = FILP_NR" "X \<subseteq> {..<INODE_NR} - set fi"
    "\<And>p f. Some f \<in> set (fd_array (files (procs s p))) \<Longrightarrow> file_typed fi ff f s"
    "\<And>p r. fs_root (pfs (procs s p)) = Some r \<Longrightarrow> root_typed fi r s"
    using assms(1) unfolding fs_typed_def by blast
  have "bound i ?s" if "bound i s" for i
    using that assms(4) unfolding bound_def by (cases "ip < length (inodes s)"; cases "i = ip") (auto simp: not_less list_update_beyond)
  then have "file_typed fi ff f ?s" if "file_typed fi ff f s" for f using that by (auto simp: file_typed_def)
  moreover have "root_typed fi r ?s" if "root_typed fi r s" for r using that \<open>\<And>i. bound i s \<Longrightarrow> bound i ?s\<close> by (simp add: root_typed_def)
  moreover have "inodes_ok ((inodes s)[ip := nd])"
    using t(5) assms(2,3) set_update_subset_insert [of "inodes s" ip nd] by (auto simp: inodes_ok_def)
  ultimately show ?thesis using t unfolding fs_typed_def by (intro exI [of _ fi] exI [of _ ff]) simp
qed

text \<open>A new content of an inode that keeps its super block.\<close>

lemma fs_keeps_inode:
  assumes "fs_typed X s" "length (i_block nd) = 10" "length (i_name nd) = 255" "i_sb nd = i_sb (inodes s ! ip)"
  shows "fs_keeps X s (s\<lparr>inodes := (inodes s)[ip := nd]\<rparr>)"
  using fs_typed_inode [OF assms(1-3), of ip] assms(4)
  by (cases "ip < length (inodes s)") (auto simp: fs_keeps_def nth_list_update not_less list_update_beyond)

lemma fs_typed_sizes:
  assumes "fs_typed X s" "rd (inodes s) ip = Inr nd"
  shows "length (i_block nd) = 10" "length (i_name nd) = 255" "inodes s ! ip = nd" "ip < INODE_NR"
  using assms by (auto simp: fs_typed_def inodes_ok_def rd_eq_Inr)

lemma fs_keeps_filp:
  assumes "fs_typed X s" "f_ino fl = f_ino (filps s ! f)"
  shows "fs_keeps X s (s\<lparr>filps := (filps s)[f := fl]\<rparr>)"
proof -
  have "file_typed fi ff g (s\<lparr>filps := (filps s)[f := fl]\<rparr>) = file_typed fi ff g s" for fi ff g
    using assms(2) by (cases "f < length (filps s)"; cases "g = f") (auto simp: file_typed_def bound_def not_less list_update_beyond)
  moreover have "root_typed fi r (s\<lparr>filps := (filps s)[f := fl]\<rparr>) = root_typed fi r s" for fi r
    by (simp add: root_typed_def bound_def)
  ultimately have "fs_typed X (s\<lparr>filps := (filps s)[f := fl]\<rparr>)"
    using assms(1) unfolding fs_typed_def by simp
  then show ?thesis by (simp add: fs_keeps_def)
qed

lemma fs_typed_root:
  assumes "fs_typed X s" "fs_root (pfs (procs s p)) = Some r"
  shows "fs_typed (insert r X) s" "bound r s"
  using assms unfolding fs_typed_def root_typed_def by (blast, blast)

lemma get_inode_takes:
  assumes "fs_typed X s" "get_inode s = (Some d, s')"
  shows "fs_typed (insert d X) s'" "d \<notin> X" "inodes s' = inodes s" "super_block s' = super_block s" "current s' = current s" "ram s' = ram s"
proof -
  obtain fi ff where t: "free_slots (inode_pool s) fi" "free_slots (filp_pool s) ff" "set fi \<subseteq> {..<INODE_NR}" "set ff \<subseteq> {..<FILP_NR}"
    "inodes_ok (inodes s)" "length (filps s) = FILP_NR" "X \<subseteq> {..<INODE_NR} - set fi"
    "\<And>p f. Some f \<in> set (fd_array (files (procs s p))) \<Longrightarrow> file_typed fi ff f s"
    "\<And>p r. fs_root (pfs (procs s p)) = Some r \<Longrightarrow> root_typed fi r s"
    using assms(1) unfolding fs_typed_def by blast
  obtain q where q: "alloc_slot (inode_pool s) = (Some d, q)" "s' = s\<lparr>inode_pool := q\<rparr>"
    using assms(2) by (auto simp: get_inode_def split: prod.splits)
  obtain fi' where fi: "fi = d # fi'" "free_slots q fi'"
  proof (rule slot.alloc_pool_cases [OF t(1)])
    fix i js p assume "fi = i # js" "alloc_slot (inode_pool s) = (Some i, p)" "free_slots p js"
    then show thesis using that q(1) by simp
  qed (use q(1) in simp)
  have "d \<notin> set fi'" using slot.pool_distinct [OF t(1)] fi(1) by simp
  moreover have "file_typed fi' ff f s'" if "file_typed fi ff f s" for f using that fi(1) by (auto simp: file_typed_def q(2) bound_def)
  moreover have "root_typed fi' r s'" if "root_typed fi r s" for r using that fi(1) by (auto simp: root_typed_def q(2) bound_def)
  ultimately show "fs_typed (insert d X) s'"
    using t fi unfolding fs_typed_def by (intro exI [of _ fi'] exI [of _ ff]) (auto simp: q(2))
  show "d \<notin> X" using t(7) fi(1) by auto
qed (use assms(2) in \<open>auto simp: get_inode_def split: prod.splits\<close>)

section \<open>The operations\<close>

lemma put_name_frame: "put_name p s = Inr s' \<Longrightarrow> fs_frame s s'"
  unfolding put_name_def by (rule kfree_frame)

lemma get_name_frame: "get_name a s = Inr (p, s') \<Longrightarrow> fs_frame s s'"
  using kmalloc_frame by (fastforce simp: get_name_def res_bind_eq_Inr fs_frame_def)

lemma FATEntryVal_keeps:
  assumes "fs_reader rdb" "fs_typed X s" "FATEntryVal stk rdb bd c s = Some (Inr (v, s'))"
  shows "fs_keeps X s s'"
proof -
  obtain b s1 where g: "get_block stk rdb (sb_resvdseccnt bd + FAToffset bd c div sb_sector_size bd + sb_base bd) 1024 s = Some (Inr (b, s1))"
    "printk stk (bytes ''no kernel space'' @ [10, 0]) [] s1 = Inr s' \<or> put_block b s1 = Inr s'"
    using assms(3) by (auto simp: FATEntryVal_def exec_bind_eq Let_def split: if_splits)
  then have f: "fs_frame s1 s'" using printk_frame put_block_frame by blast
  have "fs_keeps X s s1" using get_block_keeps [OF assms(1,2) g(1)] .
  then show ?thesis by (rule fs_keeps_then [OF _ fs_frame_keeps [OF f]])
qed

lemma read_map_loop_keeps:
  assumes "fs_reader rdb" "fs_typed X s" "read_map_loop stk rdb ip i index count s = Some (Inr s')"
  shows "fs_keeps X s s'"
  using assms(2,3)
proof (induction "nat count" arbitrary: i index count s rule: less_induct)
  case less
  from less.prems(2) obtain n bl sb index1 s2 s3 sb3 where r: "rd (inodes s) ip = Inr n" "wr (i_block n) i index = Inr bl"
    "FATEntryVal stk rdb sb index (s\<lparr>inodes := (inodes s)[ip := n\<lparr>i_block := bl\<rparr>]\<rparr>) = Some (Inr (index1, s2))"
    "printk stk (bytes ''file index:%d'' @ [10, 0]) [Va_word index1] s2 = Inr s3"
    "(if \<not> eeof sb3 index1 \<and> 0 < count then read_map_loop stk rdb ip (i + 1) index1 (count - 1) s3 else Some (Inr s3)) = Some (Inr s')"
    unfolding read_map_loop.simps [of stk rdb ip i index count s] by (auto simp: exec_bind_eq Let_def)
  note z = fs_typed_sizes [OF less.prems(1) r(1)]
  have "length bl = 10" using r(2) z(1) by (auto simp: wr_def split: if_splits)
  then have k1: "fs_keeps X s (s\<lparr>inodes := (inodes s)[ip := n\<lparr>i_block := bl\<rparr>]\<rparr>)"
    using z by (intro fs_keeps_inode less.prems(1)) simp_all
  have k2: "fs_keeps X s s2" by (rule fs_keeps_then [OF k1 FATEntryVal_keeps [OF assms(1) _ r(3)]])
  have k3: "fs_keeps X s s3" by (rule fs_keeps_then [OF k2 fs_frame_keeps [OF printk_frame [OF r(4)]]])
  show ?case
  proof (cases "\<not> eeof sb3 index1 \<and> 0 < count")
    case True
    then have "fs_keeps X s3 s'" using less.hyps [of "count - 1" s3 "i + 1" index1] k3 r(5) by (simp add: fs_keeps_def)
    then show ?thesis by (rule fs_keeps_trans [OF k3])
  qed (use k3 r(5) in auto)
qed

lemma read_map_keeps:
  assumes "fs_reader rdb" "fs_typed X s" "read_map stk rdb ip s = Some (Inr s')"
  shows "fs_keeps X s s'"
proof -
  obtain c s1 i where r: "printk stk (bytes ''file count:%d'' @ [10, 0]) [Va_word c] s = Inr s1" "read_map_loop stk rdb ip 0 i (sint c) s1 = Some (Inr s')"
    using assms(3) by (auto simp: read_map_def exec_bind_eq)
  show ?thesis by (rule fs_keeps_then [OF fs_frame_keeps [OF printk_frame [OF r(1)] assms(2)] read_map_loop_keeps [OF assms(1) _ r(2)]])
qed

lemma ClusterRead_keeps:
  assumes "fs_reader rdb" "fs_typed X s" "ClusterRead stk rdb buf ino nr off sz s = Some (Inr (b, s'))"
  shows "fs_keeps X s s'"
proof (cases "10 < sint nr \<or> sint nr < 0")
  case True
  then have "printk stk (bytes ''invalid cluster number%d'' @ [10, 0]) [Va_word nr] s = Inr s'"
    using assms(3) by (auto simp: ClusterRead_def exec_bind_eq)
  then show ?thesis using fs_frame_keeps [OF printk_frame assms(2)] by blast
next
  case False
  then obtain sec z bf s1 where g: "get_block stk rdb sec z s = Some (Inr (bf, s1))"
    "s' = s1 \<or> put_block bf (s1\<lparr>ram := memcpy (buf_data bf s1 + off) buf sz (ram s1)\<rparr>) = Inr s'"
    using assms(3) by (auto simp: ClusterRead_def exec_bind_eq Let_def split: if_splits)
  have f: "fs_frame s1 s'" using g(2) put_block_frame [of bf "s1\<lparr>ram := memcpy (buf_data bf s1 + off) buf sz (ram s1)\<rparr>" s'] by (auto simp: fs_frame_def)
  show ?thesis by (rule fs_keeps_then [OF get_block_keeps [OF assms(1,2) g(1)] fs_frame_keeps [OF f]])
qed

lemma filp_read_loop_keeps:
  assumes "fs_reader rdb" "fs_typed X s" "filp_read_loop stk rdb z fz buf left f s = Some (Inr s')"
  shows "fs_keeps X s s'"
proof -
  have "fs_reader rdb \<longrightarrow> fs_typed X s \<longrightarrow> (\<forall>s'. r = Inr s' \<longrightarrow> fs_keeps X s s')"
    if "filp_read_loop stk rdb z fz buf left f s = Some r" for r
  proof (rule filp_read_loop.raw_induct [OF _ that])
    fix loop :: "u8 list \<Rightarrow> 'a kfs_scheme reader \<Rightarrow> u32 \<Rightarrow> u32 \<Rightarrow> u32 \<Rightarrow> u32 \<Rightarrow> nat \<Rightarrow> 'a kfs_scheme \<Rightarrow> 'a kfs_scheme exec" and stk rdb z fz buf left f s r
    assume IH: "\<And>stk rdb z fz buf left f s r. loop stk rdb z fz buf left f s = Some r \<Longrightarrow>
        fs_reader rdb \<longrightarrow> fs_typed X s \<longrightarrow> (\<forall>s'. r = Inr s' \<longrightarrow> fs_keeps X s s')"
    assume body: "exec_bind (Some (rd (filps s) f)) (\<lambda>fl.
     if 0 < sint left \<and> f_pos fl < fz then
       if z = 0 then Some (Inl Div_by_zero)
       else
         let valid = valid_size z fz (f_pos fl) left in
         exec_bind (Some (filp_inode f s)) (\<lambda>(ip, n).
         exec_bind (ClusterRead stk rdb buf ip (f_pos fl div z) (f_pos fl mod z) valid s) (\<lambda>(buf1, s1).
         exec_bind (Some (rd (filps s1) f)) (\<lambda>fl1.
         loop stk rdb z fz buf1 (left - valid) f (s1\<lparr>filps := (filps s1)[f := fl1\<lparr>f_pos := f_pos fl1 + valid\<rparr>]\<rparr>))))
     else Some (Inr s)) = Some r"
    show "fs_reader rdb \<longrightarrow> fs_typed X s \<longrightarrow> (\<forall>s'. r = Inr s' \<longrightarrow> fs_keeps X s s')"
    proof (intro impI allI)
      fix s' assume a: "fs_reader rdb" "fs_typed X s" "r = Inr s'"
      show "fs_keeps X s s'"
      proof (cases "\<exists>fl. rd (filps s) f = Inr fl \<and> 0 < sint left \<and> f_pos fl < fz")
        case True
        then obtain fl where fl: "rd (filps s) f = Inr fl" "0 < sint left" "f_pos fl < fz" by blast
        obtain ip buf1 s1 fl1 where r: "ClusterRead stk rdb buf ip (f_pos fl div z) (f_pos fl mod z) (valid_size z fz (f_pos fl) left) s = Some (Inr (buf1, s1))"
          "rd (filps s1) f = Inr fl1" "loop stk rdb z fz buf1 (left - valid_size z fz (f_pos fl) left) f
            (s1\<lparr>filps := (filps s1)[f := fl1\<lparr>f_pos := f_pos fl1 + valid_size z fz (f_pos fl) left\<rparr>]\<rparr>) = Some (Inr s')"
          using body fl unfolding a(3) by (auto simp: exec_bind_eq Let_def split: if_splits)
        let ?t = "s1\<lparr>filps := (filps s1)[f := fl1\<lparr>f_pos := f_pos fl1 + valid_size z fz (f_pos fl) left\<rparr>]\<rparr>"
        have "filps s1 ! f = fl1" using r(2) by (simp add: rd_eq_Inr)
        then have t: "fs_keeps X s1 ?t" if "fs_typed X s1" using that by (intro fs_keeps_filp) simp_all
        have k: "fs_keeps X s ?t" by (rule fs_keeps_then [OF ClusterRead_keeps [OF a(1,2) r(1)] t])
        show ?thesis using IH [OF r(3)] a(1) by (intro fs_keeps_then [OF k]) simp
      next
        case False
        then have "s' = s" using body unfolding a(3) by (cases "rd (filps s) f") (auto split: if_splits)
        then show ?thesis using fs_keeps_refl a(2) by simp
      qed
    qed
  qed
  then show ?thesis using assms by blast
qed

lemma filp_read_keeps:
  assumes "fs_reader rdb" "fs_typed X s" "filp_read stk rdb buf sz f s = Some (Inr (k, s'))"
  shows "fs_keeps X s s'"
proof -
  obtain z fz where "filp_read_loop stk rdb z fz buf sz f s = Some (Inr s')"
    using assms(3) by (auto simp: filp_read_def exec_bind_eq)
  then show ?thesis by (rule filp_read_loop_keeps [OF assms(1,2)])
qed

lemma sys_read_keeps:
  assumes "fs_reader rdb" "fs_typed X s" "sys_read stk rdb buf sz count fp s = Some (Inr (k, s'))"
  shows "fs_keeps X s s'"
proof -
  have "s' = s \<or> (\<exists>f k. filp_read stk rdb buf (sz * count) f s = Some (Inr (k, s')))"
    using assms(3) by (auto simp: sys_read_def exec_bind_eq Let_def split: if_splits option.splits)
  then show ?thesis using filp_read_keeps [OF assms(1,2)] fs_keeps_refl [OF assms(2)] by auto
qed

text \<open>The search of the directory takes at most one inode.\<close>

lemma strcpy_length: "strcpy to x = Inr y \<Longrightarrow> length y = length to"
  by (induction to x arbitrary: y rule: strcpy.induct) (auto simp: res_bind_eq_Inr split: if_splits)

lemma show_kind_frame: "show_kind stk w s = Inr s' \<Longrightarrow> fs_frame s s'"
  by (auto simp: show_kind_def split: if_splits intro: printk_frame)

lemma scan_takes_entry:
  assumes "fs_typed X s1" "(let (rip, s2) = get_inode s1; de1 = dir_entry_at (ram s2) a in
           case rip of None \<Rightarrow> Inr (None, s2)
           | Some ip \<Rightarrow>
               res_bind (rd (inodes s2) ip) (\<lambda>nd.
               res_bind (wr (i_block nd) 0 (push_bit 16 (ucast (de_fstclushi de1)) OR ucast (de_fstcluslo de1))) (\<lambda>bl.
               res_bind (strcpy (i_name nd) fname1) (\<lambda>nm.
               Inr (Some ip, s2\<lparr>inodes := (inodes s2)[ip := nd\<lparr>i_block := bl, i_size := de_size de1, i_name := nm\<rparr>]\<rparr>))))) = Inr (r, s')"
  shows "fs_keeps X s1 s' \<and> (\<forall>d. r = Some d \<longrightarrow> d \<notin> X \<and> fs_typed (insert d X) s')"
proof -
  obtain rip s2 where g: "get_inode s1 = (rip, s2)" by (cases "get_inode s1")
  show ?thesis
  proof (cases rip)
    case None
    then have "fs_frame s1 s2" using g by (auto simp: get_inode_def alloc_slot_def fs_frame_def split: option.splits)
    then show ?thesis using None g assms fs_frame_keeps by auto
  next
    case (Some d)
    obtain nd bl nm z v where w: "rd (inodes s2) d = Inr nd" "wr (i_block nd) 0 v = Inr bl" "strcpy (i_name nd) fname1 = Inr nm"
      "s' = s2\<lparr>inodes := (inodes s2)[d := nd\<lparr>i_block := bl, i_size := z, i_name := nm\<rparr>]\<rparr>" "r = Some d"
      using assms(2) unfolding g Some Let_def prod.case option.case res_bind_eq_Inr sum.inject prod.inject by (elim exE conjE) (rule that, auto)
    then have r: "rd (inodes s2) d = Inr nd" "length bl = length (i_block nd)" "length nm = length (i_name nd)"
      "s' = s2\<lparr>inodes := (inodes s2)[d := nd\<lparr>i_block := bl, i_size := z, i_name := nm\<rparr>]\<rparr>" "r = Some d"
      using strcpy_length [OF w(3)] by (auto simp: wr_def split: if_splits)
    note gi = get_inode_takes [OF assms(1) g [unfolded Some]]
    have k: "fs_keeps (insert d X) s2 s'"
      using r fs_typed_sizes [OF gi(1) r(1)] unfolding r(4) by (intro fs_keeps_inode gi(1)) simp_all
    then have "fs_keeps X s1 s'" using gi fs_typed_mono [of "insert d X" s' X] unfolding fs_keeps_def by auto
    then show ?thesis using k gi(2) r(5) unfolding fs_keeps_def by simp
  qed
qed

lemma scan_loop_takes:
  assumes "fs_typed X s" "scan_loop stk name n a fname s = Inr (r, s')"
  shows "fs_keeps X s s' \<and> (\<forall>d. r = Some d \<longrightarrow> d \<notin> X \<and> fs_typed (insert d X) s')"
  using assms
proof (induction n arbitrary: a fname s)
  case 0
  then show ?case using fs_keeps_refl by simp
next
  case (Suc n)
  show ?case
  proof (cases "de_attr (dir_entry_at (ram s) a) AND ATTR_LONG_NAME_MASK \<noteq> ATTR_LONG_NAME \<and> de_ord (dir_entry_at (ram s) a) \<noteq> 0xE5")
    case False
    have "scan_loop stk name n (a + 32) fname s = Inr (r, s')"
      using Suc.prems(2) unfolding scan_loop.simps Let_def if_not_P [OF False] .
    then show ?thesis by (rule Suc.IH [OF Suc.prems(1)])
  next
    case True
    note e0 = Suc.prems(2) [unfolded scan_loop.simps Let_def if_P [OF True]]
    obtain fname1 where f: "shortnamecopy (ram s) a fname = Inr fname1" using e0 by (cases "shortnamecopy (ram s) a fname") simp_all
    obtain s1 where p: "printk stk (bytes ''%s'' @ [0]) [Va_str fname1] s = Inr s1"
      using e0 [unfolded f] by (cases "printk stk (bytes ''%s'' @ [0]) [Va_str fname1] s") simp_all
    obtain c where c: "strcmp fname1 name = Inr c" using e0 [unfolded f res_bind_Inr p] by (cases "strcmp fname1 name") simp_all
    note e = e0 [unfolded f res_bind_Inr p c]
    have k1: "fs_keeps X s s1" by (rule fs_frame_keeps [OF printk_frame [OF p] Suc.prems(1)])
    then have t1: "fs_typed X s1" by (simp add: fs_keeps_def)
    show ?thesis
    proof (cases "c = 0")
      case z: True
      show ?thesis using scan_takes_entry [unfolded Let_def, OF t1 e [unfolded if_P [OF z]]] fs_keeps_trans [OF k1] by blast
    next
      case False
      then obtain s2 where s2: "show_kind stk (de_attr (dir_entry_at (ram s1) a)) s1 = Inr s2" "scan_loop stk name n (a + 32) fname1 s2 = Inr (r, s')"
        using e by (auto simp: res_bind_eq_Inr)
      have k2: "fs_keeps X s s2" by (rule fs_keeps_then [OF k1 fs_frame_keeps [OF show_kind_frame [OF s2(1)]]])
      then have "fs_typed X s2" by (simp add: fs_keeps_def)
      from Suc.IH [OF this s2(2)] fs_keeps_trans [OF k2] show ?thesis by blast
    qed
  qed
qed

text \<open>Setting an element of the table of the running process.\<close>

lemma fs_typed_open:
  assumes "fs_typed (insert d X) s" "bound d s" "get_filp s = (Some f, s')"
    and "f' = \<lparr>f_ino = Some d, f_pos = 0, f_count = 1\<rparr>" "t = s'\<lparr>filps := (filps s)[f := f']\<rparr>"
    and "g = (files (procs s (current s)))\<lparr>fd_array := (fd_array (files (procs s (current s))))[fd := Some f]\<rparr>"
  shows "fs_keeps X s (upd_proc (current s) (files_update (\<lambda>_. g)) t)" (is "fs_keeps X s ?u")
proof -
  obtain fi ff where t: "free_slots (inode_pool s) fi" "free_slots (filp_pool s) ff" "set fi \<subseteq> {..<INODE_NR}" "set ff \<subseteq> {..<FILP_NR}"
    "inodes_ok (inodes s)" "length (filps s) = FILP_NR" "insert d X \<subseteq> {..<INODE_NR} - set fi"
    "\<And>p f. Some f \<in> set (fd_array (files (procs s p))) \<Longrightarrow> file_typed fi ff f s"
    "\<And>p r. fs_root (pfs (procs s p)) = Some r \<Longrightarrow> root_typed fi r s"
    using assms(1) unfolding fs_typed_def by blast
  obtain q where q: "alloc_slot (filp_pool s) = (Some f, q)" "s' = s\<lparr>filp_pool := q\<rparr>"
    using assms(3) by (auto simp: get_filp_def split: prod.splits)
  obtain ff' where ff: "ff = f # ff'" "free_slots q ff'"
  proof (rule slot.alloc_pool_cases [OF t(2)])
    fix i js p assume "ff = i # js" "alloc_slot (filp_pool s) = (Some i, p)" "free_slots p js"
    then show thesis using that q(1) by simp
  qed (use q(1) in simp)
  have u: "inodes ?u = inodes s" "super_block ?u = super_block s" "inode_pool ?u = inode_pool s" "filp_pool ?u = q" "filps ?u = (filps s)[f := f']"
    "current ?u = current s" "\<And>p. pfs (procs ?u p) = pfs (procs s p)"
    "\<And>p. set (fd_array (files (procs ?u p))) \<subseteq> insert (Some f) (set (fd_array (files (procs s p))))"
    using set_update_subset_insert [of "fd_array (files (procs s (current s)))" fd "Some f"]
    by (auto simp: assms(5,6) q(2) upd_proc_def split: if_splits)
  have b: "bound i ?u = bound i s" for i by (simp add: bound_def u(1,2))
  have f: "f < FILP_NR" "f \<notin> set ff'" using t(4) ff(1) slot.pool_distinct [OF t(2)] by simp_all
  then have new: "file_typed fi ff' f ?u" using t(6,7) assms(2,4) b by (auto simp: file_typed_def u(5))
  have old: "file_typed fi ff' g ?u" if "file_typed fi ff g s" for g
    using that ff(1) b by (auto simp: file_typed_def u(5))
  have "file_typed fi ff' g ?u" if "Some g \<in> set (fd_array (files (procs ?u p)))" for p g
    using u(8) [of p] that new old t(8) by blast
  moreover have "root_typed fi r ?u" if "fs_root (pfs (procs ?u p)) = Some r" for p r
    using t(9) [of p r] that b unfolding u(7) root_typed_def by blast
  ultimately have "fs_typed X ?u"
    using t(1-7) ff f unfolding fs_typed_def by (intro exI [of _ fi] exI [of _ ff']) (auto simp: u(1-5))
  then show ?thesis using u(1,2,6) unfolding fs_keeps_def by simp
qed

lemma take_descriptor_keeps:
  assumes "fs_typed (insert d X) s" "bound d s" "take_descriptor d s = Some (Inr (r, s'))"
  shows "fs_keeps X s s'"
proof -
  obtain fd s8 where u: "get_unused_fd (current s) s = Inr (fd, s8)" using assms(3) by (auto simp: take_descriptor_def exec_bind_eq)
  then have s8: "s8 = s \<or> (\<exists>b. s8 = upd_proc (current s) (files_update (\<lambda>_. (files (procs s (current s)))\<lparr>openfd := b\<rparr>)) s)"
    by (auto simp: get_unused_fd_def Let_def res_bind_eq_Inr split: if_splits)
  have x: "fd_array (files (procs s8 p)) = fd_array (files (procs s p))" "pfs (procs s8 p) = pfs (procs s p)" "current s8 = current s"
    "inodes s8 = inodes s" "inode_pool s8 = inode_pool s" "filps s8 = filps s" "filp_pool s8 = filp_pool s" "super_block s8 = super_block s" for p
    using s8 by (auto simp: upd_proc_def)
  have t8: "fs_typed (insert d X) s8" by (rule fs_typed_cong [OF assms(1)]) (auto simp: x)
  have k8: "fs_keeps X s s8" using fs_typed_mono [OF t8, of X] by (auto simp: fs_keeps_def x)
  obtain fo s9 where g: "get_filp s8 = (fo, s9)" by (cases "get_filp s8")
  show ?thesis
  proof (cases "fd < 0")
    case True
    then show ?thesis using assms(3) k8 unfolding take_descriptor_def u by simp
  next
    case fd: False
    show ?thesis
    proof (cases fo)
      case None
      then have "fs_frame s8 s9" using g by (auto simp: get_filp_def alloc_slot_def fs_frame_def split: option.splits)
      moreover have "s' = s9" using assms(3) fd None unfolding take_descriptor_def u by (simp add: g)
      ultimately show ?thesis using fs_frame_keeps fs_keeps_then [OF k8] by blast
    next
      case (Some f)
      let ?f = "\<lparr>f_ino = Some d, f_pos = 0, f_count = 1\<rparr>" and ?fs = "files (procs s8 (current s8))"
      have s9: "filps s9 = filps s8" "procs s9 = procs s8" "current s9 = current s8" using g by (auto simp: get_filp_def split: prod.splits)
      have fl: "fl\<lparr>f_pos := 0, f_count := 1, f_ino := Some d\<rparr> = ?f" for fl by (cases fl) simp
      have "wr (fd_array ?fs) (nat fd) (Some f) = Inr ((fd_array ?fs)[nat fd := Some f])
        \<and> s' = upd_proc (current s8) (files_update (\<lambda>_. ?fs\<lparr>fd_array := (fd_array ?fs)[nat fd := Some f]\<rparr>)) (s9\<lparr>filps := (filps s8)[f := ?f]\<rparr>)"
        using assms(3) fd Some unfolding take_descriptor_def u by (auto simp: g exec_bind_eq Let_def s9 fl wr_def split: if_splits)
      moreover have "bound d s8" using assms(2) by (simp add: bound_def x)
      ultimately show ?thesis using fs_keeps_trans [OF k8] fs_typed_open [OF t8 _ g [unfolded Some] refl refl refl, of "nat fd"] by simp
    qed
  qed
qed

lemma sys_open_steps:
  "sys_open stk rdb junk a s =
    exec_bind (Some (get_name a s)) (\<lambda>(tmp, s1).
    case fs_root (pfs (procs s (current s))) of None \<Rightarrow> Some (Inl Null_deref)
    | Some r \<Rightarrow>
      exec_bind (Some (rd (inodes s1) r)) (\<lambda>rn.
      exec_bind (Some (rd (i_block rn) 0)) (\<lambda>b0.
      exec_bind (get_block stk rdb b0 1024 s1) (\<lambda>(bp, s2).
      exec_bind (Some (scan_dentry_buf stk junk (buf_data bp s2) 1024 (block_at (ram s2) tmp 255) s2)) (\<lambda>(dip, s3).
      case dip of None \<Rightarrow> Some (Inr (- 1, s3)) | Some d \<Rightarrow> open_rest stk rdb r bp tmp d s3)))))"
  unfolding sys_open_def open_rest_def take_descriptor_def Let_def ..

lemma open_rest_keeps:
  assumes "fs_reader rdb" "fs_typed (insert d (insert r X)) s" "d \<notin> insert r X" "bound r s" "open_rest stk rdb r bp tmp d s = Some (Inr (v, s'))"
  shows "fs_keeps X s s'"
proof -
  obtain dn rn s5 s6 s7 where o: "rd (inodes s) d = Inr dn" "rd (inodes s) r = Inr rn"
    "put_name tmp (s\<lparr>inodes := (inodes s)[d := dn\<lparr>i_sb := i_sb rn\<rparr>]\<rparr>) = Inr s5" "put_block bp s5 = Inr s6"
    "read_map stk rdb d s6 = Some (Inr s7)" "take_descriptor d s7 = Some (Inr (v, s'))"
    using assms(5) by (auto simp: open_rest_def exec_bind_eq)
  let ?t = "s\<lparr>inodes := (inodes s)[d := dn\<lparr>i_sb := i_sb rn\<rparr>]\<rparr>"
  note z = fs_typed_sizes [OF assms(2) o(1)] and zr = fs_typed_sizes [OF assms(2) o(2)]
  have b: "\<exists>k. i_sb rn = Some k \<and> k < length (super_block s)" using assms(4) zr(3) by (simp add: bound_def)
  have t: "fs_typed (insert d (insert r X)) ?t" using z b by (intro fs_typed_inode assms(2)) simp_all
  have kt: "fs_keeps X s ?t"
    unfolding fs_keeps_def
  proof (intro conjI ballI)
    show "fs_typed X ?t" using fs_typed_mono [OF t, of X] by blast
    show "i_sb (inodes ?t ! i) = i_sb (inodes s ! i)" if "i \<in> X" for i
      using that assms(3) by (cases "i = d") auto
  qed simp_all
  have bt: "bound d ?t" using b z(4) assms(2) by (auto simp: bound_def fs_typed_def inodes_ok_def)
  have k6: "fs_keeps (insert d (insert r X)) ?t s6"
    by (rule fs_frame_keeps [OF fs_frame_trans [OF put_name_frame [OF o(3)] put_block_frame [OF o(4)]] t])
  have k7: "fs_keeps (insert d (insert r X)) ?t s7" by (rule fs_keeps_then [OF k6 read_map_keeps [OF assms(1) _ o(5)]])
  have "bound d s7" using bt k7 by (simp add: bound_def fs_keeps_def)
  moreover have "fs_typed (insert d X) s7" using k7 fs_typed_mono [of "insert d (insert r X)" s7 "insert d X"] by (auto simp: fs_keeps_def)
  ultimately have "fs_keeps X s7 s'" using take_descriptor_keeps o(6) by blast
  then show ?thesis using fs_keeps_trans [OF kt fs_keeps_trans [OF fs_keeps_mono [OF k7]]] by blast
qed

lemma sys_open_keeps:
  assumes "fs_reader rdb" "fs_typed X s" "sys_open stk rdb junk a s = Some (Inr (v, s'))"
  shows "fs_keeps X s s'"
proof -
  obtain tmp s1 r b0 bp s2 dip s3 where o: "get_name a s = Inr (tmp, s1)" "fs_root (pfs (procs s (current s))) = Some r"
    "get_block stk rdb b0 1024 s1 = Some (Inr (bp, s2))" "scan_dentry_buf stk junk (buf_data bp s2) 1024 (block_at (ram s2) tmp 255) s2 = Inr (dip, s3)"
    "(case dip of None \<Rightarrow> Some (Inr (- 1, s3)) | Some d \<Rightarrow> open_rest stk rdb r bp tmp d s3) = Some (Inr (v, s'))"
    using assms(3) unfolding sys_open_steps by (auto simp: exec_bind_eq split: option.splits)
  note h = fs_typed_root [OF assms(2) o(2)]
  have k2: "fs_keeps (insert r X) s s2"
    by (rule fs_keeps_then [OF fs_frame_keeps [OF get_name_frame [OF o(1)] h(1)] get_block_keeps [OF assms(1) _ o(3)]])
  then have "fs_typed (insert r X) s2" by (simp add: fs_keeps_def)
  from scan_loop_takes [OF this o(4) [unfolded scan_dentry_buf_def]]
  have k3: "fs_keeps (insert r X) s2 s3" and d: "\<And>d. dip = Some d \<Longrightarrow> d \<notin> insert r X \<and> fs_typed (insert d (insert r X)) s3" by blast+
  have k: "fs_keeps (insert r X) s s3" by (rule fs_keeps_trans [OF k2 k3])
  then have kx: "fs_keeps X s s3" by (rule fs_keeps_mono) blast
  have "bound r s3" using k h(2) by (simp add: bound_def fs_keeps_def)
  then show ?thesis
    using o(5) d kx open_rest_keeps [OF assms(1)] fs_keeps_trans [OF kx] by (cases dip) auto
qed

section \<open>Processes\<close>

lemma fs_same_refl [simp]: "fs_same s s" by (rule fs_sameI) simp_all

lemma fs_same_upd_proc [simp]:
  assumes "\<And>q. files (h q) = files q \<and> pfs (h q) = pfs q"
  shows "fs_same s (upd_proc p h s)"
  using assms by (intro fs_sameI) (simp_all add: upd_proc_def)

lemma RoundRobin_same: "RoundRobin s = Inr s' \<Longrightarrow> fs_same s s'"
  by (auto simp: RoundRobin_def upd_proc_def Let_def res_bind_eq_Inr intro!: fs_sameI split: option.splits if_splits)

lemma proc_block_same: "proc_block b s = Some (Inr s') \<Longrightarrow> fs_same s s'"
  by (auto simp: proc_block_def upd_proc_def Let_def intro!: fs_sameI split: option.splits if_splits)

lemma proc_ready_same: "proc_ready p s = Inr s' \<Longrightarrow> fs_same s s'"
  by (auto simp: proc_ready_def upd_proc_def Let_def res_bind_eq_Inr intro!: fs_sameI split: option.splits if_splits)

lemma wake_up_process_same: "wake_up_process p s = Inr s' \<Longrightarrow> fs_same s s'"
proof -
  assume "wake_up_process p s = Inr s'"
  then obtain t where t: "proc_ready (Some p) (upd_proc (current s) (status_update (\<lambda>_. TASK_RUNNING)) (s\<lparr>ief := False\<rparr>)) = Inr t" "s' = t\<lparr>ief := ief s\<rparr>"
    by (auto simp: wake_up_process_def irq_defs res_bind_eq_Inr)
  have "fs_same s (upd_proc (current s) (status_update (\<lambda>_. TASK_RUNNING)) (s\<lparr>ief := False\<rparr>))" by (rule fs_sameI) (simp_all add: upd_proc_def)
  moreover have "fs_same t s'" by (rule fs_sameI) (simp_all add: t(2))
  ultimately show ?thesis using proc_ready_same [OF t(1)] fs_same_trans by blast
qed

lemma switch_same: "fs_same s (switch_kernel_thread sy c n s)"
  by (rule fs_sameI) (simp_all add: switch_kernel_thread_def switch_to_def upd_proc_def Let_def)

lemma schedule_same:
  assumes "schedule sy s = Some (Inr s')"
  shows "fs_same s s'"
proof -
  obtain s1 s2 where r: "RoundRobin s = Inr s1" "(if status (procs s1 (current s)) = TASK_INTERRUPT \<or> status (procs s1 (current s)) = TASK_STOPED
                 then proc_block (Some (current s)) s1 else Some (Inr s1)) = Some (Inr s2)"
    "s' = (let s3 = upd_proc (current s) (need_resched_update (\<lambda>_. 0)) s2; next = pick_proc s3 in
         if current s \<noteq> next then
           let s4 = s3\<lparr>current := next\<rparr>; s5 = upd_proc (current s4) (need_resched_update (\<lambda>_. 0)) s4
           in switch_kernel_thread sy (current s) next s5
         else s3)"
    using assms unfolding schedule_def Let_def exec_bind_eq by auto
  let ?s3 = "upd_proc (current s) (need_resched_update (\<lambda>_. 0)) s2"
  have s12: "fs_same s1 s2" using r(2) proc_block_same by (auto split: if_splits)
  have "fs_same s2 ?s3" by simp
  then have a: "fs_same s ?s3" by (rule fs_same_trans [OF fs_same_trans [OF RoundRobin_same [OF r(1)] s12]])
  have b: "fs_same ?s3 (upd_proc n (need_resched_update (\<lambda>_. 0)) (?s3\<lparr>current := n\<rparr>))" for n
    by (rule fs_sameI) (simp_all add: upd_proc_def)
  show ?thesis unfolding r(3) Let_def using a fs_same_trans [OF a fs_same_trans [OF b switch_same]] by simp
qed

lemma more_same:
  fixes s s' :: "'a kfs_scheme"
  assumes "kmem.more s' = kmem.more s"
  shows "fs_same s s'"
  using assms by (intro fs_sameI) (cases s; cases s'; simp)+

lemma mem_copy_same:
  fixes s s' :: "'a kfs_scheme"
  assumes "mem_copy p c s = Some (r, s')"
  shows "fs_same s s'"
proof -
  let ?m = "pmap (procs s p)"
  let ?z = "map_size (?m Map_S) + (vir (?m Map_S) - vir (?m Map_D))"
  obtain b t where t: "Kmem_alloc ?z (s\<lparr>ief := False\<rparr>) = Some (b, t)"
    using assms unfolding mem_copy_def irq_defs Let_def prod.case by (auto split: option.splits)
  have "fs_same (s\<lparr>ief := False\<rparr>) t" by (rule more_same [OF Kmem_alloc_more [OF t]])
  moreover have "fs_same s (s\<lparr>ief := False\<rparr>)" by (rule fs_sameI) simp_all
  ultimately have st: "fs_same s t" using fs_same_trans by blast
  have "fs_same t (t\<lparr>ief := ief s\<rparr>)" by (rule fs_sameI) simp_all
  moreover have "fs_same t (upd_proc c (pmap_update f) (t\<lparr>ief := ief s, ram := m\<rparr>))" for f m
    by (rule fs_sameI) (simp_all add: upd_proc_def)
  ultimately have "fs_same t s'"
    using assms unfolding mem_copy_def irq_defs Let_def prod.case t option.case by (auto split: if_splits)
  then show ?thesis by (rule fs_same_trans [OF st])
qed

lemma do_fork_same:
  fixes s s' :: "'a kfs_scheme"
  assumes "do_fork sy s = Some (Inr (r, s'))"
  shows "fs_same s s'"
proof (cases "get_free_proc_struct (s\<lparr>ief := False\<rparr>)")
  case None
  then have "s' = s\<lparr>ief := False, ief := ief s\<rparr>" using assms by (simp add: do_fork_def irq_defs)
  then show ?thesis by (intro fs_sameI) simp_all
next
  case (Some c)
  let ?s2 = "s\<lparr>ief := False, ief := ief s\<rparr>"
  let ?s3 = "upd_proc c (\<lambda>_. (procs ?s2 (current ?s2))\<lparr>pid := pid (procs ?s2 c), ldt_selector := ldt_selector (procs ?s2 c)\<rparr>) ?s2"
  let ?s5 = "upd_proc c (pthread_update (\<lambda>_. \<lparr>th_esp0 = GET_PROC_KSTACK sy c + sizeof_stackframe,
       th_eip = sym_ret_with_schedule sy, th_esp = GET_PROC_KSTACK sy c\<rparr>)) (upd_kstack c (\<lambda>_. (kstack ?s3 (current ?s2))\<lparr>r_eax := 0\<rparr>) ?s3)"
  obtain v s6 where m: "mem_copy (current ?s2) c ?s5 = Some (v, s6)" "s' = s6 \<or>
      wake_up_process c (alloc_segments c (upd_proc c (\<lambda>q. q\<lparr>flags := flags q OR P_IN_USE, counter := 10\<rparr>) s6)) = Inr s'"
    using assms unfolding do_fork_def irq_defs Let_def prod.case Some option.case
    by (auto simp: exec_bind_eq split: option.splits if_splits)
  have "\<exists>q. fd_array (files (procs ?s5 p)) = fd_array (files (procs s q)) \<and> fs_root (pfs (procs ?s5 p)) = fs_root (pfs (procs s q))" for p
    by (cases "p = c") (auto simp: upd_proc_def upd_kstack_def)
  then have "fs_same s ?s5" unfolding fs_same_def by (simp add: upd_proc_def upd_kstack_def)
  then have s6: "fs_same s s6" by (rule fs_same_trans [OF _ mem_copy_same [OF m(1)]])
  let ?s7 = "alloc_segments c (upd_proc c (\<lambda>q. q\<lparr>flags := flags q OR P_IN_USE, counter := 10\<rparr>) s6)"
  have "fs_same s6 ?s7" by (rule fs_sameI) (simp_all add: alloc_segments_def upd_kstack_def upd_proc_def Let_def)
  then show ?thesis using m(2) s6 wake_up_process_same fs_same_trans by blast
qed

lemma do_exit_same:
  fixes s s' :: "'a kfs_scheme"
  assumes "do_exit sy e s = Some (Inr (r, s'))"
  shows "fs_same s s'"
proof -
  let ?c = "current s"
  let ?s1 = "upd_proc ?c (flags_update (\<lambda>f. f AND NOT P_IN_USE)) s"
  obtain s2 where r: "Kmem_free (phys (pmap (procs ?s1 ?c) Map_D)) ?s1 = Some s2"
    "schedule sy (upd_proc ?c (\<lambda>q. q\<lparr>ldt_selector := 0, status := TASK_STOPED\<rparr>) s2) = Some (Inr s')"
    using assms unfolding do_exit_def Let_def by (auto simp: exec_bind_eq split: option.splits if_splits)
  have "fs_same s ?s1" by simp
  moreover have "fs_same ?s1 s2" by (rule more_same [OF Kmem_free_more [OF r(1)]])
  moreover have "fs_same s2 (upd_proc ?c (\<lambda>q. q\<lparr>ldt_selector := 0, status := TASK_STOPED\<rparr>) s2)" by simp
  ultimately show ?thesis using schedule_same [OF r(2)] fs_same_trans by blast
qed

section \<open>Runs\<close>

text \<open>
  What the processes do with their files, and the steps by which the table of descriptors of a process comes to be:
  system calls, and the end of a time slice.
\<close>

inductive fs_step :: "'a kfs_scheme \<Rightarrow> 'a kfs_scheme \<Rightarrow> bool" where
  opens: "fs_step s s'" if "fs_reader rdb" "sys_open stk rdb junk a s = Some (Inr (r, s'))"
| reads: "fs_step s s'" if "fs_reader rdb" "sys_read stk rdb buf sz count fp s = Some (Inr (k, s'))"
| forks: "fs_step s s'" if "sys_fork sy s = Some (Inr (r, s'))"
| exits: "fs_step s s'" if "sys_exit sy e s = Some (Inr (r, s'))"
| switches: "fs_step s s'" if "schedule sy s = Some (Inr s')"

lemma fs_step_typed: "fs_step s s' \<Longrightarrow> fs_typed {} s \<Longrightarrow> fs_typed {} s'"
proof (induction rule: fs_step.induct)
  case (opens rdb stk junk a s r s')
  then show ?case using sys_open_keeps unfolding fs_keeps_def by blast
next
  case (reads rdb stk buf sz count fp s k s')
  then show ?case using sys_read_keeps unfolding fs_keeps_def by blast
next
  case (forks sy s r s')
  then show ?case using fs_same_typed do_fork_same unfolding sys_fork_def by blast
next
  case (exits sy e s r s')
  then show ?case using fs_same_typed do_exit_same unfolding sys_exit_def by blast
next
  case (switches sy s s')
  then show ?case using fs_same_typed schedule_same by blast
qed

lemma fs_steps_typed: "fs_step\<^sup>*\<^sup>* s s' \<Longrightarrow> fs_typed {} s \<Longrightarrow> fs_typed {} s'"
  by (induction rule: rtranclp_induct) (auto intro: fs_step_typed)

text \<open>In such a state a descriptor can be used.\<close>

lemma fs_typed_descriptor:
  assumes "fs_typed {} s" "fd_entry fp s = Inr (Some f)"
  shows "\<exists>fl i nd bd. open_file f fl i bd nd s \<and> length (i_block nd) = 10 \<and> sys_feof fp s = Inr (if i_size nd \<le> f_pos fl then 1 else 0)"
proof -
  have "Some f \<in> set (fd_array (files (procs s (current s))))"
    using assms(2) by (auto simp: fd_entry_def rd_eq_Inr in_set_conv_nth split: if_splits)
  then obtain fi ff where t: "file_typed fi ff f s" "inodes_ok (inodes s)" "length (filps s) = FILP_NR"
    using assms(1) unfolding fs_typed_def by blast
  then obtain i where i: "f_ino (filps s ! f) = Some i" "i < length (inodes s)" "bound i s" by (auto simp: file_typed_def inodes_ok_def)
  obtain bd where bd: "sb_of i s = Inr bd" using i by (auto simp: bound_def sb_of_def)
  have f: "f < length (filps s)" using t(1,3) by (simp add: file_typed_def)
  have "open_file f (filps s ! f) i bd (inodes s ! i) s" using i f bd by (simp add: open_file_def)
  moreover have "length (i_block (inodes s ! i)) = 10" using t(2) i(2) by (simp add: inodes_ok_def)
  moreover have "sys_feof fp s = Inr (if i_size (inodes s ! i) \<le> f_pos (filps s ! f) then 1 else 0)"
    using i f assms(2) by (simp add: sys_feof_def eofile_def filp_inode_def)
  ultimately show ?thesis by blast
qed

text \<open>
  The hypothesis on \<open>bread\<close> holds of a reader that copies the bytes, and of one that in between lets another process open
  a file: what an operation keeps is what the others rely on.
\<close>

lemma copy_reader_keeps: "fs_reader (copy_reader disk)"
  unfolding fs_reader_def
proof (intro allI impI)
  fix X buf sz sec r and s s' :: "'a kfs_scheme"
  assume t: "fs_typed X s" "copy_reader disk buf sz sec s = Some (Inr (r, s'))"
  from t(2) have "fs_frame s s'" unfolding copy_reader_def by (auto simp: fs_frame_def)
  then show "fs_keeps X s s'" using t(1) by (rule fs_frame_keeps)
qed

definition meanwhile_opens ::
    "'a kfs_scheme reader \<Rightarrow> nat \<Rightarrow> u8 list \<Rightarrow> 'a kfs_scheme reader \<Rightarrow> u8 list \<Rightarrow> u32 \<Rightarrow> 'a kfs_scheme reader" where
  "meanwhile_opens rdb p stk rdb' junk a buf sz sec s =
     exec_bind (rdb buf sz sec s) (\<lambda>(r, s1).
     exec_bind (sys_open stk rdb' junk a (s1\<lparr>current := p\<rparr>)) (\<lambda>(v, s2). Some (Inr (r, s2\<lparr>current := current s1\<rparr>))))"

lemma fs_typed_switch: "fs_typed X s \<Longrightarrow> fs_typed X (s\<lparr>current := p\<rparr>)"
  by (rule fs_typed_cong) auto

lemma meanwhile_opens_keeps:
  assumes "fs_reader rdb" "fs_reader rdb'"
  shows "fs_reader (meanwhile_opens rdb p stk rdb' junk a)"
  unfolding fs_reader_def
proof (intro allI impI)
  fix X buf sz sec r s s'
  assume t: "fs_typed X s" "meanwhile_opens rdb p stk rdb' junk a buf sz sec s = Some (Inr (r, s'))"
  obtain s1 v s2 where o: "rdb buf sz sec s = Some (Inr (r, s1))" "sys_open stk rdb' junk a (s1\<lparr>current := p\<rparr>) = Some (Inr (v, s2))"
    "s' = s2\<lparr>current := current s1\<rparr>" using t(2) by (auto simp: meanwhile_opens_def exec_bind_eq)
  have k1: "fs_keeps X s s1" using assms(1) t(1) o(1) unfolding fs_reader_def by blast
  then have "fs_typed X (s1\<lparr>current := p\<rparr>)" by (simp add: fs_keeps_def fs_typed_switch)
  then have "fs_keeps X (s1\<lparr>current := p\<rparr>) s2" by (rule sys_open_keeps [OF assms(2) _ o(2)])
  then have "fs_keeps X s1 s'" using fs_typed_switch [of X s2] unfolding o(3) by (simp add: fs_keeps_def)
  then show "fs_keeps X s s'" by (rule fs_keeps_trans [OF k1])
qed

text \<open>The state after the start of the file system, when no process has opened a file before.\<close>

definition no_files :: "'a kfs_scheme \<Rightarrow> bool" where
  "no_files s \<longleftrightarrow> (\<forall>p. set (fd_array (files (procs s p))) \<subseteq> {None} \<and> (p \<noteq> current s \<longrightarrow> fs_root (pfs (procs s p)) = None))"

lemma fs_init_typed:
  assumes "startable us n boot s" "mountable disk" "reads_disk disk rdb" "length stk = STACK_SIZE" "no_files s"
    and "fs_init stk rdb slp boot s = Some (Inr s0)"
  shows "fs_typed {} s0"
proof -
  have r: "fs_ready us n boot (disk_super disk (super_block s ! 0)) s s0"
    using fs_init_ready [OF assms(1-4) refl, of slp] assms(6) by auto
  note r = r [unfolded fs_ready_def]
  have none: "Some f \<notin> set (fd_array (files (procs s0 p)))" for p f
    using assms(5) r by (cases "p = current s") (auto simp: no_files_def)
  have root: "root_typed [1..<INODE_NR] q s0" if "fs_root (pfs (procs s0 p)) = Some q" for p q
  proof (cases "p = current s")
    case True
    then have "q = 0" using r that by (auto simp: rooted_def)
    then show ?thesis using r by (simp add: root_typed_def bound_def INODE_NR_def)
  next
    case False
    then show ?thesis using assms(5) r that by (auto simp: no_files_def)
  qed
  show ?thesis
    unfolding fs_typed_def using r none root
    by (intro exI [of _ "[1..<INODE_NR]"] exI [of _ "[0..<FILP_NR]"]) auto
qed

section \<open>Properties\<close>

text \<open>
  Property C13: after the start of the file system, whatever the processes do, a descriptor that is taken stands for an open
  file: its record has an inode, with ten clusters, of a mounted super block, and \<open>sys_feof\<close> answers. The processes open
  and read files, fork, exit and lose their time slice in any order, and may run while one of them waits for the disk.
\<close>

theorem descriptors_stay_open:
  assumes "startable us n boot s" "mountable disk" "reads_disk disk rdb" "length stk = STACK_SIZE" "no_files s"
    and "fs_init stk rdb slp boot s = Some (Inr s0)" "fs_step\<^sup>*\<^sup>* s0 t" "fd_entry fp t = Inr (Some f)"
  shows "\<exists>fl i nd bd. open_file f fl i bd nd t \<and> length (i_block nd) = 10 \<and> sys_feof fp t = Inr (if i_size nd \<le> f_pos fl then 1 else 0)"
  using fs_typed_descriptor [OF fs_steps_typed [OF assms(7) fs_init_typed [OF assms(1-6)]] assms(8)] .

theorem descriptors_stay_open_witness:
  "\<exists>s1 s2. fs_init (replicate 100 0) (copy_reader boot_disk) (\<lambda>_ _. None) 0x300000 boot_fs = Some (Inr s1)
    \<and> sys_open (replicate 100 0) (copy_reader boot_disk) (replicate 13 7) 0x500000 s1 = Some (Inr (0, s2)) \<and> (sys_feof 0 s2 = Inr 0 \<or> sys_feof 0 s2 = Inr 1)"
proof -
  have l: "length (replicate 100 0 :: u8 list) = STACK_SIZE" "length (replicate 13 7 :: u8 list) = 13" "3 = sb_dir_first_sec boot_super"
    by (simp_all add: STACK_SIZE_def boot_super_def)
  obtain s1 s2 where o: "fs_init (replicate 100 0) (copy_reader boot_disk) (\<lambda>_ _. None) 0x300000 boot_fs = Some (Inr s1)"
    "sys_open (replicate 100 0) (copy_reader boot_disk) (replicate 13 7) 0x500000 s1 = Some (Inr (0, s2))" "fd_entry 0 s2 = Inr (Some 0)"
    using first_open [OF boot_fs_ok(1) boot_disk_super(1) copy_reader_reads l(1,2) boot_disk_super(2) l(3) boot_fs_ok(2) boot_name_far
        boot_disk_file(1,2) refl, of "\<lambda>_ _. None"] by blast
  have "no_files boot_fs" by (simp add: no_files_def boot_fs_def zero_proc_def)
  moreover have "fs_step\<^sup>*\<^sup>* s1 s2" using fs_step.opens [OF copy_reader_keeps o(2)] by blast
  ultimately show ?thesis
    using descriptors_stay_open [OF boot_fs_ok(1) boot_disk_super(1) copy_reader_reads l(1) _ o(1) _ o(3)] o(1,2) by (auto split: if_splits)
qed

end
