(* ===== verification/Trap.thy ===== *)
theory Trap
  imports Tty
begin

text \<open>
  Processor exceptions: \<^verbatim>\<open>ker/trap.c\<close>. The stub of \<^verbatim>\<open>ker/sys.S\<close> passes the number of the exception, an
  error code and the saved registers; \<open>c_exception\<close> prints them and stops the processor.
\<close>

section \<open>The code\<close>

definition exmsg :: "string list" where
  "exmsg =
     [''Divide Error'', ''Debug'', ''NMI'', ''Breakpoint'', ''Overflow'', ''Bounds Exceeded'', ''Invalid Opcode'',
      ''Device not available'', ''Double Fault'', ''Coprocessor Segment Overrun'', ''Invalid TSS'', ''Segment Not Present'',
      ''Stack Fault'', ''General Protection'', ''Page-Fault'', ''reserved'', ''x87 FPU Floating-Point Error'',
      ''Alignment Check'', ''Machine-Check'', ''SIMD Floating-Point'']"

text \<open>
  The result is the state in which the processor executes \<^verbatim>\<open>hlt\<close>. The interrupts are disabled then, so
  that only a non-maskable one would let it go on.
\<close>

definition c_exception :: "u8 list \<Rightarrow> nat \<Rightarrow> u32 \<Rightarrow> stackframe \<Rightarrow> 'a kcons_scheme \<Rightarrow> 'a kcons_scheme res" where
  "c_exception stk vec errorcode regs s =
     (let s0 = lock s;
          ext = errorcode AND 1;
          idt = errorcode AND 2;
          ti = errorcode AND 4;
          select_index = drop_bit 3 errorcode
      in res_bind (rd exmsg vec) (\<lambda>msg.
         res_bind (printk stk (bytes ''%s Excepttion:%d'' @ [10, 0]) [Va_str (bytes msg @ [0]), Va_word errorcode] s0) (\<lambda>s1.
         res_bind (if r_cs regs AND 3 = 3 then
             res_bind (printk stk (bytes ''Pid:%d'' @ [10, 0]) [Va_word (of_int (pid (procs s1 (current s1))))] s1)
               (printk stk (bytes ''ESP:0x%x:0x%x'' @ [10, 0]) [Va_word (r_ss regs), Va_word (r_esp regs)])
           else Inr s1) (\<lambda>s2.
         res_bind (printk stk (bytes ''EIP:0x%x:0x%x FLAGS:0x%x'' @ [10, 0])
             [Va_word (r_cs regs), Va_word (r_eip regs), Va_word (r_psw regs)] s2) (\<lambda>s3.
         res_bind (printk stk (bytes ''DS:0x%x ES:0x%x'' @ [10, 0]) [Va_word (r_ds regs), Va_word (r_es regs)] s3) (\<lambda>s4.
         res_bind (printk stk (bytes ''EAX:0x%x EBX:0x%x ECX:0x%x EDX:0x%x'' @ [10, 0])
             [Va_word (r_eax regs), Va_word (r_ebx regs), Va_word (r_ecx regs), Va_word (r_edx regs)] s4) (\<lambda>s5.
         res_bind (if ext \<noteq> 0 then printk stk (bytes ''Event External'' @ [10, 0]) [] s5 else Inr s5) (\<lambda>s6.
         if idt \<noteq> 0 then printk stk (bytes ''Index:%d in IDT'' @ [10, 0]) [Va_word select_index] s6
         else if ti \<noteq> 0 then printk stk (bytes ''Index:%d in LDT'' @ [10, 0]) [Va_word select_index] s6
         else printk stk (bytes ''Index:%d in GDT'' @ [10, 0]) [Va_word select_index] s6))))))))"

text \<open>
  The stubs of \<^verbatim>\<open>ker/sys.S\<close>. Each pushes its vector; the processor has pushed an error code before for those
  that go on at \<open>errexception\<close>. \<^verbatim>\<open>xchgl\<close> puts the slots on the stack into EAX and EBX, which are then passed as
  exception number and error code. At \<open>errexception\<close> EAX gets the error code and EBX the vector, and the saved
  registers are the interrupted EAX, the interrupted EBX and the vector, in the places of the return address,
  EAX and EBX. At \<open>exception\<close> EBX still has what the interrupted program had there, and the vector is saved in
  the place of EAX.
\<close>

definition has_error_code :: "nat \<Rightarrow> bool" where
  "has_error_code vec \<longleftrightarrow> vec \<in> {8, 10, 11, 12, 13, 14, 17}"

definition exception_entry :: "u8 list \<Rightarrow> nat \<Rightarrow> u32 \<Rightarrow> stackframe \<Rightarrow> 'a kcons_scheme \<Rightarrow> 'a kcons_scheme res" where
  "exception_entry stk vec err regs s =
     (if has_error_code vec then
        c_exception stk (unat err) (of_nat vec) (regs\<lparr>r_retaddr := r_eax regs, r_eax := r_ebx regs, r_ebx := of_nat vec\<rparr>) s
      else
        c_exception stk vec (r_ebx regs) (regs\<lparr>r_retaddr := r_eax regs, r_eax := of_nat vec\<rparr>) s)"

section \<open>What it prints\<close>

text \<open>The messages of an exception, each with its text.\<close>

type_synonym message = "u8 list \<times> va_arg list \<times> u8 list"

definition hex_of :: "u32 \<Rightarrow> u8 list" where "hex_of w = bytes ''0x'' @ hex_bytes w"

definition user_lines :: "int \<Rightarrow> stackframe \<Rightarrow> message list" where
  "user_lines p regs =
     [(bytes ''Pid:%d'' @ [10], [Va_word (of_int p)], bytes ''Pid:'' @ dec_bytes (of_int p) @ [10]),
      (bytes ''ESP:0x%x:0x%x'' @ [10], [Va_word (r_ss regs), Va_word (r_esp regs)],
         bytes ''ESP:'' @ hex_of (r_ss regs) @ bytes '':'' @ hex_of (r_esp regs) @ [10])]"

definition selector_table :: "u32 \<Rightarrow> string" where
  "selector_table e = (if bit e 1 then ''IDT'' else if bit e 2 then ''LDT'' else ''GDT'')"

definition exception_lines :: "string \<Rightarrow> u32 \<Rightarrow> int \<Rightarrow> stackframe \<Rightarrow> message list" where
  "exception_lines msg e p regs =
     [(bytes ''%s Excepttion:%d'' @ [10], [Va_str (bytes msg @ [0]), Va_word e], bytes msg @ bytes '' Excepttion:'' @ dec_bytes e @ [10])]
     @ (if r_cs regs AND 3 = 3 then user_lines p regs else [])
     @ [(bytes ''EIP:0x%x:0x%x FLAGS:0x%x'' @ [10], [Va_word (r_cs regs), Va_word (r_eip regs), Va_word (r_psw regs)],
           bytes ''EIP:'' @ hex_of (r_cs regs) @ bytes '':'' @ hex_of (r_eip regs) @ bytes '' FLAGS:'' @ hex_of (r_psw regs) @ [10]),
        (bytes ''DS:0x%x ES:0x%x'' @ [10], [Va_word (r_ds regs), Va_word (r_es regs)],
           bytes ''DS:'' @ hex_of (r_ds regs) @ bytes '' ES:'' @ hex_of (r_es regs) @ [10]),
        (bytes ''EAX:0x%x EBX:0x%x ECX:0x%x EDX:0x%x'' @ [10],
           [Va_word (r_eax regs), Va_word (r_ebx regs), Va_word (r_ecx regs), Va_word (r_edx regs)],
           bytes ''EAX:'' @ hex_of (r_eax regs) @ bytes '' EBX:'' @ hex_of (r_ebx regs) @ bytes '' ECX:'' @ hex_of (r_ecx regs)
             @ bytes '' EDX:'' @ hex_of (r_edx regs) @ [10])]
     @ (if bit e 0 then [(bytes ''Event External'' @ [10], [], bytes ''Event External'' @ [10])] else [])
     @ [(bytes (''Index:%d in '' @ selector_table e) @ [10], [Va_word (drop_bit 3 e)],
           bytes ''Index:'' @ dec_bytes (drop_bit 3 e) @ bytes ('' in '' @ selector_table e) @ [10])]"

definition exception_text :: "string \<Rightarrow> u32 \<Rightarrow> int \<Rightarrow> stackframe \<Rightarrow> u8 list" where
  "exception_text msg e p regs = concat (map (\<lambda>(fmt, as, out). out) (exception_lines msg e p regs))"

lemma cstring_bytes: "0 \<notin> set x \<Longrightarrow> cstring (x @ [0]) = Inr x"
  by (induction x) auto

lemma length_exmsg [simp]: "length exmsg = 20" by (simp add: exmsg_def)

lemma exmsg_ok:
  assumes "msg \<in> set exmsg"
  shows "0 \<notin> set (bytes msg)" "length msg \<le> 28"
proof -
  have "\<forall>m \<in> set exmsg. 0 \<notin> set (bytes m) \<and> length m \<le> 28" by code_simp
  then show "0 \<notin> set (bytes msg)" "length msg \<le> 28" using assms by blast+
qed

lemma length_bytes [simp]: "length (bytes t) = length t"
  by (simp add: bytes_def)

lemma name_line:
  assumes "0 \<notin> set m" "length m \<le> 28"
  shows "prints_as (bytes ''%s Excepttion:%d'' @ [10]) [Va_str (m @ [0]), Va_word e] (m @ bytes '' Excepttion:'' @ dec_bytes e @ [10])"
  using assms dec_bytes_length [of e] cstring_bytes [OF assms(1)] dec_bytes_nonzero [of e]
  by (auto simp: prints_as_def bytes_def item_def of_char_def STACK_SIZE_def)

lemma exception_lines_print:
  assumes "msg \<in> set exmsg"
  shows "\<forall>(fmt, as, out) \<in> set (exception_lines msg e p regs). prints_as fmt as out"
proof -
  note lens = dec_bytes_length [of e] dec_bytes_length [of "of_int p"] dec_bytes_length [of "drop_bit 3 e"]
  note h = hex_bytes_length
  have m: "prints_as (bytes ''%s Excepttion:%d'' @ [10]) [Va_str (bytes msg @ [0]), Va_word e]
      (bytes msg @ bytes '' Excepttion:'' @ dec_bytes e @ [10])"
    using name_line [OF exmsg_ok(1) [OF assms]] exmsg_ok(2) [OF assms] by simp
  have u: "\<forall>(fmt, as, out) \<in> set (user_lines p regs). prints_as fmt as out"
    using lens(2) h [of "r_ss regs"] h [of "r_esp regs"] dec_bytes_nonzero hex_bytes_nonzero
    by (auto simp: user_lines_def hex_of_def prints_as_def bytes_def item_def of_char_def STACK_SIZE_def)
  have t: "prints_as (bytes (''Index:%d in '' @ selector_table e) @ [10]) [Va_word (drop_bit 3 e)]
      (bytes ''Index:'' @ dec_bytes (drop_bit 3 e) @ bytes ('' in '' @ selector_table e) @ [10])"
    using lens(3) dec_bytes_nonzero [of "drop_bit 3 e"]
    by (auto simp: selector_table_def prints_as_def bytes_def item_def of_char_def STACK_SIZE_def)
  have "prints_as (bytes ''EIP:0x%x:0x%x FLAGS:0x%x'' @ [10]) [Va_word (r_cs regs), Va_word (r_eip regs), Va_word (r_psw regs)]
      (bytes ''EIP:'' @ hex_of (r_cs regs) @ bytes '':'' @ hex_of (r_eip regs) @ bytes '' FLAGS:'' @ hex_of (r_psw regs) @ [10])"
    using h [of "r_cs regs"] h [of "r_eip regs"] h [of "r_psw regs"] hex_bytes_nonzero
    by (auto simp: hex_of_def prints_as_def bytes_def item_def of_char_def STACK_SIZE_def)
  moreover have "prints_as (bytes ''DS:0x%x ES:0x%x'' @ [10]) [Va_word (r_ds regs), Va_word (r_es regs)]
      (bytes ''DS:'' @ hex_of (r_ds regs) @ bytes '' ES:'' @ hex_of (r_es regs) @ [10])"
    using h [of "r_ds regs"] h [of "r_es regs"] hex_bytes_nonzero
    by (auto simp: hex_of_def prints_as_def bytes_def item_def of_char_def STACK_SIZE_def)
  moreover have "prints_as (bytes ''EAX:0x%x EBX:0x%x ECX:0x%x EDX:0x%x'' @ [10])
      [Va_word (r_eax regs), Va_word (r_ebx regs), Va_word (r_ecx regs), Va_word (r_edx regs)]
      (bytes ''EAX:'' @ hex_of (r_eax regs) @ bytes '' EBX:'' @ hex_of (r_ebx regs) @ bytes '' ECX:'' @ hex_of (r_ecx regs)
        @ bytes '' EDX:'' @ hex_of (r_edx regs) @ [10])"
    using h [of "r_eax regs"] h [of "r_ebx regs"] h [of "r_ecx regs"] h [of "r_edx regs"] hex_bytes_nonzero
    by (auto simp: hex_of_def prints_as_def bytes_def item_def of_char_def STACK_SIZE_def)
  moreover have "prints_as (bytes ''Event External'' @ [10]) [] (bytes ''Event External'' @ [10])"
    by (auto simp: prints_as_def bytes_def of_char_def STACK_SIZE_def)
  ultimately show ?thesis using m u t unfolding exception_lines_def by auto
qed

lemma cons_ok_ief [simp]: "cons_ok (s\<lparr>ief := b\<rparr>) \<longleftrightarrow> cons_ok s"
  by (simp add: cons_ok_def)

lemma do_calls_fun: "do_calls [] = Inr" "do_calls (f # fs) = (\<lambda>s. res_bind (f s) (do_calls fs))"
  by (auto intro: ext)

lemma res_bind_Inr_right [simp]: "res_bind m Inr = m"
  by (cases m) simp_all

lemma and_bit_zero: "e AND 1 = 0 \<longleftrightarrow> \<not> bit e 0" "e AND 2 = 0 \<longleftrightarrow> \<not> bit e 1" "e AND 4 = 0 \<longleftrightarrow> \<not> bit e 2" for e :: u32
  using and_exp_eq_0_iff_not_bit [of e 0] and_exp_eq_0_iff_not_bit [of e 1] and_exp_eq_0_iff_not_bit [of e 2] by simp_all

lemma c_exception_lines:
  assumes "vec < 20" "length stk = STACK_SIZE" "cons_ok s"
  shows "c_exception stk vec e regs s = do_calls (map (\<lambda>(fmt, as, out). printk stk (fmt @ [0]) as)
    (exception_lines (exmsg ! vec) e (pid (procs s (current s))) regs)) (s\<lparr>ief := False\<rparr>)"
proof -
  let ?msg = "exmsg ! vec" and ?s = "s\<lparr>ief := False\<rparr>"
  have r: "rd exmsg vec = Inr ?msg" "?msg \<in> set exmsg" using assms(1) by simp_all
  have "prints_as (bytes ''%s Excepttion:%d'' @ [10]) [Va_str (bytes ?msg @ [0]), Va_word e]
      (bytes ?msg @ bytes '' Excepttion:'' @ dec_bytes e @ [10])"
    using exception_lines_print [OF r(2), of e 0 regs] by (simp add: exception_lines_def)
  then obtain s1 where s1: "printk stk ((bytes ''%s Excepttion:%d'' @ [10]) @ [0]) [Va_str (bytes ?msg @ [0]), Va_word e] ?s = Inr s1"
    "on_screen ?s s1"
    using printk_text [of _ _ _ stk ?s] assms(2,3) by (metis cons_ok_ief)
  have "pid (procs s1 (current s1)) = pid (procs s (current s))" using s1(2) by (auto simp: on_screen_def)
  moreover have i: "bytes (''Index:%d in '' @ t) = bytes ''Index:%d in '' @ bytes t" for t by (simp add: bytes_def)
  have "bytes ''Index:%d in IDT'' = bytes ''Index:%d in '' @ bytes ''IDT''" "bytes ''Index:%d in LDT'' = bytes ''Index:%d in '' @ bytes ''LDT''"
    "bytes ''Index:%d in GDT'' = bytes ''Index:%d in '' @ bytes ''GDT''" by (simp_all add: bytes_def)
  ultimately show ?thesis
    unfolding c_exception_def Let_def exception_lines_def selector_table_def user_lines_def and_bit_zero
    using s1(1) r(1) by (simp add: lock_def i do_calls_append do_calls_fun res_bind_assoc)
qed

lemma c_exception_reports:
  assumes "length stk = STACK_SIZE" "cons_ok s"
  shows "if vec < 20
    then \<exists>s'. c_exception stk vec e regs s = Inr s' \<and> on_screen (s\<lparr>ief := False\<rparr>) s'
      \<and> terminal_of s' = fold term_put (exception_text (exmsg ! vec) e (pid (procs s (current s))) regs) (terminal_of s)
    else c_exception stk vec e regs s = Inl Out_of_bounds"
proof (cases "vec < 20")
  case True
  let ?s = "s\<lparr>ief := False\<rparr>" and ?p = "pid (procs s (current s))"
  have "exmsg ! vec \<in> set exmsg" using True by simp
  from do_prints [OF exception_lines_print [OF this, of e ?p regs] assms(1), of ?s]
  obtain s' where s': "do_calls (map (\<lambda>(fmt, as, out). printk stk (fmt @ [0]) as) (exception_lines (exmsg ! vec) e ?p regs)) ?s = Inr s'"
    "on_screen ?s s'" "terminal_of s' = fold term_put (exception_text (exmsg ! vec) e ?p regs) (terminal_of ?s)"
    using assms(2) by (auto simp: cons_ok_def exception_text_def)
  have "c_exception stk vec e regs s = Inr s'" using c_exception_lines [OF True assms] s'(1) by simp
  then show ?thesis using True s'(2,3) by (auto simp: terminal_of_def)
next
  case False
  then have "rd exmsg vec = Inl Out_of_bounds" by (intro rd_out) simp
  then show ?thesis using False by (simp add: c_exception_def Let_def)
qed

text \<open>
  Property C18: an exception disables the interrupts, prints its name and error code, for user mode the process
  and its stack, the registers, and the table and index that the error code names, and halts; only the screen
  changes. But the stubs mix the numbers up: an exception without error code has the interrupted EBX for one,
  and one with an error code is taken for the exception with that number, with its own as error code. When the
  error code is 20 or more, the name is read behind the table.
\<close>

theorem exception_reports:
  assumes "length stk = STACK_SIZE" "cons_ok s" "vec < 20" "p = pid (procs s (current s))"
    and "shown = (if has_error_code vec then unat err else vec)" "code = (if has_error_code vec then of_nat vec else r_ebx regs)"
    and "frame = (if has_error_code vec then regs\<lparr>r_retaddr := r_eax regs, r_eax := r_ebx regs, r_ebx := of_nat vec\<rparr>
           else regs\<lparr>r_retaddr := r_eax regs, r_eax := of_nat vec\<rparr>)"
  shows "if shown < 20
    then \<exists>s'. exception_entry stk vec err regs s = Inr s' \<and> on_screen (s\<lparr>ief := False\<rparr>) s'
      \<and> terminal_of s' = fold term_put (exception_text (exmsg ! shown) code p frame) (terminal_of s)
    else exception_entry stk vec err regs s = Inl Out_of_bounds"
  using c_exception_reports [OF assms(1,2), of shown code frame] assms(3-7) by (simp add: exception_entry_def split: if_splits)

text \<open>A process that reads through a selector that it may not use: error code 4, and the name of vector 4.\<close>

definition bad_frame :: stackframe where
  "bad_frame = \<lparr>r_gs = 0, r_fs = 0, r_es = 0xF, r_ds = 0xF, r_ebp = 0, r_edi = 0, r_esi = 0, r_edx = 4, r_ecx = 3, r_ebx = 2,
     r_eax = 1, r_retaddr = 0, r_eip = 0x1234, r_cs = 7, r_psw = 0x200, r_esp = 0xABC, r_ss = 0xF\<rparr>"

theorem exception_reports_witness:
  "\<exists>s'. exception_entry (replicate 100 0) 13 4 bad_frame last_cell = Inr s' \<and> \<not> ief s'
     \<and> terminal_of s' = fold term_put (bytes ''Overflow Excepttion:13'' @ [10] @ bytes ''Pid:0'' @ [10]
       @ bytes ''ESP:0xf:0xabc'' @ [10] @ bytes ''EIP:0x7:0x1234 FLAGS:0x200'' @ [10] @ bytes ''DS:0xf ES:0xf'' @ [10]
       @ bytes ''EAX:0x2 EBX:0xd ECX:0x3 EDX:0x4'' @ [10] @ bytes ''Event External'' @ [10] @ bytes ''Index:1 in LDT'' @ [10]) (terminal_of last_cell)"
proof -
  have "exception_text (exmsg ! 4) 13 0 (bad_frame\<lparr>r_retaddr := r_eax bad_frame, r_eax := r_ebx bad_frame, r_ebx := 13\<rparr>) =
       bytes ''Overflow Excepttion:13'' @ [10] @ bytes ''Pid:0'' @ [10]
       @ bytes ''ESP:0xf:0xabc'' @ [10] @ bytes ''EIP:0x7:0x1234 FLAGS:0x200'' @ [10] @ bytes ''DS:0xf ES:0xf'' @ [10]
       @ bytes ''EAX:0x2 EBX:0xd ECX:0x3 EDX:0x4'' @ [10] @ bytes ''Event External'' @ [10] @ bytes ''Index:1 in LDT'' @ [10]"
    by (simp add: exception_text_def exception_lines_def user_lines_def selector_table_def bad_frame_def hex_of_def exmsg_def
      hex_bytes_def dec_bytes_def number_def rdigits_step atoihex_def atoi_def bytes_def of_char_def)
  moreover have "pid (procs last_cell (current last_cell)) = 0"
    by (simp add: last_cell_def kstate.extend_def boot_state_def zero_proc_def)
  moreover have "has_error_code 13" by (simp add: has_error_code_def)
  ultimately show ?thesis
    using exception_reports [of "replicate 100 0" last_cell 13 0 4 4 13 bad_frame] last_cell_ok(1)
    by (auto simp: STACK_SIZE_def dest: on_screen_ief)
qed

end
