(* ===== verification/Kernel.thy ===== *)
theory Kernel
  imports Fs_Open Trap
begin

text \<open>
  Where the parts meet: the ways into the kernel and out of it, \<^verbatim>\<open>ker/sys.S\<close>. An interrupt runs
  \<open>do_IRQ\<close> with the handlers of the drivers, a system call runs a function of the table, and both
  end in \<open>ret_with_schedule\<close> when they came from a process.
\<close>

section \<open>Interrupts\<close>

text \<open>The handlers that the drivers put into \<open>irq_table\<close>.\<close>

definition run_handler :: "u8 list \<Rightarrow> irq_handler \<Rightarrow> nat \<Rightarrow> 'a khd_scheme \<Rightarrow> (int \<times> 'a khd_scheme) exec" where
  "run_handler stk h irq s =
     (case h of
        Nothing_irq \<Rightarrow> Some (nothing_irq stk irq s)
      | Clock_handler \<Rightarrow> Some (clock_handler stk irq s)
      | Kbd_int \<Rightarrow> kbd_int irq s
      | Hd_handlerp \<Rightarrow> hd_handlerp stk irq s
      | Hd_handlers \<Rightarrow> hd_handlers irq s)"

definition ret_with_schedule :: "symbols \<Rightarrow> 'a kstate_scheme \<Rightarrow> 'a kstate_scheme exec" where
  "ret_with_schedule sy s =
     (let s1 = lock s in if need_resched (procs s1 (current s1)) = 0 then Some (Inr s1) else schedule sy s1)"

text \<open>
  \<open>save\<close> and \<open>ret_from_int\<close>, for line \<open>irq\<close> and the interrupted code segment \<open>cs\<close>, up to the restoring
  of the registers.
\<close>

definition hw_interrupt :: "u8 list \<Rightarrow> symbols \<Rightarrow> nat \<Rightarrow> u32 \<Rightarrow> 'a khd_scheme \<Rightarrow> 'a khd_scheme exec" where
  "hw_interrupt stk sy irq cs s =
     exec_bind (do_IRQ (run_handler stk) irq s) (\<lambda>s1.
     let s2 = lock s1 in
     if cs AND 3 = 0 then Some (Inr s2) else ret_with_schedule sy s2)"

section \<open>System calls\<close>

datatype sysfun = Fs_init | Kb_read | Tty_write | Sys_open | Sys_read | Sys_feof | Sys_exit | Sys_fork | Mem_show

definition sys_call_table :: "sysfun list" where
  "sys_call_table = [Fs_init, Kb_read, Tty_write, Sys_open, Sys_read, Sys_feof, Sys_exit, Sys_fork, Mem_show]"

text \<open>
  What the functions take from their surroundings: the linker's addresses, the bytes on the kernel stack,
  the disk and the sleeping as their caller sees them, and the address of an array on the stack.
\<close>

record 's kenv =
  e_sy :: symbols
  e_stk :: "u8 list"
  e_junk :: "u8 list"
  e_rdb :: "'s reader"
  e_slp :: "'s sleeper"
  e_boot :: u32

text \<open>
  The call of a function with the arguments that \<open>system_call\<close> has pushed. The value is what it leaves in
  EAX, none when the process sleeps; \<open>v\<close> is what is there when the function returns nothing.
\<close>

definition call_sysfun ::
    "'a kfs_scheme kenv \<Rightarrow> u32 \<Rightarrow> sysfun \<Rightarrow> stackframe \<Rightarrow> 'a kfs_scheme \<Rightarrow> (u32 option \<times> 'a kfs_scheme) exec" where
  "call_sysfun e v f r s =
     (let a0 = r_ebx r; a1 = r_ecx r; a2 = r_edx r; a3 = r_esi r in
      case f of
        Fs_init \<Rightarrow> exec_bind (fs_init (e_stk e) (e_rdb e) (e_slp e) (e_boot e) s) (\<lambda>s1. Some (Inr (Some v, s1)))
      | Kb_read \<Rightarrow> exec_bind (kb_read (e_sy e) s) (\<lambda>(c, s1). Some (Inr (map_option of_int c, s1)))
      | Tty_write \<Rightarrow> map_option (\<lambda>s1. Inr (Some v, s1)) (tty_write a0 s)
      | Sys_open \<Rightarrow> exec_bind (sys_open (e_stk e) (e_rdb e) (e_junk e) a0 s) (\<lambda>(n, s1). Some (Inr (Some (of_int n), s1)))
      | Sys_read \<Rightarrow> exec_bind (sys_read (e_stk e) (e_rdb e) a0 a1 a2 a3 s) (\<lambda>(n, s1). Some (Inr (Some (of_int n), s1)))
      | Sys_feof \<Rightarrow> exec_bind (Some (sys_feof a0 s)) (\<lambda>n. Some (Inr (Some (of_int n), s)))
      | Sys_exit \<Rightarrow> exec_bind (sys_exit (e_sy e) (sint a0) s) (\<lambda>(n, s1). Some (Inr (Some (of_int n), s1)))
      | Sys_fork \<Rightarrow> exec_bind (sys_fork (e_sy e) s) (\<lambda>(n, s1). Some (Inr (Some (of_int n), s1)))
      | Mem_show \<Rightarrow> exec_bind (mem_show (e_stk e) s) (\<lambda>s1. Some (Inr (Some v, s1))))"

text \<open>
  \<open>system_call\<close> of the running process, whose registers are on its kernel stack, up to the restoring of
  the registers. When the function has switched to another process, the rest is done when the caller runs
  again.
\<close>

definition system_call :: "'a kfs_scheme kenv \<Rightarrow> u32 \<Rightarrow> 'a kfs_scheme \<Rightarrow> 'a kfs_scheme exec" where
  "system_call e v s =
     (let p = current s; r = kstack s p in
      exec_bind (Some (rd sys_call_table (unat (r_eax r)))) (\<lambda>f.
      exec_bind (call_sysfun e v f r (unlock s)) (\<lambda>(x, s1).
      case x of
        None \<Rightarrow> Some (Inr s1)
      | Some w \<Rightarrow>
          if current s1 \<noteq> p then Some (Inr s1)
          else ret_with_schedule (e_sy e) (upd_kstack p (r_eax_update (\<lambda>_. w)) s1))))"

end
