(* ===== verification/Kernel_Props.thy ===== *)
theory Kernel_Props
  imports Kernel Fat_Props
begin

text \<open>
  Properties that span components: what an interrupt of the timer does to the scheduler and to the screen,
  and how the system call \<open>fork\<close> returns in two processes.
\<close>

section \<open>The timer\<close>

lemma bill_parts:
  "bill_process_time (s\<lparr>ief := b\<rparr>) = (bill_process_time s)\<lparr>ief := b\<rparr>"
  "bill_process_time (s\<lparr>ram := m\<rparr>) = (bill_process_time s)\<lparr>ram := m\<rparr>"
  by (simp_all add: bill_process_time_def upd_proc_def Let_def)

lemma bill_devices:
  "bill_process_time (s\<lparr>pic1 := p\<rparr>) = (bill_process_time s)\<lparr>pic1 := p\<rparr>"
  "bill_process_time (k\<lparr>clocktick := n\<rparr>) = (bill_process_time k)\<lparr>clocktick := n\<rparr>"
  "pic1 (bill_process_time s) = pic1 s" "clocktick (bill_process_time k) = clocktick k"
  "pics_ready (bill_process_time s) = pics_ready s"
  by (simp_all add: bill_process_time_def upd_proc_def Let_def pics_ready_def)

lemma bill_sel: "ief (bill_process_time s) = ief s" "masked (bill_process_time k) = masked k"
  by (simp_all add: bill_process_time_def upd_proc_def Let_def masked_def fun_eq_iff)

text \<open>
  Property C15: an interrupt of the timer in user mode is a clock tick of the scheduler, and in kernel mode
  only the bill for it: the interrupt counts one tick, shows the time, acknowledges itself once, and leaves
  the line unmasked and the interrupts disabled; it changes nothing else before the scheduler runs.
\<close>

theorem timer_interrupt_ticks:
  assumes "pics_ready s" "irq_table s ! 0 = Clock_handler" "length (irq_table s) = 16" "length stk = STACK_SIZE"
  shows "\<exists>m p. let t = s\<lparr>pic1 := p, clocktick := clocktick s + 1, ram := m, ief := False\<rparr> in
      hw_interrupt stk sy 0 cs s = (if cs AND 3 = 0 then Some (Inr (bill_process_time t)) else clock_tick sy t)
    \<and> screen m = put_text 120 0x1e (date_text (clocktime s)) (put_text 40 0x1e (time_text (clocktick s + 1) (clocktime s)) (screen (ram s)))
    \<and> (\<forall>a. unat a < unat screen_base \<or> unat screen_base + 4000 \<le> unat a \<longrightarrow> m a = ram s a)
    \<and> pic_eoi p = pic_eoi (pic1 s) + 1 \<and> (\<forall>j < 16. masked t j \<longleftrightarrow> masked s j \<and> j \<noteq> 0)"
proof -
  define i where "i = (ucast ((ucast (pic_imr (pic1 s)) :: u32) OR 1) :: u8)"
  let ?u = "s\<lparr>pic1 := (pic1 s)\<lparr>pic_imr := i, pic_eoi := pic_eoi (pic1 s) + 1\<rparr>, ief := True\<rparr>"
  define p where "p = (pic1 s)\<lparr>pic_imr := ucast ((ucast i :: u32) AND NOT 1), pic_eoi := pic_eoi (pic1 s) + 1\<rparr>"
  obtain m where m: "clock_handler stk 0 ?u = Inr (1, (bill_process_time ?u)\<lparr>clocktick := clocktick ?u + 1, ief := True, ram := m\<rparr>)"
    "screen m = put_text 120 0x1e (date_text (clocktime s)) (put_text 40 0x1e (time_text (clocktick s + 1) (clocktime s)) (screen (ram s)))"
    "\<forall>a. unat a < unat screen_base \<or> unat screen_base + 4000 \<le> unat a \<longrightarrow> m a = ram s a"
    using clock_handler_runs [OF assms(4), of 0 ?u] by auto
  let ?t = "s\<lparr>pic1 := p, clocktick := clocktick s + 1, ram := m, ief := False\<rparr>"
  let ?h = "(bill_process_time s)\<lparr>pic1 := (pic1 s)\<lparr>pic_imr := i, pic_eoi := pic_eoi (pic1 s) + 1\<rparr>, clocktick := clocktick s + 1,
    ram := m, ief := False\<rparr>"
  have h: "clock_handler stk 0 ?u = Inr (1, (bill_process_time s)\<lparr>pic1 := (pic1 s)\<lparr>pic_imr := i, pic_eoi := pic_eoi (pic1 s) + 1\<rparr>,
      clocktick := clocktick s + 1, ief := True, ram := m\<rparr>)"
    using m(1) by (simp add: bill_parts bill_devices)
  have "pics_ready ?h" using assms(1) bill_devices(5) [of s] by (simp add: pics_ready_def)
  then have o: "imm_outb INT_CTLMASK v ?h = ?h\<lparr>pic1 := (pic1 ?h)\<lparr>pic_imr := ucast v\<rparr>\<rparr>" for v by (rule imm_outb_mask)
  have "do_IRQ (run_handler stk) 0 s = Some (Inr (bill_process_time ?t))"
    using h o assms(1-3) by (simp add: do_IRQ_def irq_defs Let_def run_handler_def i_def p_def bill_parts bill_devices)
  then have "hw_interrupt stk sy 0 cs s = (if cs AND 3 = 0 then Some (Inr (bill_process_time ?t)) else clock_tick sy ?t)"
    by (simp add: hw_interrupt_def ret_with_schedule_def clock_tick_def Let_def lock_def bill_parts)
  moreover have "masked ?t j \<longleftrightarrow> masked s j \<and> j \<noteq> 0" if "j < 16" for j
    using that by (auto simp: masked_def p_def i_def bit_simps)
  ultimately show ?thesis using m(2,3) by (intro exI [of _ m] exI [of _ p]) (simp add: p_def)
qed

text \<open>The machine of the disk with the timer at its line.\<close>

definition timed_state :: khd where
  "timed_state = (hd_state [] 0 two_ready)\<lparr>irq_table := (replicate 16 Nothing_irq)[0 := Clock_handler]\<rparr>"

lemma timed_state_sel: "pics_ready timed_state" "irq_table timed_state = (replicate 16 Nothing_irq)[0 := Clock_handler]"
  "clocktick timed_state = 41" "masked timed_state 1 = False"
  by (simp_all add: timed_state_def hd_state_def kcpu.extend_def device_extend pics_ready_def idle_pic_def pic_ready_def masked_def)

theorem timer_interrupt_ticks_witness:
  "\<exists>s'. hw_interrupt (replicate 100 0) no_symbols 0 8 timed_state = Some (Inr s') \<and> clocktick s' = 42 \<and> \<not> ief s' \<and> \<not> masked s' 0"
proof -
  have c: "(8 :: u32) AND 3 = 0" by simp
  have m: "masked (bill_process_time t) 0 = masked t 0" "clocktick (bill_process_time t) = clocktick t"
    "ief (bill_process_time t) = ief t" for t :: khd
    by (simp_all add: bill_sel bill_devices)
  show ?thesis
    using timer_interrupt_ticks [of timed_state "replicate 100 0" no_symbols 8] timed_state_sel(1-3)
    unfolding c Let_def by (fastforce simp: STACK_SIZE_def m)
qed

section \<open>fork\<close>

text \<open>
  Property C16: the system call \<open>fork\<close> returns to the process that made it, in the registers it called with,
  with the child's number in EAX when first fit finds memory of the size of the process, and with -1 otherwise. With
  memory the child is at the end of the ready queue then, with the same registers but its own segments, and with 0 in
  EAX; without, the queue is as before.
\<close>

theorem fork_returns_twice:
  assumes "r_eax (kstack s (current s)) = 7" "need_resched (procs s (current s)) = 0"
    and "ready_rep s L" "heap lo hi s X" "hole_rep s is fs"
    and "get_free_proc_struct s = Some c" "user_task c" "c \<notin> set L" "c \<noteq> current s"
    and "n = fork_size (procs s (current s))" "n \<noteq> 0" "owns_memory lo X (phys (pmap (procs s (current s)) Map_D)) n"
  shows "\<exists>s'. system_call e v s = Some (Inr s') \<and> current s' = current s \<and> \<not> ief s'
    \<and> (case first_fit (fs \<noteq> []) n (blocks s is) of
         None \<Rightarrow> kstack s' (current s) = (kstack s (current s))\<lparr>r_eax := - 1\<rparr> \<and> ready_rep s' L
       | Some _ \<Rightarrow> kstack s' (current s) = (kstack s (current s))\<lparr>r_eax := of_int (pid (procs s c))\<rparr>
           \<and> kstack s' c = user_segs ((kstack s (current s))\<lparr>r_eax := 0\<rparr>) \<and> ready_rep s' (L @ [c]))"
proof -
  let ?s = "s\<lparr>ief := True\<rparr>" and ?p = "current s"
  have t: "rd sys_call_table (unat (r_eax (kstack s ?p))) = Inr Sys_fork" by (simp add: assms(1) sys_call_table_def)
  have f: "get_free_proc_struct ?s = Some c" using assms(6) by (simp add: get_free_proc_struct_def)
  have ret: "system_call e v s = Some (Inr (upd_kstack ?p (r_eax_update (\<lambda>_. of_int r)) (s'\<lparr>ief := False\<rparr>)))
      \<and> kstack s' ?p = kstack s ?p \<and> current s' = ?p"
    if "do_fork (e_sy e) ?s = Some (Inr (r, s'))" "father_kept ?s s'" for r s'
    using that t assms(2)
    by (simp add: system_call_def call_sysfun_def sys_fork_def Let_def unlock_def lock_def ret_with_schedule_def father_kept_def upd_kstack_def)
  have sp: "case first_fit (fs \<noteq> []) n (blocks s is) of
      None \<Rightarrow> \<exists>s'. do_fork (e_sy e) ?s = Some (Inr (- 1, s')) \<and> ready_rep s' L \<and> heap lo hi s' X \<and> fork_failed c ?s s'
    | Some (a, _) \<Rightarrow> \<exists>s'. do_fork (e_sy e) ?s = Some (Inr (pid (procs ?s c), s')) \<and> ready_rep s' (L @ [c])
         \<and> heap lo hi s' (insert (a, n) X) \<and> (\<forall>r \<in> X. apart (a, n) r) \<and> fork_child (e_sy e) c a ?s s'"
    using do_fork_spec [of ?s L lo hi X "is" fs c n "e_sy e"] assms f by simp
  show ?thesis
  proof (cases "first_fit (fs \<noteq> []) n (blocks s is)")
    case None
    with sp obtain s' where "do_fork (e_sy e) ?s = Some (Inr (- 1, s'))" "ready_rep s' L" "father_kept ?s s'"
      by (auto simp: fork_failed_def)
    then show ?thesis using ret [of "- 1" s'] None
      by (intro exI [of _ "upd_kstack ?p (r_eax_update (\<lambda>_. - 1)) (s'\<lparr>ief := False\<rparr>)"]) simp
  next
    case (Some r)
    with sp obtain s' where "do_fork (e_sy e) ?s = Some (Inr (pid (procs s c), s'))" "ready_rep s' (L @ [c])" "father_kept ?s s'"
      "kstack s' c = user_segs ((kstack s ?p)\<lparr>r_eax := 0\<rparr>)"
      by (auto simp: fork_child_def split: prod.splits)
    then show ?thesis using ret [of "pid (procs s c)" s'] assms(9) Some
      by (intro exI [of _ "upd_kstack ?p (r_eax_update (\<lambda>_. of_int (pid (procs s c)))) (s'\<lparr>ief := False\<rparr>)"]) simp
  qed
qed

text \<open>Process 1 of the machine on which \<open>do_fork\<close> was tried, in the call.\<close>

definition fork_call :: kstate where
  "fork_call = fork_state\<lparr>kstack := (\<lambda>_. (kstack fork_state 1)\<lparr>r_eax := 7\<rparr>)\<rparr>"

definition fork_fs :: kfs where
  "fork_fs = khd.extend (hd_state [] 0 fork_call)
     \<lparr>inodes = [], inode_pool = \<lparr>free_next = (\<lambda>_. None), free_head = None\<rparr>, filps = [],
      filp_pool = \<lparr>free_next = (\<lambda>_. None), free_head = None\<rparr>\<rparr>"

lemma fork_fs_sel: "procs fork_fs = procs fork_state" "current fork_fs = 1" "kstack fork_fs = kstack fork_call"
  "heap lo hi fork_fs X = heap lo hi fork_state X" "ready_rep fork_fs L = ready_rep fork_state L"
  "get_free_proc_struct fork_fs = get_free_proc_struct fork_state" "hole_rep fork_fs is fs = hole_rep fork_state is fs"
  "block_of fork_fs i = block_of fork_state i"
proof -
  show p: "procs fork_fs = procs fork_state" "current fork_fs = 1" "kstack fork_fs = kstack fork_call"
    by (simp_all add: fork_fs_def fork_call_def khd.extend_def hd_state_def kcpu.extend_def device_extend fork_state_def)
  show "heap lo hi fork_fs X = heap lo hi fork_state X"
    by (rule heap_cong) (simp_all add: fork_fs_def fork_call_def khd.extend_def hd_state_def kcpu.extend_def device_extend)
  show "ready_rep fork_fs L = ready_rep fork_state L"
    by (rule ready_rep_cong) (simp_all add: fork_fs_def fork_call_def khd.extend_def hd_state_def kcpu.extend_def device_extend)
  show "get_free_proc_struct fork_fs = get_free_proc_struct fork_state" using p by (simp add: get_free_proc_struct_def)
  show "hole_rep fork_fs is fs = hole_rep fork_state is fs"
    by (rule hole_rep_cong; simp add: fork_fs_def fork_call_def khd.extend_def hd_state_def kcpu.extend_def device_extend)
  show "block_of fork_fs i = block_of fork_state i"
    by (simp add: block_of_def fork_fs_def fork_call_def khd.extend_def hd_state_def kcpu.extend_def device_extend)
qed

theorem fork_returns_twice_witness:
  "\<forall>e v. \<exists>s'. system_call e v fork_fs = Some (Inr s') \<and> current s' = 1
     \<and> r_eax (kstack s' 1) = 2 \<and> r_eax (kstack s' 2) = 0 \<and> ready_rep s' [1, 2]"
proof (intro allI)
  fix e v
  have "user_task 2" "2 \<notin> set [1 :: nat]" by (simp_all add: user_task_def IDLE_TASK_def NR_TASK_def)
  moreover have "r_eax (kstack fork_fs (current fork_fs)) = 7" by (simp add: fork_fs_sel fork_call_def)
  moreover have "need_resched (procs fork_fs (current fork_fs)) = 0"
    by (simp add: fork_fs_sel fork_current user_proc_def zero_proc_def)
  moreover have "[1..<NR_HOLE] \<noteq> []" by (simp add: NR_HOLE_def)
  ultimately show "\<exists>s'. system_call e v fork_fs = Some (Inr s') \<and> current s' = 1
     \<and> r_eax (kstack s' 1) = 2 \<and> r_eax (kstack s' 2) = 0 \<and> ready_rep s' [1, 2]"
    using fork_returns_twice [of fork_fs "[1]" 1048576 2097153 "{}" "[0]" "[1..<NR_HOLE]" 2 199168 e v] fork_rep fork_heap fork_free_slot fork_blocks
    by (auto simp: fork_fs_sel fork_current user_segs_def)
qed

end
