(* ===== verification/User.thy ===== *)
theory User
  imports Kernel
begin

text \<open>
  The programs in user mode: the library \<^verbatim>\<open>lib/lib.c\<close>, and the two processes that \<^verbatim>\<open>ker/proc.c\<close> starts,
  \<open>init_task\<close> and the \<open>shell\<close> that its child becomes. Their variables are in the memory of the process, at
  addresses that the compiler chooses; a system call goes through \<open>system_call\<close> of the kernel.
\<close>

section \<open>System calls, as the process sees them\<close>

text \<open>
  \<^verbatim>\<open>int $0x80\<close> with a number in EAX and arguments in EBX, ECX, EDX and ESI: the registers are saved on the
  kernel stack, the kernel runs, and the process goes on with what is in EAX then and the interrupts enabled.
  None, when it does not go on by itself: another process runs, or none does.
\<close>

definition call_regs :: "u32 \<Rightarrow> u32 list \<Rightarrow> stackframe \<Rightarrow> stackframe" where
  "call_regs n args r =
     (case args of
        [] \<Rightarrow> r\<lparr>r_eax := n\<rparr>
      | [a] \<Rightarrow> r\<lparr>r_eax := n, r_ebx := a\<rparr>
      | a # b # c # d # _ \<Rightarrow> r\<lparr>r_eax := n, r_ebx := a, r_ecx := b, r_edx := c, r_esi := d\<rparr>
      | a # b # _ \<Rightarrow> r\<lparr>r_eax := n, r_ebx := a, r_ecx := b\<rparr>)"

definition int80 :: "'a kfs_scheme kenv \<Rightarrow> u32 \<Rightarrow> u32 \<Rightarrow> u32 list \<Rightarrow> 'a kfs_scheme \<Rightarrow> (u32 \<times> 'a kfs_scheme) exec" where
  "int80 e v n args s =
     (let p = current s in
      exec_bind (system_call e v (upd_kstack p (call_regs n args) s)) (\<lambda>s1.
      if current s1 \<noteq> p then None
      else Some (Inr (r_eax (kstack s1 p), s1\<lparr>ief := True\<rparr>))))"

section \<open>The library\<close>

definition fs_check :: "'a kfs_scheme kenv \<Rightarrow> u32 \<Rightarrow> 'a kfs_scheme \<Rightarrow> 'a kfs_scheme exec" where
  "fs_check e v s = exec_bind (int80 e v 0 [] s) (\<lambda>(_, s1). Some (Inr s1))"

definition kbread :: "'a kfs_scheme kenv \<Rightarrow> u32 \<Rightarrow> 'a kfs_scheme \<Rightarrow> (u32 \<times> 'a kfs_scheme) exec" where
  "kbread e v = int80 e v 1 []"

text \<open>The memory of the running process, from the base of its data segment on.\<close>

definition user_addr :: "'a kstate_scheme \<Rightarrow> u32 \<Rightarrow> u32" where
  "user_addr s a = phys (pmap (procs s (current s)) Map_D) + a"

definition store_bytes :: "u32 \<Rightarrow> u8 list \<Rightarrow> memory \<Rightarrow> memory" where
  "store_bytes a bs m = (\<lambda>x. if unat (x - a) < length bs then bs ! unat (x - a) else m x)"

text \<open>\<open>printf\<close>, with its array of 100 bytes at \<open>sp\<close>.\<close>

definition printf :: "'a kfs_scheme kenv \<Rightarrow> u32 \<Rightarrow> u32 \<Rightarrow> u8 list \<Rightarrow> va_arg list \<Rightarrow> 'a kfs_scheme \<Rightarrow> 'a kfs_scheme exec" where
  "printf e v sp fmt as s =
     exec_bind (Some (vsprintf (block_at (ram s) (user_addr s sp) 100) fmt as)) (\<lambda>buf.
     exec_bind (int80 e v 2 [sp] (s\<lparr>ram := store_bytes (user_addr s sp) buf (ram s)\<rparr>)) (\<lambda>(_, s1). Some (Inr s1)))"

definition fopen :: "'a kfs_scheme kenv \<Rightarrow> u32 \<Rightarrow> u32 \<Rightarrow> 'a kfs_scheme \<Rightarrow> (u32 \<times> 'a kfs_scheme) exec" where
  "fopen e v name = int80 e v 3 [name]"

definition fread :: "'a kfs_scheme kenv \<Rightarrow> u32 \<Rightarrow> u32 \<Rightarrow> u32 \<Rightarrow> u32 \<Rightarrow> u32 \<Rightarrow> 'a kfs_scheme \<Rightarrow> (u32 \<times> 'a kfs_scheme) exec" where
  "fread e v buf sz count fp = int80 e v 4 [buf, sz, count, fp]"

definition feof :: "'a kfs_scheme kenv \<Rightarrow> u32 \<Rightarrow> u32 \<Rightarrow> 'a kfs_scheme \<Rightarrow> (u32 \<times> 'a kfs_scheme) exec" where
  "feof e v fp = int80 e v 5 [fp]"

definition exit_user :: "'a kfs_scheme kenv \<Rightarrow> u32 \<Rightarrow> u32 \<Rightarrow> 'a kfs_scheme \<Rightarrow> 'a kfs_scheme exec" where
  "exit_user e v code s = exec_bind (int80 e v 6 [code] s) (\<lambda>(_, s1). Some (Inr s1))"

definition fork_user :: "'a kfs_scheme kenv \<Rightarrow> u32 \<Rightarrow> 'a kfs_scheme \<Rightarrow> (u32 \<times> 'a kfs_scheme) exec" where
  "fork_user e v = int80 e v 7 []"

definition memory_user :: "'a kfs_scheme kenv \<Rightarrow> u32 \<Rightarrow> 'a kfs_scheme \<Rightarrow> 'a kfs_scheme exec" where
  "memory_user e v s = exec_bind (int80 e v 8 [] s) (\<lambda>(_, s1). Some (Inr s1))"

section \<open>init_task\<close>

definition READ_SIZE :: nat where "READ_SIZE = 10"

text \<open>Where the compiler puts the array \<open>buf\<close>, the frame of \<open>printf\<close> and the name of the file.\<close>

record ulayout =
  ul_buf :: u32
  ul_printf :: u32
  ul_name :: u32

text \<open>The loop over the bytes that were read, from \<open>i\<close> on, with \<open>n\<close> of them left.\<close>

primrec type_bytes :: "'a kfs_scheme kenv \<Rightarrow> u32 \<Rightarrow> ulayout \<Rightarrow> nat \<Rightarrow> nat \<Rightarrow> 'a kfs_scheme \<Rightarrow> 'a kfs_scheme exec" where
  "type_bytes e v l 0 i s = Some (Inr s)"
| "type_bytes e v l (Suc n) i s =
     (if READ_SIZE \<le> i then Some (Inl Out_of_bounds)
      else
        let c = ram s (user_addr s (ul_buf l + of_nat i)) in
        exec_bind (if c \<noteq> 0x0D then printf e v (ul_printf l) (bytes ''%c'' @ [0]) [Va_word (ucast c)] s else Some (Inr s)) (\<lambda>s1.
        type_bytes e v l n (i + 1) s1))"

partial_function (option) type_file :: "'a kfs_scheme kenv \<Rightarrow> u32 \<Rightarrow> ulayout \<Rightarrow> u32 \<Rightarrow> 'a kfs_scheme \<Rightarrow> 'a kfs_scheme exec" where
  "type_file e v l fp s =
     exec_bind (feof e v fp s) (\<lambda>(done, s1).
     if done \<noteq> 0 then Some (Inr s1)
     else
       exec_bind (fread e v (ul_buf l) 1 (of_nat READ_SIZE) fp s1) (\<lambda>(n, s2).
       exec_bind (type_bytes e v l (nat (sint n)) 0 s2) (\<lambda>s3.
       type_file e v l fp s3)))"

text \<open>The program ends in the loop at \<open>idle2\<close>, or in the shell.\<close>

datatype program_end = Idle2 | In_shell

definition init_task :: "'a kfs_scheme kenv \<Rightarrow> u32 \<Rightarrow> ulayout \<Rightarrow> 'a kfs_scheme \<Rightarrow> (program_end \<times> 'a kfs_scheme) exec" where
  "init_task e v l s =
     exec_bind (fs_check e v s) (\<lambda>s1.
     exec_bind (printf e v (ul_printf l) (bytes ''file system check done'' @ [10, 10, 0]) [] s1) (\<lambda>s2.
     exec_bind (fopen e v (ul_name l) s2) (\<lambda>(file, s3).
     if file = - 1 then Some (Inr (Idle2, s3))
     else
       exec_bind (type_file e v l file s3) (\<lambda>s4.
       exec_bind (printf e v (ul_printf l) [10, 10, 0] [] s4) (\<lambda>s5.
       exec_bind (memory_user e v s5) (\<lambda>s6.
       exec_bind (fork_user e v s6) (\<lambda>(p, s7).
       if sint p < 0 then
         exec_bind (printf e v (ul_printf l) (bytes ''Fork failed in init'' @ [10, 0]) [] s7) (\<lambda>s8. Some (Inr (Idle2, s8)))
       else if p = 0 then
         exec_bind (printf e v (ul_printf l) (bytes ''I am child'' @ [10, 0]) [] s7) (\<lambda>s8.
         exec_bind (memory_user e v s8) (\<lambda>s9. Some (Inr (In_shell, s9))))
       else
         exec_bind (printf e v (ul_printf l) (bytes ''I am parent,child pid=%d'' @ [10, 0]) [Va_word p] s7) (\<lambda>s8.
         Some (Inr (Idle2, s8))))))))))"

section \<open>The shell\<close>

definition shell_step :: "'a kfs_scheme kenv \<Rightarrow> u32 \<Rightarrow> u32 \<Rightarrow> 'a kfs_scheme \<Rightarrow> 'a kfs_scheme exec" where
  "shell_step e v sp s =
     exec_bind (kbread e v s) (\<lambda>(i, s1).
     if i \<noteq> 0 then printf e v sp (bytes ''%c'' @ [0]) [Va_word (ucast (ucast i :: u8))] s1 else Some (Inr s1))"

partial_function (option) shell :: "'a kfs_scheme kenv \<Rightarrow> u32 \<Rightarrow> u32 \<Rightarrow> 'a kfs_scheme \<Rightarrow> 'a kfs_scheme exec" where
  "shell e v sp s = exec_bind (shell_step e v sp s) (shell e v sp)"

end
