(* ===== verification/User_Props.thy ===== *)
theory User_Props
  imports User Read_Props
begin

text \<open>
  What the program of the first process puts on the screen: a chain of lemmas from \<open>int80\<close> over the
  library to the loop that types a file, with the scheduler, the file system and the console of the kernel
  underneath.
\<close>

section \<open>One system call\<close>

lemma call_regs_eax [simp]: "r_eax (call_regs n args r) = n"
  by (simp add: call_regs_def split: list.split)

lemma set_frame_sel [simp]:
  "procs (upd_kstack p f s) = procs s" "current (upd_kstack p f s) = current s" "ram (upd_kstack p f s) = ram s"
  "kstack (upd_kstack p f s) p = f (kstack s p)" "cons (upd_kstack p f t) = cons t" "filps (upd_kstack p f u) = filps u"
  "inodes (upd_kstack p f u) = inodes u" "super_block (upd_kstack p f s) = super_block s" "kmem_page (upd_kstack p f s) = kmem_page s"
  "kmem_base (upd_kstack p f s) = kmem_base s"
  by (simp_all add: upd_kstack_def)

text \<open>The state in which the function of the table runs, and the one in which the process goes on.\<close>

definition entered :: "u32 \<Rightarrow> u32 list \<Rightarrow> 'a kfs_scheme \<Rightarrow> 'a kfs_scheme" where
  "entered n args s = (upd_kstack (current s) (call_regs n args) s)\<lparr>ief := True\<rparr>"

definition resumed :: "u32 \<Rightarrow> 'a kfs_scheme \<Rightarrow> 'a kfs_scheme" where
  "resumed w s = (upd_kstack (current s) (r_eax_update (\<lambda>_. w)) s)\<lparr>ief := True\<rparr>"

lemma int80_returns:
  assumes "unat n < 9" "call_sysfun e v (sys_call_table ! unat n) (call_regs n args (kstack s (current s))) (entered n args s) = Some (Inr (Some w, t))"
    and "current t = current s" "need_resched (procs t (current s)) = 0"
  shows "int80 e v n args s = Some (Inr (w, resumed w t))"
proof -
  have "rd sys_call_table (unat n) = Inr (sys_call_table ! unat n)" using assms(1) by (intro rd_in) (simp add: sys_call_table_def)
  then show ?thesis
    using assms(2-4)
    by (simp add: int80_def system_call_def entered_def resumed_def unlock_def lock_def ret_with_schedule_def Let_def upd_kstack_def)
qed

text \<open>
  What the calls of this program leave alone: everything but the interrupt flag, the kernel stacks, the
  memory, the console and the positions of the files.
\<close>

definition stays :: "'a kfs_scheme \<Rightarrow> 'a kfs_scheme \<Rightarrow> bool" where
  "stays s s' \<longleftrightarrow> procs s' = procs s \<and> current s' = current s \<and> inodes s' = inodes s \<and> super_block s' = super_block s
     \<and> kmem_page s' = kmem_page s \<and> kmem_base s' = kmem_base s"

lemma stays_refl: "stays s s" by (simp add: stays_def)
lemma stays_trans: "stays s t \<Longrightarrow> stays t u \<Longrightarrow> stays s u" by (simp add: stays_def)

lemma stays_calls: "stays s (entered n args s)" "stays s (resumed w s)"
  by (simp_all add: stays_def entered_def resumed_def)

lemma calls_sel [simp]:
  "ram (entered n args s) = ram s" "cons (entered n args s) = cons s" "filps (entered n args s) = filps s"
  "ram (resumed w s) = ram s" "cons (resumed w s) = cons s" "filps (resumed w s) = filps s"
  "procs (entered n args s) = procs s" "current (entered n args s) = current s"
  "procs (resumed w s) = procs s" "current (resumed w s) = current s"
  "inodes (entered n args s) = inodes s" "super_block (entered n args s) = super_block s"
  "kmem_page (entered n args s) = kmem_page s" "kmem_base (entered n args s) = kmem_base s"
  "inodes (resumed w s) = inodes s" "super_block (resumed w s) = super_block s"
  "kmem_page (resumed w s) = kmem_page s" "kmem_base (resumed w s) = kmem_base s"
  by (simp_all add: entered_def resumed_def)

lemma calls_screen [simp]:
  "cons_ok (entered n args s) = cons_ok s" "terminal_of (entered n args s) = terminal_of s"
  "cons_ok (resumed w s) = cons_ok s" "terminal_of (resumed w s) = terminal_of s"
  by (simp_all add: cons_ok_def terminal_of_def)

lemma on_screen_stays: "on_screen s s' \<Longrightarrow> stays s s' \<and> filps s' = filps s" for s :: "'a kfs_scheme"
  by (auto simp: on_screen_def stays_def)

section \<open>printf\<close>

lemma block_at_store:
  assumes "unat a + length bs \<le> 2 ^ 32"
  shows "block_at (store_bytes a bs m) a (length bs) = bs"
proof (rule nth_equalityI)
  fix i
  assume "i < length (block_at (store_bytes a bs m) a (length bs))"
  then have "i < length bs" "unat (of_nat i :: u32) = i" using assms by (auto simp: unat_of_nat)
  then show "block_at (store_bytes a bs m) a (length bs) ! i = bs ! i" by (simp add: store_bytes_def)
qed simp

lemma store_outside:
  assumes "unat a + length bs \<le> 2 ^ 32" "unat x < unat a \<or> unat a + length bs \<le> unat x"
  shows "store_bytes a bs m x = m x"
proof -
  have "\<not> unat (x - a) < length bs"
  proof
    assume d: "unat (x - a) < length bs"
    then have "unat (a + of_nat (unat (x - a))) = unat a + unat (x - a)"
      using assms(1) by (intro unat_add_small) linarith
    then have "unat x = unat a + unat (x - a)" by simp
    then show False using d assms(2) by linarith
  qed
  then show ?thesis by (simp add: store_bytes_def)
qed

lemma screen_same:
  assumes "\<And>x. unat screen_base \<le> unat x \<Longrightarrow> unat x < unat screen_base + 4000 \<Longrightarrow> m x = m' x"
  shows "screen m = screen m'"
proof -
  have "m (screen_base + of_nat n) = m' (screen_base + of_nat n)" if "n < 4000" for n
  proof -
    have "unat (screen_base + of_nat n) = unat screen_base + n"
      using that by (intro unat_add_small) (simp add: screen_base_def)
    then show ?thesis using assms that by simp
  qed
  then show ?thesis unfolding screen_def by (intro map_cong refl) (simp del: of_nat_add of_nat_mult of_nat_Suc)
qed

text \<open>The memory of the call is all right: the array of \<open>printf\<close> can be written and printed from.\<close>

definition stack_ok :: "u32 \<Rightarrow> 'a kstate_scheme \<Rightarrow> bool" where
  "stack_ok sp s \<longleftrightarrow> umap (procs s (current s)) sp = user_addr s sp \<and> user_addr s sp \<noteq> 0 \<and> clear_of_screen (user_addr s sp) 100"

lemma printf_prints:
  assumes "render fmt as = Some out" "0 \<notin> set fmt" "length out < 100" "cons_ok s" "stack_ok sp s"
    and "need_resched (procs s (current s)) = 0"
  shows "\<exists>s'. printf e v sp (fmt @ [0]) as s = Some (Inr s') \<and> stays s s' \<and> filps s' = filps s \<and> cons_ok s'
    \<and> terminal_of s' = fold term_put (takeWhile (\<lambda>c. c \<noteq> 0) out) (terminal_of s)
    \<and> (\<forall>x. (unat x < unat screen_base \<or> unat screen_base + 4000 \<le> unat x)
         \<and> (unat x < unat (user_addr s sp) \<or> unat (user_addr s sp) + 100 \<le> unat x) \<longrightarrow> ram s' x = ram s x)"
proof -
  let ?a = "user_addr s sp" and ?x = "takeWhile (\<lambda>c. c \<noteq> 0) out"
  define buf where "buf = out @ 0 # drop (Suc (length out)) (block_at (ram s) ?a 100)"
  have vs: "vsprintf (block_at (ram s) ?a 100) (fmt @ [0]) as = Inr buf"
    using vs_loop_renders [OF assms(1,2), of "[]" "[]" "block_at (ram s) ?a 100"] assms(3) by (simp add: vsprintf_def buf_def)
  have len: "length buf = 100" using assms(3) by (simp add: buf_def)
  have a: "clear_of_screen ?a 100" "?a \<noteq> 0" using assms(5) by (simp_all add: stack_ok_def)
  have a32: "unat ?a + length buf \<le> 2 ^ 32" using a(1) len by (auto simp: clear_of_screen_def screen_base_def)
  define s1 where "s1 = entered 2 [sp] (s\<lparr>ram := store_bytes ?a buf (ram s)\<rparr>)"
  have lx: "Suc (length ?x) \<le> 100" using assms(3) length_takeWhile_le [of "\<lambda>c. c \<noteq> 0" out] by linarith
  have str: "block_at (ram s1) ?a (Suc (length ?x)) = ?x @ [0]"
  proof -
    obtain r where r: "buf = ?x @ 0 # r"
    proof (cases "dropWhile (\<lambda>c. c \<noteq> 0) out")
      case Nil
      then have "?x = out" using takeWhile_dropWhile_id [of "\<lambda>c. c \<noteq> 0" out] by simp
      then show ?thesis using that buf_def by metis
    next
      case (Cons y ys)
      then have "y = 0" using hd_dropWhile [of "\<lambda>c. c \<noteq> 0" out] by simp
      then have "out = ?x @ 0 # ys" using takeWhile_dropWhile_id [of "\<lambda>c. c \<noteq> 0" out] Cons by simp
      then have "buf = ?x @ 0 # ys @ 0 # drop (Suc (length out)) (block_at (ram s) ?a 100)"
        unfolding buf_def by (metis append_Cons append_assoc)
      then show ?thesis using that by blast
    qed
    have "block_at (ram s1) ?a (length buf) = buf" using block_at_store [OF a32] by (simp add: s1_def)
    then have "take (Suc (length ?x)) (block_at (ram s1) ?a (length buf)) = ?x @ [0]" using r by simp
    moreover have "take (Suc (length ?x)) (block_at (ram s1) ?a (length buf)) = block_at (ram s1) ?a (Suc (length ?x))"
      using lx len by (intro nth_equalityI) simp_all
    ultimately show ?thesis by simp
  qed
  have c1: "cons_ok s1" using assms(4) by (simp add: s1_def cons_ok_def)
  have t1: "terminal_of s1 = terminal_of s"
  proof -
    have "screen (store_bytes ?a buf (ram s)) = screen (ram s)"
      using a(1) a32 len by (intro screen_same store_outside) (auto simp: clear_of_screen_def)
    then show ?thesis by (simp add: s1_def terminal_of_def)
  qed
  have "clear_of_screen ?a (Suc (length ?x))" using a(1) lx by (auto simp: clear_of_screen_def)
  moreover have "0 \<notin> set ?x" by (auto dest: set_takeWhileD)
  ultimately obtain s2 where s2: "echo_at ?a s1 = Some s2" "on_screen s1 s2" "cons_ok s2" "terminal_of s2 = fold term_put ?x (terminal_of s1)"
    using echo_at_text [OF str _ _ c1 a(2)] by blast
  have w: "tty_write sp s1 = Some s2"
    using s2(1) assms(5) by (simp add: tty_write_def s1_def stack_ok_def)
  have st: "stays s1 s2" "filps s2 = filps s1" using on_screen_stays [OF s2(2)] by simp_all
  let ?s = "s\<lparr>ram := store_bytes ?a buf (ram s)\<rparr>"
  have "int80 e v 2 [sp] ?s = Some (Inr (v, resumed v s2))"
  proof (rule int80_returns)
    show "unat (2 :: u32) < 9" by simp
    show "call_sysfun e v (sys_call_table ! unat (2 :: u32)) (call_regs 2 [sp] (kstack ?s (current ?s))) (entered 2 [sp] ?s) = Some (Inr (Some v, s2))"
      using w unfolding s1_def [symmetric] by (simp add: call_sysfun_def sys_call_table_def call_regs_def)
    show "current s2 = current ?s" "need_resched (procs s2 (current ?s)) = 0"
      using st(1) assms(6) by (simp_all add: stays_def s1_def)
  qed
  then have p: "printf e v sp (fmt @ [0]) as s = Some (Inr (resumed v s2))" by (simp add: printf_def vs)
  have "ram s2 x = ram s x"
    if "unat x < unat screen_base \<or> unat screen_base + 4000 \<le> unat x" "unat x < unat ?a \<or> unat ?a + 100 \<le> unat x" for x
    using on_screen_ram [OF s2(2) that(1)] store_outside [OF a32, of x] that(2) len by (simp add: s1_def)
  then show ?thesis
    using p st s2(3,4) t1 by (intro exI [of _ "resumed v s2"]) (simp add: stays_def s1_def)
qed

section \<open>The calls on a file\<close>

text \<open>
  The process has the file open: descriptor \<open>fp\<close> is the element \<open>f\<close> of the table, with the inode of a file
  on the disk. The position is \<open>pos\<close>.
\<close>

definition reading :: "u32 \<Rightarrow> nat \<Rightarrow> nat \<Rightarrow> super_block \<Rightarrow> inode \<Rightarrow> nat \<Rightarrow> 'a kfs_scheme \<Rightarrow> bool" where
  "reading fp f ino bd nd pos s \<longleftrightarrow> fd_entry fp s = Inr (Some f) \<and> (\<exists>fl. open_file f fl ino bd nd s \<and> unat (f_pos fl) = pos)"

lemma reading_stays: "reading fp f ino bd nd pos s \<Longrightarrow> stays s s' \<Longrightarrow> filps s' = filps s \<Longrightarrow> reading fp f ino bd nd pos s'"
  using sb_of_cong [of s' s ino] by (auto simp: reading_def stays_def open_file_def fd_entry_def)

lemma reading_calls [simp]: "reading fp f ino bd nd pos (entered n args s) = reading fp f ino bd nd pos s"
  using sb_of_cong [of "entered n args s" s ino] by (simp add: reading_def open_file_def fd_entry_def)

lemma feof_answers:
  assumes "reading fp f ino bd nd pos s" "need_resched (procs s (current s)) = 0"
  shows "\<exists>s'. feof e v fp s = Some (Inr (if unat (i_size nd) \<le> pos then 1 else 0, s')) \<and> stays s s' \<and> filps s' = filps s
    \<and> ram s' = ram s \<and> cons_ok s' = cons_ok s \<and> terminal_of s' = terminal_of s"
proof -
  let ?t = "entered 5 [fp] s" and ?w = "if unat (i_size nd) \<le> pos then 1 else 0 :: u32"
  have r: "reading fp f ino bd nd pos ?t" using assms(1) by simp
  then obtain fl where fl: "fd_entry fp ?t = Inr (Some f)" "open_file f fl ino bd nd ?t" "unat (f_pos fl) = pos"
    by (auto simp: reading_def)
  then have "sys_feof fp ?t = Inr (if unat (i_size nd) \<le> pos then 1 else 0)"
    by (simp add: sys_feof_def eofile_def filp_inode_def open_file_def word_le_nat_alt)
  then have "call_sysfun e v (sys_call_table ! unat (5 :: u32)) (call_regs 5 [fp] (kstack s (current s))) ?t = Some (Inr (Some ?w, ?t))"
    by (simp add: call_sysfun_def sys_call_table_def call_regs_def)
  then have "int80 e v 5 [fp] s = Some (Inr (?w, resumed ?w ?t))"
    using assms(2) by (intro int80_returns) simp_all
  then show ?thesis
    by (intro exI [of _ "resumed ?w ?t"]) (simp add: feof_def stays_def)
qed

lemma fread_reads:
  assumes "room us n s" "reads_disk disk (e_rdb e)" "file_ok bd nd n" "reading fp f ino bd nd pos s"
    and "need_resched (procs s (current s)) = 0" "umap (procs s (current s)) buf \<noteq> 0"
    and "k = min 10 (unat (i_size nd) - pos)" "outside_free us s buf 10" "clear_of_screen buf 10"
  shows "\<exists>s'. fread e v buf 1 10 fp s = Some (Inr (of_nat k, s')) \<and> stays s s' \<and> reading fp f ino bd nd (pos + k) s'
    \<and> block_at (ram s') buf k = map (file_byte disk bd (i_block nd)) [pos..<pos + k]
    \<and> cons_ok s' = cons_ok s \<and> terminal_of s' = terminal_of s"
proof -
  let ?t = "entered 4 [buf, 1, 10, fp] s"
  obtain fl where fl: "fd_entry fp ?t = Inr (Some f)" "open_file f fl ino bd nd ?t" "unat (f_pos fl) = pos"
    using assms(4) reading_calls [of fp f ino bd nd pos 4 "[buf, 1, 10, fp]" s] by (auto simp: reading_def)
  have rt: "room us n ?t" using assms(1) room_cong [of ?t s] by simp
  have ou: "outside_free us ?t buf k" using assms(7,8) by (auto simp: outside_free_def)
  have k: "k = min (unat (10 :: u32)) (unat (i_size nd) - unat (f_pos fl))" using assms(7) fl(3) by simp
  obtain e' m where r: "filp_read (e_stk e) (e_rdb e) buf 10 f ?t = Some (Inr (of_nat k, after_read e' m f k ?t))"
    "block_at m buf k = map (file_byte disk bd (i_block nd)) [pos..<pos + k]"
    "\<forall>a. \<not> free_area us ?t a \<longrightarrow> unat a < unat buf \<or> unat buf + k \<le> unat a \<longrightarrow> m a = ram ?t a"
    using filp_read_spec [OF rt assms(2,3) fl(2) _ k ou, of "e_stk e"] fl(3) by auto
  let ?u = "after_read e' m f k ?t"
  have k10: "k \<le> 10" using assms(7) by simp
  have u: "stays s ?u" "ram ?u = m" "cons ?u = cons s" "current ?u = current s" "procs ?u = procs s"
    by (simp_all add: after_read_def stays_def)
  have "sint (of_nat k :: u32) = int k" using sint_small [of "of_nat k"] k10 by (simp add: unat_of_nat)
  then have "sys_read (e_stk e) (e_rdb e) buf 1 10 fp ?t = Some (Inr (int k, ?u))"
    using r(1) fl(1) assms(6) by (auto simp: sys_read_def signed_divide_int_def Let_def)
  then have "call_sysfun e v (sys_call_table ! unat (4 :: u32)) (call_regs 4 [buf, 1, 10, fp] (kstack s (current s))) ?t
      = Some (Inr (Some (of_nat k), ?u))"
    by (simp add: call_sysfun_def sys_call_table_def call_regs_def)
  then have "int80 e v 4 [buf, 1, 10, fp] s = Some (Inr (of_nat k, resumed (of_nat k) ?u))"
    using assms(5) u(4,5) by (intro int80_returns) simp_all
  moreover have "reading fp f ino bd nd (pos + k) ?u"
  proof -
    have "unat (i_size nd) < 2 ^ 32" "unat (f_pos fl) < 2 ^ 32"
      using unsigned_less [of "i_size nd"] unsigned_less [of "f_pos fl"] by simp_all
    then have "unat (f_pos fl) + k < 2 ^ 32" using fl(3) assms(7) by linarith
    then have "unat (f_pos fl + of_nat k) = pos + k" using fl(3) by (simp add: unat_add_small)
    moreover have "fd_entry fp ?u = fd_entry fp ?t" by (simp add: fd_entry_def after_read_def)
    moreover have "open_file f (fl\<lparr>f_pos := f_pos fl + of_nat k\<rparr>) ino bd nd ?u" by (rule after_read_open [OF fl(2)])
    ultimately show ?thesis using fl(1)
      unfolding reading_def by (intro conjI exI [of _ "fl\<lparr>f_pos := f_pos fl + of_nat k\<rparr>"]) simp_all
  qed
  moreover have "terminal_of ?u = terminal_of s"
  proof -
    have "screen m = screen (ram s)"
    proof (rule screen_same)
      fix x :: u32
      assume x: "unat screen_base \<le> unat x" "unat x < unat screen_base + 4000"
      have "\<not> free_area us ?t x" using rt x(2) by (simp add: free_area_def room_def screen_base_def)
      moreover have "unat x < unat buf \<or> unat buf + k \<le> unat x" using assms(9) k10 x by (auto simp: clear_of_screen_def)
      ultimately show "m x = ram s x" using r(3) by auto
    qed
    then show ?thesis using u(2,3) by (simp add: terminal_of_def)
  qed
  ultimately show ?thesis
    using u r(2) by (intro exI [of _ "resumed (of_nat k) ?u"])
      (simp add: fread_def stays_def reading_stays [OF _ stays_calls(2)] cons_ok_def)
qed

section \<open>Typing a file\<close>

text \<open>
  The variables of the program: the buffer is where the kernel's flat segment has the same address, as for
  every process that \<open>proc_init\<close> made, apart from the array of \<open>printf\<close>, from the screen, and from the pages
  that the kernel uses for the read.
\<close>

definition layout_ok :: "u32 list \<Rightarrow> ulayout \<Rightarrow> 'a kpages_scheme \<Rightarrow> proc \<Rightarrow> bool" where
  "layout_ok us l s p \<longleftrightarrow> phys (pmap p Map_D) = 0 \<and> umap p (ul_buf l) = ul_buf l \<and> ul_buf l \<noteq> 0
     \<and> umap p (ul_printf l) = ul_printf l \<and> ul_printf l \<noteq> 0
     \<and> clear_of_screen (ul_buf l) 10 \<and> clear_of_screen (ul_printf l) 100 \<and> outside_free us s (ul_buf l) 10
     \<and> (unat (ul_buf l) + 10 \<le> unat (ul_printf l) \<or> unat (ul_printf l) + 100 \<le> unat (ul_buf l))"

text \<open>The state of the process between two calls.\<close>

definition typing :: "u32 list \<Rightarrow> nat \<Rightarrow> ulayout \<Rightarrow> 'a kfs_scheme \<Rightarrow> bool" where
  "typing us n l s \<longleftrightarrow> room us n s \<and> need_resched (procs s (current s)) = 0 \<and> layout_ok us l s (procs s (current s)) \<and> cons_ok s"

lemma typing_stays: "typing us n l s \<Longrightarrow> stays s s' \<Longrightarrow> cons_ok s' \<Longrightarrow> typing us n l s'"
  using room_cong [of s' s us n] by (simp add: typing_def stays_def layout_ok_def outside_free_def)

lemma typing_stack: "typing us n l s \<Longrightarrow> stack_ok (ul_printf l) s \<and> user_addr s a = a"
  by (simp add: typing_def layout_ok_def stack_ok_def user_addr_def)

text \<open>What is seen of a file: neither the carriage returns, nor the NULs, which end the string of \<open>printf\<close>.\<close>

definition typed :: "u8 list \<Rightarrow> u8 list" where
  "typed cs = filter (\<lambda>c. c \<noteq> 0x0D \<and> c \<noteq> 0) cs"

lemma typed_append [simp]: "typed (cs @ ds) = typed cs @ typed ds"
  by (simp add: typed_def)

lemma char_renders: "render (bytes ''%c'') [Va_word (ucast (c :: u8))] = Some [c]"
proof -
  have "(ucast (ucast c :: u32) :: u8) = c" by (intro bit_word_eqI) (auto simp: bit_simps)
  then show ?thesis by (simp add: bytes_def item_def of_char_def)
qed

lemma type_bytes_types:
  assumes "typing us n l s" "block_at (ram s) (ul_buf l + of_nat i) k = cs" "i + k \<le> 10"
  shows "\<exists>s'. type_bytes e v l k i s = Some (Inr s') \<and> stays s s' \<and> filps s' = filps s \<and> cons_ok s'
    \<and> terminal_of s' = fold term_put (typed cs) (terminal_of s)"
  using assms
proof (induction k arbitrary: i cs s)
  case 0
  then show ?case by (simp add: stays_refl typed_def typing_def)
next
  case (Suc k)
  let ?c = "ram s (ul_buf l + of_nat i)" and ?a = "ul_buf l + of_nat i"
  define ds where "ds = block_at (ram s) (ul_buf l + of_nat (i + 1)) k"
  have cs: "cs = ?c # ds" using Suc.prems(2) by (simp add: block_at_first ds_def add.assoc add.commute [of 1])
  have st: "stack_ok (ul_printf l) s" "user_addr s a = a" for a using typing_stack [OF Suc.prems(1)] by blast+
  have lay: "layout_ok us l s (procs s (current s))" "need_resched (procs s (current s)) = 0" "cons_ok s"
    using Suc.prems(1) by (simp_all add: typing_def)
  have "\<exists>s1. (if ?c \<noteq> 0x0D then printf e v (ul_printf l) (bytes ''%c'' @ [0]) [Va_word (ucast ?c)] s else Some (Inr s)) = Some (Inr s1)
      \<and> stays s s1 \<and> filps s1 = filps s \<and> cons_ok s1 \<and> terminal_of s1 = fold term_put (typed [?c]) (terminal_of s)
      \<and> block_at (ram s1) (ul_buf l + of_nat (i + 1)) k = ds"
  proof (cases "?c = 0x0D")
    case True
    then show ?thesis using lay(3) by (simp add: typed_def ds_def stays_refl)
  next
    case False
    have "0 \<notin> set (bytes ''%c'')" "length [?c] < 100" by (auto simp: bytes_def of_char_def)
    from printf_prints [OF char_renders this lay(3) st(1) lay(2), of e v]
    obtain s1 where s1: "printf e v (ul_printf l) (bytes ''%c'' @ [0]) [Va_word (ucast ?c)] s = Some (Inr s1)" "stays s s1"
      "filps s1 = filps s" "cons_ok s1" "terminal_of s1 = fold term_put (takeWhile (\<lambda>c. c \<noteq> 0) [?c]) (terminal_of s)"
      "\<forall>x. (unat x < unat screen_base \<or> unat screen_base + 4000 \<le> unat x)
         \<and> (unat x < unat (ul_printf l) \<or> unat (ul_printf l) + 100 \<le> unat x) \<longrightarrow> ram s1 x = ram s x"
      unfolding st(2) by blast
    have "block_at (ram s1) (ul_buf l + of_nat (i + 1)) k = ds"
      unfolding ds_def
    proof (rule block_at_outside)
      fix j
      assume j: "j < k"
      have "unat (ul_buf l) + 10 < 2 ^ 32" using lay(1) by (simp add: layout_ok_def outside_free_def)
      then have u: "unat (ul_buf l + of_nat (i + 1 + j)) = unat (ul_buf l) + (i + 1 + j)"
        using j Suc.prems(3) by (intro unat_add_small) linarith
      have "ram s1 (ul_buf l + of_nat (i + 1 + j)) = ram s (ul_buf l + of_nat (i + 1 + j))"
        using s1(6) u j Suc.prems(3) lay(1) unfolding layout_ok_def clear_of_screen_def by auto
      then show "ram s1 (ul_buf l + of_nat (i + 1) + of_nat j) = ram s (ul_buf l + of_nat (i + 1) + of_nat j)"
        by (simp add: add.assoc)
    qed
    moreover have "takeWhile (\<lambda>c. c \<noteq> 0) [?c] = typed [?c]" using False by (simp add: typed_def)
    ultimately show ?thesis using s1(1-5) False by auto
  qed
  then obtain s1 where s1: "(if ?c \<noteq> 0x0D then printf e v (ul_printf l) (bytes ''%c'' @ [0]) [Va_word (ucast ?c)] s else Some (Inr s)) = Some (Inr s1)"
      "stays s s1" "filps s1 = filps s" "cons_ok s1" "terminal_of s1 = fold term_put (typed [?c]) (terminal_of s)"
      "block_at (ram s1) (ul_buf l + of_nat (i + 1)) k = ds"
    by blast
  obtain s' where s': "type_bytes e v l k (i + 1) s1 = Some (Inr s')" "stays s1 s'" "filps s' = filps s1" "cons_ok s'"
    "terminal_of s' = fold term_put (typed ds) (terminal_of s1)"
    using Suc.IH [OF typing_stays [OF Suc.prems(1) s1(2,4)] s1(6)] Suc.prems(3) by auto
  have "type_bytes e v l (Suc k) i s = Some (Inr s')"
    using s'(1) s1(1) Suc.prems(3) unfolding type_bytes.simps st(2) Let_def READ_SIZE_def by simp
  moreover have "typed cs = typed [?c] @ typed ds" unfolding cs by (simp add: typed_def)
  ultimately show ?case using s' s1 stays_trans by auto
qed

lemma type_file_types:
  assumes "typing us n l s" "reads_disk disk (e_rdb e)" "file_ok bd nd n" "reading fp f ino bd nd pos s" "pos \<le> unat (i_size nd)"
  shows "\<exists>s'. type_file e v l fp s = Some (Inr s') \<and> stays s s' \<and> cons_ok s'
    \<and> terminal_of s' = fold term_put (typed (map (file_byte disk bd (i_block nd)) [pos..<unat (i_size nd)])) (terminal_of s)"
  using assms
proof (induction "unat (i_size nd) - pos" arbitrary: pos s rule: less_induct)
  case less
  let ?z = "unat (i_size nd)" and ?g = "file_byte disk bd (i_block nd)"
  have nr: "need_resched (procs s (current s)) = 0" "cons_ok s" "room us n s" "layout_ok us l s (procs s (current s))"
    using less.prems(1) by (simp_all add: typing_def)
  obtain s1 where s1: "feof e v fp s = Some (Inr (if ?z \<le> pos then 1 else 0, s1))" "stays s s1" "filps s1 = filps s"
    "cons_ok s1 = cons_ok s" "terminal_of s1 = terminal_of s"
    using feof_answers [OF less.prems(4) nr(1), of e v] by blast
  show ?case
  proof (cases "?z \<le> pos")
    case True
    have "type_file e v l fp s = Some (Inr s1)" using s1(1) True by (subst type_file.simps) simp
    then show ?thesis using True s1 nr(2) by (simp add: typed_def)
  next
    case False
    define k where "k = min 10 (?z - pos)"
    have k: "0 < k" "k \<le> 10" "pos + k \<le> ?z" using False by (auto simp: k_def)
    have t1: "typing us n l s1" using typing_stays [OF less.prems(1) s1(2)] s1(4) nr(2) by simp
    have r1: "reading fp f ino bd nd pos s1" using reading_stays [OF less.prems(4) s1(2,3)] .
    have f1: "room us n s1" "need_resched (procs s1 (current s1)) = 0" "umap (procs s1 (current s1)) (ul_buf l) \<noteq> 0"
      "outside_free us s1 (ul_buf l) 10" "clear_of_screen (ul_buf l) 10"
      using t1 by (simp_all add: typing_def layout_ok_def)
    obtain s2 where s2: "fread e v (ul_buf l) 1 10 fp s1 = Some (Inr (of_nat k, s2))" "stays s1 s2" "reading fp f ino bd nd (pos + k) s2"
      "block_at (ram s2) (ul_buf l) k = map ?g [pos..<pos + k]" "cons_ok s2 = cons_ok s1" "terminal_of s2 = terminal_of s1"
      using fread_reads [OF f1(1) less.prems(2,3) r1 f1(2,3) k_def f1(4,5), of v] by blast
    have t2: "typing us n l s2" using typing_stays [OF t1 s2(2)] s2(5) t1 by (simp add: typing_def)
    obtain s3 where s3: "type_bytes e v l k 0 s2 = Some (Inr s3)" "stays s2 s3" "filps s3 = filps s2" "cons_ok s3"
      "terminal_of s3 = fold term_put (typed (map ?g [pos..<pos + k])) (terminal_of s2)"
      using type_bytes_types [OF t2, of 0 k "map ?g [pos..<pos + k]"] s2(4) k(2) by auto
    have lt: "?z - (pos + k) < ?z - pos" using k(1,3) by linarith
    obtain s' where s': "type_file e v l fp s3 = Some (Inr s')" "stays s3 s'" "cons_ok s'"
      "terminal_of s' = fold term_put (typed (map ?g [pos + k..<?z])) (terminal_of s3)"
      using less.hyps [OF lt typing_stays [OF t2 s3(2,4)] less.prems(2,3) reading_stays [OF s2(3) s3(2,3)] k(3)] by blast
    have "sint (of_nat k :: u32) = int k" using sint_small [of "of_nat k"] k(2) by (simp add: unat_of_nat)
    then have "type_file e v l fp s = Some (Inr s')"
      using s1(1) s2(1) s3(1) s'(1) False by (subst type_file.simps) (simp add: READ_SIZE_def)
    moreover have "[pos..<?z] = [pos..<pos + k] @ [pos + k..<?z]"
      using k(3) upt_add_eq_append [of pos "pos + k" "?z - (pos + k)"] by simp
    ultimately have "terminal_of s' = fold term_put (typed (map ?g [pos..<?z])) (terminal_of s)"
      using s'(4) s3(5) s2(6) s1(5) by simp
    moreover have "stays s s'" using s'(2) s3(2) s2(2) s1(2) stays_trans by blast
    ultimately show ?thesis using \<open>type_file e v l fp s = Some (Inr s')\<close> s'(3) by blast
  qed
qed

text \<open>
  Property C17: the loop of \<open>init_task\<close> over an open file ends, and puts the bytes of the file from the
  position on to the screen, in order, without carriage returns and NULs: through the library, the system
  calls, the file system and the console, in a run without timer interrupts, for a process whose data
  segment starts at address 0, as \<open>proc_init\<close> makes it. In any other, \<open>sys_read\<close> would miss the buffer.
\<close>

theorem init_task_types_file:
  assumes "room us n s" "need_resched (procs s (current s)) = 0" "layout_ok us l s (procs s (current s))" "cons_ok s"
    and "reads_disk disk (e_rdb e)" "file_ok bd nd n" "reading fp f ino bd nd pos s" "pos \<le> unat (i_size nd)"
  shows "\<exists>s'. type_file e v l fp s = Some (Inr s') \<and> cons_ok s' \<and> procs s' = procs s \<and> current s' = current s
    \<and> terminal_of s' = fold term_put (filter (\<lambda>c. c \<noteq> 0x0D \<and> c \<noteq> 0)
         (map (file_byte disk bd (i_block nd)) [pos..<unat (i_size nd)])) (terminal_of s)"
  using type_file_types [of us n l s disk e bd nd fp f ino pos v] assms by (auto simp: typing_def stays_def typed_def)

text \<open>The file of 700 bytes in two clusters, and a process that has it open.\<close>

definition reader_proc :: proc where
  "reader_proc = zero_proc\<lparr>pmap := (\<lambda>_. \<lparr>vir = 0, phys = 0, map_size = 0x600000\<rparr>),
     files := \<lparr>openfd = 1, maxopen = 5, fd_array = [Some 0, None, None, None, None]\<rparr>\<rparr>"

definition reader_state :: kfs where
  "reader_state = two_clusters\<lparr>procs := (\<lambda>_. reader_proc)\<rparr>"

definition sector_disk :: "nat \<Rightarrow> u8" where
  "sector_disk k = of_nat (k div 512)"

definition reader_env :: "kfs kenv" where
  "reader_env = \<lparr>e_sy = no_symbols, e_stk = replicate 100 0, e_junk = replicate 12 0, e_rdb = copy_reader sector_disk,
     e_slp = (\<lambda>_ s. Some (Inr s)), e_boot = 0x500000\<rparr>"

lemma two_clusters_bytes:
  "map (file_byte sector_disk small_super ([2, 3] @ replicate 8 0)) [0..<700] = replicate 512 3 @ replicate 188 4"
proof (rule nth_equalityI)
  fix k
  assume "k < length (map (file_byte sector_disk small_super ([2, 3] @ replicate 8 0)) [0..<700])"
  then have k: "k < 700" by simp
  have c: "cluster_bytes small_super = 512" "first_sector small_super 2 = 3" "first_sector small_super 3 = 4"
    by (simp_all add: cluster_bytes_def first_sector_def small_super_def)
  have "k div 512 = 0 \<or> k div 512 = 1" using k by linarith
  then have "file_byte sector_disk small_super ([2, 3] @ replicate 8 0) k = (if k < 512 then 3 else 4)"
    using k by (auto simp: file_byte_def c sector_disk_def)
  then show "map (file_byte sector_disk small_super ([2, 3] @ replicate 8 0)) [0..<700] ! k = (replicate 512 3 @ replicate 188 4) ! k"
    using k by (auto simp: nth_append)
qed simp

theorem init_task_types_file_witness:
  "\<exists>s'. type_file reader_env 0 \<lparr>ul_buf = 0x500000, ul_printf = 0x510000, ul_name = 0\<rparr> 0 reader_state = Some (Inr s')
     \<and> terminal_of s' = fold term_put (replicate 512 3 @ replicate 188 4) (terminal_of reader_state)"
proof -
  let ?l = "\<lparr>ul_buf = 0x500000, ul_printf = 0x510000, ul_name = 0\<rparr>" and ?nd = "small_inode\<lparr>i_block := [2, 3] @ replicate 8 0\<rparr>"
  have r: "room [] 128 reader_state"
    using two_clusters_ok(1) room_cong [of reader_state two_clusters] by (simp add: reader_state_def)
  have p: "procs reader_state (current reader_state) = reader_proc" by (simp add: reader_state_def)
  have nr: "need_resched (procs reader_state (current reader_state)) = 0" unfolding p by (simp add: reader_proc_def zero_proc_def)
  have k: "kmem_base reader_state = 0x200000"
    by (simp add: reader_state_def two_clusters_def with_blocks_def small_fs_sel)
  have lay: "layout_ok [] ?l reader_state (procs reader_state (current reader_state))"
    unfolding p layout_ok_def outside_free_def k
    by (simp add: reader_proc_def umap_def clear_of_screen_def screen_base_def)
  have c: "cons_ok reader_state" using small_fs_ok(2) by (simp add: reader_state_def two_clusters_def with_blocks_def cons_ok_def)
  have rd: "reads_disk sector_disk (e_rdb reader_env)" by (simp add: reader_env_def copy_reader_reads)
  have "fd_entry 0 reader_state = Inr (Some 0)" unfolding fd_entry_def p by (simp add: reader_proc_def)
  moreover have "open_file 0 \<lparr>f_ino = Some 0, f_pos = 0, f_count = 1\<rparr> 0 small_super ?nd reader_state"
    using two_clusters_ok(3) sb_of_cong [of reader_state two_clusters 0] by (simp add: open_file_def reader_state_def)
  ultimately have o: "reading 0 0 0 small_super ?nd 0 reader_state"
    unfolding reading_def by (intro conjI exI [of _ "\<lparr>f_ino = Some 0, f_pos = 0, f_count = 1\<rparr>"]) simp_all
  have b: "filter (\<lambda>c. c \<noteq> 0x0D \<and> c \<noteq> 0) (map (file_byte sector_disk small_super (i_block ?nd)) [0..<unat (i_size ?nd)])
      = replicate 512 3 @ replicate 188 (4 :: u8)"
  proof -
    have "i_block ?nd = [2, 3] @ replicate 8 0" "unat (i_size ?nd) = 700" by (simp_all add: small_inode_def)
    then show ?thesis by (simp only: two_clusters_bytes) simp
  qed
  have "(0 :: nat) \<le> unat (i_size ?nd)" by simp
  from init_task_types_file [OF r nr lay c rd two_clusters_ok(2) o this, of 0] show ?thesis unfolding b by blast
qed

end
