(* ===== verification/Start.thy ===== *)
theory Start
  imports User Boot Cpuid_Props Pages_Props
begin

text \<open>
  The start of the kernel: \<open>start_kernel\<close> of \<^verbatim>\<open>init/main.c\<close>, which runs the initialisation of every part and
  then goes on at the context of the idle task. What the parts promise is put together here.
\<close>

section \<open>The code\<close>

definition switch_to_context :: "'a kstate_scheme \<Rightarrow> 'a kstate_scheme" where
  "switch_to_context s =
     (let t = pthread (procs s (current s)) in s\<lparr>k_esp := th_esp t, k_eip := th_eip t\<rparr>)"

text \<open>
  The two halves of \<open>start_kernel\<close>: the parts that the processes rest on, and the devices. The size of the
  extended memory is where the boot code has put it.
\<close>

definition start_core :: "u8 list \<Rightarrow> symbols \<Rightarrow> 'a kcpu_scheme \<Rightarrow> 'a kcpu_scheme exec" where
  "start_core stk sy s =
     (let s0 = scr_init s;
          ext_mem_size = u32_at (ram s0) 0x9000
      in exec_bind (Some (mem_init_says stk ext_mem_size s0)) (\<lambda>s1.
         exec_bind (mem_init ext_mem_size s1) (\<lambda>s2.
         exec_bind (Some (intr_init s2)) (\<lambda>s3.
         exec_bind (Some (printk stk (bytes ''KITOS 1.0 Written By Wei Shuai'' @ [10, 0]) [] s3)) (\<lambda>s4.
         exec_bind (Some (intel_init stk s4)) (\<lambda>s5.
         exec_bind (Some (proc_init sy s5)) (\<lambda>s6.
         Some (clock_init s6))))))))"

definition start_devices :: "u8 list \<Rightarrow> pci_dev \<Rightarrow> pci_dev \<Rightarrow> hd_command \<Rightarrow> 'a khd_scheme \<Rightarrow> 'a khd_scheme exec" where
  "start_devices stk junk junk' cmd s =
     exec_bind (kb_init stk s) (\<lambda>s1.
     exec_bind (Some (pci_init stk junk junk' s1)) (\<lambda>s2.
     exec_bind (hd_init stk cmd s2) (\<lambda>(_, s3). Some (Inr s3))))"

definition start_kernel ::
    "u8 list \<Rightarrow> symbols \<Rightarrow> pci_dev \<Rightarrow> pci_dev \<Rightarrow> hd_command \<Rightarrow> 'a khd_scheme \<Rightarrow> 'a khd_scheme exec" where
  "start_kernel stk sy junk junk' cmd s =
     exec_bind (start_core stk sy s) (\<lambda>s1.
     exec_bind (start_devices stk junk junk' cmd s1) (\<lambda>s2.
     Some (Inr (switch_to_context s2))))"

section \<open>The memory\<close>

lemma page_array_size: "PAGE_SIZE * of_nat NR_PAGES = (0x20000 :: u32)"
  by (simp add: PAGE_SIZE_def NR_PAGES_def)

lemma mem_init_spec:
  assumes "2 ^ 20 + unat ext * 1024 + 1 < 2 ^ 32"
  shows "if unat ext < 128 then mem_init ext s = Some (Inl (Panic ''cannot alloc for kernel''))
    else \<exists>s'. mem_init ext s = Some (Inr s') \<and> heap (2 ^ 20) (2 ^ 20 + unat ext * 1024 + 1) s' {(2 ^ 20, 0x20000)}
      \<and> kmem_page s' = layout [Free 128] \<and> kmem_base s' = 2 ^ 20 \<and> kpages.more s' = kpages.more s \<and> ief s' = ief s"
proof -
  let ?t = "mem_init_holes ext s" and ?z = "push_bit 10 ext + 1"
  note r = mem_init_holes_rep [of ext s]
  have z: "unat ?z = unat ext * 1024 + 1"
  proof -
    have "unat (push_bit 10 ext) = unat ext * 1024" using assms by (simp add: push_bit_eq_mult unat_word_ariths)
    then show ?thesis using assms by (simp add: unat_word_ariths)
  qed
  have more: "kmem.more ?t = kmem.more s"
    by (simp add: mem_init_holes_def init_hole_slot_def alloc_hole_slot_def Let_def split: option.split)
  have lt: "0x20000 < ?z \<longleftrightarrow> 128 \<le> unat ext" using z by (simp add: word_less_nat_alt) linarith
  have ne: "?z \<noteq> 0x20000"
  proof
    assume "?z = 0x20000"
    then have "unat ext * 1024 + 1 = (131072 :: nat)" using z by simp
    then have "even (unat ext * 1024 + 1) = even (131072 :: nat)" by (rule arg_cong)
    then show False by simp
  qed
  note cmp = lt ne
  have o: "alloc_outcome (ief ?t) 0x20000 (?t\<lparr>ief := False\<rparr>) [] [0] [1..<NR_HOLE] (Kmem_alloc 0x20000 ?t)"
    using r by (intro Kmem_alloc_outcome) auto
  show ?thesis
  proof (cases "unat ext < 128")
    case True
    then have "first_fit b 0x20000 (blocks ?t [0]) = None" for b using r cmp by auto
    then have "\<exists>u. Kmem_alloc 0x20000 ?t = Some (0, u)" using o by (simp add: alloc_outcome_def)
    then show ?thesis using True by (auto simp: mem_init_def page_array_size)
  next
    case False
    then have "first_fit True 0x20000 (blocks ?t [0]) = Some (2 ^ 20, [(2 ^ 20, 0x20000, STAT_BUSY), (2 ^ 20 + 0x20000, ?z - 0x20000, STAT_FREE)])"
      using r cmp by auto
    moreover have "[1..<NR_HOLE] \<noteq> []" by (simp add: NR_HOLE_def)
    ultimately obtain u where u: "Kmem_alloc 0x20000 ?t = Some (2 ^ 20, u)" "ief u = ief s"
      using o r by (auto simp: alloc_outcome_def)
    have h: "heap (2 ^ 20) (2 ^ 20 + unat ext * 1024 + 1) u {(2 ^ 20, 0x20000)}"
      using heap_alloc [OF mem_init_holes_heap [OF assms, of s], of "0x20000"] u(1) by auto
    let ?s' = "kmem_page_init (u\<lparr>kmem_base := 2 ^ 20\<rparr>)"
    have "mem_init ext s = Some (Inr ?s')" using u(1) by (simp add: mem_init_def page_array_size)
    moreover have "heap (2 ^ 20) (2 ^ 20 + unat ext * 1024 + 1) ?s' {(2 ^ 20, 0x20000)}"
      using h by (subst heap_cong [of _ u]) (simp_all add: kmem_page_init_def)
    moreover have "kmem_page ?s' = layout [Free 128]"
      by (simp add: kmem_page_init_def NR_PAGES_def numeral_eq_Suc)
    moreover have "kpages.more ?s' = kpages.more s"
      using Kmem_alloc_more [OF u(1)] more by (cases u; cases s) (simp add: kmem_page_init_def)
    ultimately show ?thesis using False u(2) by (simp add: kmem_page_init_def) 
  qed
qed

section \<open>The messages\<close>

definition memory_text :: "u32 \<Rightarrow> u8 list" where
  "memory_text ext = bytes ''Extended Memory:'' @ dec_bytes ext @ bytes ''KB('' @ dec_bytes (ext div 1024) @ bytes ''MB)'' @ [10]"

definition kernel_text :: "u8 list" where
  "kernel_text = bytes ''KITOS 1.0 Written By Wei Shuai'' @ [10]"

definition processor_text :: "u8 list \<Rightarrow> u8 list \<Rightarrow> u8 list" where
  "processor_text vendor brand = bytes ''CPU '' @ vendor @ bytes '':'' @ brand @ [10]"

lemma memory_text_prints:
  "prints_as (bytes ''Extended Memory:%dKB(%dMB)'' @ [10]) [Va_word ext, Va_word (ext div 1024)] (memory_text ext)"
  using dec_bytes_length [of ext] dec_bytes_length [of "ext div 1024"] dec_bytes_nonzero
  by (auto simp: prints_as_def memory_text_def bytes_def item_def of_char_def STACK_SIZE_def)

lemma kernel_text_prints: "prints_as (bytes ''KITOS 1.0 Written By Wei Shuai'' @ [10]) [] kernel_text"
  by (simp add: prints_as_def kernel_text_def bytes_def of_char_def STACK_SIZE_def)

section \<open>What the parts leave alone\<close>

lemma pages_more_sel:
  fixes s s' :: "'a kcpu_scheme"
  assumes "kpages.more s' = kpages.more s"
  shows "ram s' = ram s" "cons s' = cons s" "irq_table s' = irq_table s" "cmos_in s' = cmos_in s" "cmos_n s' = cmos_n s"
    "cpuinfo s' = cpuinfo s" "cpuid_of s' = cpuid_of s"
  using assms by (cases s; cases s'; simp)+

text \<open>What stays as it is from the memory's initialisation to that of the clock.\<close>

definition memory_stays :: "'a kcpu_scheme \<Rightarrow> 'a kcpu_scheme \<Rightarrow> bool" where
  "memory_stays s s' \<longleftrightarrow> mem_hole s' = mem_hole s \<and> h_head s' = h_head s \<and> slot_free s' = slot_free s
     \<and> kmem_page s' = kmem_page s \<and> kmem_base s' = kmem_base s"

lemma memory_stays_trans: "memory_stays s t \<Longrightarrow> memory_stays t u \<Longrightarrow> memory_stays s u"
  by (simp add: memory_stays_def)

lemma memory_stays_heap: "memory_stays s s' \<Longrightarrow> heap lo hi s' L = heap lo hi s L"
  by (rule heap_cong) (simp_all add: memory_stays_def)

lemma on_screen_start:
  assumes "on_screen s s'"
  shows "memory_stays s s'" "irq_table s' = irq_table s" "cmos_in s' = cmos_in s" "cmos_n s' = cmos_n s" "cpuinfo s' = cpuinfo s"
    "cpuid_of s' = cpuid_of s" "ief s' = ief s" "pic1 s' = pic1 s" "pic2 s' = pic2 s"
  using assms by (auto simp: on_screen_def memory_stays_def)

lemma proc_frame_start:
  assumes "proc_frame s s'"
  shows "memory_stays s s'" "irq_table s' = irq_table s" "cmos_in s' = cmos_in s" "cmos_n s' = cmos_n s"
    "ief s' = ief s" "pic1 s' = pic1 s" "pic2 s' = pic2 s" "terminal_of s' = terminal_of s"
  using assms by (auto simp: proc_frame_def memory_stays_def terminal_of_def)

section \<open>The processor has a name\<close>

definition cpu_named :: "'a kcpu_scheme \<Rightarrow> u8 list \<Rightarrow> bool" where
  "cpu_named s vendor \<longleftrightarrow> 0x80000004 \<le> fst (cpuid_of s 0x80000000)
     \<and> length (ci_model_id (cpuinfo s)) = 50 \<and> length (ci_vendor_id (cpuinfo s)) = 16
     \<and> (\<exists>a b c d. cpuid_of s 0 = (a, b, c, d) \<and> vendor = takeWhile (\<lambda>c. c \<noteq> 0) (le_bytes b @ le_bytes c @ le_bytes d))"

lemma intel_init_named:
  assumes "cpu_named s vendor" "cons_ok s" "length stk = STACK_SIZE"
  shows "\<exists>s' c. intel_init stk s = Inr s' \<and> on_screen (s\<lparr>cpuinfo := c\<rparr>) s' \<and> cons_ok s'
    \<and> terminal_of s' = fold term_put (processor_text vendor (brand_text (cpuid_of s))) (terminal_of s)"
proof -
  obtain a b c d where n: "cpuid_of s 0 = (a, b, c, d)" "vendor = takeWhile (\<lambda>c. c \<noteq> 0) (le_bytes b @ le_bytes c @ le_bytes d)"
    using assms(1) by (auto simp: cpu_named_def)
  show ?thesis
    using intel_init_runs [OF _ _ _ n assms(2,3)] assms(1) unfolding cpu_named_def processor_text_def by blast
qed

section \<open>start_kernel\<close>

definition start_text :: "u32 \<Rightarrow> u8 list \<Rightarrow> u8 list \<Rightarrow> u8 list" where
  "start_text ext vendor brand = memory_text ext @ kernel_text @ processor_text vendor brand"

text \<open>What the memory, the controllers and the screen are like when the processes are made.\<close>

definition core_ready :: "u32 \<Rightarrow> 'a kcpu_scheme \<Rightarrow> bool" where
  "core_ready ext s \<longleftrightarrow> heap (2 ^ 20) (2 ^ 20 + unat ext * 1024 + 1) s {(2 ^ 20, 0x20000)}
     \<and> kmem_page s = layout [Free 128] \<and> kmem_base s = 2 ^ 20 \<and> pics_ready s \<and> \<not> ief s"

lemma core_ready_stays:
  assumes "core_ready ext s" "memory_stays s s'" "pic_expect (pic1 s') = pic_expect (pic1 s)" "pic2 s' = pic2 s" "ief s' = ief s"
  shows "core_ready ext s'"
  using assms memory_stays_heap [OF assms(2)] by (auto simp: core_ready_def memory_stays_def pics_ready_def)

lemma start_core_cpu:
  assumes "length stk = STACK_SIZE" "length (irq_table s) = 16" "ext = u32_at (ram s) 0x9000"
    and "2 ^ 20 + unat ext * 1024 + 1 < 2 ^ 32" "cpu_named s vendor"
  shows "if unat ext < 128 then start_core stk sy s = Some (Inl (Panic ''cannot alloc for kernel''))
    else \<exists>s'. start_core stk sy s = exec_bind (Some (proc_init sy s')) (\<lambda>s6. Some (clock_init s6))
      \<and> core_ready ext s' \<and> irq_table s' = replicate 16 Nothing_irq \<and> (\<forall>j < 16. masked s' j \<longleftrightarrow> j \<noteq> CASCADE_IRQ)
      \<and> cmos_in s' = cmos_in s \<and> cmos_n s' = cmos_n s
      \<and> terminal_of s' = fold term_put (start_text ext vendor (brand_text (cpuid_of s))) \<lparr>t_cells = screen (ram s), t_row = 0, t_col = 0\<rparr>"
proof -
  let ?s0 = "scr_init s"
  have s0: "cons_ok ?s0" "terminal_of ?s0 = \<lparr>t_cells = screen (ram s), t_row = 0, t_col = 0\<rparr>" "ram ?s0 = ram s" "irq_table ?s0 = irq_table s"
    "cpuinfo ?s0 = cpuinfo s" "cpuid_of ?s0 = cpuid_of s" "cmos_in ?s0 = cmos_in s" "cmos_n ?s0 = cmos_n s"
    by (simp_all add: scr_init_def cons_ok_def terminal_of_def screen_base_def)
  obtain s1 where s1: "mem_init_says stk ext ?s0 = Inr s1" "on_screen ?s0 s1" "cons_ok s1"
    "terminal_of s1 = fold term_put (memory_text ext) (terminal_of ?s0)"
    using printk_text [OF memory_text_prints [of ext] assms(1) s0(1)] by (auto simp: mem_init_says_def)
  note f1 = on_screen_start [OF s1(2)]
  have start: "start_core stk sy s = exec_bind (mem_init ext s1) (\<lambda>s2.
      exec_bind (Some (intr_init s2)) (\<lambda>s3.
      exec_bind (Some (printk stk (bytes ''KITOS 1.0 Written By Wei Shuai'' @ [10, 0]) [] s3)) (\<lambda>s4.
      exec_bind (Some (intel_init stk s4)) (\<lambda>s5.
      exec_bind (Some (proc_init sy s5)) (\<lambda>s6. Some (clock_init s6))))))"
    unfolding start_core_def Let_def s0(3) assms(3) [symmetric] s1(1) exec_bind_simps ..
  show ?thesis
  proof (cases "unat ext < 128")
    case True
    then show ?thesis using mem_init_spec [OF assms(4), of s1] unfolding start by simp
  next
    case False
    obtain s2 where s2: "mem_init ext s1 = Some (Inr s2)" "heap (2 ^ 20) (2 ^ 20 + unat ext * 1024 + 1) s2 {(2 ^ 20, 0x20000)}"
      "kmem_page s2 = layout [Free 128]" "kmem_base s2 = 2 ^ 20" "kpages.more s2 = kpages.more s1"
      using mem_init_spec [OF assms(4), of s1] False by auto
    note f2 = pages_more_sel [OF s2(5)]
    let ?s3 = "pics_set s2"
    have i: "intr_init s2 = Inr ?s3" using assms(2) f1(2) f2(3) s0(4) by (intro intr_init_runs) simp
    have s3: "core_ready ext ?s3" "terminal_of ?s3 = terminal_of s1" "cons_ok ?s3"
      using s2 s1(3) f2 heap_cong [of ?s3 s2] by (auto simp: core_ready_def pics_set_def terminal_of_def cons_ok_def pics_ready_def pic_ready_def)
    obtain s4 where s4: "printk stk (bytes ''KITOS 1.0 Written By Wei Shuai'' @ [10, 0]) [] ?s3 = Inr s4" "on_screen ?s3 s4" "cons_ok s4"
      "terminal_of s4 = fold term_put kernel_text (terminal_of ?s3)"
      using printk_text [OF kernel_text_prints assms(1) s3(3)] by auto
    note f4 = on_screen_start [OF s4(2)]
    have "cpu_named s4 vendor" using assms(5) f1 f2 f4 s0 by (simp add: cpu_named_def pics_set_def)
    from intel_init_named [OF this s4(3) assms(1)] obtain s5 c where s5: "intel_init stk s4 = Inr s5"
      "on_screen (s4\<lparr>cpuinfo := c\<rparr>) s5" "terminal_of s5 = fold term_put (processor_text vendor (brand_text (cpuid_of s4))) (terminal_of s4)"
      by blast
    note f5 = on_screen_start [OF s5(2)]
    have "start_core stk sy s = exec_bind (Some (proc_init sy s5)) (\<lambda>s6. Some (clock_init s6))"
      unfolding start s2(1) exec_bind_simps i s4(1) s5(1) ..
    moreover have "core_ready ext s5"
    proof -
      have "core_ready ext s4" using core_ready_stays [OF s3(1) f4(1)] f4(7-9) by simp
      moreover have "memory_stays s4 s5" using f5(1) by (simp add: memory_stays_def)
      ultimately show ?thesis using f5(7-9) by (intro core_ready_stays [of ext s4 s5]) simp_all
    qed
    moreover have "masked s5 j \<longleftrightarrow> j \<noteq> CASCADE_IRQ" if "j < 16" for j
      using pics_set_masks [OF that, of s2] f4(8,9) f5(8,9) by (simp add: masked_def split: if_splits)
    moreover have "irq_table s5 = replicate 16 Nothing_irq" using f5(2) f4(2) by (simp add: pics_set_def)
    moreover have "cmos_in s5 = cmos_in s" "cmos_n s5 = cmos_n s" "cpuid_of s4 = cpuid_of s"
      using f5 f4 f2 f1 s0 by (simp_all add: pics_set_def)
    ultimately show ?thesis using False s5(3) s4(4) s3(2) s1(4) s0(2)
      by (intro if_not_P [THEN iffD2] exI [of _ s5]) (simp_all add: start_text_def)
  qed
qed

lemma clock_set_start:
  assumes "pics_ready s" "irq_table s = replicate 16 Nothing_irq" "core_ready ext s"
  shows "core_ready ext (clock_set d s)" "irq_table (clock_set d s) = (replicate 16 Nothing_irq)[0 := Clock_handler]"
    "ready_rep (clock_set d s) L = ready_rep s L"
    "procs (clock_set d s) = procs s" "current (clock_set d s) = current s" "terminal_of (clock_set d s) = terminal_of s"
    "clocktime (clock_set d s) = time_of (map d [0..<7])" "clocktick (clock_set d s) = 0"
    "pit_divisor (timer_out (clock_set d s)) = Some (1193182 div 60)"
proof -
  obtain p t i n where c: "clock_set d s = s\<lparr>timer_out := t, clocktick := 0, cmos_index := i, cmos_n := n,
      clocktime := time_of (map d [0..<7]), irq_table := (irq_table s)[0 := Clock_handler], pic1 := p\<rparr>"
    "pit_divisor t = Some (1193182 div 60)"
    using clock_set_spec(1) [OF assms(1)] by blast
  show "core_ready ext (clock_set d s)"
    using assms(3) clock_set_spec(2) [OF assms(1), of d] heap_cong [of "clock_set d s" s] by (simp add: core_ready_def c(1))
  show "irq_table (clock_set d s) = (replicate 16 Nothing_irq)[0 := Clock_handler]" using assms(2) by (simp add: c(1))
  show "ready_rep (clock_set d s) L = ready_rep s L" by (rule ready_rep_cong) (simp_all add: c(1))
  show "procs (clock_set d s) = procs s" "current (clock_set d s) = current s" "terminal_of (clock_set d s) = terminal_of s"
    "clocktime (clock_set d s) = time_of (map d [0..<7])" "clocktick (clock_set d s) = 0"
    "pit_divisor (timer_out (clock_set d s)) = Some (1193182 div 60)"
    using c by (simp_all add: terminal_of_def)
qed

text \<open>
  Property C11: with at least 128 KB of extended memory, a processor that tells its name and a clock chip, the
  first half of \<open>start_kernel\<close> leaves the page array at 1 MB as the only block in use, every page free, the
  timer at 60 ticks a second with its handler and as the only line besides the cascade that is open, the time
  from the chip, the interrupts disabled, three lines of text, and processes 0 and 1; the switch at the end of
  \<open>start_kernel\<close> goes to \<open>ret_with_schedule\<close> on the stack of process 0, which runs process 1. With less memory it panics.
\<close>

theorem start_kernel_boots:
  assumes "length stk = STACK_SIZE" "length (irq_table s) = 16" "ext = u32_at (ram s) 0x9000"
    and "2 ^ 20 + unat ext * 1024 + 1 < 2 ^ 32" "cpu_named s vendor"
    and "\<And>k. k < 7 \<Longrightarrow> cmos_in s (cmos_n s + k) (rtc_order ! k) = bcd (d k) \<and> d k < 100"
  shows "if unat ext < 128 then start_core stk sy s = Some (Inl (Panic ''cannot alloc for kernel''))
    else \<exists>s'. start_core stk sy s = Some (Inr s') \<and> core_ready ext s'
      \<and> (\<forall>j < 16. masked s' j \<longleftrightarrow> j \<noteq> 0 \<and> j \<noteq> CASCADE_IRQ) \<and> irq_table s' = (replicate 16 Nothing_irq)[0 := Clock_handler]
      \<and> clocktime s' = time_of (map d [0..<7]) \<and> clocktick s' = 0 \<and> pit_divisor (timer_out s') = Some (1193182 div 60)
      \<and> terminal_of s' = fold term_put (start_text ext vendor (brand_text (cpuid_of s))) \<lparr>t_cells = screen (ram s), t_row = 0, t_col = 0\<rparr>
      \<and> ready_rep s' [1] \<and> current s' = IDLE_TASK \<and> get_free_proc_struct s' = Some 2
      \<and> k_eip (switch_to_context s') = sym_ret_with_schedule sy \<and> k_esp (switch_to_context s') = GET_PROC_KSTACK sy IDLE_TASK
      \<and> (\<exists>s''. ret_with_schedule sy (switch_to_context s') = Some (Inr s'') \<and> current s'' = 1)"
proof (cases "unat ext < 128")
  case True
  then show ?thesis using start_core_cpu [OF assms(1-5), of sy] by simp
next
  case False
  obtain s5 where s5: "start_core stk sy s = exec_bind (Some (proc_init sy s5)) (\<lambda>s6. Some (clock_init s6))"
    "core_ready ext s5" "irq_table s5 = replicate 16 Nothing_irq" "\<forall>j < 16. masked s5 j \<longleftrightarrow> j \<noteq> CASCADE_IRQ"
    "cmos_in s5 = cmos_in s" "cmos_n s5 = cmos_n s"
    "terminal_of s5 = fold term_put (start_text ext vendor (brand_text (cpuid_of s))) \<lparr>t_cells = screen (ram s), t_row = 0, t_col = 0\<rparr>"
    using start_core_cpu [OF assms(1-5), of sy] False by auto
  obtain s6 where s6: "proc_init sy s5 = Inr s6" "ready_rep s6 [1]" "current s6 = IDLE_TASK" "need_resched (procs s6 IDLE_TASK) = 1"
    "get_free_proc_struct s6 = Some 2" "proc_frame s5 s6" "starts sy s6 IDLE_TASK"
    using proc_init_spec [of sy s5] by blast
  note f6 = proc_frame_start [OF s6(6)]
  have c6: "core_ready ext s6" using s5(2) f6 by (intro core_ready_stays [of ext s5 s6]) simp_all
  then have p6: "pics_ready s6" by (simp add: core_ready_def)
  let ?s' = "clock_set d s6"
  note f7 = clock_set_start [OF p6 f6(2) [unfolded s5(3)] c6, of d]
  have "clock_init s6 = Inr ?s'" using clock_init_runs [of s6 d] assms(6) f6(2-4) s5(3,5,6) by simp
  then have run: "start_core stk sy s = Some (Inr ?s')" by (simp add: s5(1) s6(1))
  have "masked ?s' j \<longleftrightarrow> j \<noteq> 0 \<and> j \<noteq> CASCADE_IRQ" if "j < 16" for j
    using clock_set_spec(3) [OF p6 that, of d] s5(4) that f6(6,7) by (auto simp: masked_def)
  moreover have "ready_rep (lock (switch_to_context ?s')) [1]" "current (lock (switch_to_context ?s')) = IDLE_TASK"
    using s6(2,3) f7(3) [of "[1]"] f7(5) ready_rep_cong [of "lock (switch_to_context ?s')" ?s' "[1]"]
    by (simp_all add: switch_to_context_def lock_def Let_def)
  then have "\<exists>s''. ret_with_schedule sy (switch_to_context ?s') = Some (Inr s'') \<and> current s'' = 1"
    using first_schedule [of "lock (switch_to_context ?s')" sy] s6(4) f7(4)
    by (auto simp: ret_with_schedule_def switch_to_context_def lock_def Let_def)
  moreover have "get_free_proc_struct ?s' = Some 2" using s6(5) f7(4) by (simp add: get_free_proc_struct_def)
  moreover have "k_eip (switch_to_context ?s') = sym_ret_with_schedule sy" "k_esp (switch_to_context ?s') = GET_PROC_KSTACK sy IDLE_TASK"
    using s6(3,7) f7(4,5) by (simp_all add: switch_to_context_def starts_def Let_def)
  ultimately show ?thesis
    using False run f7 s6(2,3) f6(8) s5(7) by simp
qed

text \<open>A machine with 1024 KB of extended memory.\<close>

definition start_state :: kcpu where
  "start_state = p4_state\<lparr>ram := (\<lambda>_. 0)(0x9001 := 4)\<rparr>"

theorem start_kernel_boots_witness:
  "\<exists>s'. start_core (replicate 100 0) no_symbols start_state = Some (Inr s') \<and> kmem_page s' = layout [Free 128]
     \<and> clocktime s' = time_of [0, 0, 0, 0, 0, 0, 0] \<and> ready_rep s' [1] \<and> \<not> masked s' 0"
proof -
  have s: "irq_table start_state = irq_table irq_state" "cpuid_of start_state = p4" "length (ci_model_id (cpuinfo start_state)) = 50"
    "length (ci_vendor_id (cpuinfo start_state)) = 16" "cmos_in start_state = (\<lambda>_ _. 0)" "ram start_state = (\<lambda>_. 0)(0x9001 := 4)"
    by (simp_all add: start_state_def p4_state_def device_extend)
  have n: "cpu_named start_state (bytes ''GenuntelineI'')"
  proof -
    have "takeWhile (\<lambda>c. c \<noteq> 0) (le_bytes 0x756e6547 @ le_bytes 0x6c65746e @ le_bytes 0x49656e69) = bytes ''GenuntelineI''"
      "p4 0 = (2, 0x756e6547, 0x6c65746e, 0x49656e69)" "fst (p4 0x80000000) = 0x80000004" by code_simp+
    then show ?thesis using s by (auto simp: cpu_named_def)
  qed
  have e: "u32_at (ram start_state) 0x9000 = 1024" unfolding s(6) by code_simp
  have "length (irq_table start_state) = 16" unfolding s(1) by (simp add: irq_state_sel)
  moreover have "map (\<lambda>_. 0 :: nat) [0..<7] = [0, 0, 0, 0, 0, 0, 0]" by (simp add: upt_rec)
  moreover have "bcd 0 = 0" by code_simp
  ultimately show ?thesis
    using start_kernel_boots [of "replicate 100 0" start_state 1024 "bytes ''GenuntelineI''" "\<lambda>_. 0" no_symbols] n e s(5)
    by (auto simp: STACK_SIZE_def core_ready_def)
qed

end
