(* ===== verification/Image.thy ===== *)
theory Image
  imports Prelude
begin

text \<open>
  The disk image: \<^verbatim>\<open>tools/build.c\<close>, the program of the build that puts the boot sector, the setup code and the
  system one behind the other. The host is modelled as far as the program uses it: files that it can open, a
  standard output that takes a number of bytes and no more, and the formats and numbers sent to \<^verbatim>\<open>stderr\<close>.
\<close>

section \<open>The code\<close>

record host =
  h_files :: "string \<Rightarrow> u8 list option"
  h_room :: nat
  h_out :: "u8 list"
  h_err :: "(string \<times> nat list) list"

text \<open>\<^verbatim>\<open>write(1,buf,n)\<close>: the number of bytes that were taken, and what comes out.\<close>

definition write_out :: "u8 list \<Rightarrow> host \<Rightarrow> nat \<times> host" where
  "write_out bs s =
     (let n = min (length bs) (h_room s) in (n, s\<lparr>h_out := h_out s @ take n bs, h_room := h_room s - n\<rparr>))"

text \<open>Output on \<^verbatim>\<open>stderr\<close>; an exit is the left value of a result, with its code.\<close>

definition complain :: "string \<Rightarrow> nat list \<Rightarrow> host \<Rightarrow> host" where
  "complain fmt ns s = s\<lparr>h_err := h_err s @ [(fmt, ns)]\<rparr>"

definition die :: "string \<Rightarrow> host \<Rightarrow> (nat \<times> host) + 'b" where
  "die str s = Inl (1, complain str [] s)"

definition usage :: "host \<Rightarrow> (nat \<times> host) + 'b" where
  "usage s = die ''Usage: build boot system [> image]'' s"

definition quoted :: "string \<Rightarrow> string" where
  "quoted t = [CHR 0x27] @ t @ [CHR 0x27]"

text \<open>The loop that copies a file: \<open>rest\<close> is what has not been read yet, \<open>i\<close> what has been.\<close>

function copy_loop :: "u8 list \<Rightarrow> nat \<Rightarrow> host \<Rightarrow> (nat \<times> host) + nat \<times> host" where
  "copy_loop rest i s =
     (let buf = take 1024 rest; c = length buf in
      if 0 < c then
        let (n, s1) = write_out buf s in
        if n \<noteq> c then die ''Write call failed'' s1 else copy_loop (drop 1024 rest) (i + c) s1
      else Inr (i, s))"
  by pat_completeness auto
termination by (relation "measure (\<lambda>(rest, i, s). length rest)") auto

declare copy_loop.simps [simp del]

definition copy_file :: "string \<Rightarrow> string \<Rightarrow> string \<Rightarrow> host \<Rightarrow> (nat \<times> host) + host" where
  "copy_file name fail fmt s =
     (case h_files s name of
        None \<Rightarrow> die fail s
      | Some data \<Rightarrow>
          (case copy_loop data 0 s of
             Inl e \<Rightarrow> Inl e
           | Inr (i, s1) \<Rightarrow> Inr (complain fmt [i] s1)))"

definition boot_sector_out :: "string \<Rightarrow> host \<Rightarrow> (nat \<times> host) + host" where
  "boot_sector_out name s =
     (case h_files s name of
        None \<Rightarrow> die (''Unable to open '' @ quoted ''boot'') s
      | Some data \<Rightarrow>
          let zeros = replicate 1024 0;
              i = min 1024 (length data);
              buf = take i data @ drop i zeros;
              s1 = complain ''Boot sector %d bytes.'' [i] s;
              buf1 = buf[510 := 0x55];
              buf2 = buf1[511 := 0xAA];
              (n, s2) = write_out (take 512 buf2) s1
          in if n \<noteq> 512 then die ''Write call failed'' s2 else Inr s2)"

text \<open>\<open>argv\<close> without the name of the program, so that \<^verbatim>\<open>argc\<close> is one more.\<close>

definition build_main :: "string list \<Rightarrow> host \<Rightarrow> nat \<times> host" where
  "build_main argv s =
     (case (case argv of
        [boot, setup, system] \<Rightarrow>
          (case boot_sector_out boot s of
             Inl e \<Rightarrow> Inl e
           | Inr s1 \<Rightarrow>
               (case copy_file setup (''Unable to open '' @ quoted ''setup'') ''setup %d bytes.'' s1 of
                  Inl e \<Rightarrow> Inl e
                | Inr s2 \<Rightarrow> copy_file system (''Unable to open '' @ quoted ''system'') ''system %d bytes.'' s2))
      | _ \<Rightarrow> usage s) of
      Inl e \<Rightarrow> e
    | Inr s3 \<Rightarrow> (0, s3))"

section \<open>What comes out\<close>

lemma write_out_all: "length c \<le> h_room s \<Longrightarrow>
    write_out c s = (length c, s\<lparr>h_out := h_out s @ c, h_room := h_room s - length c\<rparr>)"
  by (simp add: write_out_def Let_def min_absorb1)

lemma write_out_some: "h_room s < length c \<Longrightarrow>
    write_out c s = (h_room s, s\<lparr>h_out := h_out s @ take (h_room s) c, h_room := 0\<rparr>)"
  by (simp add: write_out_def Let_def)

lemma take_beyond: "length c \<le> n \<Longrightarrow> take n (c @ d) = c @ take (n - length c) d"
  by simp

lemma copy_loop_copies:
  "copy_loop rest i s =
     (if length rest \<le> h_room s
      then Inr (i + length rest, s\<lparr>h_out := h_out s @ rest, h_room := h_room s - length rest\<rparr>)
      else die ''Write call failed'' (s\<lparr>h_out := h_out s @ take (h_room s) rest, h_room := 0\<rparr>))"
proof (induction rest i s rule: copy_loop.induct)
  case (1 rest i s)
  let ?c = "take 1024 rest" and ?d = "drop 1024 rest"
  have cd: "?c @ ?d = rest" "length ?c + length ?d = length rest" by simp_all
  show ?case
  proof (cases "rest = []")
    case True
    then show ?thesis by (simp add: copy_loop.simps [of "[]"])
  next
    case False
    then have ne: "0 < length ?c" by simp
    show ?thesis
    proof (cases "length ?c \<le> h_room s")
      case True
      let ?s = "s\<lparr>h_out := h_out s @ ?c, h_room := h_room s - length ?c\<rparr>"
      have w: "write_out ?c s = (length ?c, ?s)" using write_out_all [OF True] .
      have "copy_loop rest i s = copy_loop ?d (i + length ?c) ?s"
        using ne w by (subst copy_loop.simps) (simp add: Let_def)
      also have "\<dots> = (if length ?d \<le> h_room ?s
          then Inr (i + length ?c + length ?d, ?s\<lparr>h_out := h_out ?s @ ?d, h_room := h_room ?s - length ?d\<rparr>)
          else die ''Write call failed'' (?s\<lparr>h_out := h_out ?s @ take (h_room ?s) ?d, h_room := 0\<rparr>))"
        using "1" [OF refl refl ne w [symmetric] refl] by simp
      also have "length ?d \<le> h_room ?s \<longleftrightarrow> length rest \<le> h_room s" using True cd(2) by simp linarith
      also have "take (h_room s) rest = ?c @ take (h_room s - length ?c) ?d"
        using take_beyond [OF True, of ?d] unfolding cd(1) .
      ultimately show ?thesis using cd by (simp add: add.assoc)
    next
      case no: False
      then have l: "h_room s < length rest" "take (h_room s) ?c = take (h_room s) rest" by (simp_all add: min_def split: if_splits)
      have "write_out ?c s = (h_room s, s\<lparr>h_out := h_out s @ take (h_room s) rest, h_room := 0\<rparr>)"
        using write_out_some [of s ?c] no unfolding l(2) by linarith
      then show ?thesis using ne no l(1) by (subst copy_loop.simps) (simp add: Let_def)
    qed
  qed
qed

text \<open>The first sector of the image.\<close>

definition boot_image :: "u8 list \<Rightarrow> u8 list" where
  "boot_image boot = take 510 (boot @ replicate 510 0) @ [0x55, 0xAA]"

lemma length_boot_image [simp]: "length (boot_image boot) = 512"
  by (simp add: boot_image_def)

lemma boot_image_buffer:
  assumes "i = min 1024 (length boot)"
  shows "take 512 ((take i boot @ drop i (replicate 1024 0))[510 := 0x55, 511 := 0xAA]) = boot_image boot" (is "?l = _")
proof (rule nth_equalityI)
  show "length ?l = length (boot_image boot)" using assms by simp
  fix j
  assume "j < length ?l"
  then have "j < 512" by simp
  then consider "j < 510" | "j = 510" | "j = 511" by linarith
  then show "?l ! j = boot_image boot ! j"
    using assms by cases (auto simp: boot_image_def nth_append nth_list_update)
qed

lemma boot_sector_out_writes:
  assumes "h_files s b = Some boot"
  shows "boot_sector_out b s =
    (let s1 = complain ''Boot sector %d bytes.'' [min 1024 (length boot)] s in
     if 512 \<le> h_room s then Inr (s1\<lparr>h_out := h_out s @ boot_image boot, h_room := h_room s - 512\<rparr>)
     else die ''Write call failed'' (s1\<lparr>h_out := h_out s @ take (h_room s) (boot_image boot), h_room := 0\<rparr>))"
  unfolding boot_sector_out_def Let_def boot_image_buffer [OF refl]
  using assms by (simp add: write_out_all write_out_some complain_def)

lemma copy_file_writes:
  assumes "h_files s f = Some data"
  shows "copy_file f fail fmt s =
    (if length data \<le> h_room s
     then Inr (complain fmt [length data] (s\<lparr>h_out := h_out s @ data, h_room := h_room s - length data\<rparr>))
     else die ''Write call failed'' (s\<lparr>h_out := h_out s @ take (h_room s) data, h_room := 0\<rparr>))"
  using assms by (simp add: copy_file_def copy_loop_copies die_def)

text \<open>
  Property C20: with three readable files and room for the output the program exits with 0, and its output is
  the first 510 bytes of the boot file, filled up with zeros, the signature 55 AA, and the two other files as
  they are. What the boot file has beyond 510 bytes is lost without a complaint. With too little room, it
  exits with 1 after the bytes that were taken.
\<close>

theorem build_makes_image:
  assumes "h_files s b = Some boot" "h_files s p = Some setup" "h_files s k = Some system" "h_out s = []"
    and "img = take 510 (boot @ replicate 510 0) @ [0x55, 0xAA] @ setup @ system"
  shows "\<exists>s'. build_main [b, p, k] s = (if length img \<le> h_room s then 0 else 1, s')
    \<and> h_out s' = take (h_room s) img
    \<and> (length img \<le> h_room s \<longrightarrow> h_err s' = h_err s @ [(''Boot sector %d bytes.'', [min 1024 (length boot)]),
         (''setup %d bytes.'', [length setup]), (''system %d bytes.'', [length system])])"
proof -
  have img: "img = boot_image boot @ setup @ system" by (simp add: assms(5) boot_image_def)
  show ?thesis
    using assms(1-4) unfolding img build_main_def
    by (simp add: boot_sector_out_writes copy_file_writes Let_def complain_def die_def split: if_splits) auto
qed

theorem build_makes_image_witness:
  "\<exists>s'. build_main [''boot'', ''setup'', ''system'']
       \<lparr>h_files = (\<lambda>f. if f = ''boot'' then Some [1, 2] else Some [3]), h_room = 600, h_out = [], h_err = []\<rparr> = (0, s')
     \<and> length (h_out s') = 514 \<and> drop 510 (h_out s') = [0x55, 0xAA, 3, 3]"
  using build_makes_image [of "\<lparr>h_files = (\<lambda>f. if f = ''boot'' then Some [1, 2] else Some [3]), h_room = 600, h_out = [], h_err = []\<rparr>"
    "''boot''" "[1, 2]" "''setup''" "[3]" "''system''" "[3]", OF _ _ _ _ refl] by auto

end
