(* ===== verification/Spec2Isabelle.thy ===== *)
theory Spec2Isabelle
  imports Memory_Props Pages_Props Sched_Props Fork_Props Boot Irq Kb_Props Console Clock Pci_Props Cpuid_Props Hd_Props
    Fs_Open Read_Props Dir_Props Fs_Types Trap Kernel_Props User_Props Start Image
begin

text \<open>
  A verification of KITOS, a small multitasking kernel for the IA32 processor, with its two built-in programs
  and the program that builds its disk image.

  \<^bold>\<open>The program.\<close> \<^verbatim>\<open>init/main.c\<close> starts the parts one after the other and switches to the first process. From
  then on the kernel runs when something happens: an interrupt enters through \<^verbatim>\<open>save\<close> of \<^verbatim>\<open>ker/sys.S\<close>, which calls
  \<^verbatim>\<open>do_IRQ\<close> of \<^verbatim>\<open>ker/irq.c\<close> and that the handler of a driver (\<^verbatim>\<open>ker/clock.c\<close>, \<^verbatim>\<open>ker/kb.c\<close>, \<^verbatim>\<open>ker/hd.c\<close>); a system call
  enters through \<^verbatim>\<open>system_call\<close> and calls a function of a table; an exception goes to \<^verbatim>\<open>ker/trap.c\<close>. The first two
  leave through \<^verbatim>\<open>ret_with_schedule\<close>, which runs \<^verbatim>\<open>ker/schedule.c\<close> when the process has used up its time. The file
  system (\<^verbatim>\<open>fs/\<close>) reads FAT disks through the disk driver; fork and exit (\<^verbatim>\<open>ker/fork.c\<close>, \<^verbatim>\<open>ker/exit.c\<close>) take the memory
  of processes from \<^verbatim>\<open>ker/mem.c\<close>; everything reports through \<^verbatim>\<open>printk\<close> (\<^verbatim>\<open>ker/console.c\<close>, \<^verbatim>\<open>ker/vsprintf.c\<close>).

  \<^bold>\<open>The model.\<close> The state is a record that grows with the theories: \<open>cpu\<close> (the interrupt flag), \<open>kmem\<close> (the holes),
  \<open>kpages\<close> (the page array), \<open>kstate\<close> (processes, descriptor tables, wait queues, the bytes of the memory),
  \<open>kcons\<close> (the screen), \<open>kirq\<close> (the interrupt controllers), \<open>kkb\<close> (the keyboard), \<open>kclk\<close> (the clock), \<open>kpci\<close>, \<open>kcpu\<close>,
  \<open>khd\<close> (the disk) and \<open>kfs\<close> (open files and inodes). An operation takes a state to \<open>res\<close>, a sum of a fault and a
  result, or to \<open>exec\<close>, an option of that, in which None stands for a loop that does not end. The faults are those
  of C: an access out of an array, a null pointer, a division by zero, a wrong variable argument; and \<open>Panic\<close>.
  Words have their widths; records are indices into their tables; a list through records is followed by its links.
  What the operations assume of one another is stated in locales, each with an interpretation on the model.
  A device is modelled by what it answers to the n-th read (an argument) and what has been written to it.

  \<^bold>\<open>The theories, in the order of their imports.\<close>
  \<^item> Prelude: words, faults, checked array access, chains of records. Sysops: \<^verbatim>\<open>include/system.h\<close>, \<^verbatim>\<open>include/string.h\<close>.
    Copies: what the block copies do to the memory. Vsprintf: \<^verbatim>\<open>ker/vsprintf.c\<close>, with its specification \<open>render\<close>.
  \<^item> Slot: the pools of \<^verbatim>\<open>include/slot.h\<close>, with the contract \<open>slot_pool\<close>. Holes: \<open>Kmem_alloc\<close>, \<open>Kmem_free\<close>. Blocks:
    the list of blocks that the holes stand for. Holes_Refine: the simulation between both. Heap_Contract: the
    contract \<open>memory_manager\<close>. Memory_Props: its consequences, and the invariant of all runs.
  \<^item> Pages, Pages_Props: \<open>kmalloc\<close> and \<open>kfree\<close> on the runs of pages, with the cases where they fail.
  \<^item> Protect: descriptors and gates of \<^verbatim>\<open>ker/protect.c\<close>. List_Head: \<^verbatim>\<open>include/list.h\<close>. Kernel_State: the data of
    \<^verbatim>\<open>include/proc.h\<close> and \<^verbatim>\<open>include/fs.h\<close>. Proc: \<^verbatim>\<open>ker/proc.c\<close>. Sched: \<^verbatim>\<open>ker/schedule.c\<close>, the wait queues and the path of the
    timer. Ready_Queue: the contract \<open>run_queue\<close>. Sched_Refine, Sched_Props: the policy of the scheduler, and that
    every ready process runs. Fork, Fork_Props: \<^verbatim>\<open>ker/fork.c\<close>, \<^verbatim>\<open>ker/exit.c\<close>. Boot: \<open>prot_init\<close>, \<open>proc_init\<close>.
  \<^item> Console: \<^verbatim>\<open>ker/console.c\<close> as a terminal of 25 lines. Irq: \<^verbatim>\<open>ker/irq.c\<close>. Kb, Kb_Props: \<^verbatim>\<open>ker/kb.c\<close> with the contract
    \<open>bounded_fifo\<close> of its ring. Clock: \<^verbatim>\<open>ker/clock.c\<close>. Tty: \<open>tty_write\<close> and \<open>mem_show\<close>. Trap: \<^verbatim>\<open>ker/trap.c\<close> with its stubs.
    Pci, Pci_Props: \<^verbatim>\<open>ker/pci.c\<close>. Cpuid, Cpuid_Props: \<^verbatim>\<open>ker/cpu.c\<close>. Hd, Hd_Props: \<^verbatim>\<open>ker/hd.c\<close> as a queue of requests.
  \<^item> Fs: blocks, open files, inodes and the FAT (\<^verbatim>\<open>fs/block.c\<close>, \<^verbatim>\<open>fs/filedes.c\<close>, \<^verbatim>\<open>fs/inode.c\<close>, \<^verbatim>\<open>fs/read.c\<close>). Fs_Block,
    Fat_Props, Read_Props: the chain of a file and its bytes. Fs_Mount: \<^verbatim>\<open>ker/partition.c\<close>, \<^verbatim>\<open>fs/super.c\<close>. Fs_Open,
    Dir_Props: \<^verbatim>\<open>fs/open.c\<close>. Open_Props: opening a file by its name. Mount_Props: from the start of the file system to
    the bytes of a file. Fs_Types: what a descriptor stands for in every state that the processes reach.
  \<^item> Kernel, Kernel_Props: the ways into the kernel, \<^verbatim>\<open>ker/sys.S\<close>. User, User_Props: the library \<^verbatim>\<open>lib/lib.c\<close> and the programs
    in \<^verbatim>\<open>ker/proc.c\<close>, up to the text of a file on the screen. Start: \<^verbatim>\<open>init/main.c\<close>. Image: \<^verbatim>\<open>tools/build.c\<close>.

  \<^bold>\<open>Loops and bounds.\<close> A loop over a bounded range is a recursion on its counter. One that may run forever is a
  \<^theory_text>\<open>partial_function (option)\<close>, and a property of it says that it returns. The loops that wait for a device return when the device
  gives the answer; the hypotheses say when. Tables have the sizes of the source: 30 hole records, 128 pages of the kernel,
  10 processes, 5 disk requests, 32 scan codes, 100 bytes for a formatted text, 10 clusters for a file.

  \<^bold>\<open>What is assumed.\<close> The bytes of a variable of C that has not been written are arguments (\<open>stk\<close>, \<open>junk\<close>). A function
  that sleeps is split where the processor goes to another process; for the file system, the block that \<open>bread\<close>
  returns after the sleep is an argument, with the hypothesis that it holds the bytes of the disk. The addresses of the
  linker are in the record \<open>symbols\<close>, and the addresses of the variables of a program in \<open>ulayout\<close>.

  \<^bold>\<open>Not modelled.\<close> The code before the kernel (\<^verbatim>\<open>boot/\<close>, \<^verbatim>\<open>head/\<close>: real mode, BIOS); the saving and restoring of
  registers, which is the processor's part of an entry; headers of declarations only (\<^verbatim>\<open>include/proto.h\<close> and others) and those
  of other projects (\<^verbatim>\<open>include/elf.h\<close>, \<^verbatim>\<open>include/stdarg.h\<close>); \<^verbatim>\<open>tools/sample/\<close> and the scripts in \<^verbatim>\<open>sh/\<close>.
\<close>

end
